(* ===== verification/Prelude.thy ===== *)
theory Prelude
  imports Main "HOL-Library.Word" "HOL-Library.List_Lexorder"
begin

text \<open>
  Shared vocabulary of the development: the machine integer types of the Rust sources, Rust's
  saturating and checked arithmetic, the \<open>Result\<close> type with its \<open>?\<close> operator, and
  fixed-width integer codecs (\<open>to_le_bytes\<close>, \<open>to_be_bytes\<close> and their inverses) with the
  locales that state what a client of a codec may rely on.
\<close>

section \<open>Machine integers and bytes\<close>

type_synonym u8 = "8 word"
type_synonym u32 = "32 word"
type_synonym u64 = "64 word"
type_synonym bytes = "u8 list"

text \<open>Facts that unfold one layer of the \<open>?\<close> operator or of a guard.\<close>

named_theorems result_simps

text \<open>Facts about fixed-width codecs: lengths, round trips and comparison.\<close>

named_theorems codec_simps

abbreviation u64_max :: u64 where
  "u64_max \<equiv> - 1"

abbreviation u32_max :: u32 where
  "u32_max \<equiv> - 1"

text \<open>\<open>u64::saturating_add\<close>, \<open>saturating_sub\<close>, \<open>checked_add\<close>, \<open>checked_sub\<close> and
  \<open>div_ceil\<close>, for every width.\<close>

definition saturating_add :: "'a::len word \<Rightarrow> 'a word \<Rightarrow> 'a word" where
  "saturating_add a b = (if unat a + unat b < 2 ^ LENGTH('a) then a + b else - 1)"

definition saturating_sub :: "'a::len word \<Rightarrow> 'a word \<Rightarrow> 'a word" where
  "saturating_sub a b = (if b \<le> a then a - b else 0)"

definition checked_add :: "'a::len word \<Rightarrow> 'a word \<Rightarrow> 'a word option" where
  "checked_add a b = (if unat a + unat b < 2 ^ LENGTH('a) then Some (a + b) else None)"

definition checked_sub :: "'a::len word \<Rightarrow> 'a word \<Rightarrow> 'a word option" where
  "checked_sub a b = (if b \<le> a then Some (a - b) else None)"

definition div_ceil :: "'a::len word \<Rightarrow> 'a word \<Rightarrow> 'a word" where
  "div_ceil a b = (let q = a div b; r = a mod b in if r > 0 then q + 1 else q)"

lemma unat_u64_max [simp]: "unat u64_max = 2 ^ 64 - 1"
  by (simp add: unsigned_minus_1_eq_mask mask_eq_exp_minus_1)

lemma unat_u32_max [simp]: "unat u32_max = 2 ^ 32 - 1"
  by (simp add: unsigned_minus_1_eq_mask mask_eq_exp_minus_1)

lemma unat_u64_less [simp]: "unat (w :: u64) < 18446744073709551616"
  using unsigned_less [of w] by simp

lemma unat_u32_less [simp]: "unat (w :: u32) < 4294967296"
  using unsigned_less [of w] by simp

lemma unat_u8_less [simp]: "unat (w :: u8) < 256"
  using unsigned_less [of w] by simp

lemma unat_saturating_add:
  "unat (saturating_add a b) = min (unat a + unat b) (2 ^ LENGTH('a) - 1)"
  for a b :: "'a::len word"
  by (simp add: saturating_add_def unat_word_ariths unsigned_minus_1_eq_mask mask_eq_exp_minus_1)

lemma unat_saturating_sub: "unat (saturating_sub a b) = unat a - unat b"
  for a b :: "'a::len word"
  by (simp add: saturating_sub_def unat_sub word_le_nat_alt)

lemma checked_add_Some:
  "checked_add a b = Some c \<longleftrightarrow> unat a + unat b < 2 ^ LENGTH('a) \<and> c = a + b"
  for a b :: "'a::len word"
  by (auto simp: checked_add_def)

lemma checked_add_None:
  "checked_add a b = None \<longleftrightarrow> 2 ^ LENGTH('a) \<le> unat a + unat b"
  for a b :: "'a::len word"
  by (auto simp: checked_add_def)

lemma unat_checked_add: "checked_add a b = Some c \<Longrightarrow> unat c = unat a + unat b"
  for a b :: "'a::len word"
  by (auto simp: checked_add_Some unat_word_ariths)

lemma unat_checked_sub: "checked_sub a b = Some c \<Longrightarrow> unat b \<le> unat a \<and> unat c = unat a - unat b"
  for a b :: "'a::len word"
  by (auto simp: checked_sub_def unat_sub word_le_nat_alt split: if_splits)

lemma unat_u64_of_nat: "n < 2 ^ 64 \<Longrightarrow> unat (word_of_nat n :: u64) = n"
  by (simp add: unat_of_nat)

lemma unat_u32_of_nat: "n < 2 ^ 32 \<Longrightarrow> unat (word_of_nat n :: u32) = n"
  by (simp add: unat_of_nat)

lemma checked_add_of_nat:
  "a + b < 2 ^ 64 \<Longrightarrow> checked_add (word_of_nat a :: u64) (word_of_nat b) = Some (word_of_nat (a + b))"
  by (simp add: checked_add_def unat_u64_of_nat)

lemma unat_ucast_u32 [simp]: "unat (ucast (w :: u32) :: u64) = unat w"
proof -
  have "unat w < 2 ^ 64"
    using unat_u32_less [of w] by (simp del: unat_u32_less)
  then show ?thesis
    by (simp add: unsigned_ucast_eq take_bit_nat_eq_self)
qed

text \<open>Adding one to a counter that has not reached its maximum does not wrap.\<close>

lemma unat_eq_one: "unat w = Suc 0 \<longleftrightarrow> w = 1"
  for w :: "'a::len word"
  using word_unat_eq_iff [of w 1] by simp

lemma unat_Suc_word: "w \<noteq> - 1 \<Longrightarrow> unat (w + 1) = Suc (unat w)"
  for w :: "'a::len word"
proof -
  assume "w \<noteq> - 1"
  then have "1 + w \<noteq> 0"
    by (metis add.commute add_eq_0_iff)
  then show ?thesis
    by (simp add: unatSuc add.commute)
qed

lemma word_less_Suc: "w \<noteq> - 1 \<Longrightarrow> w < w + 1"
  for w :: "'a::len word"
  by (simp add: word_less_nat_alt unat_Suc_word)

lemma word_less_Suc_iff: "w \<noteq> - 1 \<Longrightarrow> v < w + 1 \<longleftrightarrow> v \<le> w"
  for v w :: "'a::len word"
  by (simp add: word_less_nat_alt word_le_nat_alt unat_Suc_word less_Suc_eq_le)

section \<open>Result: errors as values\<close>

text \<open>
  A fallible function returns \<open>'e + 'a\<close>, with \<open>Inl\<close> for \<open>Err\<close> and \<open>Inr\<close> for
  \<open>Ok\<close>. \<open>try_bind\<close> is the \<open>?\<close> operator followed by the rest of the body.
\<close>

definition try_bind :: "'e + 'a \<Rightarrow> ('a \<Rightarrow> 'e + 'b) \<Rightarrow> 'e + 'b" where
  "try_bind r k = (case r of Inl e \<Rightarrow> Inl e | Inr x \<Rightarrow> k x)"

definition check :: "bool \<Rightarrow> 'e \<Rightarrow> 'e + unit" where
  "check ok e = (if ok then Inr () else Inl e)"

definition ok_or :: "'e \<Rightarrow> 'a option \<Rightarrow> 'e + 'a" where
  "ok_or e x = (case x of None \<Rightarrow> Inl e | Some v \<Rightarrow> Inr v)"

lemma try_bind_simps [simp, result_simps]:
  "try_bind (Inl e) k = Inl e"
  "try_bind (Inr x) k = k x"
  by (simp_all add: try_bind_def)

lemma try_bind_Inr [result_simps]: "try_bind r k = Inr y \<longleftrightarrow> (\<exists>x. r = Inr x \<and> k x = Inr y)"
  by (cases r) simp_all

lemma try_bind_Inl: "try_bind r k = Inl e \<longleftrightarrow> r = Inl e \<or> (\<exists>x. r = Inr x \<and> k x = Inl e)"
  by (cases r) simp_all

lemma check_simps [simp, result_simps]:
  "check True e = Inr ()"
  "check False e = Inl e"
  "check b e = Inr u \<longleftrightarrow> b"
  "check b e = Inl e' \<longleftrightarrow> \<not> b \<and> e' = e"
  by (auto simp: check_def)

lemma ok_or_simps [simp, result_simps]:
  "ok_or e None = Inl e"
  "ok_or e (Some v) = Inr v"
  "ok_or e x = Inr w \<longleftrightarrow> x = Some w"
  "ok_or e x = Inl e' \<longleftrightarrow> x = None \<and> e' = e"
  by (auto simp: ok_or_def split: option.splits)

text \<open>\<open>iter().map(f).collect::<Result<Vec<_>, _>>()\<close>: the first error in order, or every
  result.\<close>

primrec try_map :: "('a \<Rightarrow> 'e + 'b) \<Rightarrow> 'a list \<Rightarrow> 'e + 'b list" where
  "try_map f [] = Inr []"
| "try_map f (x # xs) = try_bind (f x) (\<lambda>y. try_bind (try_map f xs) (\<lambda>ys. Inr (y # ys)))"

lemma try_map_Inr: "try_map f xs = Inr ys \<longleftrightarrow> list_all2 (\<lambda>x y. f x = Inr y) xs ys"
  by (induction xs arbitrary: ys) (auto simp: try_bind_Inr list_all2_Cons1)

lemma try_map_all: "(\<And>x. x \<in> set xs \<Longrightarrow> f x = Inr (g x)) \<Longrightarrow> try_map f xs = Inr (map g xs)"
  by (induction xs) simp_all

text \<open>\<open>usize::checked_add\<close> and \<open>checked_mul\<close>, with \<open>usize\<close> as a natural number below
  \<open>2 ^ 64\<close>.\<close>

definition usize_checked_add :: "nat \<Rightarrow> nat \<Rightarrow> nat option" where
  "usize_checked_add a b = (if a + b < 2 ^ 64 then Some (a + b) else None)"

definition usize_checked_mul :: "nat \<Rightarrow> nat \<Rightarrow> nat option" where
  "usize_checked_mul a b = (if a * b < 2 ^ 64 then Some (a * b) else None)"

section \<open>Fixed-width integers as bytes\<close>

primrec le_bytes :: "nat \<Rightarrow> nat \<Rightarrow> bytes" where
  "le_bytes 0 n = []"
| "le_bytes (Suc k) n = word_of_nat (n mod 256) # le_bytes k (n div 256)"

primrec le_nat :: "bytes \<Rightarrow> nat" where
  "le_nat [] = 0"
| "le_nat (b # bs) = unat b + 256 * le_nat bs"

lemma length_le_bytes [simp]: "length (le_bytes k n) = k"
  by (induction k arbitrary: n) simp_all

lemma unat_byte_of_nat [simp]: "unat (word_of_nat (n mod 256) :: u8) = n mod 256"
  by (simp add: unat_of_nat)

lemma le_nat_le_bytes: "le_nat (le_bytes k n) = n mod 256 ^ k"
  by (induction k arbitrary: n) (simp_all add: mod_mult2_eq add.commute mult.commute)

lemma le_nat_less: "le_nat bs < 256 ^ length bs"
proof (induction bs)
  case (Cons b bs)
  then have "le_nat bs + 1 \<le> 256 ^ length bs"
    by simp
  then have "256 * (le_nat bs + 1) \<le> 256 * 256 ^ length bs"
    by (rule mult_le_mono2)
  then show ?case
    using unat_u8_less [of b] by (simp del: unat_u8_less)
qed simp

lemma le_bytes_le_nat: "le_bytes (length bs) (le_nat bs) = bs"
  by (induction bs) (simp_all add: word_unat_eq_iff unat_of_nat)

lemma snoc_less_snoc:
  fixes xs ys :: "'a::linorder list"
  shows "length xs = length ys \<Longrightarrow> xs @ [a] < ys @ [b] \<longleftrightarrow> xs < ys \<or> xs = ys \<and> a < b"
  by (induction xs ys rule: list_induct2) auto

lemma rev_le_bytes_less:
  "m < 256 ^ k \<Longrightarrow> n < 256 ^ k \<Longrightarrow> rev (le_bytes k m) < rev (le_bytes k n) \<longleftrightarrow> m < n"
proof (induction k arbitrary: m n)
  case (Suc k)
  have "rev (le_bytes k (m div 256)) < rev (le_bytes k (n div 256)) \<longleftrightarrow> m div 256 < n div 256"
    using Suc by (simp add: less_mult_imp_div_less mult.commute)
  moreover have "le_bytes k (m div 256) = le_bytes k (n div 256) \<longleftrightarrow> m div 256 = n div 256"
  proof
    assume "le_bytes k (m div 256) = le_bytes k (n div 256)"
    then have "le_nat (le_bytes k (m div 256)) = le_nat (le_bytes k (n div 256))"
      by (rule arg_cong)
    then show "m div 256 = n div 256"
      using Suc.prems by (simp add: le_nat_le_bytes less_mult_imp_div_less mult.commute)
  qed simp
  moreover have "m < n \<longleftrightarrow> m div 256 < n div 256 \<or> m div 256 = n div 256 \<and> m mod 256 < n mod 256"
    using div_mult_mod_eq [of m 256] div_mult_mod_eq [of n 256] by linarith
  ultimately show ?case
    by (simp add: snoc_less_snoc word_less_nat_alt)
qed simp

text \<open>\<open>to_le_bytes\<close>, \<open>to_be_bytes\<close>, and reading an array of exactly that many bytes back.\<close>

definition to_le_bytes :: "'a::len word \<Rightarrow> bytes" where
  "to_le_bytes w = le_bytes (LENGTH('a) div 8) (unat w)"

definition from_le_bytes :: "bytes \<Rightarrow> 'a::len word option" where
  "from_le_bytes bs =
     (if length bs = LENGTH('a) div 8 then Some (word_of_nat (le_nat bs)) else None)"

definition to_be_bytes :: "'a::len word \<Rightarrow> bytes" where
  "to_be_bytes w = rev (to_le_bytes w)"

definition from_be_bytes :: "bytes \<Rightarrow> 'a::len word option" where
  "from_be_bytes bs = from_le_bytes (rev bs)"

section \<open>What a client of a fixed-width codec relies on\<close>

locale byte_codec =
  fixes enc :: "'a \<Rightarrow> bytes"
    and dec :: "bytes \<Rightarrow> 'a option"
    and width :: nat
  assumes dec_enc: "dec (enc x) = Some x"
    and enc_len: "length (enc x) = width"
    and dec_total: "length bs = width \<Longrightarrow> \<exists>x. bs = enc x"
    and dec_short: "length bs \<noteq> width \<Longrightarrow> dec bs = None"
begin

lemma dec_Some_iff: "dec bs = Some x \<longleftrightarrow> bs = enc x"
  by (metis dec_enc dec_short dec_total option.distinct(1) option.inject)

lemma dec_None_iff: "dec bs = None \<longleftrightarrow> length bs \<noteq> width"
  by (metis dec_enc dec_short dec_total option.distinct(1))

lemma enc_inject: "enc x = enc y \<longleftrightarrow> x = y"
  by (metis dec_enc option.inject)

lemma enc_append_inject: "enc x @ r = enc y @ s \<longleftrightarrow> x = y \<and> r = s"
  by (auto simp: enc_len enc_inject)

lemma take_enc: "take width (enc x @ r) = enc x"
  by (simp add: enc_len)

lemma drop_enc: "drop width (enc x @ r) = r"
  by (simp add: enc_len)

lemma dec_take_enc: "dec (take width (enc x @ r)) = Some x"
  by (simp add: take_enc dec_enc del: take_append)

end

text \<open>Big-endian keys additionally sort by their value, which every range scan relies on.\<close>

locale ordered_codec = byte_codec enc dec width
  for enc :: "'a::linorder \<Rightarrow> bytes" and dec width +
  assumes enc_less: "enc x < enc y \<longleftrightarrow> x < y"
begin

lemma enc_append_less: "enc x @ r < enc y @ s \<longleftrightarrow> x < y \<or> x = y \<and> r < s"
proof -
  have split: "a @ r < b @ s \<longleftrightarrow> a < b \<or> a = b \<and> r < s" if "length a = length b" for a b
    using that by (induction a b rule: list_induct2) auto
  show ?thesis
    by (simp add: split enc_len enc_less enc_inject)
qed

lemma enc_append_le: "enc x @ r \<le> enc y @ s \<longleftrightarrow> x < y \<or> x = y \<and> r \<le> s"
  by (auto simp: le_less enc_append_less enc_append_inject)

end

lemma le_word_bytes:
  fixes w :: "'a::len word"
  assumes "LENGTH('a) = 8 * n"
  shows "le_nat (to_le_bytes w) = unat w"
  using assms unsigned_less [of w, where ?'a = nat]
  by (simp add: to_le_bytes_def le_nat_le_bytes power_mult)

lemma le_codec:
  assumes "LENGTH('a::len) = 8 * n"
  shows "byte_codec (to_le_bytes :: 'a word \<Rightarrow> bytes) from_le_bytes n"
proof
  fix x :: "'a word"
  show "length (to_le_bytes x) = n"
    using assms by (simp add: to_le_bytes_def)
  then show "from_le_bytes (to_le_bytes x) = Some x"
    using assms by (simp add: from_le_bytes_def le_word_bytes [OF assms])
next
  fix bs :: bytes
  assume len: "length bs = n"
  have "le_nat bs < 2 ^ LENGTH('a)"
    using le_nat_less [of bs] assms len by (simp add: power_mult)
  then have "unat (word_of_nat (le_nat bs) :: 'a word) = le_nat bs"
    by (simp add: unat_of_nat)
  then have "to_le_bytes (word_of_nat (le_nat bs) :: 'a word) = bs"
    using assms len le_bytes_le_nat [of bs] by (simp add: to_le_bytes_def)
  then show "\<exists>x :: 'a word. bs = to_le_bytes x"
    by metis
next
  fix bs :: bytes
  assume "length bs \<noteq> n"
  then show "from_le_bytes bs = (None :: 'a word option)"
    using assms by (simp add: from_le_bytes_def)
qed

lemma be_codec:
  assumes "LENGTH('a::len) = 8 * n"
  shows "ordered_codec (to_be_bytes :: 'a word \<Rightarrow> bytes) from_be_bytes n"
proof -
  have le: "byte_codec (to_le_bytes :: 'a word \<Rightarrow> bytes) from_le_bytes n"
    using assms by (rule le_codec)
  have bound: "unat x < 256 ^ n" for x :: "'a word"
    using unsigned_less [of x, where ?'a = nat] assms by (simp add: power_mult)
  show ?thesis
  proof
    fix bs :: bytes
    assume "length bs = n"
    then show "\<exists>x :: 'a word. bs = to_be_bytes x"
      using byte_codec.dec_total [OF le, of "rev bs"] by (metis length_rev rev_rev_ident to_be_bytes_def)
  next
    fix x y :: "'a word"
    show "to_be_bytes x < to_be_bytes y \<longleftrightarrow> x < y"
      using assms bound
      by (simp add: to_be_bytes_def to_le_bytes_def rev_le_bytes_less word_less_nat_alt)
  qed (simp_all add: to_be_bytes_def from_be_bytes_def byte_codec.dec_enc [OF le]
        byte_codec.enc_len [OF le] byte_codec.dec_short [OF le])
qed

interpretation u64le: byte_codec "to_le_bytes :: u64 \<Rightarrow> bytes" from_le_bytes 8
  by (rule le_codec) simp

interpretation u32le: byte_codec "to_le_bytes :: u32 \<Rightarrow> bytes" from_le_bytes 4
  by (rule le_codec) simp

interpretation u64be: ordered_codec "to_be_bytes :: u64 \<Rightarrow> bytes" from_be_bytes 8
  by (rule be_codec) simp

interpretation u32be: ordered_codec "to_be_bytes :: u32 \<Rightarrow> bytes" from_be_bytes 4
  by (rule be_codec) simp

lemmas u64_codec [simp, codec_simps] =
  u64le.dec_enc u64le.enc_len u64le.dec_None_iff u64le.enc_inject u64le.enc_append_inject
  u64be.dec_enc u64be.enc_len u64be.dec_None_iff u64be.enc_inject u64be.enc_append_inject

lemmas u32_codec [simp, codec_simps] =
  u32le.dec_enc u32le.enc_len u32le.dec_None_iff u32le.enc_inject u32le.enc_append_inject
  u32be.dec_enc u32be.enc_len u32be.dec_None_iff u32be.enc_inject u32be.enc_append_inject

section \<open>Slices\<close>

text \<open>\<open>xs[a..b]\<close> for \<open>a \<le> b \<le> length xs\<close>; every use in the model is guarded by the
  source's own length check.\<close>

definition slice :: "nat \<Rightarrow> nat \<Rightarrow> 'a list \<Rightarrow> 'a list" where
  "slice a b xs = take (b - a) (drop a xs)"

definition starts_with :: "'a list \<Rightarrow> 'a list \<Rightarrow> bool" where
  "starts_with p xs \<longleftrightarrow> take (length p) xs = p"

definition strip_prefix :: "'a list \<Rightarrow> 'a list \<Rightarrow> 'a list option" where
  "strip_prefix p xs = (if starts_with p xs then Some (drop (length p) xs) else None)"

lemma length_slice [simp]: "b \<le> length xs \<Longrightarrow> length (slice a b xs) = b - a"
  by (simp add: slice_def)

lemma strip_prefix_append [simp]: "strip_prefix p (p @ xs) = Some xs"
  by (simp add: strip_prefix_def starts_with_def)

lemma starts_with_iff: "starts_with p xs \<longleftrightarrow> (\<exists>r. xs = p @ r)"
proof
  assume "starts_with p xs"
  then have "xs = p @ drop (length p) xs"
    using append_take_drop_id [of "length p" xs] by (simp add: starts_with_def)
  then show "\<exists>r. xs = p @ r" ..
qed (auto simp: starts_with_def)

lemma strip_prefix_Some: "strip_prefix p xs = Some r \<longleftrightarrow> xs = p @ r"
  by (auto simp: strip_prefix_def starts_with_iff)

lemma slice_split: "a \<le> b \<Longrightarrow> b \<le> c \<Longrightarrow> slice a b xs @ slice b c xs = slice a c xs"
  using take_add [of "b - a" "c - b" "drop a xs"] by (simp add: slice_def)

end
