(* ===== verification/Fs_Types.thy ===== *)
theory Fs_Types
  imports Prelude
begin

text \<open>
  The data every file-system operation works on: the errors of \<open>fs/errors.rs\<close>, the inode
  structures of \<open>fs/inode.rs\<close>, and the attribute and credential types of \<open>fs/types.rs\<close>.
  The eleven fields that all four inode structs of the source repeat are one record
  (\<open>attrs\<close>); each struct adds its own fields to it.
\<close>

unbundle bit_operations_syntax

section \<open>Errors\<close>

datatype fs_error =
    PermissionDenied | OperationNotPermitted | NotFound | Exists | InvalidArgument | IoError
  | NotEmpty | TooManyLinks | NoSpace | RetryLater | IsDirectory | NotDirectory | NameTooLong
  | NotSupported | StaleHandle | InvalidData | ReadOnlyFilesystem | LeaderLeaseExpired
  | LeaderRejectedBeforeApply | ShuttingDown

type_synonym 'a fs_result = "fs_error + 'a"

fun to_errno :: "fs_error \<Rightarrow> u32" where
  "to_errno PermissionDenied = 13"
| "to_errno OperationNotPermitted = 1"
| "to_errno NotFound = 2"
| "to_errno Exists = 17"
| "to_errno InvalidArgument = 22"
| "to_errno IoError = 5"
| "to_errno NotEmpty = 39"
| "to_errno TooManyLinks = 31"
| "to_errno NoSpace = 28"
| "to_errno RetryLater = 11"
| "to_errno IsDirectory = 21"
| "to_errno NotDirectory = 20"
| "to_errno NameTooLong = 36"
| "to_errno NotSupported = 38"
| "to_errno StaleHandle = 116"
| "to_errno InvalidData = 5"
| "to_errno ReadOnlyFilesystem = 30"
| "to_errno LeaderLeaseExpired = 108"
| "to_errno LeaderRejectedBeforeApply = 5"
| "to_errno ShuttingDown = 108"

section \<open>Inodes\<close>

type_synonym inode_id = u64

record attrs =
  i_mtime :: u64
  i_mtime_nsec :: u32
  i_ctime :: u64
  i_ctime_nsec :: u32
  i_atime :: u64
  i_atime_nsec :: u32
  i_mode :: u32
  i_uid :: u32
  i_gid :: u32
  i_name :: "bytes option"
  i_nlink :: u32

record file_inode =
  f_attrs :: attrs
  f_size :: u64
  f_parent :: "inode_id option"

record directory_inode =
  d_attrs :: attrs
  d_entry_count :: u64
  d_parent :: inode_id

record symlink_inode =
  s_attrs :: attrs
  s_target :: bytes
  s_parent :: "inode_id option"

record special_inode =
  p_attrs :: attrs
  p_parent :: "inode_id option"
  p_rdev :: "(u32 \<times> u32) option"

datatype inode =
    File file_inode
  | Directory directory_inode
  | Symlink symlink_inode
  | Fifo special_inode
  | Socket special_inode
  | CharDevice special_inode
  | BlockDevice special_inode

definition MAX_DEVICE_MAJOR :: u32 where
  "MAX_DEVICE_MAJOR = 4095"

definition MAX_DEVICE_MINOR :: u32 where
  "MAX_DEVICE_MINOR = 1048575"

text \<open>The trait \<open>InodeAttrs\<close> of \<open>Inode\<close>, and one update function for the shared fields.\<close>

fun inode_attrs :: "inode \<Rightarrow> attrs" where
  "inode_attrs (File i) = f_attrs i"
| "inode_attrs (Directory i) = d_attrs i"
| "inode_attrs (Symlink i) = s_attrs i"
| "inode_attrs (Fifo i) = p_attrs i"
| "inode_attrs (Socket i) = p_attrs i"
| "inode_attrs (CharDevice i) = p_attrs i"
| "inode_attrs (BlockDevice i) = p_attrs i"

fun map_inode_attrs :: "(attrs \<Rightarrow> attrs) \<Rightarrow> inode \<Rightarrow> inode" where
  "map_inode_attrs g (File i) = File (i\<lparr>f_attrs := g (f_attrs i)\<rparr>)"
| "map_inode_attrs g (Directory i) = Directory (i\<lparr>d_attrs := g (d_attrs i)\<rparr>)"
| "map_inode_attrs g (Symlink i) = Symlink (i\<lparr>s_attrs := g (s_attrs i)\<rparr>)"
| "map_inode_attrs g (Fifo i) = Fifo (i\<lparr>p_attrs := g (p_attrs i)\<rparr>)"
| "map_inode_attrs g (Socket i) = Socket (i\<lparr>p_attrs := g (p_attrs i)\<rparr>)"
| "map_inode_attrs g (CharDevice i) = CharDevice (i\<lparr>p_attrs := g (p_attrs i)\<rparr>)"
| "map_inode_attrs g (BlockDevice i) = BlockDevice (i\<lparr>p_attrs := g (p_attrs i)\<rparr>)"

definition inode_uid :: "inode \<Rightarrow> u32" where
  "inode_uid i = i_uid (inode_attrs i)"

definition inode_gid :: "inode \<Rightarrow> u32" where
  "inode_gid i = i_gid (inode_attrs i)"

definition inode_mode :: "inode \<Rightarrow> u32" where
  "inode_mode i = i_mode (inode_attrs i)"

definition inode_nlink :: "inode \<Rightarrow> u32" where
  "inode_nlink i = i_nlink (inode_attrs i)"

definition inode_name :: "inode \<Rightarrow> bytes option" where
  "inode_name i = i_name (inode_attrs i)"

fun inode_parent :: "inode \<Rightarrow> inode_id option" where
  "inode_parent (File i) = f_parent i"
| "inode_parent (Directory i) = Some (d_parent i)"
| "inode_parent (Symlink i) = s_parent i"
| "inode_parent (Fifo i) = p_parent i"
| "inode_parent (Socket i) = p_parent i"
| "inode_parent (CharDevice i) = p_parent i"
| "inode_parent (BlockDevice i) = p_parent i"

fun is_directory :: "inode \<Rightarrow> bool" where
  "is_directory (Directory _) = True"
| "is_directory _ = False"

section \<open>Attributes, credentials and directory listings\<close>

datatype file_type = FtRegular | FtDirectory | FtSymlink | FtFifo | FtSocket | FtCharDevice | FtBlockDevice

record timestamp =
  t_seconds :: u64
  t_nanoseconds :: u32

record file_attributes =
  fa_file_type :: file_type
  fa_mode :: u32
  fa_nlink :: u32
  fa_uid :: u32
  fa_gid :: u32
  fa_size :: u64
  fa_used :: u64
  fa_rdev :: "(u32 \<times> u32) option"
  fa_fsid :: u64
  fa_fileid :: u64
  fa_atime :: timestamp
  fa_mtime :: timestamp
  fa_ctime :: timestamp

fun type_size_rdev :: "inode \<Rightarrow> file_type \<times> u64 \<times> (u32 \<times> u32) option" where
  "type_size_rdev (File f) = (FtRegular, f_size f, None)"
| "type_size_rdev (Directory _) = (FtDirectory, 4096, None)"
| "type_size_rdev (Symlink s) = (FtSymlink, word_of_nat (length (s_target s)), None)"
| "type_size_rdev (Fifo s) = (FtFifo, 0, p_rdev s)"
| "type_size_rdev (Socket s) = (FtSocket, 0, p_rdev s)"
| "type_size_rdev (CharDevice s) = (FtCharDevice, 0, p_rdev s)"
| "type_size_rdev (BlockDevice s) = (FtBlockDevice, 0, p_rdev s)"

definition file_attributes_of :: "inode \<Rightarrow> inode_id \<Rightarrow> file_attributes" where
  "file_attributes_of i ino =
     (let (ft, size, rdev) = type_size_rdev i; a = inode_attrs i in
      \<lparr>fa_file_type = ft, fa_mode = i_mode a, fa_nlink = i_nlink a, fa_uid = i_uid a,
       fa_gid = i_gid a, fa_size = size, fa_used = size, fa_rdev = rdev, fa_fsid = 0,
       fa_fileid = ino,
       fa_atime = \<lparr>t_seconds = i_atime a, t_nanoseconds = i_atime_nsec a\<rparr>,
       fa_mtime = \<lparr>t_seconds = i_mtime a, t_nanoseconds = i_mtime_nsec a\<rparr>,
       fa_ctime = \<lparr>t_seconds = i_ctime a, t_nanoseconds = i_ctime_nsec a\<rparr>\<rparr>)"

text \<open>\<open>SetMode\<close>, \<open>SetUid\<close>, \<open>SetGid\<close> and \<open>SetSize\<close> are the same enum at three types.\<close>

datatype 'a set_field = Set 'a | NoChange

datatype set_time = SetToClientTime timestamp | SetToServerTime | TimeNoChange

record set_attributes =
  sa_mode :: "u32 set_field"
  sa_uid :: "u32 set_field"
  sa_gid :: "u32 set_field"
  sa_size :: "u64 set_field"
  sa_atime :: set_time
  sa_mtime :: set_time

definition default_set_attributes :: set_attributes where
  "default_set_attributes =
     \<lparr>sa_mode = NoChange, sa_uid = NoChange, sa_gid = NoChange, sa_size = NoChange,
      sa_atime = TimeNoChange, sa_mtime = TimeNoChange\<rparr>"

record auth_context =
  au_uid :: u32
  au_gid :: u32
  au_gid_known :: bool
  au_gids :: "u32 list"
  au_groups_complete :: bool

definition default_auth_context :: auth_context where
  "default_auth_context =
     \<lparr>au_uid = 0, au_gid = 0, au_gid_known = True, au_gids = [], au_groups_complete = True\<rparr>"

record dir_entry =
  de_fileid :: inode_id
  de_name :: bytes
  de_attr :: file_attributes
  de_cookie :: u64

record read_dir_result =
  rd_entries :: "dir_entry list"
  rd_end :: bool

definition NAME_MAX :: nat where
  "NAME_MAX = 255"

definition validate_filename :: "bytes \<Rightarrow> unit fs_result" where
  "validate_filename filename = (if length filename > NAME_MAX then Inl NameTooLong else Inr ())"

section \<open>Lemmas on inodes\<close>

lemma inode_attrs_map [simp]: "inode_attrs (map_inode_attrs g i) = g (inode_attrs i)"
  by (cases i) simp_all

lemma inode_parent_map [simp]: "inode_parent (map_inode_attrs g i) = inode_parent i"
  by (cases i) simp_all

lemma is_directory_map [simp]: "is_directory (map_inode_attrs g i) = is_directory i"
  by (cases i) simp_all

lemma is_directory_iff: "is_directory i \<longleftrightarrow> (\<exists>d. i = Directory d)"
  by (cases i) simp_all

lemma not_directory_cases [case_names File Symlink Fifo Socket CharDevice BlockDevice]:
  assumes "\<not> is_directory i"
  obtains f where "i = File f" | s where "i = Symlink s" | p where "i = Fifo p"
    | p where "i = Socket p" | p where "i = CharDevice p" | p where "i = BlockDevice p"
  using assms by (cases i) auto

lemma validate_filename_Inr [simp]: "validate_filename n = Inr u \<longleftrightarrow> length n \<le> NAME_MAX"
  by (auto simp: validate_filename_def)

lemma type_size_rdev_map [simp]: "type_size_rdev (map_inode_attrs g i) = type_size_rdev i"
  by (cases i) simp_all

end
