(* ===== verification/Lock_Manager.thy ===== *)
theory Lock_Manager
  imports Fs_Types
begin

text \<open>
  Byte-range locks of the 9P server: the range arithmetic of \<open>ninep-proto\<close> (\<open>slice_codec.rs\<close>,
  \<open>lock_range.rs\<close>) and the lock table of \<open>ninep/lock_manager.rs\<close>. The table is read at the
  level of single bytes (who holds a lock of which type on this byte), the interface the
  operations promise is a locale over that reading, and mutual exclusion of sessions is derived
  inside the locale and holds in every reachable table.
\<close>

section \<open>Range arithmetic\<close>

definition lock_range_end :: "u64 \<Rightarrow> u64 \<Rightarrow> u64" where
  "lock_range_end start len = (if len = 0 then u64_max else saturating_add start len)"

definition subtract_lock_range_fixed ::
  "u64 \<Rightarrow> u64 \<Rightarrow> u64 \<Rightarrow> u64 \<Rightarrow> (u64 \<times> u64) option \<times> (u64 \<times> u64) option" where
  "subtract_lock_range_fixed held_start held_length remove_start remove_length =
     (let held_end = lock_range_end held_start held_length;
          remove_end = lock_range_end remove_start remove_length in
      if held_start \<ge> remove_end \<or> remove_start \<ge> held_end then
        (Some (held_start, held_length), None)
      else
        let left =
              (if held_start < remove_start then
                 let left_end = min remove_start held_end in
                 if held_start < left_end then Some (held_start, left_end - held_start) else None
               else None);
            right =
              (if remove_end < held_end then
                 let right_start = max remove_end held_start in
                 if right_start < held_end then
                   Some (right_start,
                         if held_end = u64_max then 0 else held_end - right_start)
                 else None
               else None)
        in (left, right))"

text \<open>The allocating view: the fragments that exist, in order.\<close>

definition subtract_lock_range :: "u64 \<Rightarrow> u64 \<Rightarrow> u64 \<Rightarrow> u64 \<Rightarrow> (u64 \<times> u64) list" where
  "subtract_lock_range held_start held_length remove_start remove_length =
     (case subtract_lock_range_fixed held_start held_length remove_start remove_length of
        (left, right) \<Rightarrow>
          (case left of None \<Rightarrow> [] | Some f \<Rightarrow> [f]) @ (case right of None \<Rightarrow> [] | Some f \<Rightarrow> [f]))"

section \<open>The lock table\<close>

datatype lock_type = ReadLock | WriteLock | Unlock

record file_lock =
  lk_type :: lock_type
  lk_start :: u64
  lk_length :: u64
  lk_proc_id :: u32
  lk_client_id :: bytes
  lk_fid :: u32
  lk_inode :: inode_id

record held_lock =
  hl_session :: u64
  hl_lock :: file_lock

type_synonym lock_table = "inode_id \<rightharpoonup> held_lock list"

definition locks_conflict :: "file_lock \<Rightarrow> file_lock \<Rightarrow> bool" where
  "locks_conflict requested held \<longleftrightarrow>
     lk_start requested < lock_range_end (lk_start held) (lk_length held)
     \<and> lock_range_end (lk_start requested) (lk_length requested) > lk_start held
     \<and> \<not> (lk_type requested = ReadLock \<and> lk_type held = ReadLock)"

text \<open>The drain loop of \<open>subtract_matching_range\<close>: the updated locks and whether any changed.\<close>

fun subtract_matching_range ::
  "held_lock list \<Rightarrow> u64 \<Rightarrow> u64 \<Rightarrow> (held_lock \<Rightarrow> bool) \<Rightarrow> held_lock list \<times> bool" where
  "subtract_matching_range [] start len matches = ([], False)"
| "subtract_matching_range (held # locks) start len matches =
     (let (rest, changed) = subtract_matching_range locks start len matches; lock = hl_lock held in
      if matches held \<and> lk_start lock < lock_range_end start len
         \<and> lock_range_end (lk_start lock) (lk_length lock) > start
      then
        (map (\<lambda>(s, l). \<lparr>hl_session = hl_session held,
                        hl_lock = lock\<lparr>lk_start := s, lk_length := l\<rparr>\<rparr>)
           (subtract_lock_range (lk_start lock) (lk_length lock) start len) @ rest, True)
      else (held # rest, changed))"

definition session_has_locks :: "lock_table \<Rightarrow> u64 \<Rightarrow> bool" where
  "session_has_locks t session \<longleftrightarrow>
     (\<exists>ino locks. t ino = Some locks \<and> list_ex (\<lambda>h. hl_session h = session) locks)"

definition try_add_lock :: "lock_table \<Rightarrow> u64 \<Rightarrow> file_lock \<Rightarrow> lock_table \<times> bool" where
  "try_add_lock t session lock =
     (if (case t (lk_inode lock) of
            None \<Rightarrow> False
          | Some locks \<Rightarrow>
              list_ex (\<lambda>h. hl_session h \<noteq> session \<and> locks_conflict lock (hl_lock h)) locks)
      then (t, False)
      else
        let locks = (case t (lk_inode lock) of None \<Rightarrow> [] | Some locks \<Rightarrow> locks);
            kept = fst (subtract_matching_range locks (lk_start lock) (lk_length lock)
                     (\<lambda>h. hl_session h = session \<and> lk_fid (hl_lock h) = lk_fid lock))
        in (t(lk_inode lock \<mapsto> kept @ [\<lparr>hl_session = session, hl_lock = lock\<rparr>]), True))"

definition unlock_range ::
  "lock_table \<Rightarrow> inode_id \<Rightarrow> u32 \<Rightarrow> u64 \<Rightarrow> u64 \<Rightarrow> u64 \<Rightarrow> lock_table \<times> bool" where
  "unlock_range t ino fid start len session =
     (case t ino of
        None \<Rightarrow> (t, False)
      | Some locks \<Rightarrow>
          let (locks', changed) = subtract_matching_range locks start len
                (\<lambda>h. hl_session h = session \<and> lk_fid (hl_lock h) = fid)
          in (if locks' = [] then t(ino := None) else t(ino \<mapsto> locks'), changed))"

definition check_would_block :: "lock_table \<Rightarrow> inode_id \<Rightarrow> file_lock \<Rightarrow> u64 \<Rightarrow> file_lock option" where
  "check_would_block t ino test session =
     Option.bind (t ino) (\<lambda>locks.
       map_option hl_lock
         (find (\<lambda>h. hl_session h \<noteq> session \<and> locks_conflict test (hl_lock h)) locks))"

text \<open>\<open>HashMap::retain\<close> with an inner \<open>Vec::retain\<close>; a row whose vector empties is dropped.\<close>

definition retain_locks :: "(held_lock \<Rightarrow> bool) \<Rightarrow> lock_table \<Rightarrow> lock_table" where
  "retain_locks keep t =
     (\<lambda>ino. case t ino of
        None \<Rightarrow> None
      | Some locks \<Rightarrow> let locks' = filter keep locks in if locks' = [] then None else Some locks')"

definition release_session_locks :: "lock_table \<Rightarrow> u64 \<Rightarrow> lock_table" where
  "release_session_locks t session = retain_locks (\<lambda>h. hl_session h \<noteq> session) t"

definition release_fid_locks :: "lock_table \<Rightarrow> u64 \<Rightarrow> u32 \<Rightarrow> lock_table" where
  "release_fid_locks t session fid =
     retain_locks (\<lambda>h. \<not> (hl_session h = session \<and> lk_fid (hl_lock h) = fid)) t"

section \<open>Bytes of a range\<close>

definition range_bytes :: "u64 \<Rightarrow> u64 \<Rightarrow> u64 set" where
  "range_bytes start len = {b. start \<le> b \<and> b < lock_range_end start len}"

definition lock_bytes :: "file_lock \<Rightarrow> u64 set" where
  "lock_bytes l = range_bytes (lk_start l) (lk_length l)"

lemma unat_lock_range_end:
  "unat (lock_range_end s l) =
     (if l = 0 then 18446744073709551615 else min (unat s + unat l) 18446744073709551615)"
  by (simp add: lock_range_end_def unat_saturating_add)

lemma unat_u64_le [simp]: "unat (w :: u64) \<le> 18446744073709551615"
  using unat_u64_less [of w] by linarith

lemma lock_range_end_ge: "start \<le> lock_range_end start len"
  by (simp add: word_le_nat_alt unat_lock_range_end)

lemma range_bytes_empty: "range_bytes start len = {} \<longleftrightarrow> start = u64_max"
proof -
  have "start < lock_range_end start len \<longleftrightarrow> start \<noteq> u64_max"
    using unat_u64_le [of start] unat_gt_0 [of len]
    by (auto simp: word_less_nat_alt unat_lock_range_end word_unat_eq_iff [of start] min_def
        simp del: unat_u64_le)
  then show ?thesis
    unfolding range_bytes_def by (auto dest: order.strict_trans1)
qed

text \<open>The overlap test of the source is intersection of the byte sets.\<close>

lemma overlap_iff:
  "range_bytes s l \<inter> range_bytes s' l' \<noteq> {} \<longleftrightarrow>
   s < lock_range_end s' l' \<and> s' < lock_range_end s l"
proof
  assume "range_bytes s l \<inter> range_bytes s' l' \<noteq> {}"
  then show "s < lock_range_end s' l' \<and> s' < lock_range_end s l"
    by (auto simp: range_bytes_def)
next
  assume ov: "s < lock_range_end s' l' \<and> s' < lock_range_end s l"
  then have "s \<noteq> u64_max" "s' \<noteq> u64_max"
    by (auto simp: word_less_nat_alt unat_lock_range_end min_def split: if_splits)
  then have "s < lock_range_end s l" "s' < lock_range_end s' l'"
    using range_bytes_empty [of s l] range_bytes_empty [of s' l']
    by (auto simp: range_bytes_def)
  then have "max s s' \<in> range_bytes s l \<inter> range_bytes s' l'"
    using ov by (auto simp: range_bytes_def max_def)
  then show "range_bytes s l \<inter> range_bytes s' l' \<noteq> {}"
    by blast
qed

lemma locks_conflict_iff:
  "locks_conflict r h \<longleftrightarrow>
   lock_bytes r \<inter> lock_bytes h \<noteq> {} \<and> \<not> (lk_type r = ReadLock \<and> lk_type h = ReadLock)"
  by (auto simp: locks_conflict_def lock_bytes_def overlap_iff)

lemma range_bytes_sub:
  assumes "s < e"
  shows "range_bytes s (e - s) = {b. s \<le> b \<and> b < e}"
proof -
  have "e - s \<noteq> 0"
    using assms by auto
  moreover have "unat (e - s) = unat e - unat s"
    using assms by (simp add: unat_sub order.strict_implies_order)
  ultimately have "lock_range_end s (e - s) = e"
    using assms by (simp add: word_unat_eq_iff unat_lock_range_end word_less_nat_alt)
  then show ?thesis
    by (simp add: range_bytes_def)
qed

lemma range_bytes_eof: "range_bytes s 0 = {b. s \<le> b \<and> b < u64_max}"
  by (simp add: range_bytes_def lock_range_end_def)

lemma subtract_lock_range_bytes:
  "(\<Union>(s, l) \<in> set (subtract_lock_range hs hl rs rl). range_bytes s l) =
   range_bytes hs hl - range_bytes rs rl"
proof (cases "range_bytes hs hl \<inter> range_bytes rs rl = {}")
  case True
  then have "hs \<ge> lock_range_end rs rl \<or> rs \<ge> lock_range_end hs hl"
    using overlap_iff [of hs hl rs rl] by auto
  then show ?thesis
    using True by (auto simp: subtract_lock_range_def subtract_lock_range_fixed_def Let_def)
next
  case False
  define he where "he = lock_range_end hs hl"
  define re where "re = lock_range_end rs rl"
  have ov: "hs < re" "rs < he"
    using False by (simp_all add: overlap_iff he_def re_def)
  have bytes: "range_bytes hs hl - range_bytes rs rl = {b. hs \<le> b \<and> b < he \<and> (b < rs \<or> re \<le> b)}"
    by (auto simp: range_bytes_def he_def re_def)
  have right: "range_bytes (max re hs) (if he = u64_max then 0 else he - max re hs)
      = {b. re \<le> b \<and> b < he}" if "re < he"
    using that ov by (auto simp: range_bytes_sub range_bytes_eof max_def)
  have left: "range_bytes hs (min rs he - hs) = {b. hs \<le> b \<and> b < rs}" if "hs < rs"
    using that ov by (auto simp: range_bytes_sub min_def)
  have lt: "hs < min rs he" if "hs < rs"
    using that ov by (auto simp: min_def)
  have rt: "max re hs < he" if "re < he"
    using that ov by (auto simp: max_def)
  have "set (subtract_lock_range hs hl rs rl) =
      (if hs < rs then {(hs, min rs he - hs)} else {}) \<union>
      (if re < he then {(max re hs, if he = u64_max then 0 else he - max re hs)} else {})"
    using ov lt rt
    unfolding subtract_lock_range_def subtract_lock_range_fixed_def he_def [symmetric] re_def [symmetric]
      Let_def
    by (simp add: not_le [symmetric])
  then have "(\<Union>(s, l) \<in> set (subtract_lock_range hs hl rs rl). range_bytes s l) =
      (if hs < rs then {b. hs \<le> b \<and> b < rs} else {}) \<union> (if re < he then {b. re \<le> b \<and> b < he} else {})"
    using left right by (simp only: split: if_split) auto
  also have "\<dots> = {b. hs \<le> b \<and> b < he \<and> (b < rs \<or> re \<le> b)}"
    using ov by auto
  finally show ?thesis
    unfolding bytes .
qed

section \<open>The table at byte level\<close>

definition list_holds :: "held_lock list \<Rightarrow> u64 \<Rightarrow> u32 \<Rightarrow> lock_type \<Rightarrow> u64 \<Rightarrow> bool" where
  "list_holds locks session fid ty b \<longleftrightarrow>
     (\<exists>h \<in> set locks. hl_session h = session \<and> lk_fid (hl_lock h) = fid \<and> lk_type (hl_lock h) = ty
        \<and> b \<in> lock_bytes (hl_lock h))"

definition holds :: "lock_table \<Rightarrow> inode_id \<Rightarrow> u64 \<Rightarrow> u32 \<Rightarrow> lock_type \<Rightarrow> u64 \<Rightarrow> bool" where
  "holds t ino session fid ty b \<longleftrightarrow>
     (case t ino of None \<Rightarrow> False | Some locks \<Rightarrow> list_holds locks session fid ty b)"

lemma list_holds_simps [simp]:
  "\<not> list_holds [] s f ty b"
  "list_holds (h # hs) s f ty b \<longleftrightarrow>
     hl_session h = s \<and> lk_fid (hl_lock h) = f \<and> lk_type (hl_lock h) = ty \<and> b \<in> lock_bytes (hl_lock h)
     \<or> list_holds hs s f ty b"
  "list_holds (hs @ hs') s f ty b \<longleftrightarrow> list_holds hs s f ty b \<or> list_holds hs' s f ty b"
  by (auto simp: list_holds_def)

lemma list_holds_fragments:
  "list_holds (map (\<lambda>(s, l). \<lparr>hl_session = hl_session h, hl_lock = hl_lock h\<lparr>lk_start := s, lk_length := l\<rparr>\<rparr>) frs)
     s f ty b \<longleftrightarrow>
   hl_session h = s \<and> lk_fid (hl_lock h) = f \<and> lk_type (hl_lock h) = ty
     \<and> b \<in> (\<Union>(s, l) \<in> set frs. range_bytes s l)"
  by (induction frs) (auto simp: lock_bytes_def)

lemma fst_subtract_matching_range_Cons:
  "fst (subtract_matching_range (h # locks) start len matches) =
     (if matches h \<and> lock_bytes (hl_lock h) \<inter> range_bytes start len \<noteq> {}
      then map (\<lambda>(s, l). \<lparr>hl_session = hl_session h, hl_lock = hl_lock h\<lparr>lk_start := s, lk_length := l\<rparr>\<rparr>)
             (subtract_lock_range (lk_start (hl_lock h)) (lk_length (hl_lock h)) start len)
      else [h]) @ fst (subtract_matching_range locks start len matches)"
  by (simp add: overlap_iff lock_bytes_def Let_def split: prod.split)

lemma list_holds_subtract:
  "list_holds (fst (subtract_matching_range locks start len (\<lambda>h. hl_session h = s0 \<and> lk_fid (hl_lock h) = f0)))
     s f ty b \<longleftrightarrow>
   list_holds locks s f ty b \<and> \<not> (s = s0 \<and> f = f0 \<and> b \<in> range_bytes start len)"
proof (induction locks)
  case (Cons h locks)
  have bytes: "(\<Union>(s, l) \<in> set (subtract_lock_range (lk_start (hl_lock h)) (lk_length (hl_lock h)) start len).
      range_bytes s l) = lock_bytes (hl_lock h) - range_bytes start len"
    by (simp add: subtract_lock_range_bytes lock_bytes_def)
  show ?case
    unfolding fst_subtract_matching_range_Cons list_holds_simps Cons.IH
    by (simp only: list_holds_fragments bytes list_holds_simps split: if_split) blast
qed simp

text \<open>
  Two sessions hold a byte together only for reading, and one fid of a session holds a byte with
  one type.
\<close>

definition exclusive ::
  "(inode_id \<Rightarrow> u64 \<Rightarrow> u32 \<Rightarrow> lock_type \<Rightarrow> u64 \<Rightarrow> bool) \<Rightarrow> bool" where
  "exclusive H \<longleftrightarrow>
     (\<forall>ino s s' f f' ty ty' b. s \<noteq> s' \<longrightarrow> H ino s f ty b \<longrightarrow> H ino s' f' ty' b \<longrightarrow>
        ty = ReadLock \<and> ty' = ReadLock)
     \<and> (\<forall>ino s f ty ty' b. H ino s f ty b \<longrightarrow> H ino s f ty' b \<longrightarrow> ty = ty')"

lemma exclusive_mono:
  assumes "exclusive H" "\<And>ino s f ty b. K ino s f ty b \<Longrightarrow> H ino s f ty b"
  shows "exclusive K"
  using assms unfolding exclusive_def by meson

lemma exclusive_D1:
  "exclusive H \<Longrightarrow> s \<noteq> s' \<Longrightarrow> H ino s f ty b \<Longrightarrow> H ino s' f' ty' b \<Longrightarrow> ty = ReadLock \<and> ty' = ReadLock"
  unfolding exclusive_def by blast

lemma exclusive_D2: "exclusive H \<Longrightarrow> H ino s f ty b \<Longrightarrow> H ino s f ty' b \<Longrightarrow> ty = ty'"
  unfolding exclusive_def by blast

text \<open>What the server's request handlers rely on, byte by byte.\<close>

locale byte_range_locks =
  fixes held :: "'t \<Rightarrow> inode_id \<Rightarrow> u64 \<Rightarrow> u32 \<Rightarrow> lock_type \<Rightarrow> u64 \<Rightarrow> bool"
    and add :: "'t \<Rightarrow> u64 \<Rightarrow> file_lock \<Rightarrow> 't \<times> bool"
    and unlock :: "'t \<Rightarrow> inode_id \<Rightarrow> u32 \<Rightarrow> u64 \<Rightarrow> u64 \<Rightarrow> u64 \<Rightarrow> 't \<times> bool"
    and release_session :: "'t \<Rightarrow> u64 \<Rightarrow> 't"
    and release_fid :: "'t \<Rightarrow> u64 \<Rightarrow> u32 \<Rightarrow> 't"
  assumes add_granted: "snd (add t s l) \<longleftrightarrow>
      \<not> (\<exists>s' f ty b. s' \<noteq> s \<and> b \<in> lock_bytes l \<and> held t (lk_inode l) s' f ty b
           \<and> \<not> (lk_type l = ReadLock \<and> ty = ReadLock))"
    and add_refused: "\<not> snd (add t s l) \<Longrightarrow> fst (add t s l) = t"
    and add_held: "snd (add t s l) \<Longrightarrow> held (fst (add t s l)) ino s' f ty b \<longleftrightarrow>
      (if ino = lk_inode l \<and> s' = s \<and> f = lk_fid l \<and> b \<in> lock_bytes l then ty = lk_type l
       else held t ino s' f ty b)"
    and unlock_held: "held (fst (unlock t ino0 f0 start len s0)) ino s f ty b \<longleftrightarrow>
      held t ino s f ty b \<and> \<not> (ino = ino0 \<and> s = s0 \<and> f = f0 \<and> b \<in> range_bytes start len)"
    and release_session_held: "held (release_session t s0) ino s f ty b \<longleftrightarrow>
      held t ino s f ty b \<and> s \<noteq> s0"
    and release_fid_held: "held (release_fid t s0 f0) ino s f ty b \<longleftrightarrow>
      held t ino s f ty b \<and> \<not> (s = s0 \<and> f = f0)"
begin

lemma exclusive_add:
  assumes ex: "exclusive (held t)"
  shows "exclusive (held (fst (add t s l)))"
proof (cases "snd (add t s l)")
  case True
  have free: "ty = ReadLock \<and> lk_type l = ReadLock"
    if "s' \<noteq> s" "b \<in> lock_bytes l" "held t (lk_inode l) s' f ty b" for s' f ty b
    using True that unfolding add_granted by blast
  show ?thesis
    unfolding exclusive_def
  proof (intro conjI allI impI)
    fix ino s1 s2 f f' ty ty' b
    assume "s1 \<noteq> s2" "held (fst (add t s l)) ino s1 f ty b" "held (fst (add t s l)) ino s2 f' ty' b"
    then have "ino = lk_inode l \<and> s1 = s \<and> b \<in> lock_bytes l \<and> ty = lk_type l \<or> held t ino s1 f ty b"
      "ino = lk_inode l \<and> s2 = s \<and> b \<in> lock_bytes l \<and> ty' = lk_type l \<or> held t ino s2 f' ty' b"
      by (simp_all add: add_held [OF True] split: if_splits)
    then show "ty = ReadLock" "ty' = ReadLock"
      using \<open>s1 \<noteq> s2\<close> exclusive_D1 [OF ex, of s1 s2 ino f ty b f' ty']
        free [of s1 b f ty] free [of s2 b f' ty'] by blast+
  next
    fix ino s1 f ty ty' b
    assume "held (fst (add t s l)) ino s1 f ty b" "held (fst (add t s l)) ino s1 f ty' b"
    then show "ty = ty'"
      using exclusive_D2 [OF ex, of ino s1 f ty b ty'] by (simp add: add_held [OF True] split: if_splits)
  qed
qed (simp add: add_refused ex)

lemma exclusive_unlock: "exclusive (held t) \<Longrightarrow> exclusive (held (fst (unlock t ino f start len s)))"
  by (erule exclusive_mono) (simp add: unlock_held)

lemma exclusive_release_session: "exclusive (held t) \<Longrightarrow> exclusive (held (release_session t s))"
  by (erule exclusive_mono) (simp add: release_session_held)

lemma exclusive_release_fid: "exclusive (held t) \<Longrightarrow> exclusive (held (release_fid t s f))"
  by (erule exclusive_mono) (simp add: release_fid_held)

text \<open>Once every other holder of a conflicting byte is gone, the request is granted.\<close>

lemma add_after_release:
  assumes "\<And>s' f ty b. held t (lk_inode l) s' f ty b \<Longrightarrow> b \<in> lock_bytes l \<Longrightarrow> s' = s \<or> s' = s0"
  shows "snd (add (release_session t s0) s l)"
  using assms by (auto simp: add_granted release_session_held)

end

section \<open>The table implements the interface\<close>

lemma try_add_lock_granted:
  "snd (try_add_lock t s l) \<longleftrightarrow>
   \<not> (\<exists>s' f ty b. s' \<noteq> s \<and> b \<in> lock_bytes l \<and> holds t (lk_inode l) s' f ty b
        \<and> \<not> (lk_type l = ReadLock \<and> ty = ReadLock))"
proof -
  have "list_ex (\<lambda>h. hl_session h \<noteq> s \<and> locks_conflict l (hl_lock h)) locks \<longleftrightarrow>
      (\<exists>s' f ty b. s' \<noteq> s \<and> b \<in> lock_bytes l \<and> list_holds locks s' f ty b
        \<and> \<not> (lk_type l = ReadLock \<and> ty = ReadLock))" for locks
    unfolding list_ex_iff list_holds_def locks_conflict_iff disjoint_iff by blast
  then show ?thesis
    by (auto simp: try_add_lock_def holds_def Let_def split: option.split)
qed

lemma try_add_lock_holds:
  "snd (try_add_lock t s l) \<Longrightarrow> holds (fst (try_add_lock t s l)) ino s' f ty b \<longleftrightarrow>
    (if ino = lk_inode l \<and> s' = s \<and> f = lk_fid l \<and> b \<in> lock_bytes l then ty = lk_type l
     else holds t ino s' f ty b)"
  by (auto simp: try_add_lock_def holds_def Let_def list_holds_subtract lock_bytes_def
      split: option.splits if_splits)

lemma unlock_range_holds:
  "holds (fst (unlock_range t ino0 f0 start len s0)) ino s f ty b \<longleftrightarrow>
    holds t ino s f ty b \<and> \<not> (ino = ino0 \<and> s = s0 \<and> f = f0 \<and> b \<in> range_bytes start len)"
proof (cases "t ino0")
  case (Some locks)
  obtain locks' changed where sub: "subtract_matching_range locks start len
      (\<lambda>h. hl_session h = s0 \<and> lk_fid (hl_lock h) = f0) = (locks', changed)"
    by fastforce
  then have "list_holds locks' s f ty b \<longleftrightarrow>
      list_holds locks s f ty b \<and> \<not> (s = s0 \<and> f = f0 \<and> b \<in> range_bytes start len)"
    using list_holds_subtract [of locks start len s0 f0 s f ty b] by simp
  then show ?thesis
    using Some sub by (auto simp: unlock_range_def holds_def)
qed (auto simp: unlock_range_def holds_def)

lemma holds_iff:
  "holds t ino s f ty b \<longleftrightarrow>
   (\<exists>locks. t ino = Some locks \<and> (\<exists>h \<in> set locks. hl_session h = s \<and> lk_fid (hl_lock h) = f
      \<and> lk_type (hl_lock h) = ty \<and> b \<in> lock_bytes (hl_lock h)))"
  by (simp add: holds_def list_holds_def split: option.split)

lemma retain_locks_holds:
  "holds (retain_locks keep t) ino s f ty b \<longleftrightarrow>
   (\<exists>locks. t ino = Some locks \<and> (\<exists>h \<in> set locks. keep h \<and> hl_session h = s \<and> lk_fid (hl_lock h) = f
      \<and> lk_type (hl_lock h) = ty \<and> b \<in> lock_bytes (hl_lock h)))"
  by (cases "t ino") (auto simp: holds_def list_holds_def retain_locks_def Let_def filter_empty_conv
      split: if_splits)

interpretation lock_table: byte_range_locks holds try_add_lock unlock_range release_session_locks
  release_fid_locks
proof
  show "fst (try_add_lock t s l) = t" if "\<not> snd (try_add_lock t s l)" for t s l
    using that by (auto simp: try_add_lock_def Let_def split: if_splits)
  show "holds (release_session_locks t s0) ino s f ty b \<longleftrightarrow> holds t ino s f ty b \<and> s \<noteq> s0"
    for t s0 ino s f ty b
    unfolding release_session_locks_def retain_locks_holds holds_iff [of t] by blast
  show "holds (release_fid_locks t s0 f0) ino s f ty b \<longleftrightarrow>
      holds t ino s f ty b \<and> \<not> (s = s0 \<and> f = f0)" for t s0 f0 ino s f ty b
    unfolding release_fid_locks_def retain_locks_holds holds_iff [of t] by blast
qed (rule try_add_lock_granted try_add_lock_holds unlock_range_holds; assumption?)+

section \<open>Reachable tables\<close>

inductive lock_reachable :: "lock_table \<Rightarrow> bool" where
  new: "lock_reachable Map.empty"
| add: "lock_reachable t \<Longrightarrow> lock_reachable (fst (try_add_lock t session lock))"
| unlock: "lock_reachable t \<Longrightarrow> lock_reachable (fst (unlock_range t ino fid start len session))"
| release_session: "lock_reachable t \<Longrightarrow> lock_reachable (release_session_locks t session)"
| release_fid: "lock_reachable t \<Longrightarrow> lock_reachable (release_fid_locks t session fid)"

lemma lock_reachable_exclusive: "lock_reachable t \<Longrightarrow> exclusive (holds t)"
proof (induction rule: lock_reachable.induct)
  case new
  show ?case
    by (simp add: exclusive_def holds_def)
qed (rule lock_table.exclusive_add lock_table.exclusive_unlock lock_table.exclusive_release_session
    lock_table.exclusive_release_fid; assumption)+

text \<open>The query of \<open>TgetLock\<close> answers a blocking lock exactly when the request would be refused.\<close>

lemma check_would_block_iff:
  "check_would_block t (lk_inode l) l s = None \<longleftrightarrow> snd (try_add_lock t s l)"
  by (auto simp: check_would_block_def try_add_lock_def Let_def find_None_iff list_ex_iff
      bind_eq_None_conv split: option.splits)

section \<open>Properties\<close>

text \<open>
  C21. Subtracting a range from a held lock leaves exactly the held bytes outside the range, with
  open-ended ranges (length zero) and ranges that would pass the last offset included.
\<close>

theorem subtract_lock_range_exact:
  "(\<Union>(s, l) \<in> set (subtract_lock_range held_start held_len remove_start remove_len). range_bytes s l)
     = range_bytes held_start held_len - range_bytes remove_start remove_len"
  by (rule subtract_lock_range_bytes)

text \<open>
  C22. In every lock table that any sequence of lock, unlock and release operations reaches, two
  sessions hold the same byte of a file together only with read locks, and one fid never holds a
  byte with two types.
\<close>

theorem lock_table_mutual_exclusion:
  assumes "lock_reachable t"
  shows "exclusive (holds t)"
  using assms by (rule lock_reachable_exclusive)

definition example_lock :: "lock_type \<Rightarrow> u64 \<Rightarrow> u64 \<Rightarrow> file_lock" where
  "example_lock ty start len = \<lparr>lk_type = ty, lk_start = start, lk_length = len, lk_proc_id = 1,
     lk_client_id = [], lk_fid = 4, lk_inode = 9\<rparr>"

theorem lock_table_mutual_exclusion_witness:
  "exclusive (holds (fst (try_add_lock (fst (try_add_lock Map.empty 1 (example_lock WriteLock 0 10))) 2
     (example_lock ReadLock 5 0))))"
  by (rule lock_table_mutual_exclusion) (intro lock_reachable.add lock_reachable.new)

text \<open>
  C23. A lock request is granted exactly when no other session holds a conflicting byte; a granted
  request gives the requesting fid the requested type on every byte of its range and changes no
  other byte, fid, session or file; a refused request changes nothing; and the blocking query
  reports a blocker exactly when the request would be refused.
\<close>

theorem try_add_lock_spec:
  "snd (try_add_lock t s l) =
     (\<not> (\<exists>s' f ty b. s' \<noteq> s \<and> b \<in> lock_bytes l \<and> holds t (lk_inode l) s' f ty b
           \<and> \<not> (lk_type l = ReadLock \<and> ty = ReadLock)))
   \<and> holds (fst (try_add_lock t s l)) ino s' f ty b =
     (if snd (try_add_lock t s l) \<and> ino = lk_inode l \<and> s' = s \<and> f = lk_fid l \<and> b \<in> lock_bytes l
      then ty = lk_type l else holds t ino s' f ty b)
   \<and> (check_would_block t (lk_inode l) l s = None) = snd (try_add_lock t s l)"
proof -
  have "holds (fst (try_add_lock t s l)) ino s' f ty b = holds t ino s' f ty b"
    if "\<not> snd (try_add_lock t s l)"
    using lock_table.add_refused [OF that] by simp
  then show ?thesis
    using lock_table.add_granted [of t s l] lock_table.add_held [of t s l ino s' f ty b]
      check_would_block_iff [of t l s] by auto
qed

end
