(* ===== verification/Repl_Types.thy ===== *)
theory Repl_Types
  imports Prelude
begin

text \<open>
  The validated scalars of the replication protocol (\<open>replication/types.rs\<close>). Every constructor
  that can refuse its argument returns an option or a sum; the lemmas state exactly which
  arguments are refused and that a constructed value carries the relation it was validated for.
\<close>

datatype writer_epoch = WriterEpoch (epoch_get: u64)

datatype ship_seqno = ShipSeqno (ship_get: u64)

definition writer_epoch_new :: "u64 \<Rightarrow> writer_epoch option" where
  "writer_epoch_new v = (if v = 0 then None else Some (WriterEpoch v))"

definition ship_seqno_new :: "u64 \<Rightarrow> ship_seqno option" where
  "ship_seqno_new v = (if v = 0 then None else Some (ShipSeqno v))"

definition checked_next :: "ship_seqno \<Rightarrow> ship_seqno option" where
  "checked_next s = map_option ShipSeqno (checked_add (ship_get s) 1)"

text \<open>\<open>map_or(0, ShipSeqno::get)\<close>, the wire form of an optional ship sequence number.\<close>

definition ship_wire :: "ship_seqno option \<Rightarrow> u64" where
  "ship_wire s = (case s of None \<Rightarrow> 0 | Some x \<Rightarrow> ship_get x)"

datatype prune_watermark = PruneWatermark "ship_seqno option"

definition prune_watermark_for_ship :: "u64 \<Rightarrow> ship_seqno \<Rightarrow> prune_watermark option" where
  "prune_watermark_for_ship v current =
     (let watermark = ship_seqno_new v in
      case watermark of
        Some w \<Rightarrow> if ship_get w \<ge> ship_get current then None else Some (PruneWatermark watermark)
      | None \<Rightarrow> Some (PruneWatermark watermark))"

fun prune_watermark_get :: "prune_watermark \<Rightarrow> u64" where
  "prune_watermark_get (PruneWatermark s) = ship_wire s"

record coverage_frontier =
  cf_applied_through :: "ship_seqno option"
  cf_durable_through :: "ship_seqno option"

definition coverage_frontier_new ::
  "ship_seqno option \<Rightarrow> ship_seqno option \<Rightarrow> coverage_frontier option" where
  "coverage_frontier_new applied durable =
     (case (applied, durable) of
        (None, Some _) \<Rightarrow> None
      | (Some a, Some d) \<Rightarrow>
          if ship_get d > ship_get a then None
          else Some \<lparr>cf_applied_through = applied, cf_durable_through = durable\<rparr>
      | _ \<Rightarrow> Some \<lparr>cf_applied_through = applied, cf_durable_through = durable\<rparr>)"

definition coverage_frontier_from_wire :: "u64 \<Rightarrow> u64 \<Rightarrow> coverage_frontier option" where
  "coverage_frontier_from_wire applied durable =
     coverage_frontier_new (ship_seqno_new applied) (ship_seqno_new durable)"

datatype solo_history = Never | Ever u64

fun solo_history_from_parts :: "u64 \<Rightarrow> bool \<Rightarrow> solo_history option" where
  "solo_history_from_parts n False = (if n = 0 then Some Never else None)"
| "solo_history_from_parts n True = Some (Ever n)"

fun commits_since_last_ship :: "solo_history \<Rightarrow> u64" where
  "commits_since_last_ship Never = 0"
| "commits_since_last_ship (Ever n) = n"

fun ran_solo :: "solo_history \<Rightarrow> bool" where
  "ran_solo Never = False"
| "ran_solo (Ever _) = True"

record ha_stamp =
  hs_writer_epoch :: writer_epoch
  hs_last_shipped :: "ship_seqno option"
  hs_solo_history :: solo_history
  hs_applied_through :: "ship_seqno option"

datatype invalid_ha_stamp =
    AppliedFrontierBehindShip u64 u64
  | UnacknowledgedApplyWithoutSoloHistory u64 u64

definition ha_stamp_new ::
  "writer_epoch \<Rightarrow> ship_seqno option \<Rightarrow> solo_history \<Rightarrow> ship_seqno option \<Rightarrow>
   invalid_ha_stamp + ha_stamp" where
  "ha_stamp_new epoch last_shipped history applied =
     (let l = ship_wire last_shipped; a = ship_wire applied in
      if a < l then Inl (AppliedFrontierBehindShip l a)
      else if a > l \<and> \<not> ran_solo history then Inl (UnacknowledgedApplyWithoutSoloHistory l a)
      else Inr \<lparr>hs_writer_epoch = epoch, hs_last_shipped = last_shipped,
                hs_solo_history = history, hs_applied_through = applied\<rparr>)"

text \<open>
  A value of the Rust types: the non-zero scalars are non-zero, and the frontiers are ordered.
\<close>

definition valid_ship :: "ship_seqno option \<Rightarrow> bool" where
  "valid_ship s = (s \<noteq> Some (ShipSeqno 0))"

definition valid_stamp :: "ha_stamp \<Rightarrow> bool" where
  "valid_stamp s \<longleftrightarrow>
     epoch_get (hs_writer_epoch s) \<noteq> 0 \<and> valid_ship (hs_last_shipped s)
     \<and> valid_ship (hs_applied_through s)
     \<and> ship_wire (hs_last_shipped s) \<le> ship_wire (hs_applied_through s)
     \<and> (ran_solo (hs_solo_history s) \<or>
         ship_wire (hs_last_shipped s) = ship_wire (hs_applied_through s))"

section \<open>Lemmas\<close>

lemma ship_seqno_new_wire [simp]: "valid_ship s \<Longrightarrow> ship_seqno_new (ship_wire s) = s"
  by (cases s rule: option.exhaust; cases "the s")
    (auto simp: ship_seqno_new_def ship_wire_def valid_ship_def)

lemma valid_ship_new [simp]: "valid_ship (ship_seqno_new v)"
  by (simp add: valid_ship_def ship_seqno_new_def)

lemma ship_wire_new [simp]: "ship_wire (ship_seqno_new v) = v"
  by (simp add: ship_wire_def ship_seqno_new_def)

lemma writer_epoch_new_get [simp]: "epoch_get e \<noteq> 0 \<Longrightarrow> writer_epoch_new (epoch_get e) = Some e"
  by (cases e) (simp add: writer_epoch_new_def)

lemma solo_history_from_parts_inverse [simp]:
  "solo_history_from_parts (commits_since_last_ship h) (ran_solo h) = Some h"
  by (cases h) simp_all

lemma ha_stamp_new_valid:
  "epoch_get e \<noteq> 0 \<Longrightarrow> valid_ship l \<Longrightarrow> valid_ship a \<Longrightarrow> ha_stamp_new e l h a = Inr s \<Longrightarrow> valid_stamp s"
  by (auto simp: ha_stamp_new_def valid_stamp_def Let_def split: if_splits)

lemma ha_stamp_new_fields:
  "valid_stamp s \<Longrightarrow>
   ha_stamp_new (hs_writer_epoch s) (hs_last_shipped s) (hs_solo_history s) (hs_applied_through s)
     = Inr s"
  by (auto simp: ha_stamp_new_def valid_stamp_def Let_def)

lemma prune_watermark_precedes:
  "prune_watermark_for_ship v current = Some w \<longleftrightarrow>
   w = PruneWatermark (ship_seqno_new v) \<and> (v = 0 \<or> v < ship_get current)"
  by (auto simp: prune_watermark_for_ship_def ship_seqno_new_def Let_def)

lemma coverage_frontier_ordered:
  "(\<exists>f. coverage_frontier_from_wire a d = Some f) \<longleftrightarrow> d \<le> a"
  by (auto simp: coverage_frontier_from_wire_def coverage_frontier_new_def ship_seqno_new_def
      word_gt_0 split: if_splits)

lemma checked_next_Some:
  "checked_next s = Some t \<Longrightarrow> unat (ship_get t) = Suc (unat (ship_get s))"
  by (auto simp: checked_next_def unat_checked_add)

end
