(* ===== verification/Key_Codec.thy ===== *)
theory Key_Codec
  imports Fs_Types Repl_Types
begin

text \<open>
  The key and value layouts of \<open>fs/key_codec.rs\<close>: every stored key is a domain prefix, a kind
  byte and big-endian ids; every fixed-width value is little-endian. The lemmas show that keys
  of one kind determine their ids, that keys of different kinds never coincide, that keys sort
  the way range scans assume, and that every decoder inverts its encoder.
\<close>

section \<open>Kinds and domains\<close>

datatype key_prefix =
    KInode | KExtent | KDirEntry | KDirScan | KTombstone | KOrphan | KStats | KSystem
  | KDirCookie | KSegCount

fun kind_byte :: "key_prefix \<Rightarrow> u8" where
  "kind_byte KInode = 0x01"
| "kind_byte KExtent = 0xFE"
| "kind_byte KDirEntry = 0x02"
| "kind_byte KDirScan = 0x03"
| "kind_byte KTombstone = 0x07"
| "kind_byte KOrphan = 0x08"
| "kind_byte KStats = 0x05"
| "kind_byte KSystem = 0x06"
| "kind_byte KDirCookie = 0x04"
| "kind_byte KSegCount = 0x09"

definition key_prefix_try_from :: "u8 \<Rightarrow> key_prefix option" where
  "key_prefix_try_from b =
     (if b = 0x01 then Some KInode
      else if b = 0xFE then Some KExtent
      else if b = 0x02 then Some KDirEntry
      else if b = 0x03 then Some KDirScan
      else if b = 0x07 then Some KTombstone
      else if b = 0x08 then Some KOrphan
      else if b = 0x05 then Some KStats
      else if b = 0x06 then Some KSystem
      else if b = 0x04 then Some KDirCookie
      else if b = 0x09 then Some KSegCount
      else None)"

text \<open>The ASCII bytes of \<open>b"meta"\<close> and \<open>b"extent"\<close>.\<close>

definition META_DOMAIN :: bytes where
  "META_DOMAIN = [0x6D, 0x65, 0x74, 0x61]"

definition EXTENT_DOMAIN :: bytes where
  "EXTENT_DOMAIN = [0x65, 0x78, 0x74, 0x65, 0x6E, 0x74]"

fun domain :: "key_prefix \<Rightarrow> bytes" where
  "domain KExtent = EXTENT_DOMAIN"
| "domain _ = META_DOMAIN"

definition kind_offset :: "key_prefix \<Rightarrow> nat" where
  "kind_offset p = length (domain p)"

definition id_offset :: "key_prefix \<Rightarrow> nat" where
  "id_offset p = kind_offset p + 1"

definition push_prefix :: "bytes \<Rightarrow> key_prefix \<Rightarrow> bytes" where
  "push_prefix key p = key @ domain p @ [kind_byte p]"

definition extent_key_size :: nat where
  "extent_key_size = id_offset KExtent + 8 * 2"

definition tombstone_key_size :: nat where
  "tombstone_key_size = id_offset KTombstone + 8 * 2"

definition orphan_key_size :: nat where
  "orphan_key_size = id_offset KOrphan + 8"

section \<open>Key builders\<close>

definition inode_key :: "inode_id \<Rightarrow> bytes" where
  "inode_key ino = push_prefix [] KInode @ to_be_bytes ino"

definition extent_key :: "inode_id \<Rightarrow> u64 \<Rightarrow> bytes" where
  "extent_key ino idx = push_prefix [] KExtent @ to_be_bytes ino @ to_be_bytes idx"

definition segcount_key :: "u64 \<Rightarrow> u64 \<Rightarrow> bytes" where
  "segcount_key epoch counter = push_prefix [] KSegCount @ to_be_bytes epoch @ to_be_bytes counter"

definition dir_entry_key :: "inode_id \<Rightarrow> bytes \<Rightarrow> bytes" where
  "dir_entry_key dir name = push_prefix [] KDirEntry @ to_be_bytes dir @ name"

definition dir_scan_prefix :: "inode_id \<Rightarrow> bytes" where
  "dir_scan_prefix dir = push_prefix [] KDirScan @ to_be_bytes dir"

definition dir_scan_key :: "inode_id \<Rightarrow> u64 \<Rightarrow> bytes" where
  "dir_scan_key dir cookie = push_prefix [] KDirScan @ to_be_bytes dir @ to_be_bytes cookie"

definition dir_scan_resume_key :: "inode_id \<Rightarrow> u64 \<Rightarrow> bytes" where
  "dir_scan_resume_key dir after = dir_scan_prefix dir @ to_be_bytes (after + 1)"

definition dir_cookie_counter_key :: "inode_id \<Rightarrow> bytes" where
  "dir_cookie_counter_key dir = push_prefix [] KDirCookie @ to_be_bytes dir"

definition tombstone_key :: "u64 \<Rightarrow> inode_id \<Rightarrow> bytes" where
  "tombstone_key timestamp ino =
     push_prefix [] KTombstone @ to_be_bytes timestamp @ to_be_bytes ino"

definition orphan_key :: "inode_id \<Rightarrow> bytes" where
  "orphan_key ino = push_prefix [] KOrphan @ to_be_bytes ino"

definition stats_shard_key :: "u64 \<Rightarrow> bytes" where
  "stats_shard_key shard = push_prefix [] KStats @ to_be_bytes shard"

definition system_counter_key :: bytes where
  "system_counter_key = push_prefix [] KSystem @ [0x01]"

definition ha_seqno_key :: bytes where
  "ha_seqno_key = push_prefix [] KSystem @ [0x02]"

definition lineage_key :: bytes where
  "lineage_key = push_prefix [] KSystem @ [0x03]"

definition taint_key :: bytes where
  "taint_key = push_prefix [] KSystem @ [0x04]"

definition last_orphan_sweep_key :: bytes where
  "last_orphan_sweep_key = push_prefix [] KSystem @ [0x05]"

definition prefix_range :: "key_prefix \<Rightarrow> bytes \<times> bytes" where
  "prefix_range p =
     (let start = push_prefix [] p; last_idx = length start - 1 in
      (start, start[last_idx := start ! last_idx + 1]))"

section \<open>Key parsers\<close>

datatype parsed_key =
    PDirScan u64
  | PTombstone inode_id
  | POrphan inode_id
  | PUnknown

definition parse_extent_key :: "bytes \<Rightarrow> u64 option" where
  "parse_extent_key key =
     (if length key \<noteq> extent_key_size then None
      else if \<not> starts_with EXTENT_DOMAIN key then None
      else if key ! kind_offset KExtent \<noteq> 0xFE then None
      else from_be_bytes (slice (id_offset KExtent + 8) extent_key_size key))"

definition parse_extent_key_full :: "bytes \<Rightarrow> (inode_id \<times> u64) option" where
  "parse_extent_key_full key =
     (if length key \<noteq> extent_key_size then None
      else if \<not> starts_with EXTENT_DOMAIN key then None
      else if key ! kind_offset KExtent \<noteq> 0xFE then None
      else let id_off = id_offset KExtent in
        Option.bind (from_be_bytes (slice id_off (id_off + 8) key)) (\<lambda>ino.
        Option.bind (from_be_bytes (slice (id_off + 8) extent_key_size key)) (\<lambda>extent.
          Some (ino, extent))))"

definition parse_segcount_key :: "bytes \<Rightarrow> (u64 \<times> u64) option" where
  "parse_segcount_key key =
     (let id_off = id_offset KSegCount in
      if length key \<noteq> id_off + 8 * 2 \<or> \<not> starts_with META_DOMAIN key
         \<or> key ! kind_offset KSegCount \<noteq> 0x09 then None
      else
        Option.bind (from_be_bytes (slice id_off (id_off + 8) key)) (\<lambda>epoch.
        Option.bind (from_be_bytes (drop (id_off + 8) key)) (\<lambda>counter.
          Some (epoch, counter))))"

definition peek_kind :: "bytes \<Rightarrow> key_prefix option" where
  "peek_kind key =
     (case strip_prefix EXTENT_DOMAIN key of
        Some rest \<Rightarrow>
          (case rest of [] \<Rightarrow> None
           | b # _ \<Rightarrow> Option.bind (key_prefix_try_from b)
                        (\<lambda>kind. if kind = KExtent then Some kind else None))
      | None \<Rightarrow>
          (case strip_prefix META_DOMAIN key of
             Some rest \<Rightarrow>
               (case rest of [] \<Rightarrow> None
                | b # _ \<Rightarrow> Option.bind (key_prefix_try_from b)
                             (\<lambda>kind. if kind \<noteq> KExtent then Some kind else None))
           | None \<Rightarrow> None))"

definition parse_key :: "bytes \<Rightarrow> parsed_key" where
  "parse_key key =
     (case peek_kind key of
        None \<Rightarrow> PUnknown
      | Some kind \<Rightarrow>
          let id_off = id_offset kind in
          (case kind of
             KDirScan \<Rightarrow>
               if length key \<noteq> id_off + 8 * 2 then PUnknown
               else (case from_be_bytes (slice (id_off + 8) (id_off + 8 * 2) key) of
                       Some cookie \<Rightarrow> PDirScan cookie | None \<Rightarrow> PUnknown)
           | KTombstone \<Rightarrow>
               if length key \<noteq> tombstone_key_size then PUnknown
               else (case from_be_bytes (slice (id_off + 8) tombstone_key_size key) of
                       Some ino \<Rightarrow> PTombstone ino | None \<Rightarrow> PUnknown)
           | KOrphan \<Rightarrow>
               if length key \<noteq> orphan_key_size then PUnknown
               else (case from_be_bytes (slice id_off orphan_key_size key) of
                       Some ino \<Rightarrow> POrphan ino | None \<Rightarrow> PUnknown)
           | _ \<Rightarrow> PUnknown))"

section \<open>Value codecs\<close>

definition encode_u64 :: "u64 \<Rightarrow> bytes" where
  "encode_u64 v = to_le_bytes v"

definition decode_u64 :: "bytes \<Rightarrow> u64 option" where
  "decode_u64 data = (if length data \<noteq> 8 then None else from_le_bytes (take 8 data))"

definition encode_segcount :: "u64 \<Rightarrow> u64 \<Rightarrow> bytes" where
  "encode_segcount live tot = to_le_bytes live @ to_le_bytes tot"

definition decode_segcount :: "bytes \<Rightarrow> (u64 \<times> u64) option" where
  "decode_segcount data =
     (if length data = 8 * 2 then
        Option.bind (from_le_bytes (take 8 data)) (\<lambda>live.
        Option.bind (from_le_bytes (drop 8 data)) (\<lambda>tot. Some (live, tot)))
      else if length data = 8 then
        Option.bind (from_le_bytes (take 8 data)) (\<lambda>live. Some (live, live))
      else None)"

definition encode_ha_stamp :: "ha_stamp \<Rightarrow> bytes" where
  "encode_ha_stamp s =
     to_le_bytes (epoch_get (hs_writer_epoch s))
     @ to_le_bytes (ship_wire (hs_last_shipped s))
     @ to_le_bytes (commits_since_last_ship (hs_solo_history s))
     @ to_le_bytes (ship_wire (hs_applied_through s))
     @ to_le_bytes (if ran_solo (hs_solo_history s) then 1 else 0 :: u64)"

definition result_ok :: "'e + 'a \<Rightarrow> 'a option" where
  "result_ok r = (case r of Inl _ \<Rightarrow> None | Inr x \<Rightarrow> Some x)"

definition decode_ha_stamp :: "bytes \<Rightarrow> ha_stamp option" where
  "decode_ha_stamp data =
     (if length data \<noteq> 8 * 2 \<and> length data \<noteq> 8 * 3 \<and> length data \<noteq> 8 * 5 then None
      else
        Option.bind (from_le_bytes (take 8 data)) (\<lambda>epoch.
        Option.bind (writer_epoch_new epoch) (\<lambda>writer_epoch.
        Option.bind (from_le_bytes (slice 8 (8 * 2) data)) (\<lambda>shipped.
        let last_shipped = ship_seqno_new shipped in
        if length data = 8 * 2 then
          result_ok (ha_stamp_new writer_epoch last_shipped (Ever 0) last_shipped)
        else
        Option.bind (from_le_bytes (slice (8 * 2) (8 * 3) data)) (\<lambda>solo.
        if length data = 8 * 3 then
          result_ok (ha_stamp_new writer_epoch last_shipped (Ever solo) last_shipped)
        else
        Option.bind (from_le_bytes (slice (8 * 3) (8 * 4) data)) (\<lambda>applied.
        let applied_through = ship_seqno_new applied in
        Option.bind (from_le_bytes (drop (8 * 4) data)) (\<lambda>solo_ever :: u64.
        Option.bind (if solo_ever = 0 then Some False
                     else if solo_ever = 1 then Some True else None) (\<lambda>ran_solo.
        Option.bind (solo_history_from_parts solo ran_solo) (\<lambda>solo_history.
          result_ok (ha_stamp_new writer_epoch last_shipped solo_history applied_through))))))))))"

definition encode_counter :: "u64 \<Rightarrow> bytes" where
  "encode_counter v = to_le_bytes v"

definition decode_counter :: "bytes \<Rightarrow> u64 fs_result" where
  "decode_counter data =
     (if length data \<noteq> 8 then Inl InvalidData else ok_or InvalidData (from_le_bytes data))"

definition encode_dir_entry :: "inode_id \<Rightarrow> u64 \<Rightarrow> bytes" where
  "encode_dir_entry ino cookie = to_le_bytes ino @ to_le_bytes cookie"

definition decode_dir_entry :: "bytes \<Rightarrow> (inode_id \<times> u64) fs_result" where
  "decode_dir_entry data =
     (if length data < 8 * 2 then Inl InvalidData
      else
        try_bind (ok_or InvalidData (from_le_bytes (take 8 data))) (\<lambda>ino.
        try_bind (ok_or InvalidData (from_le_bytes (slice 8 (8 * 2) data))) (\<lambda>cookie.
          Inr (ino, cookie))))"

definition encode_tombstone_size :: "u64 \<Rightarrow> bytes" where
  "encode_tombstone_size v = to_le_bytes v"

definition decode_tombstone_size :: "bytes \<Rightarrow> u64 fs_result" where
  "decode_tombstone_size data =
     (if length data \<noteq> 8 then Inl InvalidData else ok_or InvalidData (from_le_bytes data))"

section \<open>The key space as one type\<close>

text \<open>
  A logical key: which builder made the bytes, and with what arguments. The lemmas below are
  stated once over this type instead of once per pair of builders.
\<close>

datatype db_key =
    InodeKey inode_id
  | ExtentKey inode_id u64
  | DirEntryKey inode_id bytes
  | DirScanKey inode_id u64
  | TombstoneKey u64 inode_id
  | OrphanKey inode_id
  | StatsKey u64
  | SystemKey u8
  | DirCookieKey inode_id
  | SegCountKey u64 u64

fun key_kind :: "db_key \<Rightarrow> key_prefix" where
  "key_kind (InodeKey _) = KInode"
| "key_kind (ExtentKey _ _) = KExtent"
| "key_kind (DirEntryKey _ _) = KDirEntry"
| "key_kind (DirScanKey _ _) = KDirScan"
| "key_kind (TombstoneKey _ _) = KTombstone"
| "key_kind (OrphanKey _) = KOrphan"
| "key_kind (StatsKey _) = KStats"
| "key_kind (SystemKey _) = KSystem"
| "key_kind (DirCookieKey _) = KDirCookie"
| "key_kind (SegCountKey _ _) = KSegCount"

fun key_bytes :: "db_key \<Rightarrow> bytes" where
  "key_bytes (InodeKey i) = inode_key i"
| "key_bytes (ExtentKey i x) = extent_key i x"
| "key_bytes (DirEntryKey d n) = dir_entry_key d n"
| "key_bytes (DirScanKey d c) = dir_scan_key d c"
| "key_bytes (TombstoneKey t i) = tombstone_key t i"
| "key_bytes (OrphanKey i) = orphan_key i"
| "key_bytes (StatsKey s) = stats_shard_key s"
| "key_bytes (SystemKey s) = push_prefix [] KSystem @ [s]"
| "key_bytes (DirCookieKey d) = dir_cookie_counter_key d"
| "key_bytes (SegCountKey e c) = segcount_key e c"

text \<open>The part of a key after its kind byte.\<close>

fun key_rest :: "db_key \<Rightarrow> bytes" where
  "key_rest (InodeKey i) = to_be_bytes i"
| "key_rest (ExtentKey i x) = to_be_bytes i @ to_be_bytes x"
| "key_rest (DirEntryKey d n) = to_be_bytes d @ n"
| "key_rest (DirScanKey d c) = to_be_bytes d @ to_be_bytes c"
| "key_rest (TombstoneKey t i) = to_be_bytes t @ to_be_bytes i"
| "key_rest (OrphanKey i) = to_be_bytes i"
| "key_rest (StatsKey s) = to_be_bytes s"
| "key_rest (SystemKey s) = [s]"
| "key_rest (DirCookieKey d) = to_be_bytes d"
| "key_rest (SegCountKey e c) = to_be_bytes e @ to_be_bytes c"

section \<open>Lemmas on keys\<close>

lemmas key_builder_defs =
  inode_key_def extent_key_def dir_entry_key_def dir_scan_key_def dir_scan_prefix_def
  tombstone_key_def orphan_key_def stats_shard_key_def dir_cookie_counter_key_def
  segcount_key_def system_counter_key_def ha_seqno_key_def lineage_key_def taint_key_def
  last_orphan_sweep_key_def

lemmas offset_defs [simp] =
  kind_offset_def id_offset_def extent_key_size_def tombstone_key_size_def orphan_key_size_def

lemma domain_simps [simp]: "p \<noteq> KExtent \<Longrightarrow> domain p = META_DOMAIN"
  by (cases p) simp_all

lemma length_domains [simp]: "length META_DOMAIN = 4" "length EXTENT_DOMAIN = 6"
  by (simp_all add: META_DOMAIN_def EXTENT_DOMAIN_def)

lemma key_bytes_split: "key_bytes k = push_prefix [] (key_kind k) @ key_rest k"
  by (cases k) (simp_all add: key_builder_defs)

lemma kind_byte_inject [simp]: "kind_byte p = kind_byte q \<longleftrightarrow> p = q"
  by (cases p; cases q) simp_all

lemma key_prefix_try_from_kind_byte [simp]: "key_prefix_try_from (kind_byte p) = Some p"
  by (cases p) (simp_all add: key_prefix_try_from_def)

lemma key_prefix_try_from_Some: "key_prefix_try_from b = Some p \<longleftrightarrow> b = kind_byte p"
proof
  assume "key_prefix_try_from b = Some p"
  then show "b = kind_byte p"
    by (auto simp: key_prefix_try_from_def split: if_splits)
qed simp

lemma push_prefix_append_inject:
  "push_prefix [] p @ r = push_prefix [] q @ s \<longleftrightarrow> p = q \<and> r = s"
proof (cases "p = KExtent \<longleftrightarrow> q = KExtent")
  case True
  then show ?thesis
    by (cases "p = KExtent") (auto simp: push_prefix_def)
next
  case False
  then show ?thesis
    by (cases "p = KExtent") (auto simp: push_prefix_def META_DOMAIN_def EXTENT_DOMAIN_def)
qed

lemma key_rest_inject: "key_kind k = key_kind k' \<Longrightarrow> key_rest k = key_rest k' \<longleftrightarrow> k = k'"
  by (cases k; cases k') auto

lemma key_bytes_inject [simp]: "key_bytes k = key_bytes k' \<longleftrightarrow> k = k'"
  by (auto simp: key_bytes_split push_prefix_append_inject key_rest_inject)

lemma strip_other_domain [simp]: "strip_prefix EXTENT_DOMAIN (META_DOMAIN @ r) = None"
  by (simp add: strip_prefix_def starts_with_def META_DOMAIN_def EXTENT_DOMAIN_def)

lemma peek_kind_prefix [simp]: "peek_kind (push_prefix [] p @ r) = Some p"
  by (cases "p = KExtent")
    (simp_all add: peek_kind_def push_prefix_def flip: kind_byte.simps(2))

lemma peek_kind_key_bytes [simp]: "peek_kind (key_bytes k) = Some (key_kind k)"
  by (simp add: key_bytes_split)

text \<open>Kinds within a domain are one byte apart at least, so a kind's range holds only its keys.\<close>

lemma append_less_append [simp]: "(p :: bytes) @ r < p @ s \<longleftrightarrow> r < s"
  by (induction p) simp_all

lemma append_le_append [simp]: "(p :: bytes) @ r \<le> p @ s \<longleftrightarrow> r \<le> s"
  by (simp add: le_less)

lemma prefix_range_eq:
  "prefix_range p = (domain p @ [kind_byte p], domain p @ [kind_byte p + 1])"
  by (simp add: prefix_range_def push_prefix_def Let_def nth_append list_update_append)

lemma in_prefix_range_same_domain:
  assumes "domain p = domain q"
  shows "domain p @ [kind_byte p] \<le> push_prefix [] q @ r \<and>
         push_prefix [] q @ r < domain p @ [kind_byte p + 1] \<longleftrightarrow> p = q"
proof -
  have "kind_byte p \<noteq> - 1"
    by (cases p) simp_all
  then have "kind_byte q < kind_byte p + 1 \<longleftrightarrow> kind_byte q \<le> kind_byte p"
    by (rule word_less_Suc_iff)
  moreover have "[kind_byte p] \<le> kind_byte q # r \<longleftrightarrow> kind_byte p \<le> kind_byte q"
    by (auto simp: order.strict_iff_order)
  moreover have "kind_byte q # r < [kind_byte p + 1] \<longleftrightarrow> kind_byte q < kind_byte p + 1"
    by simp
  ultimately have "[kind_byte p] \<le> kind_byte q # r \<and> kind_byte q # r < [kind_byte p + 1] \<longleftrightarrow> p = q"
    using kind_byte_inject [of p q] by (meson order.antisym order.refl)
  then show ?thesis
    using assms by (simp add: push_prefix_def)
qed

lemma in_prefix_range_key_bytes:
  "fst (prefix_range p) \<le> key_bytes k \<and> key_bytes k < snd (prefix_range p) \<longleftrightarrow> key_kind k = p"
proof (cases "p = KExtent \<longleftrightarrow> key_kind k = KExtent")
  case True
  then have "domain p = domain (key_kind k)"
    by (cases "p = KExtent") auto
  then show ?thesis
    using in_prefix_range_same_domain [of p "key_kind k" "key_rest k"]
    by (auto simp: key_bytes_split prefix_range_eq)
next
  case False
  have extent_before_meta: "EXTENT_DOMAIN @ u < META_DOMAIN @ v" for u v
    by (simp add: META_DOMAIN_def EXTENT_DOMAIN_def)
  show ?thesis
  proof (cases "p = KExtent")
    case True
    then have "\<not> key_bytes k < snd (prefix_range p)"
      using False extent_before_meta [of "[kind_byte p + 1]"]
      by (simp add: key_bytes_split prefix_range_eq push_prefix_def not_less less_imp_le)
    then show ?thesis
      using True False by auto
  next
    case p: False
    then have "\<not> fst (prefix_range p) \<le> key_bytes k"
      using False extent_before_meta
      by (simp add: key_bytes_split prefix_range_eq push_prefix_def not_le)
    then show ?thesis
      using p False by auto
  qed
qed

text \<open>Order of the keys that range scans walk.\<close>

lemma extent_key_less [simp]: "extent_key i x < extent_key i y \<longleftrightarrow> x < y"
  by (simp add: extent_key_def u64be.enc_less)

lemma extent_key_le [simp]: "extent_key i x \<le> extent_key i y \<longleftrightarrow> x \<le> y"
  by (auto simp: le_less extent_key_def u64be.enc_less)

lemma extent_key_range:
  "extent_key i x \<le> extent_key j z \<and> extent_key j z < extent_key i y \<longleftrightarrow> j = i \<and> x \<le> z \<and> z < y"
  by (auto simp: extent_key_def u64be.enc_append_le u64be.enc_append_less le_less u64be.enc_less)

lemma dir_scan_key_less: "dir_scan_key d c < dir_scan_key d c' \<longleftrightarrow> c < c'"
  by (simp add: dir_scan_key_def u64be.enc_less)

lemma dir_scan_resume_key_le:
  "after \<noteq> u64_max \<Longrightarrow> dir_scan_resume_key d after \<le> dir_scan_key d c \<longleftrightarrow> after < c"
  by (auto simp: dir_scan_resume_key_def dir_scan_prefix_def dir_scan_key_def le_less u64be.enc_less
      word_less_nat_alt unat_Suc_word word_unat_eq_iff)

lemma tombstone_key_oldest_first: "t < t' \<Longrightarrow> tombstone_key t i < tombstone_key t' j"
  by (simp add: tombstone_key_def u64be.enc_append_less)

section \<open>Lemmas on parsers and value codecs\<close>

lemma nth_kind_byte [simp]: "(push_prefix [] p @ r) ! length (domain p) = kind_byte p"
  by (simp add: push_prefix_def nth_append)

lemma length_push_prefix [simp]: "length (push_prefix [] p) = Suc (length (domain p))"
  by (simp add: push_prefix_def)

lemma starts_with_domain [simp]: "starts_with (domain p) (push_prefix [] p @ r)"
  by (simp add: starts_with_def push_prefix_def)

lemma slice_append_second:
  "length u = a \<Longrightarrow> length v = b - a \<Longrightarrow> a \<le> b \<Longrightarrow> slice a b (u @ v @ w) = v"
  by (simp add: slice_def)

lemma parse_extent_key_full_extent_key [simp]:
  "parse_extent_key_full (extent_key i x) = Some (i, x)"
  using starts_with_domain [of KExtent "to_be_bytes i @ to_be_bytes x"]
    nth_kind_byte [of KExtent "to_be_bytes i @ to_be_bytes x"]
  by (simp add: parse_extent_key_full_def extent_key_def slice_def)

lemma parse_extent_key_extent_key [simp]: "parse_extent_key (extent_key i x) = Some x"
  using starts_with_domain [of KExtent "to_be_bytes i @ to_be_bytes x"]
    nth_kind_byte [of KExtent "to_be_bytes i @ to_be_bytes x"]
  by (simp add: parse_extent_key_def extent_key_def slice_def)

lemma parse_segcount_key_segcount_key [simp]:
  "parse_segcount_key (segcount_key e c) = Some (e, c)"
  using starts_with_domain [of KSegCount "to_be_bytes e @ to_be_bytes c"]
    nth_kind_byte [of KSegCount "to_be_bytes e @ to_be_bytes c"]
  by (simp add: parse_segcount_key_def segcount_key_def slice_def)

text \<open>Conversely, the two-id parsers accept nothing but the keys their builder makes.\<close>

lemma split_two_ids:
  assumes "length key = length (domain p) + 17" "starts_with (domain p) key"
    "key ! length (domain p) = kind_byte p"
  shows "key = push_prefix [] p @ slice (length (domain p) + 1) (length (domain p) + 9) key
           @ drop (length (domain p) + 9) key"
proof -
  obtain r where r: "key = domain p @ r"
    using assms(2) by (auto simp: starts_with_iff)
  then obtain s where "r = kind_byte p # s" "length s = 16"
    using assms by (cases r) (auto simp: nth_append)
  then show ?thesis
    using r by (simp add: push_prefix_def slice_def)
qed

lemma parse_extent_key_full_Some:
  "parse_extent_key_full key = Some (i, x) \<longleftrightarrow> key = extent_key i x"
proof
  assume p: "parse_extent_key_full key = Some (i, x)"
  then have "key = push_prefix [] KExtent @ slice 7 15 key @ drop 15 key"
    using split_two_ids [of key KExtent]
    by (auto simp: parse_extent_key_full_def split: if_splits)
  moreover have "slice 7 15 key = to_be_bytes i"
    using p by (auto simp: parse_extent_key_full_def Let_def bind_eq_Some_conv u64be.dec_Some_iff
        split: if_splits)
  moreover have "drop 15 key = to_be_bytes x"
    using p by (auto simp: parse_extent_key_full_def Let_def bind_eq_Some_conv u64be.dec_Some_iff
        slice_def split: if_splits)
  ultimately show "key = extent_key i x"
    by (simp add: extent_key_def)
qed simp

lemma parse_segcount_key_Some:
  "parse_segcount_key key = Some (e, c) \<longleftrightarrow> key = segcount_key e c"
proof
  assume p: "parse_segcount_key key = Some (e, c)"
  then have "key = push_prefix [] KSegCount @ slice 5 13 key @ drop 13 key"
    using split_two_ids [of key KSegCount]
    by (auto simp: parse_segcount_key_def Let_def split: if_splits)
  moreover have "slice 5 13 key = to_be_bytes e"
    using p by (auto simp: parse_segcount_key_def Let_def bind_eq_Some_conv u64be.dec_Some_iff
        split: if_splits)
  moreover have "drop 13 key = to_be_bytes c"
    using p by (auto simp: parse_segcount_key_def Let_def bind_eq_Some_conv u64be.dec_Some_iff
        split: if_splits)
  ultimately show "key = segcount_key e c"
    by (simp add: segcount_key_def)
qed simp

lemma parse_key_key_bytes:
  "parse_key (key_bytes k) =
     (case k of DirScanKey _ c \<Rightarrow> PDirScan c | TombstoneKey _ i \<Rightarrow> PTombstone i
      | OrphanKey i \<Rightarrow> POrphan i | _ \<Rightarrow> PUnknown)"
  unfolding parse_key_def peek_kind_key_bytes
  by (cases k) (simp_all add: key_builder_defs slice_def)

text \<open>
  What a reader of stored rows relies on: a value decodes to what was encoded. \<open>valid\<close> is the
  set of values the program can write.
\<close>

locale value_codec =
  fixes enc :: "'v \<Rightarrow> bytes"
    and dec :: "bytes \<Rightarrow> 'v option"
    and valid :: "'v \<Rightarrow> bool"
  assumes dec_enc: "valid v \<Longrightarrow> dec (enc v) = Some v"
begin

lemma enc_inject_valid: "valid v \<Longrightarrow> valid w \<Longrightarrow> enc v = enc w \<longleftrightarrow> v = w"
  by (metis dec_enc option.inject)

end

lemma slice_zero [simp]: "slice 0 b xs = take b xs"
  by (simp add: slice_def)

lemma decode_ha_stamp_encode:
  assumes "valid_stamp s"
  shows "decode_ha_stamp (encode_ha_stamp s) = Some s"
proof -
  have "valid_ship (hs_last_shipped s)" "valid_ship (hs_applied_through s)"
    "epoch_get (hs_writer_epoch s) \<noteq> 0"
    using assms by (simp_all add: valid_stamp_def)
  then show ?thesis
    using ha_stamp_new_fields [OF assms]
    by (cases "hs_solo_history s")
      (simp_all add: decode_ha_stamp_def encode_ha_stamp_def slice_def Let_def result_ok_def)
qed

lemma writer_epoch_new_nonzero: "writer_epoch_new v = Some e \<Longrightarrow> epoch_get e \<noteq> 0"
  by (auto simp: writer_epoch_new_def split: if_splits)

lemma result_ok_new_valid:
  "result_ok (ha_stamp_new e (ship_seqno_new l) h (ship_seqno_new a)) = Some s \<Longrightarrow>
   writer_epoch_new v = Some e \<Longrightarrow> valid_stamp s"
  using ha_stamp_new_valid [of e "ship_seqno_new l" "ship_seqno_new a" h s]
  by (auto simp: result_ok_def writer_epoch_new_nonzero split: sum.splits)

lemma decode_ha_stamp_valid: "decode_ha_stamp data = Some s \<Longrightarrow> valid_stamp s"
  by (auto simp: decode_ha_stamp_def Let_def bind_eq_Some_conv split: if_splits
      elim!: result_ok_new_valid)

interpretation ha_stamp: value_codec encode_ha_stamp decode_ha_stamp valid_stamp
  by unfold_locales (rule decode_ha_stamp_encode)

lemma decode_segcount_encode [simp]: "decode_segcount (encode_segcount live tot) = Some (live, tot)"
  by (simp add: decode_segcount_def encode_segcount_def)

interpretation segcount: value_codec "case_prod encode_segcount" decode_segcount "\<lambda>_. True"
  by unfold_locales auto

lemma decode_dir_entry_encode [simp]: "decode_dir_entry (encode_dir_entry i c) = Inr (i, c)"
  by (simp add: decode_dir_entry_def encode_dir_entry_def slice_def)

interpretation dir_entry_row:
  value_codec "case_prod encode_dir_entry" "\<lambda>bs. result_ok (decode_dir_entry bs)" "\<lambda>_. True"
  by unfold_locales (auto simp: result_ok_def)

lemma decode_counter_encode [simp]: "decode_counter (encode_counter v) = Inr v"
  by (simp add: decode_counter_def encode_counter_def)

interpretation counter_row:
  value_codec encode_counter "\<lambda>bs. result_ok (decode_counter bs)" "\<lambda>_. True"
  by unfold_locales (auto simp: result_ok_def)

lemma decode_tombstone_size_encode [simp]:
  "decode_tombstone_size (encode_tombstone_size v) = Inr v"
  by (simp add: decode_tombstone_size_def encode_tombstone_size_def)

interpretation tombstone_row:
  value_codec encode_tombstone_size "\<lambda>bs. result_ok (decode_tombstone_size bs)" "\<lambda>_. True"
  by unfold_locales (auto simp: result_ok_def)

interpretation u64_row: value_codec encode_u64 decode_u64 "\<lambda>_. True"
  by unfold_locales (simp add: encode_u64_def decode_u64_def)

section \<open>Properties\<close>

text \<open>
  C15. Two logical keys, of whatever kinds, have the same bytes only if they are the same key, so
  no row of one kind can overwrite or shadow a row of another, and the kind of a stored key is
  recovered from its bytes.
\<close>

theorem key_space_injective:
  "(key_bytes k = key_bytes k' \<longleftrightarrow> k = k') \<and> peek_kind (key_bytes k) = Some (key_kind k)"
  by simp

text \<open>
  C16. The half-open range that \<open>prefix_range\<close> gives for a kind contains the keys of that kind
  and no key of another kind, so a keyspace scan visits exactly the rows it is meant to.
\<close>

theorem prefix_range_exact:
  "(fst (prefix_range p) \<le> key_bytes k \<and> key_bytes k < snd (prefix_range p)) = (key_kind k = p)"
  by (rule in_prefix_range_key_bytes)

text \<open>
  C17. An extent range \<open>[extent_key i a, extent_key i b)\<close> contains exactly the extents of inode
  \<open>i\<close> with an index in \<open>[a, b)\<close>, and parsing a key returns the pair it was built from and
  accepts no other byte string.
\<close>

theorem extent_key_scan_and_parse:
  "(extent_key i a \<le> extent_key j x \<and> extent_key j x < extent_key i b \<longleftrightarrow> j = i \<and> a \<le> x \<and> x < b)
   \<and> (parse_extent_key_full key = Some (j, x) \<longleftrightarrow> key = extent_key j x)"
  using extent_key_range parse_extent_key_full_Some by blast

text \<open>
  C18. Resuming a directory scan after a cookie below the maximum visits exactly the later
  cookies of that directory.
\<close>

theorem dir_scan_resume_exact:
  assumes "after \<noteq> u64_max"
  shows "dir_scan_resume_key d after \<le> dir_scan_key d c \<longleftrightarrow> after < c"
  using assms by (rule dir_scan_resume_key_le)

theorem dir_scan_resume_exact_witness:
  "dir_scan_resume_key 7 2 \<le> dir_scan_key 7 3 \<and> \<not> dir_scan_resume_key 7 2 \<le> dir_scan_key 7 2"
  using dir_scan_resume_exact [of 2 7 3] dir_scan_resume_exact [of 2 7 2] by simp

text \<open>
  C19. The durable replication stamp: a stamp the program can construct is read back unchanged,
  and whatever byte string decodes at all, the two legacy layouts included, decodes to a stamp
  that satisfies the frontier ordering its constructor enforces.
\<close>

theorem ha_stamp_roundtrip:
  "(valid_stamp s \<longrightarrow> decode_ha_stamp (encode_ha_stamp s) = Some s)
   \<and> (decode_ha_stamp data = Some t \<longrightarrow> valid_stamp t)"
  using ha_stamp.dec_enc decode_ha_stamp_valid by blast

definition example_stamp :: ha_stamp where
  "example_stamp = \<lparr>hs_writer_epoch = WriterEpoch 3, hs_last_shipped = Some (ShipSeqno 4),
     hs_solo_history = Ever 1, hs_applied_through = Some (ShipSeqno 6)\<rparr>"

theorem ha_stamp_roundtrip_witness:
  "valid_stamp example_stamp \<and> decode_ha_stamp (encode_ha_stamp example_stamp) = Some example_stamp"
proof -
  have "valid_stamp example_stamp"
    by (simp add: example_stamp_def valid_stamp_def valid_ship_def ship_wire_def)
  then show ?thesis
    using ha_stamp_roundtrip [of example_stamp] by blast
qed

end
