(* ===== verification/Segment.thy ===== *)
theory Segment
  imports Prelude
begin

text \<open>
  Identities of \<open>segment.rs\<close>: the segment id with its canonical object key, and the frame
  location stored as the value of an extent key.
\<close>

section \<open>Segment ids and frame locations\<close>

record segid =
  sg_epoch :: u64
  sg_counter :: u64

record frame_loc =
  fl_segid :: segid
  fl_frame_index :: u32
  fl_byte_offset :: u64
  fl_byte_len :: u32

definition segid_new :: "u64 \<Rightarrow> u64 \<Rightarrow> segid" where
  "segid_new epoch counter = \<lparr>sg_epoch = epoch, sg_counter = counter\<rparr>"

definition frame_loc_encode :: "frame_loc \<Rightarrow> bytes" where
  "frame_loc_encode l =
     to_le_bytes (sg_epoch (fl_segid l)) @ to_le_bytes (sg_counter (fl_segid l))
     @ to_le_bytes (fl_frame_index l) @ to_le_bytes (fl_byte_offset l)
     @ to_le_bytes (fl_byte_len l)"

text \<open>\<open>rd_u64\<close> and \<open>rd_u32\<close>; the caller has checked the length.\<close>

definition rd_u64 :: "bytes \<Rightarrow> nat \<Rightarrow> u64" where
  "rd_u64 b i = word_of_nat (le_nat (slice i (i + 8) b))"

definition rd_u32 :: "bytes \<Rightarrow> nat \<Rightarrow> u32" where
  "rd_u32 b i = word_of_nat (le_nat (slice i (i + 4) b))"

definition frame_loc_decode :: "bytes \<Rightarrow> frame_loc option" where
  "frame_loc_decode b =
     (if length b \<noteq> 32 then None
      else Some \<lparr>fl_segid = segid_new (rd_u64 b 0) (rd_u64 b 8), fl_frame_index = rd_u32 b 16,
                 fl_byte_offset = rd_u64 b 20, fl_byte_len = rd_u32 b 28\<rparr>)"

section \<open>Object keys\<close>

definition hex_digit :: "nat \<Rightarrow> char" where
  "hex_digit n = (if n < 10 then char_of (48 + n) else char_of (87 + n))"

text \<open>\<open>{:0kx}\<close> of a value below \<open>16 ^ k\<close>: exactly \<open>k\<close> lower-case digits.\<close>

fun hex_fixed :: "nat \<Rightarrow> nat \<Rightarrow> string" where
  "hex_fixed 0 n = []"
| "hex_fixed (Suc k) n = hex_fixed k (n div 16) @ [hex_digit (n mod 16)]"

definition object_key :: "segid \<Rightarrow> string" where
  "object_key s =
     ''segments/'' @ hex_fixed 2 (unat (sg_counter s) mod 256) @ ''/''
     @ hex_fixed 16 (unat (sg_epoch s)) @ ''/'' @ hex_fixed 16 (unat (sg_counter s))"

text \<open>\<open>char::to_digit(16)\<close> and \<open>u64::from_str_radix(_, 16)\<close>: an optional plus sign, at least one
  digit of either case, no overflow.\<close>

definition hex_value :: "char \<Rightarrow> nat option" where
  "hex_value c =
     (let n = of_char c in
      if 48 \<le> n \<and> n \<le> 57 then Some (n - 48)
      else if 97 \<le> n \<and> n \<le> 102 then Some (n - 87)
      else if 65 \<le> n \<and> n \<le> 70 then Some (n - 55)
      else None)"

fun parse_hex_digits :: "nat \<Rightarrow> string \<Rightarrow> nat option" where
  "parse_hex_digits acc [] = Some acc"
| "parse_hex_digits acc (c # cs) =
     (case hex_value c of None \<Rightarrow> None | Some d \<Rightarrow> parse_hex_digits (16 * acc + d) cs)"

definition from_str_radix16 :: "string \<Rightarrow> u64 option" where
  "from_str_radix16 s =
     (let digits = (case s of c # cs \<Rightarrow> if c = CHR ''+'' then cs else s | [] \<Rightarrow> s) in
      if digits = [] then None
      else (case parse_hex_digits 0 digits of
              None \<Rightarrow> None
            | Some n \<Rightarrow> if n < 2 ^ 64 then Some (word_of_nat n) else None))"

fun split_once :: "char \<Rightarrow> string \<Rightarrow> (string \<times> string) option" where
  "split_once d [] = None"
| "split_once d (c # cs) =
     (if c = d then Some ([], cs)
      else map_option (\<lambda>(a, b). (c # a, b)) (split_once d cs))"

definition from_object_key :: "string \<Rightarrow> segid option" where
  "from_object_key key =
     Option.bind (strip_prefix ''segments/'' key) (\<lambda>rest.
     Option.bind (split_once CHR ''/'' rest) (\<lambda>(_, rest).
     Option.bind (split_once CHR ''/'' rest) (\<lambda>(epoch, counter).
     Option.bind (from_str_radix16 epoch) (\<lambda>e.
     Option.bind (from_str_radix16 counter) (\<lambda>c.
       let s = segid_new e c in if object_key s = key then Some s else None)))))"

section \<open>Lemmas\<close>

lemma length_to_le_bytes_u64 [simp]: "length (to_le_bytes (w :: u64)) = 8"
  by simp

lemma le_nat_u64 [simp]: "word_of_nat (le_nat (to_le_bytes w)) = (w :: u64)"
  using le_word_bytes [of 8 w] by simp

lemma le_nat_u32 [simp]: "word_of_nat (le_nat (to_le_bytes w)) = (w :: u32)"
  using le_word_bytes [of 4 w] by simp

lemma frame_loc_roundtrip [simp]: "frame_loc_decode (frame_loc_encode l) = Some l"
  by (simp add: frame_loc_decode_def frame_loc_encode_def rd_u64_def rd_u32_def slice_def
      segid_new_def)

lemma hex_value_digit: "n < 16 \<Longrightarrow> hex_value (hex_digit n) = Some n"
  by (simp add: hex_value_def hex_digit_def)

lemma hex_digit_not: "n < 16 \<Longrightarrow> hex_digit n \<noteq> CHR ''/'' \<and> hex_digit n \<noteq> CHR ''+''"
proof -
  assume "n < 16"
  moreover have "hex_value CHR ''/'' = None" "hex_value CHR ''+'' = None"
    by (simp_all add: hex_value_def)
  ultimately show ?thesis
    using hex_value_digit [of n] by auto
qed

lemma length_hex_fixed [simp]: "length (hex_fixed k n) = k"
  by (induction k arbitrary: n) simp_all

lemma hex_fixed_chars: "c \<in> set (hex_fixed k n) \<Longrightarrow> c \<noteq> CHR ''/'' \<and> c \<noteq> CHR ''+''"
proof (induction k arbitrary: n)
  case (Suc k)
  then show ?case
    using hex_digit_not [of "n mod 16"] by auto
qed simp

lemma parse_hex_append:
  "parse_hex_digits a (s @ t) = Option.bind (parse_hex_digits a s) (\<lambda>b. parse_hex_digits b t)"
  by (induction s arbitrary: a) (simp_all split: option.split)

lemma parse_hex_fixed: "n < 16 ^ k \<Longrightarrow> parse_hex_digits 0 (hex_fixed k n) = Some n"
  by (induction k arbitrary: n)
    (simp_all add: parse_hex_append hex_value_digit less_mult_imp_div_less mult.commute)

lemma from_str_radix16_fixed: "from_str_radix16 (hex_fixed 16 (unat w)) = Some w"
proof -
  let ?s = "hex_fixed 16 (unat w)"
  obtain c cs where s: "?s = c # cs"
    by (metis length_hex_fixed length_0_conv neq_Nil_conv zero_neq_numeral)
  then have "c \<noteq> CHR ''+''"
    using hex_fixed_chars [of c 16 "unat w"] by simp
  moreover have "parse_hex_digits 0 ?s = Some (unat w)"
    by (rule parse_hex_fixed) simp
  ultimately show ?thesis
    using s by (simp add: from_str_radix16_def del: hex_fixed.simps)
qed

lemma split_once_append: "d \<notin> set a \<Longrightarrow> split_once d (a @ d # b) = Some (a, b)"
  by (induction a) auto

lemma from_object_key_object_key: "from_object_key (object_key s) = Some s"
proof -
  have eta: "segid_new (sg_epoch s) (sg_counter s) = s"
    by (simp add: segid_new_def)
  have no_slash: "CHR ''/'' \<notin> set (hex_fixed k n)" for k n
    using hex_fixed_chars by blast
  have strip: "strip_prefix ''segments/'' (object_key s) =
      Some (hex_fixed 2 (unat (sg_counter s) mod 256) @ CHR ''/'' #
        (hex_fixed 16 (unat (sg_epoch s)) @ CHR ''/'' # hex_fixed 16 (unat (sg_counter s))))"
    unfolding object_key_def strip_prefix_append by (simp del: hex_fixed.simps)
  show ?thesis
    unfolding from_object_key_def strip
    by (simp add: split_once_append [OF no_slash] from_str_radix16_fixed eta
        Let_def del: hex_fixed.simps)
qed

lemma from_object_key_Some: "from_object_key key = Some s \<Longrightarrow> object_key s = key"
  by (auto simp: from_object_key_def bind_eq_Some_conv Let_def split: if_splits)

section \<open>Properties\<close>

text \<open>
  C24. A segment's object key parses back to that segment, and no other string does: a listed
  object is attributed to a segment exactly when its name is the canonical name of that segment.
\<close>

theorem object_key_canonical: "from_object_key key = Some s \<longleftrightarrow> key = object_key s"
  using from_object_key_object_key from_object_key_Some by metis

end
