(* ===== verification/Dedup.thy ===== *)
theory Dedup
  imports Fs_Types
begin

text \<open>
  Results of completed mutations kept for retries (\<open>dedup.rs\<close>): the result type, the extraction
  each operation applies to a replayed result, and the wire form shipped to the standby, with
  the bincode serializer as a parameter.
\<close>

type_synonym op_id = bytes

datatype dedup_result =
    DrApplied
  | DrCreate inode_id file_attributes
  | DrMkdir inode_id file_attributes
  | DrMknod inode_id file_attributes
  | DrSymlink inode_id file_attributes
  | DrLink inode_id file_attributes
  | DrSetattr file_attributes
  | DrWrite file_attributes
  | DrFallocate file_attributes
  | DrError u32
  | DrRemove
  | DrRename

record dedup_entry =
  dd_op_id :: op_id
  dd_result :: dedup_result

definition has_op_id :: "op_id \<Rightarrow> bool" where
  "has_op_id op = list_ex (\<lambda>b. b \<noteq> 0) op"

definition no_op_id :: op_id where
  "no_op_id = replicate 16 0"

fun into_create :: "dedup_result \<Rightarrow> (inode_id \<times> file_attributes) option" where
  "into_create (DrCreate i a) = Some (i, a)"
| "into_create _ = None"

fun into_mkdir :: "dedup_result \<Rightarrow> (inode_id \<times> file_attributes) option" where
  "into_mkdir (DrMkdir i a) = Some (i, a)"
| "into_mkdir _ = None"

fun into_mknod :: "dedup_result \<Rightarrow> (inode_id \<times> file_attributes) option" where
  "into_mknod (DrMknod i a) = Some (i, a)"
| "into_mknod _ = None"

fun into_symlink :: "dedup_result \<Rightarrow> (inode_id \<times> file_attributes) option" where
  "into_symlink (DrSymlink i a) = Some (i, a)"
| "into_symlink _ = None"

fun into_link :: "dedup_result \<Rightarrow> (inode_id \<times> file_attributes) option" where
  "into_link (DrLink i a) = Some (i, a)"
| "into_link _ = None"

fun into_setattr :: "dedup_result \<Rightarrow> file_attributes option" where
  "into_setattr (DrSetattr a) = Some a"
| "into_setattr _ = None"

fun into_write :: "dedup_result \<Rightarrow> file_attributes option" where
  "into_write (DrWrite a) = Some a"
| "into_write _ = None"

fun into_fallocate :: "dedup_result \<Rightarrow> file_attributes option" where
  "into_fallocate (DrFallocate a) = Some a"
| "into_fallocate _ = None"

fun into_remove :: "dedup_result \<Rightarrow> unit option" where
  "into_remove DrRemove = Some ()"
| "into_remove _ = None"

fun into_rename :: "dedup_result \<Rightarrow> unit option" where
  "into_rename DrRename = Some ()"
| "into_rename _ = None"

fun replay_inode :: "dedup_result \<Rightarrow> inode_id option" where
  "replay_inode (DrCreate i _) = Some i"
| "replay_inode _ = None"

section \<open>Wire form\<close>

datatype dedup_wire_error =
    EmptyResult
  | UnsupportedVersion u8
  | InvalidOpIdLength nat
  | MissingOpId
  | InvalidResult

definition encode_wire :: "(dedup_result \<Rightarrow> bytes) \<Rightarrow> dedup_result \<Rightarrow> bytes" where
  "encode_wire ser r = 1 # ser r"

definition decode_wire :: "(bytes \<Rightarrow> dedup_result option) \<Rightarrow> bytes \<Rightarrow> dedup_wire_error + dedup_result" where
  "decode_wire de raw =
     (case raw of
        [] \<Rightarrow> Inl EmptyResult
      | version # encoded \<Rightarrow>
          if version \<noteq> 1 then Inl (UnsupportedVersion version)
          else ok_or InvalidResult (de encoded))"

definition dedup_entry_from_wire ::
  "(bytes \<Rightarrow> dedup_result option) \<Rightarrow> bytes \<Rightarrow> bytes \<Rightarrow> dedup_wire_error + dedup_entry" where
  "dedup_entry_from_wire de op result =
     (if length op \<noteq> 16 then Inl (InvalidOpIdLength (length op))
      else if \<not> has_op_id op then Inl MissingOpId
      else try_bind (decode_wire de result) (\<lambda>r. Inr \<lparr>dd_op_id = op, dd_result = r\<rparr>))"

definition dedup_entry_to_wire_parts ::
  "(dedup_result \<Rightarrow> bytes) \<Rightarrow> dedup_entry \<Rightarrow> dedup_wire_error + bytes \<times> bytes" where
  "dedup_entry_to_wire_parts ser e =
     (if \<not> has_op_id (dd_op_id e) then Inl MissingOpId
      else Inr (dd_op_id e, encode_wire ser (dd_result e)))"

section \<open>Lemmas\<close>

lemma no_op_id_absent [simp]: "\<not> has_op_id no_op_id"
  by (simp add: has_op_id_def no_op_id_def list_ex_iff)

lemma dedup_entry_wire_roundtrip:
  assumes "\<And>r. de (ser r) = Some r" "length (dd_op_id e) = 16"
    and "dedup_entry_to_wire_parts ser e = Inr (op, raw)"
  shows "dedup_entry_from_wire de op raw = Inr e"
  using assms by (auto simp: dedup_entry_to_wire_parts_def dedup_entry_from_wire_def
      encode_wire_def decode_wire_def split: if_splits)

end
