(* ===== verification/Serializer.thy ===== *)
theory Serializer
  imports Fs_Types
begin

text \<open>
  A concrete serializer for the values the program hands to bincode. The development only relies
  on deserializing what was serialized; this instance shows that such a pair of functions exists.
  A stream coder reads back what was written and leaves the rest of the input, so coders compose.
\<close>

type_synonym 'a ser = "'a \<Rightarrow> bytes"
type_synonym 'a de = "bytes \<Rightarrow> ('a \<times> bytes) option"

definition stream_law :: "'a ser \<Rightarrow> 'a de \<Rightarrow> bool" where
  "stream_law ser de \<longleftrightarrow> (\<forall>x r. de (ser x @ r) = Some (x, r))"

fun ser_bytes :: "bytes ser" where
  "ser_bytes [] = [0]"
| "ser_bytes (b # bs) = 1 # b # ser_bytes bs"

fun de_bytes :: "bytes de" where
  "de_bytes (t # b # bs) =
     (if t = 0 then Some ([], b # bs) else map_option (\<lambda>(x, r). (b # x, r)) (de_bytes bs))"
| "de_bytes [t] = Some ([], [])"
| "de_bytes [] = None"

definition ser_u64 :: "u64 ser" where
  "ser_u64 w = to_le_bytes w"

definition de_u64 :: "u64 de" where
  "de_u64 bs = map_option (\<lambda>w. (w, drop 8 bs)) (from_le_bytes (take 8 bs))"

definition ser_u32 :: "u32 ser" where
  "ser_u32 w = to_le_bytes w"

definition de_u32 :: "u32 de" where
  "de_u32 bs = map_option (\<lambda>w. (w, drop 4 bs)) (from_le_bytes (take 4 bs))"

fun ser_pair :: "'a ser \<Rightarrow> 'b ser \<Rightarrow> ('a \<times> 'b) ser" where
  "ser_pair sa sb (a, b) = sa a @ sb b"

definition de_pair :: "'a de \<Rightarrow> 'b de \<Rightarrow> ('a \<times> 'b) de" where
  "de_pair da db bs =
     (case da bs of None \<Rightarrow> None | Some (a, r) \<Rightarrow> map_option (\<lambda>(b, r'). ((a, b), r')) (db r))"

fun ser_option :: "'a ser \<Rightarrow> 'a option ser" where
  "ser_option sa None = [0]"
| "ser_option sa (Some a) = 1 # sa a"

fun de_option :: "'a de \<Rightarrow> 'a option de" where
  "de_option da (t # bs) = (if t = 0 then Some (None, bs) else map_option (\<lambda>(a, r). (Some a, r)) (da bs))"
| "de_option da [] = None"

definition ser_via :: "('b \<Rightarrow> 'a) \<Rightarrow> 'a ser \<Rightarrow> 'b ser" where
  "ser_via f sa x = sa (f x)"

definition de_via :: "('a \<Rightarrow> 'b) \<Rightarrow> 'a de \<Rightarrow> 'b de" where
  "de_via g da bs = map_option (\<lambda>(a, r). (g a, r)) (da bs)"

definition de_all :: "'a de \<Rightarrow> bytes \<Rightarrow> 'a option" where
  "de_all da bs = map_option fst (da bs)"

lemma law_bytes: "stream_law ser_bytes de_bytes"
proof -
  have "de_bytes (ser_bytes x @ r) = Some (x, r)" for x r
    by (induction x) (simp_all, cases r, simp_all)
  then show ?thesis
    by (simp add: stream_law_def)
qed

lemma law_u64: "stream_law ser_u64 de_u64"
  by (simp add: stream_law_def ser_u64_def de_u64_def)

lemma law_u32: "stream_law ser_u32 de_u32"
  by (simp add: stream_law_def ser_u32_def de_u32_def)

lemma law_pair: "stream_law sa da \<Longrightarrow> stream_law sb db \<Longrightarrow> stream_law (ser_pair sa sb) (de_pair da db)"
  by (auto simp: stream_law_def de_pair_def)

lemma law_option: "stream_law sa da \<Longrightarrow> stream_law (ser_option sa) (de_option da)"
proof -
  assume law: "stream_law sa da"
  have "de_option da (ser_option sa x @ r) = Some (x, r)" for x r
    using law by (cases x) (simp_all add: stream_law_def)
  then show ?thesis
    by (simp add: stream_law_def)
qed

lemma law_via: "stream_law sa da \<Longrightarrow> (\<And>x. g (f x) = x) \<Longrightarrow> stream_law (ser_via f sa) (de_via g da)"
  by (simp add: stream_law_def ser_via_def de_via_def)

lemma de_all_ser: "stream_law ser de \<Longrightarrow> de_all de (ser x) = Some x"
  unfolding stream_law_def de_all_def by (metis append_Nil2 fst_conv option.simps(9))

section \<open>Inodes\<close>

type_synonym flat_attrs =
  "u64 \<times> u32 \<times> u64 \<times> u32 \<times> u64 \<times> u32 \<times> u32 \<times> u32 \<times> u32 \<times> bytes option \<times> u32"

fun attrs_flat :: "attrs \<Rightarrow> flat_attrs" where
  "attrs_flat a = (i_mtime a, i_mtime_nsec a, i_ctime a, i_ctime_nsec a, i_atime a, i_atime_nsec a,
     i_mode a, i_uid a, i_gid a, i_name a, i_nlink a)"

fun attrs_unflat :: "flat_attrs \<Rightarrow> attrs" where
  "attrs_unflat (mt, mn, ct, cn, at, an, mode, uid, gid, name, nlink) =
     \<lparr>i_mtime = mt, i_mtime_nsec = mn, i_ctime = ct, i_ctime_nsec = cn, i_atime = at,
      i_atime_nsec = an, i_mode = mode, i_uid = uid, i_gid = gid, i_name = name, i_nlink = nlink\<rparr>"

type_synonym flat_inode =
  "u32 \<times> attrs \<times> u64 \<times> u64 option \<times> bytes \<times> (u32 \<times> u32) option"

fun inode_flat :: "inode \<Rightarrow> flat_inode" where
  "inode_flat (File f) = (0, f_attrs f, f_size f, f_parent f, [], None)"
| "inode_flat (Directory d) = (1, d_attrs d, d_entry_count d, Some (d_parent d), [], None)"
| "inode_flat (Symlink l) = (2, s_attrs l, 0, s_parent l, s_target l, None)"
| "inode_flat (Fifo p) = (3, p_attrs p, 0, p_parent p, [], p_rdev p)"
| "inode_flat (Socket p) = (4, p_attrs p, 0, p_parent p, [], p_rdev p)"
| "inode_flat (CharDevice p) = (5, p_attrs p, 0, p_parent p, [], p_rdev p)"
| "inode_flat (BlockDevice p) = (6, p_attrs p, 0, p_parent p, [], p_rdev p)"

fun inode_unflat :: "flat_inode \<Rightarrow> inode" where
  "inode_unflat (k, a, n, parent, target, rdev) =
     (let special = \<lparr>p_attrs = a, p_parent = parent, p_rdev = rdev\<rparr> in
      if k = 0 then File \<lparr>f_attrs = a, f_size = n, f_parent = parent\<rparr>
      else if k = 1 then
        Directory \<lparr>d_attrs = a, d_entry_count = n, d_parent = (case parent of Some p \<Rightarrow> p | None \<Rightarrow> 0)\<rparr>
      else if k = 2 then Symlink \<lparr>s_attrs = a, s_target = target, s_parent = parent\<rparr>
      else if k = 3 then Fifo special
      else if k = 4 then Socket special
      else if k = 5 then CharDevice special
      else BlockDevice special)"

definition ser_attrs :: "attrs ser" where
  "ser_attrs = ser_via attrs_flat
     (ser_pair ser_u64 (ser_pair ser_u32 (ser_pair ser_u64 (ser_pair ser_u32 (ser_pair ser_u64
     (ser_pair ser_u32 (ser_pair ser_u32 (ser_pair ser_u32 (ser_pair ser_u32
     (ser_pair (ser_option ser_bytes) ser_u32))))))))))"

definition de_attrs :: "attrs de" where
  "de_attrs = de_via attrs_unflat
     (de_pair de_u64 (de_pair de_u32 (de_pair de_u64 (de_pair de_u32 (de_pair de_u64
     (de_pair de_u32 (de_pair de_u32 (de_pair de_u32 (de_pair de_u32
     (de_pair (de_option de_bytes) de_u32))))))))))"

definition ser_inode :: "inode ser" where
  "ser_inode = ser_via inode_flat
     (ser_pair ser_u32 (ser_pair ser_attrs (ser_pair ser_u64 (ser_pair (ser_option ser_u64)
     (ser_pair ser_bytes (ser_option (ser_pair ser_u32 ser_u32)))))))"

definition de_inode :: "inode de" where
  "de_inode = de_via inode_unflat
     (de_pair de_u32 (de_pair de_attrs (de_pair de_u64 (de_pair (de_option de_u64)
     (de_pair de_bytes (de_option (de_pair de_u32 de_u32)))))))"

lemma attrs_unflat_flat: "attrs_unflat (attrs_flat a) = a"
  by (cases a) simp

lemma inode_unflat_flat: "inode_unflat (inode_flat i) = i"
  by (cases i) simp_all

lemmas stream_laws = law_bytes law_u64 law_u32 law_pair law_option

lemma law_attrs: "stream_law ser_attrs de_attrs"
  unfolding ser_attrs_def de_attrs_def by (intro law_via stream_laws attrs_unflat_flat)

lemma law_inode: "stream_law ser_inode de_inode"
  unfolding ser_inode_def de_inode_def by (intro law_via stream_laws law_attrs inode_unflat_flat)

end
