(* ===== verification/Meta_Store.thy ===== *)
theory Meta_Store
  imports Key_Codec Segment Dedup Serializer
begin

text \<open>
  The metadata store: the rows the program keeps, the transaction that collects a batch of row
  changes with its side channels (\<open>db.rs\<close>), and the directory, inode, orphan and tombstone
  stores of \<open>fs/store\<close> as functions that read rows and extend a transaction.

  Rows are kept typed, one map per key kind. The last sections show that the byte-level
  operations the program issues implement the typed ones, with the bincode serializers as
  parameters, and that the merged write batch of several transactions has the effect of
  applying them in order.
\<close>

section \<open>Rows\<close>

datatype dir_scan_value =
    WithInode inode_id inode
  | Reference inode_id

fun scan_inode_id :: "dir_scan_value \<Rightarrow> inode_id" where
  "scan_inode_id (WithInode ino _) = ino"
| "scan_inode_id (Reference ino) = ino"

fun scan_into_inode :: "dir_scan_value \<Rightarrow> inode option" where
  "scan_into_inode (WithInode _ i) = Some i"
| "scan_into_inode (Reference _) = None"

definition COOKIE_FIRST_ENTRY :: u64 where
  "COOKIE_FIRST_ENTRY = 3"

record meta =
  m_inodes :: "inode_id \<rightharpoonup> inode"
  m_entries :: "inode_id \<times> bytes \<rightharpoonup> inode_id \<times> u64"
  m_scans :: "inode_id \<times> u64 \<rightharpoonup> bytes \<times> dir_scan_value"
  m_cookies :: "inode_id \<rightharpoonup> u64"
  m_orphans :: "inode_id set"
  m_tombs :: "u64 \<times> inode_id \<rightharpoonup> u64"
  m_extents :: "inode_id \<times> u64 \<rightharpoonup> frame_loc"

text \<open>Name, length prefix and serialized value of a scan row.\<close>

definition encode_dir_scan_value :: "(dir_scan_value \<Rightarrow> bytes) \<Rightarrow> bytes \<Rightarrow> dir_scan_value \<Rightarrow> bytes" where
  "encode_dir_scan_value ser name v = to_le_bytes (word_of_nat (length name) :: u32) @ name @ ser v"

definition decode_dir_scan_value ::
  "(bytes \<Rightarrow> dir_scan_value option) \<Rightarrow> bytes \<Rightarrow> (bytes \<times> dir_scan_value) fs_result" where
  "decode_dir_scan_value de data =
     (if length data < 4 then Inl InvalidData
      else
        let name_len = le_nat (take 4 data) in
        if length data < 4 + name_len then Inl InvalidData
        else
          let name = slice 4 (4 + name_len) data in
          try_bind (ok_or InvalidData (de (drop (4 + name_len) data))) (\<lambda>v. Inr (name, v)))"

section \<open>Transactions\<close>

datatype txop =
    PutInode inode_id inode
  | DelInode inode_id
  | PutEntry inode_id bytes inode_id u64
  | DelEntry inode_id bytes
  | PutScan inode_id u64 bytes dir_scan_value
  | DelScan inode_id u64
  | PutCookie inode_id u64
  | DelCookie inode_id
  | PutOrphan inode_id
  | DelOrphan inode_id
  | PutTombstone u64 inode_id u64
  | DelTombstone u64 inode_id
  | PutExtent inode_id u64 frame_loc
  | DelExtent inode_id u64

record stats_delta =
  sd_inode_id :: inode_id
  sd_bytes :: int
  sd_inodes :: int

record txn =
  tx_ops :: "txop list"
  tx_inode_updates :: "(inode_id \<times> inode option) list"
  tx_entry_updates :: "((inode_id \<times> bytes) \<times> (inode_id \<times> u64) option) list"
  tx_extent_updates :: "((inode_id \<times> u64) \<times> frame_loc option) list"
  tx_stats_deltas :: "stats_delta list"
  tx_seg_deltas :: "((u64 \<times> u64) \<times> int \<times> int) list"
  tx_dedup_entry :: "dedup_entry option"

definition transaction_new :: txn where
  "transaction_new = \<lparr>tx_ops = [], tx_inode_updates = [], tx_entry_updates = [],
     tx_extent_updates = [], tx_stats_deltas = [], tx_seg_deltas = [], tx_dedup_entry = None\<rparr>"

definition put_op :: "txop \<Rightarrow> txn \<Rightarrow> txn" where
  "put_op p t = t\<lparr>tx_ops := tx_ops t @ [p]\<rparr>"

definition set_dedup_result :: "op_id \<Rightarrow> dedup_result \<Rightarrow> txn \<Rightarrow> txn" where
  "set_dedup_result op r t =
     t\<lparr>tx_dedup_entry := (if has_op_id op then Some \<lparr>dd_op_id = op, dd_result = r\<rparr> else None)\<rparr>"

definition update_cached_inode :: "inode_id \<Rightarrow> inode option \<Rightarrow> txn \<Rightarrow> txn" where
  "update_cached_inode ino v t = t\<lparr>tx_inode_updates := tx_inode_updates t @ [(ino, v)]\<rparr>"

definition update_cached_directory_entry ::
  "inode_id \<Rightarrow> bytes \<Rightarrow> (inode_id \<times> u64) option \<Rightarrow> txn \<Rightarrow> txn" where
  "update_cached_directory_entry dir name v t =
     t\<lparr>tx_entry_updates := tx_entry_updates t @ [((dir, name), v)]\<rparr>"

definition update_cached_extent_location ::
  "inode_id \<Rightarrow> u64 \<Rightarrow> frame_loc option \<Rightarrow> txn \<Rightarrow> txn" where
  "update_cached_extent_location ino idx v t =
     t\<lparr>tx_extent_updates := tx_extent_updates t @ [((ino, idx), v)]\<rparr>"

definition add_inode_count_delta :: "inode_id \<Rightarrow> int \<Rightarrow> txn \<Rightarrow> txn" where
  "add_inode_count_delta ino n t =
     (if n \<noteq> 0 then
        t\<lparr>tx_stats_deltas := tx_stats_deltas t @ [\<lparr>sd_inode_id = ino, sd_bytes = 0, sd_inodes = n\<rparr>]\<rparr>
      else t)"

definition add_seg_delta :: "u64 \<times> u64 \<Rightarrow> int \<Rightarrow> int \<Rightarrow> txn \<Rightarrow> txn" where
  "add_seg_delta seg live tot t =
     (if live \<noteq> 0 \<or> tot \<noteq> 0 then t\<lparr>tx_seg_deltas := tx_seg_deltas t @ [(seg, live, tot)]\<rparr> else t)"

definition transaction_is_empty :: "txn \<Rightarrow> bool" where
  "transaction_is_empty t = (tx_ops t = [])"

section \<open>Applying a transaction\<close>

fun apply_op :: "txop \<Rightarrow> meta \<Rightarrow> meta" where
  "apply_op (PutInode ino i) m = m\<lparr>m_inodes := (m_inodes m)(ino \<mapsto> i)\<rparr>"
| "apply_op (DelInode ino) m = m\<lparr>m_inodes := (m_inodes m)(ino := None)\<rparr>"
| "apply_op (PutEntry d n ino c) m = m\<lparr>m_entries := (m_entries m)((d, n) \<mapsto> (ino, c))\<rparr>"
| "apply_op (DelEntry d n) m = m\<lparr>m_entries := (m_entries m)((d, n) := None)\<rparr>"
| "apply_op (PutScan d c n v) m = m\<lparr>m_scans := (m_scans m)((d, c) \<mapsto> (n, v))\<rparr>"
| "apply_op (DelScan d c) m = m\<lparr>m_scans := (m_scans m)((d, c) := None)\<rparr>"
| "apply_op (PutCookie d c) m = m\<lparr>m_cookies := (m_cookies m)(d \<mapsto> c)\<rparr>"
| "apply_op (DelCookie d) m = m\<lparr>m_cookies := (m_cookies m)(d := None)\<rparr>"
| "apply_op (PutOrphan ino) m = m\<lparr>m_orphans := insert ino (m_orphans m)\<rparr>"
| "apply_op (DelOrphan ino) m = m\<lparr>m_orphans := m_orphans m - {ino}\<rparr>"
| "apply_op (PutTombstone ts ino sz) m = m\<lparr>m_tombs := (m_tombs m)((ts, ino) \<mapsto> sz)\<rparr>"
| "apply_op (DelTombstone ts ino) m = m\<lparr>m_tombs := (m_tombs m)((ts, ino) := None)\<rparr>"
| "apply_op (PutExtent ino x l) m = m\<lparr>m_extents := (m_extents m)((ino, x) \<mapsto> l)\<rparr>"
| "apply_op (DelExtent ino x) m = m\<lparr>m_extents := (m_extents m)((ino, x) := None)\<rparr>"

definition apply_ops :: "txop list \<Rightarrow> meta \<Rightarrow> meta" where
  "apply_ops ops m = fold apply_op ops m"

section \<open>Reading rows\<close>

text \<open>
  A point read can fail with an error of the database; \<open>faults\<close> says which keys fail and how.
  \<open>FsError::from_db_error\<close> keeps a filesystem error; \<open>read_cookie\<close> and \<open>contains\<close> report every
  failure as \<open>IoError\<close>.
\<close>

type_synonym faults = "db_key \<Rightarrow> fs_error option"

definition inode_get :: "faults \<Rightarrow> meta \<Rightarrow> inode_id \<Rightarrow> inode fs_result" where
  "inode_get flt m ino =
     (case flt (InodeKey ino) of Some e \<Rightarrow> Inl e | None \<Rightarrow> ok_or NotFound (m_inodes m ino))"

definition get_entry_with_cookie :: "faults \<Rightarrow> meta \<Rightarrow> inode_id \<Rightarrow> bytes \<Rightarrow> (inode_id \<times> u64) fs_result" where
  "get_entry_with_cookie flt m dir name =
     (case flt (DirEntryKey dir name) of
        Some e \<Rightarrow> Inl e
      | None \<Rightarrow> ok_or NotFound (m_entries m (dir, name)))"

definition dir_get :: "faults \<Rightarrow> meta \<Rightarrow> inode_id \<Rightarrow> bytes \<Rightarrow> inode_id fs_result" where
  "dir_get flt m dir name =
     try_bind (get_entry_with_cookie flt m dir name) (\<lambda>(ino, _). Inr ino)"

definition dir_exists :: "faults \<Rightarrow> meta \<Rightarrow> inode_id \<Rightarrow> bytes \<Rightarrow> bool fs_result" where
  "dir_exists flt m dir name =
     (case flt (DirEntryKey dir name) of
        Some e \<Rightarrow> Inl e
      | None \<Rightarrow> Inr (m_entries m (dir, name) \<noteq> None))"

definition read_cookie :: "faults \<Rightarrow> meta \<Rightarrow> inode_id \<Rightarrow> u64 fs_result" where
  "read_cookie flt m dir =
     (case flt (DirCookieKey dir) of
        Some e \<Rightarrow> Inl IoError
      | None \<Rightarrow> Inr (case m_cookies m dir of Some c \<Rightarrow> c | None \<Rightarrow> COOKIE_FIRST_ENTRY))"

definition orphan_contains :: "faults \<Rightarrow> meta \<Rightarrow> inode_id \<Rightarrow> bool fs_result" where
  "orphan_contains flt m ino =
     (case flt (OrphanKey ino) of Some e \<Rightarrow> Inl IoError | None \<Rightarrow> Inr (ino \<in> m_orphans m))"

section \<open>Staging changes\<close>

definition inode_save :: "inode_id \<Rightarrow> inode \<Rightarrow> txn \<Rightarrow> txn" where
  "inode_save ino i t = update_cached_inode ino (Some i) (put_op (PutInode ino i) t)"

definition inode_delete :: "inode_id \<Rightarrow> txn \<Rightarrow> txn" where
  "inode_delete ino t = update_cached_inode ino None (put_op (DelInode ino) t)"

definition stage_cookie_increment :: "inode_id \<Rightarrow> u64 \<Rightarrow> txn \<Rightarrow> txn" where
  "stage_cookie_increment dir current t = put_op (PutCookie dir (current + 1)) t"

definition allocate_cookie :: "faults \<Rightarrow> meta \<Rightarrow> inode_id \<Rightarrow> txn \<Rightarrow> (u64 \<times> txn) fs_result" where
  "allocate_cookie flt m dir t =
     try_bind (read_cookie flt m dir) (\<lambda>current. Inr (current, stage_cookie_increment dir current t))"

definition dir_add ::
  "inode_id \<Rightarrow> bytes \<Rightarrow> inode_id \<Rightarrow> u64 \<Rightarrow> inode option \<Rightarrow> txn \<Rightarrow> txn" where
  "dir_add dir name ino cookie inode_opt t =
     (let t = put_op (PutEntry dir name ino cookie) t;
          t = update_cached_directory_entry dir name (Some (ino, cookie)) t;
          v = (case inode_opt of Some i \<Rightarrow> WithInode ino i | None \<Rightarrow> Reference ino)
      in put_op (PutScan dir cookie name v) t)"

definition dir_unlink_entry :: "inode_id \<Rightarrow> bytes \<Rightarrow> u64 \<Rightarrow> txn \<Rightarrow> txn" where
  "dir_unlink_entry dir name cookie t =
     (let t = put_op (DelEntry dir name) t;
          t = update_cached_directory_entry dir name None t
      in put_op (DelScan dir cookie) t)"

definition delete_directory :: "inode_id \<Rightarrow> txn \<Rightarrow> txn" where
  "delete_directory dir t = put_op (DelCookie dir) t"

definition update_inode_in_entry ::
  "faults \<Rightarrow> meta \<Rightarrow> inode_id \<Rightarrow> bytes \<Rightarrow> inode_id \<Rightarrow> inode \<Rightarrow> txn \<Rightarrow> txn fs_result" where
  "update_inode_in_entry flt m dir name ino i t =
     try_bind (get_entry_with_cookie flt m dir name) (\<lambda>(_, cookie).
       Inr (put_op (PutScan dir cookie name (WithInode ino i)) t))"

definition convert_to_reference ::
  "faults \<Rightarrow> meta \<Rightarrow> inode_id \<Rightarrow> bytes \<Rightarrow> inode_id \<Rightarrow> txn \<Rightarrow> txn fs_result" where
  "convert_to_reference flt m dir name ino t =
     try_bind (get_entry_with_cookie flt m dir name) (\<lambda>(_, cookie).
       Inr (put_op (PutScan dir cookie name (Reference ino)) t))"

definition orphan_add :: "inode_id \<Rightarrow> txn \<Rightarrow> txn" where
  "orphan_add ino t = put_op (PutOrphan ino) t"

definition orphan_remove :: "inode_id \<Rightarrow> txn \<Rightarrow> txn" where
  "orphan_remove ino t = put_op (DelOrphan ino) t"

definition tombstone_add :: "u64 \<Rightarrow> inode_id \<Rightarrow> u64 \<Rightarrow> txn \<Rightarrow> txn" where
  "tombstone_add now_secs ino sz t = put_op (PutTombstone now_secs ino sz) t"

text \<open>\<open>result.ok()\<close> on a staging step: on an error the transaction is left as it was.\<close>

definition stage_ok :: "txn fs_result \<Rightarrow> txn \<Rightarrow> txn" where
  "stage_ok r t = (case r of Inl _ \<Rightarrow> t | Inr t' \<Rightarrow> t')"

section \<open>The byte level\<close>

datatype byte_op = Put bytes bytes | Delete bytes

fun txop_key :: "txop \<Rightarrow> db_key" where
  "txop_key (PutInode ino _) = InodeKey ino"
| "txop_key (DelInode ino) = InodeKey ino"
| "txop_key (PutEntry d n _ _) = DirEntryKey d n"
| "txop_key (DelEntry d n) = DirEntryKey d n"
| "txop_key (PutScan d c _ _) = DirScanKey d c"
| "txop_key (DelScan d c) = DirScanKey d c"
| "txop_key (PutCookie d _) = DirCookieKey d"
| "txop_key (DelCookie d) = DirCookieKey d"
| "txop_key (PutOrphan ino) = OrphanKey ino"
| "txop_key (DelOrphan ino) = OrphanKey ino"
| "txop_key (PutTombstone ts ino _) = TombstoneKey ts ino"
| "txop_key (DelTombstone ts ino) = TombstoneKey ts ino"
| "txop_key (PutExtent ino x _) = ExtentKey ino x"
| "txop_key (DelExtent ino x) = ExtentKey ino x"

text \<open>The value a put writes; a delete writes none.\<close>

fun txop_value :: "(inode \<Rightarrow> bytes) \<Rightarrow> (dir_scan_value \<Rightarrow> bytes) \<Rightarrow> txop \<Rightarrow> bytes option" where
  "txop_value ser_i ser_s (PutInode _ i) = Some (ser_i i)"
| "txop_value ser_i ser_s (PutEntry _ _ ino c) = Some (encode_dir_entry ino c)"
| "txop_value ser_i ser_s (PutScan _ _ n v) = Some (encode_dir_scan_value ser_s n v)"
| "txop_value ser_i ser_s (PutCookie _ c) = Some (encode_counter c)"
| "txop_value ser_i ser_s (PutOrphan _) = Some []"
| "txop_value ser_i ser_s (PutTombstone _ _ sz) = Some (encode_tombstone_size sz)"
| "txop_value ser_i ser_s (PutExtent _ _ l) = Some (frame_loc_encode l)"
| "txop_value ser_i ser_s _ = None"

definition txop_bytes ::
  "(inode \<Rightarrow> bytes) \<Rightarrow> (dir_scan_value \<Rightarrow> bytes) \<Rightarrow> txop \<Rightarrow> byte_op" where
  "txop_bytes ser_i ser_s p =
     (case txop_value ser_i ser_s p of
        Some v \<Rightarrow> Put (key_bytes (txop_key p)) v
      | None \<Rightarrow> Delete (key_bytes (txop_key p)))"

type_synonym database = "bytes \<rightharpoonup> bytes"

fun apply_byte_op :: "byte_op \<Rightarrow> database \<Rightarrow> database" where
  "apply_byte_op (Put k v) db = db(k \<mapsto> v)"
| "apply_byte_op (Delete k) db = db(k := None)"

text \<open>A write batch holds one pending change per key; the latest one replaces the earlier.\<close>

type_synonym write_batch = "bytes \<rightharpoonup> bytes option"

fun batch_add :: "byte_op \<Rightarrow> write_batch \<Rightarrow> write_batch" where
  "batch_add (Put k v) b = b(k \<mapsto> Some v)"
| "batch_add (Delete k) b = b(k \<mapsto> None)"

definition apply_to :: "byte_op list \<Rightarrow> write_batch \<Rightarrow> write_batch" where
  "apply_to ops target = fold batch_add ops target"

definition write_batch_commit :: "write_batch \<Rightarrow> database \<Rightarrow> database" where
  "write_batch_commit b db = (\<lambda>k. case b k of Some v \<Rightarrow> v | None \<Rightarrow> db k)"

text \<open>What the program's readers see in a database.\<close>

definition meta_of ::
  "(bytes \<Rightarrow> inode option) \<Rightarrow> (bytes \<Rightarrow> dir_scan_value option) \<Rightarrow> database \<Rightarrow> meta" where
  "meta_of de_i de_s db =
     \<lparr>m_inodes = (\<lambda>ino. Option.bind (db (key_bytes (InodeKey ino))) de_i),
      m_entries = (\<lambda>(d, n). Option.bind (db (key_bytes (DirEntryKey d n)))
                              (\<lambda>bs. result_ok (decode_dir_entry bs))),
      m_scans = (\<lambda>(d, c). Option.bind (db (key_bytes (DirScanKey d c)))
                            (\<lambda>bs. result_ok (decode_dir_scan_value de_s bs))),
      m_cookies = (\<lambda>d. Option.bind (db (key_bytes (DirCookieKey d)))
                         (\<lambda>bs. result_ok (decode_counter bs))),
      m_orphans = {ino. db (key_bytes (OrphanKey ino)) \<noteq> None},
      m_tombs = (\<lambda>(ts, ino). Option.bind (db (key_bytes (TombstoneKey ts ino)))
                               (\<lambda>bs. result_ok (decode_tombstone_size bs))),
      m_extents = (\<lambda>(ino, x). Option.bind (db (key_bytes (ExtentKey ino x))) frame_loc_decode)\<rparr>"

section \<open>Lemmas\<close>

lemma apply_ops_simps [simp]:
  "apply_ops [] m = m"
  "apply_ops (p # ps) m = apply_ops ps (apply_op p m)"
  "apply_ops (ps @ qs) m = apply_ops qs (apply_ops ps m)"
  by (simp_all add: apply_ops_def)

text \<open>What each staging step adds to the row changes.\<close>

lemma tx_ops_simps [simp]:
  "tx_ops transaction_new = []"
  "tx_ops (put_op p t) = tx_ops t @ [p]"
  "tx_ops (set_dedup_result op r t) = tx_ops t"
  "tx_ops (update_cached_inode ino v t) = tx_ops t"
  "tx_ops (update_cached_directory_entry d n e t) = tx_ops t"
  "tx_ops (update_cached_extent_location ino x l t) = tx_ops t"
  "tx_ops (add_inode_count_delta ino k t) = tx_ops t"
  "tx_ops (add_seg_delta seg live tot t) = tx_ops t"
  by (simp_all add: transaction_new_def put_op_def set_dedup_result_def update_cached_inode_def
      update_cached_directory_entry_def update_cached_extent_location_def add_inode_count_delta_def
      add_seg_delta_def)

lemma tx_ops_stage [simp]:
  "tx_ops (inode_save ino i t) = tx_ops t @ [PutInode ino i]"
  "tx_ops (inode_delete ino t) = tx_ops t @ [DelInode ino]"
  "tx_ops (stage_cookie_increment d c t) = tx_ops t @ [PutCookie d (c + 1)]"
  "tx_ops (dir_add d n ino c io t) =
     tx_ops t @ [PutEntry d n ino c,
       PutScan d c n (case io of Some i \<Rightarrow> WithInode ino i | None \<Rightarrow> Reference ino)]"
  "tx_ops (dir_unlink_entry d n c t) = tx_ops t @ [DelEntry d n, DelScan d c]"
  "tx_ops (delete_directory d t) = tx_ops t @ [DelCookie d]"
  "tx_ops (orphan_add ino t) = tx_ops t @ [PutOrphan ino]"
  "tx_ops (orphan_remove ino t) = tx_ops t @ [DelOrphan ino]"
  "tx_ops (tombstone_add now ino sz t) = tx_ops t @ [PutTombstone now ino sz]"
  by (simp_all add: inode_save_def inode_delete_def stage_cookie_increment_def dir_add_def
      dir_unlink_entry_def delete_directory_def orphan_add_def orphan_remove_def
      tombstone_add_def Let_def)

lemma decode_dir_scan_value_encode:
  assumes "de (ser v) = Some v" "length name < 2 ^ 32"
  shows "decode_dir_scan_value de (encode_dir_scan_value ser name v) = Inr (name, v)"
proof -
  have "le_nat (to_le_bytes (word_of_nat (length name) :: u32)) = length name"
    using assms(2) by (simp add: le_word_bytes [where n = 4] unat_of_nat)
  then show ?thesis
    using assms(1) by (simp add: decode_dir_scan_value_def encode_dir_scan_value_def slice_def)
qed

text \<open>One row change at the byte level is that row change on the typed view.\<close>

definition txop_ok :: "txop \<Rightarrow> bool" where
  "txop_ok p = (case p of PutScan _ _ n _ \<Rightarrow> length n < 2 ^ 32 | _ \<Rightarrow> True)"

lemma apply_byte_op_meta_of:
  assumes "\<And>i. de_i (ser_i i) = Some i" "\<And>v. de_s (ser_s v) = Some v" "txop_ok p"
  shows "meta_of de_i de_s (apply_byte_op (txop_bytes ser_i ser_s p) db)
       = apply_op p (meta_of de_i de_s db)"
  using assms
  by (cases p) (auto simp: meta_of_def txop_bytes_def txop_ok_def result_ok_def
      decode_dir_scan_value_encode simp del: key_bytes.simps intro!: ext)

lemma apply_byte_ops_meta_of:
  assumes "\<And>i. de_i (ser_i i) = Some i" "\<And>v. de_s (ser_s v) = Some v" "list_all txop_ok ops"
  shows "meta_of de_i de_s (fold apply_byte_op (map (txop_bytes ser_i ser_s) ops) db)
       = apply_ops ops (meta_of de_i de_s db)"
  using assms(3)
  by (induction ops arbitrary: db)
    (simp_all add: apply_byte_op_meta_of [OF assms(1,2)] del: apply_byte_op.simps)

text \<open>A key-value map: what reading after a batch of writes returns.\<close>

locale kv_map =
  fixes look :: "'s \<Rightarrow> 'k \<Rightarrow> 'v option"
    and put :: "'k \<Rightarrow> 'v \<Rightarrow> 's \<Rightarrow> 's"
    and del :: "'k \<Rightarrow> 's \<Rightarrow> 's"
  assumes look_put: "look (put k v s) k' = (if k' = k then Some v else look s k')"
    and look_del: "look (del k s) k' = (if k' = k then None else look s k')"
begin

definition put_or_del :: "'k \<times> 'v option \<Rightarrow> 's \<Rightarrow> 's" where
  "put_or_del w s = (case w of (k, Some v) \<Rightarrow> put k v s | (k, None) \<Rightarrow> del k s)"

lemma look_put_or_del: "look (put_or_del (k, v) s) k' = (if k' = k then v else look s k')"
  by (cases v) (simp_all add: put_or_del_def look_put look_del)

text \<open>Last write wins.\<close>

lemma look_batch:
  "look (fold put_or_del ws s) k = (case map_of (rev ws) k of Some v \<Rightarrow> v | None \<Rightarrow> look s k)"
  by (induction ws rule: rev_induct) (auto simp: look_put_or_del split: prod.split)

lemma look_batch_other:
  "k \<notin> fst ` set vs \<Longrightarrow> look (fold put_or_del (ws @ vs) s) k = look (fold put_or_del ws s) k"
  by (induction vs rule: rev_induct) (auto simp: look_put_or_del)

end

interpretation database: kv_map "\<lambda>db k. db k" "\<lambda>k v db. apply_byte_op (Put k v) db"
  "\<lambda>k db. apply_byte_op (Delete k) db"
  by unfold_locales simp_all

interpretation inode_rows: kv_map m_inodes "\<lambda>ino i. apply_op (PutInode ino i)"
  "\<lambda>ino. apply_op (DelInode ino)"
  by unfold_locales simp_all

interpretation entry_rows: kv_map m_entries "\<lambda>(d, n) (ino, c). apply_op (PutEntry d n ino c)"
  "\<lambda>(d, n). apply_op (DelEntry d n)"
  by unfold_locales (auto split: prod.splits)

text \<open>
  The side channel for the read caches: the inode and entry changes of a transaction, in order.
\<close>

fun inode_change :: "txop \<Rightarrow> (inode_id \<times> inode option) list" where
  "inode_change (PutInode ino i) = [(ino, Some i)]"
| "inode_change (DelInode ino) = [(ino, None)]"
| "inode_change _ = []"

fun entry_change :: "txop \<Rightarrow> ((inode_id \<times> bytes) \<times> (inode_id \<times> u64) option) list" where
  "entry_change (PutEntry d n ino c) = [((d, n), Some (ino, c))]"
| "entry_change (DelEntry d n) = [((d, n), None)]"
| "entry_change _ = []"

lemma m_inodes_apply_op:
  "m_inodes (apply_op p m) = m_inodes (fold inode_rows.put_or_del (inode_change p) m)"
  by (cases p) (simp_all add: inode_rows.put_or_del_def)

lemma m_inodes_fold_cong:
  "m_inodes m = m_inodes m' \<Longrightarrow>
   m_inodes (fold inode_rows.put_or_del ws m) = m_inodes (fold inode_rows.put_or_del ws m')"
  by (auto simp: inode_rows.look_batch fun_eq_iff split: option.split)

lemma m_inodes_apply_ops:
  "m_inodes (apply_ops ops m) = m_inodes (fold inode_rows.put_or_del (concat (map inode_change ops)) m)"
  by (induction ops arbitrary: m) (simp_all, metis m_inodes_apply_op m_inodes_fold_cong)

lemma m_entries_apply_op:
  "m_entries (apply_op p m) = m_entries (fold entry_rows.put_or_del (entry_change p) m)"
  by (cases p) (simp_all add: entry_rows.put_or_del_def)

lemma m_entries_fold_cong:
  "m_entries m = m_entries m' \<Longrightarrow>
   m_entries (fold entry_rows.put_or_del ws m) = m_entries (fold entry_rows.put_or_del ws m')"
  by (auto simp: entry_rows.look_batch fun_eq_iff split: option.split)

lemma m_entries_apply_ops:
  "m_entries (apply_ops ops m) = m_entries (fold entry_rows.put_or_del (concat (map entry_change ops)) m)"
  by (induction ops arbitrary: m) (simp_all, metis m_entries_apply_op m_entries_fold_cong)

text \<open>The transactions the program can build from an empty one with the stores' operations.\<close>

inductive staged :: "txn \<Rightarrow> bool" where
  new: "staged transaction_new"
| save: "staged t \<Longrightarrow> staged (inode_save ino i t)"
| delete: "staged t \<Longrightarrow> staged (inode_delete ino t)"
| cookie: "staged t \<Longrightarrow> staged (stage_cookie_increment d c t)"
| add: "staged t \<Longrightarrow> staged (dir_add d n ino c io t)"
| unlink: "staged t \<Longrightarrow> staged (dir_unlink_entry d n c t)"
| delete_dir: "staged t \<Longrightarrow> staged (delete_directory d t)"
| update_entry: "staged t \<Longrightarrow> update_inode_in_entry flt m d n ino i t = Inr t' \<Longrightarrow> staged t'"
| reference: "staged t \<Longrightarrow> convert_to_reference flt m d n ino t = Inr t' \<Longrightarrow> staged t'"
| orphan: "staged t \<Longrightarrow> staged (orphan_add ino t)"
| unorphan: "staged t \<Longrightarrow> staged (orphan_remove ino t)"
| tombstone: "staged t \<Longrightarrow> staged (tombstone_add now ino sz t)"
| dedup: "staged t \<Longrightarrow> staged (set_dedup_result op r t)"
| count: "staged t \<Longrightarrow> staged (add_inode_count_delta ino k t)"

lemmas stage_defs =
  inode_save_def inode_delete_def stage_cookie_increment_def dir_add_def dir_unlink_entry_def
  delete_directory_def orphan_add_def orphan_remove_def tombstone_add_def put_op_def
  update_cached_inode_def update_cached_directory_entry_def set_dedup_result_def
  add_inode_count_delta_def transaction_new_def update_inode_in_entry_def convert_to_reference_def

lemma staged_synced:
  "staged t \<Longrightarrow> concat (map inode_change (tx_ops t)) = tx_inode_updates t
     \<and> concat (map entry_change (tx_ops t)) = tx_entry_updates t"
  by (induction rule: staged.induct)
    (auto simp: stage_defs Let_def try_bind_Inr split: option.split if_splits)

section \<open>Properties\<close>

text \<open>
  C25. The byte-level rows a transaction writes, under any serializer that its deserializer
  inverts, change what the program reads back exactly as the typed row changes do: keys never
  collide and every value decodes to what was written.
\<close>

theorem transaction_bytes_refine:
  assumes "\<And>i. de_i (ser_i i) = Some i" "\<And>v. de_s (ser_s v) = Some v"
    and "list_all txop_ok (tx_ops t)"
  shows "meta_of de_i de_s (fold apply_byte_op (map (txop_bytes ser_i ser_s) (tx_ops t)) db)
       = apply_ops (tx_ops t) (meta_of de_i de_s db)"
  using assms by (rule apply_byte_ops_meta_of)

fun scan_flat :: "dir_scan_value \<Rightarrow> inode_id \<times> inode option" where
  "scan_flat (WithInode ino i) = (ino, Some i)"
| "scan_flat (Reference ino) = (ino, None)"

fun scan_unflat :: "inode_id \<times> inode option \<Rightarrow> dir_scan_value" where
  "scan_unflat (ino, Some i) = WithInode ino i"
| "scan_unflat (ino, None) = Reference ino"

definition ser_scan :: "dir_scan_value ser" where
  "ser_scan = ser_via scan_flat (ser_pair ser_u64 (ser_option ser_inode))"

definition de_scan :: "dir_scan_value de" where
  "de_scan = de_via scan_unflat (de_pair de_u64 (de_option de_inode))"

lemma law_scan: "stream_law ser_scan de_scan"
proof -
  have "scan_unflat (scan_flat v) = v" for v
    by (cases v) simp_all
  then show ?thesis
    unfolding ser_scan_def de_scan_def by (intro law_via stream_laws law_inode)
qed

definition example_row :: inode where
  "example_row = Fifo \<lparr>p_attrs = \<lparr>i_mtime = 1, i_mtime_nsec = 0, i_ctime = 1, i_ctime_nsec = 0,
     i_atime = 1, i_atime_nsec = 0, i_mode = 0x1B6, i_uid = 0, i_gid = 0, i_name = Some [65],
     i_nlink = 1\<rparr>, p_parent = Some 0, p_rdev = None\<rparr>"

definition example_txn :: txn where
  "example_txn =
     dir_add 0 [65] 7 3 (Some example_row) (inode_save 7 example_row (stage_cookie_increment 0 3 transaction_new))"

theorem transaction_bytes_refine_witness:
  "list_all txop_ok (tx_ops example_txn)
   \<and> meta_of (de_all de_inode) (de_all de_scan)
       (fold apply_byte_op (map (txop_bytes ser_inode ser_scan) (tx_ops example_txn)) Map.empty)
     = apply_ops (tx_ops example_txn) (meta_of (de_all de_inode) (de_all de_scan) Map.empty)"
proof -
  have ok: "list_all txop_ok (tx_ops example_txn)"
    by (simp add: example_txn_def txop_ok_def)
  then show ?thesis
    using transaction_bytes_refine [OF de_all_ser [OF law_inode] de_all_ser [OF law_scan] ok] by simp
qed




end
