(* ===== verification/Stats.thy ===== *)
theory Stats
  imports Fs_Types
begin

text \<open>
  Usage counters of \<open>fs/stats.rs\<close>: sharded used-bytes and used-inodes counters, changed by signed
  deltas that saturate at the bounds of \<open>i64\<close> and \<open>u64\<close>.
\<close>

section \<open>Signed arithmetic\<close>

definition i64_max :: int where
  "i64_max = 2 ^ 63 - 1"

definition i64_min :: int where
  "i64_min = - (2 ^ 63)"

definition clamp_i64 :: "int \<Rightarrow> int" where
  "clamp_i64 x = max i64_min (min i64_max x)"

text \<open>\<open>i64::saturating_add\<close> on values in range.\<close>

definition i64_saturating_add :: "int \<Rightarrow> int \<Rightarrow> int" where
  "i64_saturating_add a b = clamp_i64 (a + b)"

text \<open>\<open>u64::saturating_add_signed\<close>.\<close>

definition saturating_add_signed :: "u64 \<Rightarrow> int \<Rightarrow> u64" where
  "saturating_add_signed a d = word_of_int (max 0 (min (2 ^ 64 - 1) (uint a + d)))"

definition size_delta :: "u64 \<Rightarrow> u64 \<Rightarrow> int" where
  "size_delta old_size new_size =
     (if new_size \<ge> old_size then min (uint (new_size - old_size)) i64_max
      else - min (uint (old_size - new_size)) i64_max)"

section \<open>Shards\<close>

definition STATS_SHARDS :: nat where
  "STATS_SHARDS = 100"

record stats_shard =
  sh_used_bytes :: u64
  sh_used_inodes :: u64

definition stats_shard_new :: stats_shard where
  "stats_shard_new = \<lparr>sh_used_bytes = 0, sh_used_inodes = 0\<rparr>"

definition shard_of :: "inode_id \<Rightarrow> nat" where
  "shard_of ino = unat ino mod STATS_SHARDS"

definition stage_delta :: "(nat \<Rightarrow> stats_shard) \<Rightarrow> nat \<Rightarrow> int \<Rightarrow> int \<Rightarrow> stats_shard" where
  "stage_delta shards shard bytes inodes =
     \<lparr>sh_used_bytes = saturating_add_signed (sh_used_bytes (shards shard)) bytes,
      sh_used_inodes = saturating_add_signed (sh_used_inodes (shards shard)) inodes\<rparr>"

definition publish :: "nat \<Rightarrow> stats_shard \<Rightarrow> (nat \<Rightarrow> stats_shard) \<Rightarrow> nat \<Rightarrow> stats_shard" where
  "publish shard data shards = shards(shard := data)"

definition load_shard :: "nat \<Rightarrow> stats_shard \<Rightarrow> (nat \<Rightarrow> stats_shard) \<Rightarrow> nat \<Rightarrow> stats_shard" where
  "load_shard shard data shards = (if shard < STATS_SHARDS then shards(shard := data) else shards)"

text \<open>The wrapping sums of \<open>get_totals\<close>.\<close>

definition get_totals :: "(nat \<Rightarrow> stats_shard) \<Rightarrow> u64 \<times> u64" where
  "get_totals shards =
     fold (\<lambda>k (b, n). (b + sh_used_bytes (shards k), n + sh_used_inodes (shards k)))
       [0..<STATS_SHARDS] (0, 0)"

section \<open>Lemmas\<close>

lemma clamp_i64_id: "i64_min \<le> x \<Longrightarrow> x \<le> i64_max \<Longrightarrow> clamp_i64 x = x"
  by (simp add: clamp_i64_def)

lemma uint_saturating_add_signed:
  "uint (saturating_add_signed a d) = max 0 (min (2 ^ 64 - 1) (uint a + d))"
  by (simp add: saturating_add_signed_def uint_word_of_int)

lemma saturating_add_signed_exact:
  "0 \<le> uint a + d \<Longrightarrow> uint a + d < 2 ^ 64 \<Longrightarrow> uint (saturating_add_signed a d) = uint a + d"
  by (simp add: uint_saturating_add_signed)

lemma uint_diff_ge: "b \<le> a \<Longrightarrow> uint (a - b) = uint a - uint b"
  for a b :: u64
  by (simp add: uint_sub_lem word_le_def)

lemma size_delta_exact:
  assumes "uint a < 2 ^ 63" "uint b < 2 ^ 63"
  shows "size_delta a b = uint b - uint a"
proof -
  have "min (uint b - uint a) i64_max = uint b - uint a" "min (uint a - uint b) i64_max = uint a - uint b"
    using assms uint_nonnegative [of a] uint_nonnegative [of b] unfolding i64_max_def by linarith+
  then show ?thesis
    by (cases "a \<le> b") (simp_all add: size_delta_def uint_diff_ge)
qed

text \<open>The clamp is symmetric, so growing and shrinking back cancels.\<close>

lemma size_delta_antisym: "size_delta a b = - size_delta b a"
proof (cases "a = b")
  case False
  then show ?thesis
    by (cases "a < b") (auto simp: size_delta_def)
qed (simp add: size_delta_def i64_max_def)

end
