(* ===== verification/Quota.thy ===== *)
theory Quota
  imports Fs_Types
begin

text \<open>
  The logical quota of \<open>fs/quota.rs\<close>: counters for committed and pending bytes, reservations
  with their life cycle, and the settlement a commit finishes. The state machine at the end runs
  any interleaving of reservations and releases; its invariant ties the pending counter to the
  reservations that still hold a charge.
\<close>

section \<open>Counters and reservations\<close>

datatype reservation_state = Provisional | Accepted | Canonical | TerminalRetained | Released

record quota =
  q_max_bytes :: u64
  q_committed :: u64
  q_pending :: u64
  q_poisoned :: "string option"

record reservation =
  rv_bytes :: u64
  rv_state :: reservation_state

definition quota_new :: "u64 \<Rightarrow> u64 \<Rightarrow> quota" where
  "quota_new max_bytes committed =
     \<lparr>q_max_bytes = max_bytes, q_committed = committed, q_pending = 0, q_poisoned = None\<rparr>"

definition poison :: "string \<Rightarrow> quota \<Rightarrow> quota" where
  "poison reason q = (if q_poisoned q = None then q\<lparr>q_poisoned := Some reason\<rparr> else q)"

definition ensure_healthy :: "quota \<Rightarrow> unit fs_result" where
  "ensure_healthy q = (if q_poisoned q \<noteq> None then Inl IoError else Inr ())"

definition visible_bytes :: "quota \<Rightarrow> u64 \<times> quota" where
  "visible_bytes q =
     (case checked_add (q_committed q) (q_pending q) of
        Some v \<Rightarrow> (v, q)
      | None \<Rightarrow> (u64_max, poison ''visible size overflow'' q))"

definition quota_reserve :: "quota \<Rightarrow> u64 \<Rightarrow> reservation fs_result \<times> quota" where
  "quota_reserve q bytes =
     (case ensure_healthy q of
        Inl e \<Rightarrow> (Inl e, q)
      | Inr _ \<Rightarrow>
          if bytes = 0 then (Inr \<lparr>rv_bytes = 0, rv_state = Provisional\<rparr>, q)
          else
            (case checked_add (q_committed q) (q_pending q) of
               None \<Rightarrow> (Inl IoError, poison ''visible size overflow'' q)
             | Some visible \<Rightarrow>
                 (case checked_add visible bytes of
                    None \<Rightarrow> (Inl IoError, poison ''reservation overflow'' q)
                  | Some nxt \<Rightarrow>
                      if nxt > q_max_bytes q then (Inl NoSpace, q)
                      else
                        (case checked_add (q_pending q) bytes of
                           None \<Rightarrow> (Inl IoError, poison ''pending overflow'' q)
                         | Some pending \<Rightarrow>
                             (Inr \<lparr>rv_bytes = bytes, rv_state = Provisional\<rparr>,
                              q\<lparr>q_pending := pending\<rparr>)))))"

definition release_committed :: "quota \<Rightarrow> u64 \<Rightarrow> quota" where
  "release_committed q bytes =
     (if bytes = 0 then q
      else if q_poisoned q \<noteq> None then q
      else (case checked_sub (q_committed q) bytes of
              Some committed \<Rightarrow> q\<lparr>q_committed := committed\<rparr>
            | None \<Rightarrow> poison ''committed underflow'' q))"

definition release_pending :: "quota \<Rightarrow> u64 \<Rightarrow> quota" where
  "release_pending q bytes =
     (if bytes = 0 then q
      else if q_poisoned q \<noteq> None then q
      else (case checked_sub (q_pending q) bytes of
              Some pending \<Rightarrow> q\<lparr>q_pending := pending\<rparr>
            | None \<Rightarrow> poison ''pending underflow'' q))"

definition transfer_to_committed :: "quota \<Rightarrow> u64 \<Rightarrow> quota" where
  "transfer_to_committed q bytes =
     (if bytes = 0 then q
      else if q_poisoned q \<noteq> None then q
      else (case (checked_sub (q_pending q) bytes, checked_add (q_committed q) bytes) of
              (Some pending, Some committed) \<Rightarrow> q\<lparr>q_pending := pending, q_committed := committed\<rparr>
            | _ \<Rightarrow> poison ''canonical transfer overflow or underflow'' q))"

definition reservation_accept :: "reservation \<Rightarrow> reservation" where
  "reservation_accept r = (if rv_state r = Provisional then r\<lparr>rv_state := Accepted\<rparr> else r)"

definition reservation_canonical :: "quota \<Rightarrow> reservation \<Rightarrow> quota \<times> reservation" where
  "reservation_canonical q r =
     ((if rv_state r = Provisional \<or> rv_state r = Accepted
       then transfer_to_committed q (rv_bytes r) else q),
      r\<lparr>rv_state := Canonical\<rparr>)"

definition retain_terminal :: "reservation \<Rightarrow> reservation" where
  "retain_terminal r = r\<lparr>rv_state := TerminalRetained\<rparr>"

definition reservation_drop :: "quota \<Rightarrow> reservation \<Rightarrow> quota" where
  "reservation_drop q r = (if rv_state r = Provisional then release_pending q (rv_bytes r) else q)"

text \<open>What a commit does with the quota change queued beside it.\<close>

datatype quota_settlement = Growth reservation | Shrink u64

definition quota_settlement_finish :: "quota_settlement \<Rightarrow> unit fs_result \<Rightarrow> quota \<Rightarrow> quota" where
  "quota_settlement_finish st result q =
     (case st of
        Growth r \<Rightarrow>
          if result = Inr () then
            let (q, r) = reservation_canonical q (reservation_accept r) in reservation_drop q r
          else reservation_drop q r
      | Shrink bytes \<Rightarrow> if result = Inr () then release_committed q bytes else q)"

section \<open>Interleavings\<close>

text \<open>
  The quota with the reservations that exist, each with the flag that its bytes are still part
  of the pending counter, and the bytes whose reservation was dropped while accepted or retained
  (their charge is never returned).
\<close>

record quota_system =
  qs_quota :: quota
  qs_live :: "(reservation \<times> bool) list"
  qs_stuck :: nat

definition charged_bytes :: "(reservation \<times> bool) list \<Rightarrow> nat" where
  "charged_bytes rs = sum_list (map (\<lambda>(r, charged). if charged then unat (rv_bytes r) else 0) rs)"

text \<open>
  A shrink releases bytes that were committed before: \<open>release\<close> is guarded by that. A refused
  request is guarded by the size that still fits the counter; what a larger one does is
  \<open>quota_oversized_request_poisons\<close> below.
\<close>

inductive quota_step :: "quota_system \<Rightarrow> quota_system \<Rightarrow> bool" where
  reserve: "quota_reserve (qs_quota s) bytes = (Inr r, q) \<Longrightarrow>
    quota_step s (s\<lparr>qs_quota := q, qs_live := (r, True) # qs_live s\<rparr>)"
| refuse: "quota_reserve (qs_quota s) bytes = (Inl e, q) \<Longrightarrow>
    unat (q_committed (qs_quota s)) + unat (q_pending (qs_quota s)) + unat bytes < 2 ^ 64 \<Longrightarrow>
    quota_step s (s\<lparr>qs_quota := q\<rparr>)"
| accept: "qs_live s = xs @ (r, c) # ys \<Longrightarrow>
    quota_step s (s\<lparr>qs_live := xs @ (reservation_accept r, c) # ys\<rparr>)"
| canonical: "qs_live s = xs @ (r, c) # ys \<Longrightarrow> reservation_canonical (qs_quota s) r = (q, r') \<Longrightarrow>
    quota_step s (s\<lparr>qs_quota := q,
      qs_live := xs @ (r', c \<and> rv_state r \<noteq> Provisional \<and> rv_state r \<noteq> Accepted) # ys\<rparr>)"
| retain: "qs_live s = xs @ (r, c) # ys \<Longrightarrow>
    quota_step s (s\<lparr>qs_live := xs @ (retain_terminal r, c) # ys\<rparr>)"
| drop: "qs_live s = xs @ (r, c) # ys \<Longrightarrow>
    quota_step s (s\<lparr>qs_quota := reservation_drop (qs_quota s) r, qs_live := xs @ ys,
      qs_stuck := qs_stuck s + (if c \<and> rv_state r \<noteq> Provisional then unat (rv_bytes r) else 0)\<rparr>)"
| release: "bytes \<le> q_committed (qs_quota s) \<Longrightarrow>
    quota_step s (s\<lparr>qs_quota := release_committed (qs_quota s) bytes\<rparr>)"

definition quota_inv :: "quota_system \<Rightarrow> bool" where
  "quota_inv s \<longleftrightarrow>
     q_poisoned (qs_quota s) = None
     \<and> unat (q_pending (qs_quota s)) = charged_bytes (qs_live s) + qs_stuck s
     \<and> unat (q_committed (qs_quota s)) + unat (q_pending (qs_quota s)) \<le> unat (q_max_bytes (qs_quota s))
     \<and> list_all (\<lambda>(r, c). (rv_state r = Provisional \<or> rv_state r = Accepted) \<longrightarrow> c) (qs_live s)"

section \<open>Lemmas\<close>

lemma charged_bytes_simps [simp]:
  "charged_bytes [] = 0"
  "charged_bytes ((r, c) # rs) = (if c then unat (rv_bytes r) else 0) + charged_bytes rs"
  "charged_bytes (rs @ ss) = charged_bytes rs + charged_bytes ss"
  by (simp_all add: charged_bytes_def)

lemma quota_reserve_ok:
  "quota_reserve q bytes = (Inr r, q') \<Longrightarrow>
   q_poisoned q = None \<and> rv_bytes r = bytes \<and> rv_state r = Provisional \<and> q_poisoned q' = None
   \<and> q_max_bytes q' = q_max_bytes q \<and> q_committed q' = q_committed q
   \<and> unat (q_pending q') = unat (q_pending q) + unat bytes
   \<and> (bytes = 0 \<or> unat (q_committed q) + unat (q_pending q) + unat bytes \<le> unat (q_max_bytes q))"
  by (auto simp: quota_reserve_def ensure_healthy_def word_le_nat_alt not_less
      dest!: unat_checked_add split: if_splits option.splits)

lemma quota_reserve_refused:
  assumes "q_poisoned q = None" "unat (q_committed q) + unat (q_pending q) + unat bytes < 2 ^ 64"
  shows "quota_reserve q bytes = (Inl e, q') \<longleftrightarrow>
    e = NoSpace \<and> q' = q \<and> bytes \<noteq> 0
    \<and> unat (q_max_bytes q) < unat (q_committed q) + unat (q_pending q) + unat bytes"
  using assms
  by (auto simp: quota_reserve_def ensure_healthy_def checked_add_def word_less_nat_alt
      unat_word_ariths split: if_splits)

lemma transfer_to_committed_ok:
  assumes "q_poisoned q = None" "unat bytes \<le> unat (q_pending q)"
    "unat (q_committed q) + unat (q_pending q) \<le> unat (q_max_bytes q)"
  shows "q_poisoned (transfer_to_committed q bytes) = None"
    "q_max_bytes (transfer_to_committed q bytes) = q_max_bytes q"
    "unat (q_pending (transfer_to_committed q bytes)) = unat (q_pending q) - unat bytes"
    "unat (q_committed (transfer_to_committed q bytes)) = unat (q_committed q) + unat bytes"
proof -
  have "unat (q_committed q) + unat bytes < 2 ^ 64"
    using assms unat_u64_less [of "q_max_bytes q"] by (simp del: unat_u64_less)
  then show "q_poisoned (transfer_to_committed q bytes) = None"
    "q_max_bytes (transfer_to_committed q bytes) = q_max_bytes q"
    "unat (q_pending (transfer_to_committed q bytes)) = unat (q_pending q) - unat bytes"
    "unat (q_committed (transfer_to_committed q bytes)) = unat (q_committed q) + unat bytes"
    using assms
    by (auto simp: transfer_to_committed_def checked_sub_def checked_add_def word_le_nat_alt
        unat_sub unat_word_ariths)
qed

lemma release_pending_ok:
  assumes "q_poisoned q = None" "unat bytes \<le> unat (q_pending q)"
  shows "q_poisoned (release_pending q bytes) = None"
    "q_max_bytes (release_pending q bytes) = q_max_bytes q"
    "q_committed (release_pending q bytes) = q_committed q"
    "unat (q_pending (release_pending q bytes)) = unat (q_pending q) - unat bytes"
  using assms by (auto simp: release_pending_def checked_sub_def word_le_nat_alt unat_sub)

lemma release_committed_ok:
  assumes "q_poisoned q = None" "bytes \<le> q_committed q"
  shows "q_poisoned (release_committed q bytes) = None"
    "q_max_bytes (release_committed q bytes) = q_max_bytes q"
    "q_pending (release_committed q bytes) = q_pending q"
    "unat (q_committed (release_committed q bytes)) = unat (q_committed q) - unat bytes"
  using assms by (auto simp: release_committed_def checked_sub_def word_le_nat_alt unat_sub)

lemma quota_step_inv: "quota_step s t \<Longrightarrow> quota_inv s \<Longrightarrow> quota_inv t"
proof (induction rule: quota_step.induct)
  case (reserve s bytes r q)
  then show ?case
    by (auto simp: quota_inv_def dest!: quota_reserve_ok)
next
  case (refuse s bytes e q)
  then show ?case
    using quota_reserve_refused [of "qs_quota s" bytes e q] by (simp add: quota_inv_def)
next
  case (accept s xs r c ys)
  then show ?case
    by (auto simp: quota_inv_def reservation_accept_def)
next
  case (canonical s xs r c ys q r')
  show ?case
  proof (cases "rv_state r = Provisional \<or> rv_state r = Accepted")
    case True
    then have c: "c"
      using canonical by (auto simp: quota_inv_def)
    then have le: "unat (rv_bytes r) \<le> unat (q_pending (qs_quota s))"
      using canonical by (simp add: quota_inv_def)
    show ?thesis
      using canonical True c le transfer_to_committed_ok [OF _ le]
      by (auto simp: quota_inv_def reservation_canonical_def)
  next
    case False
    then show ?thesis
      using canonical by (auto simp: quota_inv_def reservation_canonical_def)
  qed
next
  case (retain s xs r c ys)
  then show ?case
    by (auto simp: quota_inv_def retain_terminal_def)
next
  case (drop s xs r c ys)
  show ?case
  proof (cases "rv_state r = Provisional")
    case True
    then have c: "c"
      using drop by (auto simp: quota_inv_def)
    then have le: "unat (rv_bytes r) \<le> unat (q_pending (qs_quota s))"
      using drop by (simp add: quota_inv_def)
    show ?thesis
      using drop True c release_pending_ok [OF _ le]
      by (auto simp: quota_inv_def reservation_drop_def)
  next
    case False
    then show ?thesis
      using drop by (auto simp: quota_inv_def reservation_drop_def)
  qed
next
  case (release bytes s)
  then show ?case
    using release_committed_ok [OF _ release.hyps] by (auto simp: quota_inv_def)
qed

lemma quota_reachable_inv: "quota_step\<^sup>*\<^sup>* s t \<Longrightarrow> quota_inv s \<Longrightarrow> quota_inv t"
  by (induction rule: rtranclp_induct) (auto intro: quota_step_inv)

lemma quota_new_inv:
  "committed \<le> max_bytes \<Longrightarrow>
   quota_inv \<lparr>qs_quota = quota_new max_bytes committed, qs_live = [], qs_stuck = 0\<rparr>"
  by (simp add: quota_inv_def quota_new_def word_le_nat_alt)

section \<open>Properties\<close>





text \<open>
  C30. A request whose size does not fit the counter beside what is already visible is not
  answered with \<open>NoSpace\<close>: it poisons the quota, and from then on every reservation, of any size,
  is refused with an I/O error.
\<close>

theorem quota_oversized_request_poisons:
  assumes "q_poisoned q = None"
    and "unat (q_committed q) + unat (q_pending q) < 2 ^ 64"
    and "2 ^ 64 \<le> unat (q_committed q) + unat (q_pending q) + unat bytes"
  shows "fst (quota_reserve q bytes) = Inl IoError
    \<and> fst (quota_reserve (snd (quota_reserve q bytes)) later) = Inl IoError"
proof -
  have "unat bytes \<noteq> 0"
    using assms by auto
  then have "bytes \<noteq> 0"
    by auto
  then show ?thesis
    using assms
    by (simp add: quota_reserve_def ensure_healthy_def checked_add_def unat_word_ariths poison_def)
qed

theorem quota_oversized_request_poisons_witness:
  "let q = snd (quota_reserve (quota_new u64_max 1) u64_max)
   in fst (quota_reserve (quota_new u64_max 1) u64_max) = Inl IoError
      \<and> fst (quota_reserve q 1) = Inl IoError"
  using quota_oversized_request_poisons [of "quota_new u64_max 1" u64_max 1]
  by (simp add: quota_new_def Let_def)

end
