(* ===== verification/Write_Coordinator.thy ===== *)
theory Write_Coordinator
  imports Meta_Store Stats Quota
begin

text \<open>
  The commit worker of \<open>fs/write_coordinator.rs\<close>. The state of a running file system is one
  record; the worker merges a batch of queued transactions, derives the byte deltas from the
  rows the batch supersedes, stages the allocation watermark, the usage shards and the segment
  counters, and applies everything in one write. The answers of the parts that are not in this
  repository (database writes, the peer that receives shipped batches) are fields of an
  environment record.
\<close>

section \<open>State\<close>

datatype metric =
    FilesCreated | FilesDeleted | FilesRenamed | DirectoriesCreated | DirectoriesDeleted
  | DirectoriesRenamed | LinksCreated | LinksDeleted | LinksRenamed | ReadOperations
  | WriteOperations | BytesRead | BytesWritten | TombstonesCreated | TotalOperations

record fs =
  st_meta :: meta
  st_next_id :: u64
  st_last_emitted :: u64
  st_counter :: u64
  st_shards :: "nat \<Rightarrow> stats_shard"
  st_segcounts :: "u64 \<times> u64 \<rightharpoonup> u64 \<times> u64"
  st_ledger :: "op_id \<rightharpoonup> dedup_result"
  st_quota :: quota
  st_open :: "inode_id \<rightharpoonup> u64"
  st_reclaim :: "inode_id list"
  st_stamp :: "ha_stamp option"
  st_taint :: "u64 option"
  st_taint_written :: bool
  st_lease_revoked :: bool
  st_exited :: bool
  st_metrics :: "metric \<Rightarrow> u64"

definition bump :: "metric \<Rightarrow> fs \<Rightarrow> fs" where
  "bump k s = s\<lparr>st_metrics := (st_metrics s)(k := st_metrics s k + 1)\<rparr>"

definition allocate :: "fs \<Rightarrow> inode_id \<times> fs" where
  "allocate s = (st_next_id s, s\<lparr>st_next_id := st_next_id s + 1\<rparr>)"

datatype ship_outcome = ShipApply ha_stamp bool | ShipDeposed

record worker_env =
  we_faults :: faults
  we_ship :: "ship_outcome option"
  we_peer_copy :: bool
  we_taint_put_ok :: bool
  we_taint_flush_error :: "fs_error option"
  we_permit_ok :: bool
  we_sync_writes :: bool
  we_flush_error :: "fs_error option"
  we_lineage_token :: u64

text \<open>What a write leaves to be settled with its commit: its reservations and the lengths written.\<close>

record write_settlement =
  ws_quota :: "reservation list"
  ws_lengths :: "u64 list"

datatype commit_settlement =
    NoSettlement
  | SettleWrite write_settlement
  | SettleQuota quota_settlement
  | DeferredReclaim inode_id

record commit_request =
  cq_txn :: txn
  cq_write_request :: "op_id option"
  cq_settlement :: commit_settlement

definition bump_by :: "metric \<Rightarrow> u64 \<Rightarrow> fs \<Rightarrow> fs" where
  "bump_by k n s = s\<lparr>st_metrics := (st_metrics s)(k := st_metrics s k + n)\<rparr>"

definition write_settlement_finish :: "write_settlement \<Rightarrow> unit fs_result \<Rightarrow> fs \<Rightarrow> fs" where
  "write_settlement_finish ws result s =
     (let s = s\<lparr>st_quota := fold (\<lambda>r. quota_settlement_finish (Growth r) result) (ws_quota ws) (st_quota s)\<rparr> in
      if result = Inr () then
        fold (\<lambda>len s. bump TotalOperations (bump WriteOperations (bump_by BytesWritten len s))) (ws_lengths ws) s
      else s)"

definition settle :: "commit_settlement \<Rightarrow> unit fs_result \<Rightarrow> fs \<Rightarrow> fs" where
  "settle st result s =
     (case st of
        NoSettlement \<Rightarrow> s
      | SettleWrite ws \<Rightarrow> write_settlement_finish ws result s
      | SettleQuota qs \<Rightarrow> s\<lparr>st_quota := quota_settlement_finish qs result (st_quota s)\<rparr>
      | DeferredReclaim ino \<Rightarrow>
          if result = Inr () then s\<lparr>st_reclaim := st_reclaim s @ [ino]\<rparr> else s)"

text \<open>A new file system: the root directory is written outside the commit worker, the counter row
  is absent and read as 1, every usage shard is empty.\<close>

definition root_directory :: "u64 \<times> u32 \<Rightarrow> u32 \<Rightarrow> u32 \<Rightarrow> directory_inode" where
  "root_directory now uid gid =
     \<lparr>d_attrs = \<lparr>i_mtime = fst now, i_mtime_nsec = snd now, i_ctime = fst now, i_ctime_nsec = snd now,
        i_atime = fst now, i_atime_nsec = snd now, i_mode = 0x3FF, i_uid = uid, i_gid = gid,
        i_name = None, i_nlink = 2\<rparr>,
      d_entry_count = 0, d_parent = 0\<rparr>"

definition meta_new :: "u64 \<times> u32 \<Rightarrow> u32 \<Rightarrow> u32 \<Rightarrow> meta" where
  "meta_new now uid gid =
     \<lparr>m_inodes = [0 \<mapsto> Directory (root_directory now uid gid)], m_entries = Map.empty,
      m_scans = Map.empty, m_cookies = Map.empty, m_orphans = {}, m_tombs = Map.empty,
      m_extents = Map.empty\<rparr>"

definition fs_new :: "u64 \<times> u32 \<Rightarrow> u32 \<Rightarrow> u32 \<Rightarrow> u64 \<Rightarrow> fs" where
  "fs_new now uid gid max_bytes =
     \<lparr>st_meta = meta_new now uid gid, st_next_id = 1, st_last_emitted = 1, st_counter = 1,
      st_shards = (\<lambda>_. stats_shard_new), st_segcounts = Map.empty, st_ledger = Map.empty,
      st_quota = quota_new max_bytes 0, st_open = Map.empty, st_reclaim = [], st_stamp = None,
      st_taint = None, st_taint_written = False, st_lease_revoked = False, st_exited = False,
      st_metrics = (\<lambda>_. 0)\<rparr>"

section \<open>Merging a batch\<close>

text \<open>Insertion into a hash map, kept as an association list with distinct keys.\<close>

fun hm_insert :: "'k \<Rightarrow> 'v \<Rightarrow> ('k \<times> 'v) list \<Rightarrow> ('k \<times> 'v) list" where
  "hm_insert k v [] = [(k, v)]"
| "hm_insert k v ((k', v') # m) = (if k' = k then (k, v) # m else (k', v') # hm_insert k v m)"

definition hm_get_or :: "'v \<Rightarrow> 'k \<Rightarrow> ('k \<times> 'v) list \<Rightarrow> 'v" where
  "hm_get_or d k m = (case map_of m k of None \<Rightarrow> d | Some v \<Rightarrow> v)"

definition add_shard_delta ::
  "inode_id \<Rightarrow> int \<Rightarrow> int \<Rightarrow> (nat \<times> int \<times> int) list \<Rightarrow> (nat \<times> int \<times> int) list" where
  "add_shard_delta ino bytes inodes m =
     (let (b, n) = hm_get_or (0, 0) (shard_of ino) m in
      hm_insert (shard_of ino) (i64_saturating_add b bytes, i64_saturating_add n inodes) m)"

definition add_seg_net ::
  "u64 \<times> u64 \<Rightarrow> int \<Rightarrow> int \<Rightarrow> ((u64 \<times> u64) \<times> int \<times> int) list \<Rightarrow> ((u64 \<times> u64) \<times> int \<times> int) list" where
  "add_seg_net seg dl dt m =
     (let (l, t) = hm_get_or (0, 0) seg m in
      hm_insert seg (i64_saturating_add l dl, i64_saturating_add t dt) m)"

record merged =
  mg_ops :: "txop list"
  mg_inode_updates :: "(inode_id \<times> inode option) list"
  mg_shards :: "(nat \<times> int \<times> int) list"
  mg_segs :: "((u64 \<times> u64) \<times> int \<times> int) list"
  mg_dedup :: "dedup_entry list"
  mg_invalid :: bool
  mg_any_ops :: bool

definition merged_empty :: merged where
  "merged_empty = \<lparr>mg_ops = [], mg_inode_updates = [], mg_shards = [], mg_segs = [], mg_dedup = [],
     mg_invalid = False, mg_any_ops = False\<rparr>"

definition merge_request :: "commit_request \<Rightarrow> merged \<Rightarrow> merged" where
  "merge_request rq mg =
     (let t = cq_txn rq;
          (dedup, invalid) =
            (case (tx_dedup_entry t, cq_write_request rq) of
               (Some entry, Some rid) \<Rightarrow>
                 if dd_op_id entry = rid then (mg_dedup mg @ [entry], mg_invalid mg)
                 else (mg_dedup mg @ [entry], True)
             | (Some entry, None) \<Rightarrow> (mg_dedup mg @ [entry], mg_invalid mg)
             | (None, Some _) \<Rightarrow> (mg_dedup mg, True)
             | (None, None) \<Rightarrow> (mg_dedup mg, mg_invalid mg))
      in \<lparr>mg_ops = mg_ops mg @ tx_ops t,
          mg_inode_updates = fold (\<lambda>(ino, v). hm_insert ino v) (tx_inode_updates t) (mg_inode_updates mg),
          mg_shards = fold (\<lambda>d. add_shard_delta (sd_inode_id d) (sd_bytes d) (sd_inodes d))
                        (tx_stats_deltas t) (mg_shards mg),
          mg_segs = fold (\<lambda>(seg, dl, dt). add_seg_net seg dl dt) (tx_seg_deltas t) (mg_segs mg),
          mg_dedup = dedup,
          mg_invalid = invalid,
          mg_any_ops = (mg_any_ops mg \<or> \<not> transaction_is_empty t)\<rparr>)"

section \<open>Derived changes\<close>

definition committed_byte_usage :: "faults \<Rightarrow> meta \<Rightarrow> inode_id \<Rightarrow> u64 fs_result" where
  "committed_byte_usage flt m ino =
     (case inode_get flt m ino of
        Inr (File f) \<Rightarrow> Inr (f_size f)
      | Inr _ \<Rightarrow> Inr 0
      | Inl e \<Rightarrow> if e = NotFound then Inr 0 else Inl e)"

fun derive_byte_deltas ::
  "faults \<Rightarrow> meta \<Rightarrow> (inode_id \<times> inode option) list \<Rightarrow> (inode_id \<times> int) list fs_result" where
  "derive_byte_deltas flt m [] = Inr []"
| "derive_byte_deltas flt m ((ino, post) # ups) =
     (let post_bytes = (case post of Some (File f) \<Rightarrow> Some (f_size f) | None \<Rightarrow> Some 0 | Some _ \<Rightarrow> None) in
      case post_bytes of
        None \<Rightarrow> derive_byte_deltas flt m ups
      | Some new \<Rightarrow>
          try_bind (committed_byte_usage flt m ino) (\<lambda>old.
          try_bind (derive_byte_deltas flt m ups) (\<lambda>rest.
            let delta = size_delta old new in
            Inr (if delta \<noteq> 0 then (ino, delta) # rest else rest))))"

text \<open>Absolute segment counters: live bytes never below zero, total bytes never decreasing.\<close>

fun stage_seg_deltas ::
  "faults \<Rightarrow> (u64 \<times> u64 \<rightharpoonup> u64 \<times> u64) \<Rightarrow> ((u64 \<times> u64) \<times> int \<times> int) list \<Rightarrow>
   ((u64 \<times> u64) \<times> u64 \<times> u64) list fs_result" where
  "stage_seg_deltas flt counts [] = Inr []"
| "stage_seg_deltas flt counts ((seg, net_live, net_total) # m) =
     try_bind (case flt (SegCountKey (fst seg) (snd seg)) of
                 Some e \<Rightarrow> Inl e
               | None \<Rightarrow> Inr (case counts seg of None \<Rightarrow> (0, 0) | Some base \<Rightarrow> base))
       (\<lambda>(cur_live, cur_total).
     try_bind (stage_seg_deltas flt counts m) (\<lambda>rest.
       let live = word_of_int (max (uint cur_live + net_live) 0);
           tot = word_of_int (max (uint cur_total + net_total) (uint cur_total))
       in Inr ((seg, live, tot) # rest)))"

definition stage_shards ::
  "(nat \<Rightarrow> stats_shard) \<Rightarrow> (nat \<times> int \<times> int) list \<Rightarrow> (nat \<times> stats_shard) list" where
  "stage_shards shards deltas = map (\<lambda>(k, b, n). (k, stage_delta shards k b n)) deltas"

section \<open>One batch\<close>

definition fail_all :: "commit_request list \<Rightarrow> fs_error \<Rightarrow> fs \<Rightarrow> unit fs_result \<times> fs" where
  "fail_all rqs e s = (Inl e, fold (\<lambda>rq. settle (cq_settlement rq) (Inl e)) rqs s)"

definition burn_if :: "bool \<Rightarrow> fs \<Rightarrow> fs" where
  "burn_if sh s = (if sh then snd (allocate s) else s)"

text \<open>The taint row and its flush, before the first solo batch is acknowledged.\<close>

definition write_taint :: "worker_env \<Rightarrow> bool \<Rightarrow> fs \<Rightarrow> unit fs_result \<times> fs" where
  "write_taint env solo_run s =
     (if \<not> st_taint_written s \<and> solo_run then
        (if we_taint_put_ok env then
           let s = s\<lparr>st_taint := Some (we_lineage_token env)\<rparr> in
           (case we_taint_flush_error env of
              None \<Rightarrow> (Inr (), s\<lparr>st_taint_written := True\<rparr>)
            | Some e \<Rightarrow> (Inl e, s))
         else (Inl IoError, s))
      else (Inr (), s))"

text \<open>The effect of the merged write on the stored rows and the published counters.\<close>

definition apply_merged ::
  "merged \<Rightarrow> bool \<Rightarrow> u64 \<Rightarrow> (nat \<times> stats_shard) list \<Rightarrow> ((u64 \<times> u64) \<times> u64 \<times> u64) list \<Rightarrow>
   ha_stamp option \<Rightarrow> fs \<Rightarrow> fs" where
  "apply_merged mg counter_staged current sh seg_abs stamp s =
     s\<lparr>st_meta := apply_ops (mg_ops mg) (st_meta s),
       st_counter := (if counter_staged then current else st_counter s),
       st_shards := fold (\<lambda>(k, d). publish k d) sh (st_shards s),
       st_segcounts := fold (\<lambda>(seg, c) m. m(seg \<mapsto> c)) seg_abs (st_segcounts s),
       st_stamp := (case stamp of None \<Rightarrow> st_stamp s | Some x \<Rightarrow> Some x)\<rparr>"

text \<open>The first completed result of an operation id is kept.\<close>

definition record_entry ::
  "dedup_entry \<Rightarrow> (op_id \<rightharpoonup> dedup_result) \<Rightarrow> op_id \<rightharpoonup> dedup_result" where
  "record_entry e l =
     (if has_op_id (dd_op_id e) \<and> l (dd_op_id e) = None then l(dd_op_id e \<mapsto> dd_result e) else l)"

definition record_entries :: "dedup_entry list \<Rightarrow> fs \<Rightarrow> fs" where
  "record_entries es s = s\<lparr>st_ledger := fold record_entry es (st_ledger s)\<rparr>"

text \<open>Everything that is staged before the batch is shipped or written.\<close>

record prepared =
  pr_counter_staged :: bool
  pr_current :: u64
  pr_shards :: "(nat \<times> stats_shard) list"
  pr_segs :: "((u64 \<times> u64) \<times> u64 \<times> u64) list"
  pr_any_ops :: bool

definition prepare_batch :: "worker_env \<Rightarrow> merged \<Rightarrow> fs \<Rightarrow> prepared fs_result \<times> fs" where
  "prepare_batch env mg s =
     (if mg_invalid mg then (Inl InvalidData, s)
      else
      (case derive_byte_deltas (we_faults env) (st_meta s) (mg_inode_updates mg) of
         Inl e \<Rightarrow> (Inl e, s)
       | Inr byte_deltas \<Rightarrow>
         let shard_deltas = fold (\<lambda>(ino, b). add_shard_delta ino b 0) byte_deltas (mg_shards mg);
             current = st_next_id s;
             counter_staged = (current > st_last_emitted s);
             s = (if counter_staged then s\<lparr>st_last_emitted := current\<rparr> else s);
             sh = stage_shards (st_shards s) shard_deltas
         in
         (case stage_seg_deltas (we_faults env) (st_segcounts s) (mg_segs mg) of
            Inl e \<Rightarrow> (Inl e, burn_if counter_staged s)
          | Inr seg_abs \<Rightarrow>
            (Inr \<lparr>pr_counter_staged = counter_staged, pr_current = current, pr_shards = sh,
                  pr_segs = seg_abs,
                  pr_any_ops = (mg_any_ops mg \<or> counter_staged \<or> sh \<noteq> [] \<or> seg_abs \<noteq> [])\<rparr>, s))))"

text \<open>The local write, once the batch may be applied: the result, whether the rows were written and
  whether the batch counts as applied.\<close>

definition apply_batch ::
  "worker_env \<Rightarrow> merged \<Rightarrow> prepared \<Rightarrow> ha_stamp option \<Rightarrow> bool \<Rightarrow> fs \<Rightarrow> unit fs_result \<times> bool \<times> fs" where
  "apply_batch env mg pr stamp solo_run s =
     (let any_ops = (pr_any_ops pr \<or> stamp \<noteq> None);
          (result, s) = write_taint env solo_run s;
          applied_rows = (any_ops \<and> result = Inr () \<and> we_permit_ok env);
          local_applied = (applied_rows \<or> (\<not> any_ops \<and> result = Inr () \<and> mg_dedup mg \<noteq> []));
          result = (if any_ops \<and> result = Inr () \<and> \<not> we_permit_ok env then Inl IoError else result);
          s = (if applied_rows
               then apply_merged mg (pr_counter_staged pr) (pr_current pr) (pr_shards pr) (pr_segs pr) stamp s
               else s);
          s = (if local_applied then record_entries (mg_dedup mg) s else s)
      in (result, local_applied, s))"

text \<open>Settlement, the durability flush of \<open>sync_writes\<close>, and the burned id after a failure.\<close>

definition finish_batch ::
  "worker_env \<Rightarrow> commit_request list \<Rightarrow> bool \<Rightarrow> bool \<Rightarrow> unit fs_result \<Rightarrow> fs \<Rightarrow> unit fs_result \<times> fs" where
  "finish_batch env rqs counter_staged any_ops result s =
     (let s = fold (\<lambda>rq. settle (cq_settlement rq) result) rqs s;
          result = (if we_sync_writes env \<and> result = Inr () \<and> any_ops
                    then (case we_flush_error env of None \<Rightarrow> Inr () | Some e \<Rightarrow> Inl e)
                    else result);
          s = burn_if (counter_staged \<and> result \<noteq> Inr ()) s
      in (result, s))"

definition worker_batch :: "worker_env \<Rightarrow> commit_request list \<Rightarrow> fs \<Rightarrow> unit fs_result \<times> fs" where
  "worker_batch env rqs s =
     (let mg = fold merge_request rqs merged_empty in
      case prepare_batch env mg s of
        (Inl e, s) \<Rightarrow> fail_all rqs e s
      | (Inr pr, s) \<Rightarrow>
          let ship = (if pr_any_ops pr \<or> mg_dedup mg \<noteq> [] then we_ship env else None) in
          if ship = Some ShipDeposed then
            fail_all rqs LeaderRejectedBeforeApply
              (burn_if (pr_counter_staged pr) (s\<lparr>st_lease_revoked := True\<rparr>))
          else
            let (stamp, solo_run) =
                  (case ship of Some (ShipApply st solo) \<Rightarrow> (Some st, solo) | _ \<Rightarrow> (None, False));
                (result, local_applied, s) = apply_batch env mg pr stamp solo_run s
            in
            if \<not> local_applied \<and> stamp \<noteq> None \<and> we_peer_copy env then
              (Inl (case result of Inl e \<Rightarrow> e | Inr _ \<Rightarrow> IoError), s\<lparr>st_exited := True\<rparr>)
            else
              finish_batch env rqs (pr_counter_staged pr) (pr_any_ops pr \<or> stamp \<noteq> None) result s)"

definition commit_with_settlement :: "worker_env \<Rightarrow> txn \<Rightarrow> commit_settlement \<Rightarrow> fs \<Rightarrow> unit fs_result \<times> fs" where
  "commit_with_settlement env t st s =
     worker_batch env [\<lparr>cq_txn = t, cq_write_request = None, cq_settlement = st\<rparr>] s"

definition commit :: "worker_env \<Rightarrow> txn \<Rightarrow> fs \<Rightarrow> unit fs_result \<times> fs" where
  "commit env t s = commit_with_settlement env t NoSettlement s"

section \<open>Lemmas\<close>

lemma write_settlement_rows: "\<exists>q g. write_settlement_finish ws r s = s\<lparr>st_quota := q, st_metrics := g\<rparr>"
proof -
  let ?step = "\<lambda>len s. bump TotalOperations (bump WriteOperations (bump_by BytesWritten len s))"
  have step: "\<exists>g. ?step len u = u\<lparr>st_metrics := g\<rparr>" for len u
    unfolding bump_def bump_by_def by simp blast
  have fold: "\<exists>g. fold ?step ls u = u\<lparr>st_metrics := g\<rparr>" for ls u
  proof (induction ls arbitrary: u)
    case Nil
    show ?case
      by (rule exI [of _ "st_metrics u"]) simp
  next
    case (Cons len ls)
    obtain g h where "?step len u = u\<lparr>st_metrics := g\<rparr>" "fold ?step ls (?step len u) = (?step len u)\<lparr>st_metrics := h\<rparr>"
      using step [of len u] Cons.IH [of "?step len u"] by blast
    then show ?case
      by (intro exI [of _ h]) simp
  qed
  define q where "q = fold (\<lambda>r'. quota_settlement_finish (Growth r') r) (ws_quota ws) (st_quota s)"
  obtain g where "fold ?step (ws_lengths ws) (s\<lparr>st_quota := q\<rparr>) = s\<lparr>st_quota := q, st_metrics := g\<rparr>"
    using fold by blast
  then have "write_settlement_finish ws r s = s\<lparr>st_quota := q, st_metrics := if r = Inr () then g else st_metrics s\<rparr>"
    unfolding write_settlement_finish_def Let_def q_def [symmetric] by simp
  then show ?thesis
    by blast
qed

lemma write_settlement_simps [simp]:
  "st_meta (write_settlement_finish ws r s) = st_meta s"
  "st_next_id (write_settlement_finish ws r s) = st_next_id s"
  "st_last_emitted (write_settlement_finish ws r s) = st_last_emitted s"
  "st_counter (write_settlement_finish ws r s) = st_counter s"
  "st_shards (write_settlement_finish ws r s) = st_shards s"
  "st_ledger (write_settlement_finish ws r s) = st_ledger s"
  "st_open (write_settlement_finish ws r s) = st_open s"
  using write_settlement_rows [of ws r s] by auto

lemma settle_simps [simp]:
  "st_meta (settle st r s) = st_meta s"
  "st_next_id (settle st r s) = st_next_id s"
  "st_last_emitted (settle st r s) = st_last_emitted s"
  "st_counter (settle st r s) = st_counter s"
  "st_shards (settle st r s) = st_shards s"
  "st_ledger (settle st r s) = st_ledger s"
  "st_open (settle st r s) = st_open s"
  by (simp_all add: settle_def split: commit_settlement.split)

lemma fold_settle_simps [simp]:
  "st_meta (fold (\<lambda>rq. settle (cq_settlement rq) r) rqs s) = st_meta s"
  "st_next_id (fold (\<lambda>rq. settle (cq_settlement rq) r) rqs s) = st_next_id s"
  "st_last_emitted (fold (\<lambda>rq. settle (cq_settlement rq) r) rqs s) = st_last_emitted s"
  "st_counter (fold (\<lambda>rq. settle (cq_settlement rq) r) rqs s) = st_counter s"
  "st_shards (fold (\<lambda>rq. settle (cq_settlement rq) r) rqs s) = st_shards s"
  "st_ledger (fold (\<lambda>rq. settle (cq_settlement rq) r) rqs s) = st_ledger s"
  "st_open (fold (\<lambda>rq. settle (cq_settlement rq) r) rqs s) = st_open s"
  by (induction rqs arbitrary: s) simp_all

lemma burn_if_simps [simp]:
  "st_meta (burn_if b s) = st_meta s"
  "st_last_emitted (burn_if b s) = st_last_emitted s"
  "st_counter (burn_if b s) = st_counter s"
  "st_shards (burn_if b s) = st_shards s"
  "st_ledger (burn_if b s) = st_ledger s"
  "st_open (burn_if b s) = st_open s"
  "st_next_id (burn_if b s) = (if b then st_next_id s + 1 else st_next_id s)"
  by (simp_all add: burn_if_def allocate_def)

lemma write_taint_simps [simp]:
  "st_meta (snd (write_taint env b s)) = st_meta s"
  "st_next_id (snd (write_taint env b s)) = st_next_id s"
  "st_last_emitted (snd (write_taint env b s)) = st_last_emitted s"
  "st_counter (snd (write_taint env b s)) = st_counter s"
  "st_shards (snd (write_taint env b s)) = st_shards s"
  "st_ledger (snd (write_taint env b s)) = st_ledger s"
  "st_open (snd (write_taint env b s)) = st_open s"
  by (simp_all add: write_taint_def Let_def split: option.split)

lemma prepare_batch_simps [simp]:
  "st_meta (snd (prepare_batch env mg s)) = st_meta s"
  "st_counter (snd (prepare_batch env mg s)) = st_counter s"
  "st_shards (snd (prepare_batch env mg s)) = st_shards s"
  "st_ledger (snd (prepare_batch env mg s)) = st_ledger s"
  "st_open (snd (prepare_batch env mg s)) = st_open s"
  by (simp_all add: prepare_batch_def Let_def split: sum.split)

text \<open>The rows of the transactions, in queue order.\<close>

lemma fold_merge_ops:
  "mg_ops (fold merge_request rqs mg) = mg_ops mg @ concat (map (\<lambda>rq. tx_ops (cq_txn rq)) rqs)"
  by (induction rqs arbitrary: mg) (simp_all add: merge_request_def Let_def split: prod.split)

lemma fold_merge_any_ops:
  "mg_any_ops (fold merge_request rqs mg) \<longleftrightarrow> mg_any_ops mg \<or> (\<exists>rq \<in> set rqs. tx_ops (cq_txn rq) \<noteq> [])"
  by (induction rqs arbitrary: mg)
    (auto simp: merge_request_def transaction_is_empty_def Let_def split: prod.split)

definition batch_ops :: "commit_request list \<Rightarrow> txop list" where
  "batch_ops rqs = concat (map (\<lambda>rq. tx_ops (cq_txn rq)) rqs)"

lemma mg_ops_batch [simp]: "mg_ops (fold merge_request rqs merged_empty) = batch_ops rqs"
  by (simp add: fold_merge_ops merged_empty_def batch_ops_def)

lemma mg_no_ops: "\<not> mg_any_ops (fold merge_request rqs merged_empty) \<Longrightarrow> batch_ops rqs = []"
  by (auto simp: fold_merge_any_ops merged_empty_def batch_ops_def)

lemma mg_dedup_batch:
  "mg_dedup (fold merge_request rqs mg) =
     mg_dedup mg @ concat (map (\<lambda>rq. case tx_dedup_entry (cq_txn rq) of None \<Rightarrow> [] | Some e \<Rightarrow> [e]) rqs)"
  by (induction rqs arbitrary: mg)
    (auto simp: merge_request_def Let_def split: option.split prod.splits)

definition batch_entries :: "commit_request list \<Rightarrow> dedup_entry list" where
  "batch_entries rqs =
     concat (map (\<lambda>rq. case tx_dedup_entry (cq_txn rq) of None \<Rightarrow> [] | Some e \<Rightarrow> [e]) rqs)"

definition ledger_add :: "dedup_entry list \<Rightarrow> (op_id \<rightharpoonup> dedup_result) \<Rightarrow> op_id \<rightharpoonup> dedup_result" where
  "ledger_add es l = fold record_entry es l"

lemma mg_dedup_entries [simp]: "mg_dedup (fold merge_request rqs merged_empty) = batch_entries rqs"
  by (simp add: mg_dedup_batch merged_empty_def batch_entries_def)

lemma record_entries_simps [simp]:
  "st_meta (record_entries es s) = st_meta s"
  "st_next_id (record_entries es s) = st_next_id s"
  "st_last_emitted (record_entries es s) = st_last_emitted s"
  "st_counter (record_entries es s) = st_counter s"
  "st_shards (record_entries es s) = st_shards s"
  "st_open (record_entries es s) = st_open s"
  "st_ledger (record_entries es s) = ledger_add es (st_ledger s)"
  by (simp_all add: record_entries_def ledger_add_def)

lemma apply_merged_simps [simp]:
  "st_meta (apply_merged mg cs cur sh segs st s) = apply_ops (mg_ops mg) (st_meta s)"
  "st_next_id (apply_merged mg cs cur sh segs st s) = st_next_id s"
  "st_last_emitted (apply_merged mg cs cur sh segs st s) = st_last_emitted s"
  "st_counter (apply_merged mg cs cur sh segs st s) = (if cs then cur else st_counter s)"
  "st_shards (apply_merged mg cs cur sh segs st s) = fold (\<lambda>(k, d). publish k d) sh (st_shards s)"
  "st_ledger (apply_merged mg cs cur sh segs st s) = st_ledger s"
  "st_open (apply_merged mg cs cur sh segs st s) = st_open s"
  by (simp_all add: apply_merged_def)

lemma apply_batch_cases:
  assumes "apply_batch env mg pr stamp solo s = (r, la, t)"
  shows "st_next_id t = st_next_id s" "st_last_emitted t = st_last_emitted s"
    "st_open t = st_open s"
    "la \<Longrightarrow> r = Inr () \<and> st_ledger t = ledger_add (mg_dedup mg) (st_ledger s)
       \<and> (if pr_any_ops pr \<or> stamp \<noteq> None
          then st_meta t = apply_ops (mg_ops mg) (st_meta s)
            \<and> st_counter t = (if pr_counter_staged pr then pr_current pr else st_counter s)
          else st_meta t = st_meta s \<and> st_counter t = st_counter s)"
    "\<not> la \<Longrightarrow> st_meta t = st_meta s \<and> st_ledger t = st_ledger s \<and> st_counter t = st_counter s
       \<and> (r = Inr () \<longrightarrow> \<not> (pr_any_ops pr \<or> stamp \<noteq> None) \<and> mg_dedup mg = [])"
  using assms
  by (auto simp: apply_batch_def Let_def split: prod.splits if_splits
      dest!: arg_cong [of "write_taint _ _ _" _ snd])

lemma prepare_batch_Inr:
  assumes "prepare_batch env mg s = (Inr pr, u)"
  shows "pr_counter_staged pr \<longleftrightarrow> st_last_emitted s < st_next_id s" "pr_current pr = st_next_id s"
    "st_next_id u = st_next_id s"
    "st_last_emitted u = (if pr_counter_staged pr then st_next_id s else st_last_emitted s)"
    "mg_any_ops mg \<Longrightarrow> pr_any_ops pr" "pr_counter_staged pr \<Longrightarrow> pr_any_ops pr"
  using assms by (auto simp: prepare_batch_def Let_def split: sum.splits if_splits)

lemma prepare_batch_Inl:
  assumes "prepare_batch env mg s = (Inl e, u)"
  shows "(st_next_id u = st_next_id s \<and> st_last_emitted u = st_last_emitted s)
    \<or> (st_last_emitted s < st_next_id s \<and> st_next_id u = st_next_id s + 1
        \<and> st_last_emitted u = st_next_id s)"
  using assms by (auto simp: prepare_batch_def Let_def split: sum.splits if_splits)

lemma finish_batch_simps:
  assumes "finish_batch env rqs cs any r s = (r', t)"
  shows "st_meta t = st_meta s" "st_ledger t = st_ledger s" "st_counter t = st_counter s"
    "st_last_emitted t = st_last_emitted s" "st_open t = st_open s"
    "st_next_id t = (if cs \<and> r' \<noteq> Inr () then st_next_id s + 1 else st_next_id s)"
    "r' = Inr () \<Longrightarrow> r = Inr ()" "\<not> we_sync_writes env \<Longrightarrow> r' = r"
  using assms by (auto simp: finish_batch_def Let_def split: if_splits option.splits)

text \<open>The four ways a batch ends.\<close>

lemma worker_batch_elim:
  assumes "worker_batch env rqs s = (r, t)"
  obtains (early) e u where "prepare_batch env (fold merge_request rqs merged_empty) s = (Inl e, u)"
      "r = Inl e" "t = fold (\<lambda>rq. settle (cq_settlement rq) (Inl e)) rqs u"
  | (deposed) pr u where "prepare_batch env (fold merge_request rqs merged_empty) s = (Inr pr, u)"
      "r = Inl LeaderRejectedBeforeApply"
      "t = fold (\<lambda>rq. settle (cq_settlement rq) r) rqs
             (burn_if (pr_counter_staged pr) (u\<lparr>st_lease_revoked := True\<rparr>))"
  | (exited) pr u stamp solo r0 v e where
      "prepare_batch env (fold merge_request rqs merged_empty) s = (Inr pr, u)"
      "apply_batch env (fold merge_request rqs merged_empty) pr stamp solo u = (r0, False, v)"
      "r = Inl e" "t = v\<lparr>st_exited := True\<rparr>"
  | (finished) pr u stamp solo r0 la v where
      "prepare_batch env (fold merge_request rqs merged_empty) s = (Inr pr, u)"
      "apply_batch env (fold merge_request rqs merged_empty) pr stamp solo u = (r0, la, v)"
      "finish_batch env rqs (pr_counter_staged pr) (pr_any_ops pr \<or> stamp \<noteq> None) r0 v = (r, t)"
proof -
  let ?mg = "fold merge_request rqs merged_empty"
  obtain p u where p: "prepare_batch env ?mg s = (p, u)"
    by fastforce
  show thesis
  proof (cases p)
    case (Inl e)
    then show ?thesis
      using assms p early by (auto simp: worker_batch_def fail_all_def)
  next
    case (Inr pr)
    let ?ship = "if pr_any_ops pr \<or> mg_dedup ?mg \<noteq> [] then we_ship env else None"
    obtain stamp solo where st: "(case ?ship of Some (ShipApply st solo) \<Rightarrow> (Some st, solo) | _ \<Rightarrow> (None, False))
        = (stamp, solo)"
      by fastforce
    obtain r0 la v where ab: "apply_batch env ?mg pr stamp solo u = (r0, la, v)"
      by (metis prod_cases3)
    show ?thesis
    proof (cases "?ship = Some ShipDeposed")
      case True
      then show ?thesis
        using assms p Inr deposed by (auto simp: worker_batch_def fail_all_def Let_def)
    next
      case False
      then show ?thesis
        using assms p Inr st ab exited finished
        by (cases "\<not> la \<and> stamp \<noteq> None \<and> we_peer_copy env") (auto simp: worker_batch_def Let_def)
    qed
  qed
qed

lemma prepare_batch_rows:
  "prepare_batch env mg s = (p, u) \<Longrightarrow>
   st_meta u = st_meta s \<and> st_ledger u = st_ledger s \<and> st_counter u = st_counter s \<and> st_open u = st_open s"
  using prepare_batch_simps [of env mg s] by simp

lemma prepare_batch_no_ops:
  "prepare_batch env (fold merge_request rqs merged_empty) s = (Inr pr, u) \<Longrightarrow> \<not> pr_any_ops pr \<Longrightarrow>
   batch_ops rqs = []"
  using prepare_batch_Inr(5) mg_no_ops by blast

text \<open>A batch is applied as a whole or not at all, and success means it was applied.\<close>

lemma worker_batch_atomic:
  assumes "worker_batch env rqs s = (r, t)"
  shows "st_meta t = apply_ops (batch_ops rqs) (st_meta s)
           \<and> st_ledger t = ledger_add (batch_entries rqs) (st_ledger s)
           \<and> (r = Inr () \<or> we_sync_writes env)
       \<or> st_meta t = st_meta s \<and> st_ledger t = st_ledger s \<and> r \<noteq> Inr ()"
  using assms
proof (cases rule: worker_batch_elim)
  case (early e u)
  then show ?thesis
    using prepare_batch_rows [OF early(1)] by simp
next
  case (deposed pr u)
  then show ?thesis
    using prepare_batch_rows [OF deposed(1)] by simp
next
  case (exited pr u stamp solo r0 v e)
  then show ?thesis
    using prepare_batch_rows [OF exited(1)] apply_batch_cases(5) [OF exited(2)] by simp
next
  case (finished pr u stamp solo r0 la v)
  note rows = prepare_batch_rows [OF finished(1)] and fin = finish_batch_simps [OF finished(3)]
  show ?thesis
  proof (cases la)
    case True
    then have "r0 = Inr ()" "st_ledger v = ledger_add (batch_entries rqs) (st_ledger s)"
      "st_meta v = apply_ops (batch_ops rqs) (st_meta s)"
      using apply_batch_cases(4) [OF finished(2)] rows prepare_batch_no_ops [OF finished(1)]
      by (auto split: if_splits)
    then show ?thesis
      using fin by auto
  next
    case False
    then have "st_meta v = st_meta s" "st_ledger v = st_ledger s"
      "r0 = Inr () \<longrightarrow> batch_ops rqs = [] \<and> batch_entries rqs = []"
      using apply_batch_cases(5) [OF finished(2)] rows prepare_batch_no_ops [OF finished(1)] by auto
    then show ?thesis
      using fin by (cases "r = Inr ()") (auto simp: ledger_add_def)
  qed
qed

text \<open>The result that the settlement sees: that of the batch before the flush of \<open>sync_writes\<close>.\<close>

definition settled_result :: "worker_env \<Rightarrow> commit_request list \<Rightarrow> fs \<Rightarrow> unit fs_result" where
  "settled_result env rqs s = fst (worker_batch (env\<lparr>we_sync_writes := False\<rparr>) rqs s)"

lemma worker_batch_flush:
  "worker_batch (env\<lparr>we_sync_writes := False\<rparr>) rqs s = worker_batch env rqs s
   \<or> (\<exists>a b c v. worker_batch env rqs s = finish_batch env rqs a b c v
        \<and> worker_batch (env\<lparr>we_sync_writes := False\<rparr>) rqs s = finish_batch (env\<lparr>we_sync_writes := False\<rparr>) rqs a b c v)"
proof -
  let ?env = "env\<lparr>we_sync_writes := False\<rparr>" and ?mg = "fold merge_request rqs merged_empty"
  have same: "we_faults ?env = we_faults env" "we_ship ?env = we_ship env" "we_peer_copy ?env = we_peer_copy env"
    by simp_all
  have prep: "prepare_batch ?env mg u = prepare_batch env mg u"
    and app: "apply_batch ?env mg pr stamp solo u = apply_batch env mg pr stamp solo u" for mg u pr stamp solo
    unfolding prepare_batch_def same by (simp_all add: apply_batch_def write_taint_def)
  obtain p u where p: "prepare_batch env ?mg s = (p, u)"
    by fastforce
  show ?thesis
  proof (cases p)
    case (Inl e)
    then show ?thesis
      by (simp add: worker_batch_def prep p)
  next
    case (Inr pr)
    let ?ship = "if pr_any_ops pr \<or> mg_dedup ?mg \<noteq> [] then we_ship env else None"
    obtain stamp solo where st: "(case ?ship of Some (ShipApply st solo) \<Rightarrow> (Some st, solo) | _ \<Rightarrow> (None, False))
        = (stamp, solo)"
      by fastforce
    obtain r0 la v where ab: "apply_batch env ?mg pr stamp solo u = (r0, la, v)"
      by (metis prod_cases3)
    show ?thesis
      unfolding worker_batch_def prep p Inr app same Let_def prod.case sum.case st ab by auto
  qed
qed

lemma worker_batch_settled:
  assumes "worker_batch env rqs s = (r, t)"
  shows "if settled_result env rqs s = Inr ()
    then st_meta t = apply_ops (batch_ops rqs) (st_meta s) \<and> st_ledger t = ledger_add (batch_entries rqs) (st_ledger s)
    else st_meta t = st_meta s \<and> st_ledger t = st_ledger s \<and> r \<noteq> Inr ()"
    and "r = Inr () \<Longrightarrow> settled_result env rqs s = Inr ()"
    and "\<not> we_sync_writes env \<Longrightarrow> settled_result env rqs s = r"
proof -
  let ?env = "env\<lparr>we_sync_writes := False\<rparr>"
  obtain r' t' where b: "worker_batch ?env rqs s = (r', t')"
    by fastforce
  have fin: "st_meta (snd (finish_batch ?env rqs a b c v)) = st_meta (snd (finish_batch env rqs a b c v))"
    "st_ledger (snd (finish_batch ?env rqs a b c v)) = st_ledger (snd (finish_batch env rqs a b c v))"
    "fst (finish_batch env rqs a b c v) = Inr () \<Longrightarrow> fst (finish_batch ?env rqs a b c v) = Inr ()" for a b c v
    by (auto simp: finish_batch_def Let_def burn_if_def allocate_def split: if_splits option.splits)
  have same: "st_meta t' = st_meta t" "st_ledger t' = st_ledger t" "r = Inr () \<Longrightarrow> r' = Inr ()"
    using worker_batch_flush [of env rqs s] fin assms b by (metis fst_conv snd_conv)+
  have r': "settled_result env rqs s = r'"
    by (simp add: settled_result_def b)
  show "if settled_result env rqs s = Inr ()
    then st_meta t = apply_ops (batch_ops rqs) (st_meta s) \<and> st_ledger t = ledger_add (batch_entries rqs) (st_ledger s)
    else st_meta t = st_meta s \<and> st_ledger t = st_ledger s \<and> r \<noteq> Inr ()"
    using worker_batch_atomic [OF b] same by (auto simp: r')
  show "r = Inr () \<Longrightarrow> settled_result env rqs s = Inr ()"
    by (simp add: r' same)
  show "settled_result env rqs s = r" if "\<not> we_sync_writes env"
  proof -
    have "?env = env"
      using that by simp
    then show ?thesis
      by (simp add: settled_result_def assms)
  qed
qed

lemma worker_batch_open: "worker_batch env rqs s = (r, t) \<Longrightarrow> st_open t = st_open s"
  by (erule worker_batch_elim)
    (auto dest!: prepare_batch_rows apply_batch_cases(3) finish_batch_simps(5))

section \<open>The allocation watermark\<close>

text \<open>
  What the worker keeps of the allocation counter: every stored inode is below the persisted
  counter, and unless the process has exited the worker's own record is either the persisted
  value or will be replaced by the next batch.
\<close>

definition watermark_inv :: "fs \<Rightarrow> bool" where
  "watermark_inv s \<longleftrightarrow>
     (\<forall>ino \<in> dom (m_inodes (st_meta s)). ino < st_counter s)
     \<and> st_counter s \<le> st_next_id s
     \<and> (\<not> st_exited s \<longrightarrow> st_last_emitted s \<le> st_next_id s
          \<and> (st_last_emitted s = st_counter s \<or> st_last_emitted s < st_next_id s))"

fun put_inode_id :: "txop \<Rightarrow> inode_id option" where
  "put_inode_id (PutInode ino _) = Some ino"
| "put_inode_id _ = None"

lemma dom_inodes_apply_ops:
  "dom (m_inodes (apply_ops ops m)) \<subseteq> dom (m_inodes m) \<union> {ino. Some ino \<in> put_inode_id ` set ops}"
proof (induction ops arbitrary: m)
  case (Cons p ops)
  have "dom (m_inodes (apply_op p m)) \<subseteq> dom (m_inodes m) \<union> {ino. Some ino = put_inode_id p}"
    by (cases p) (auto split: if_splits)
  then show ?case
    using Cons [of "apply_op p m"] unfolding apply_ops_simps list.set image_insert by blast
qed simp

text \<open>What a batch does to the counters: nothing, a burned id, an applied batch, or the end of
  the process.\<close>

lemma worker_batch_counters:
  assumes "worker_batch env rqs s = (r, t)"
  defines "cs \<equiv> st_last_emitted s < st_next_id s"
  shows "st_meta t = st_meta s \<and> st_counter t = st_counter s
           \<and> st_last_emitted t = st_last_emitted s \<and> st_next_id t = st_next_id s
       \<or> cs \<and> st_meta t = st_meta s \<and> st_counter t = st_counter s
           \<and> st_last_emitted t = st_next_id s \<and> st_next_id t = st_next_id s + 1
       \<or> st_meta t = apply_ops (batch_ops rqs) (st_meta s)
           \<and> st_counter t = (if cs then st_next_id s else st_counter s)
           \<and> st_last_emitted t = (if cs then st_next_id s else st_last_emitted s)
           \<and> (st_next_id t = st_next_id s \<or> cs \<and> st_next_id t = st_next_id s + 1)
       \<or> st_exited t \<and> st_meta t = st_meta s \<and> st_counter t = st_counter s \<and> st_next_id t = st_next_id s"
  using assms(1)
proof (cases rule: worker_batch_elim)
  case (early e u)
  then show ?thesis
    using prepare_batch_rows [OF early(1)] prepare_batch_Inl [OF early(1)] by (auto simp: cs_def)
next
  case (deposed pr u)
  then show ?thesis
    using prepare_batch_rows [OF deposed(1)] prepare_batch_Inr [OF deposed(1)]
    by (auto simp: cs_def)
next
  case (exited pr u stamp solo r0 v e)
  then show ?thesis
    using prepare_batch_rows [OF exited(1)] prepare_batch_Inr [OF exited(1)]
      apply_batch_cases(1,5) [OF exited(2)] by simp
next
  case (finished pr u stamp solo r0 la v)
  note rows = prepare_batch_rows [OF finished(1)] and pr = prepare_batch_Inr [OF finished(1)]
    and ab = apply_batch_cases [OF finished(2)] and fin = finish_batch_simps [OF finished(3)]
  show ?thesis
  proof (cases "la \<and> (pr_any_ops pr \<or> stamp \<noteq> None)")
    case True
    then show ?thesis
      using rows pr ab fin by (auto simp: cs_def)
  next
    case False
    then have same: "st_meta v = st_meta s" "st_counter v = st_counter s"
      using rows ab by (auto split: if_splits)
    have "cs \<longrightarrow> \<not> la \<and> r0 \<noteq> Inr ()"
      using False pr ab by (auto simp: cs_def)
    then show ?thesis
      using same pr ab fin by (auto simp: cs_def)
  qed
qed

lemma watermark_batch:
  assumes "watermark_inv s" "\<not> st_exited s" "worker_batch env rqs s = (r, t)"
    and "st_next_id s \<noteq> u64_max"
    and "\<And>ino. Some ino \<in> put_inode_id ` set (batch_ops rqs) \<Longrightarrow> ino < st_next_id s"
  shows "watermark_inv t"
proof -
  have below: "ino < (if st_last_emitted s < st_next_id s then st_next_id s else st_counter s)"
    if "ino \<in> dom (m_inodes (apply_ops (batch_ops rqs) (st_meta s)))" for ino
  proof -
    have "ino \<in> dom (m_inodes (st_meta s)) \<or> ino < st_next_id s"
      using that dom_inodes_apply_ops [of "batch_ops rqs" "st_meta s"] assms(5) by blast
    then show ?thesis
      using assms(1,2) unfolding watermark_inv_def
      by (auto intro: order.strict_trans2 dest: order.strict_trans2)
  qed
  have suc: "st_next_id s < st_next_id s + 1"
    using assms(4) by (rule word_less_Suc)
  show ?thesis
    using worker_batch_counters [OF assms(3)] assms(1,2) below suc unfolding watermark_inv_def
    by (elim disjE) (auto split: if_splits intro: order.strict_implies_order order.strict_trans1)
qed

text \<open>
  Everything that can happen to the counters: an operation allocates an id, the worker runs a
  batch whose inode rows were allocated before, or the process restarts. The store may have lost
  the batches that were not flushed, so a restart finds the rows and the counter as they were
  after some earlier batch; \<open>wm_past\<close> keeps them.
\<close>

record watermark_system =
  wm_fs :: fs
  wm_past :: "(meta \<times> u64) set"

definition boot_counters :: "meta \<Rightarrow> u64 \<Rightarrow> fs \<Rightarrow> fs" where
  "boot_counters m c s =
     s\<lparr>st_meta := m, st_counter := c, st_next_id := c, st_last_emitted := c, st_exited := False\<rparr>"

inductive watermark_step :: "watermark_system \<Rightarrow> watermark_system \<Rightarrow> bool" where
  alloc: "st_next_id (wm_fs w) \<noteq> u64_max \<Longrightarrow>
    watermark_step w (w\<lparr>wm_fs := snd (allocate (wm_fs w))\<rparr>)"
| batch: "\<not> st_exited (wm_fs w) \<Longrightarrow> st_next_id (wm_fs w) \<noteq> u64_max \<Longrightarrow>
    (\<And>ino. Some ino \<in> put_inode_id ` set (batch_ops rqs) \<Longrightarrow> ino < st_next_id (wm_fs w)) \<Longrightarrow>
    worker_batch env rqs (wm_fs w) = (r, t) \<Longrightarrow>
    watermark_step w (w\<lparr>wm_fs := t, wm_past := insert (st_meta t, st_counter t) (wm_past w)\<rparr>)"
| restart: "(m, c) \<in> wm_past w \<Longrightarrow> watermark_step w (w\<lparr>wm_fs := boot_counters m c (wm_fs w)\<rparr>)"

definition watermark_ok :: "watermark_system \<Rightarrow> bool" where
  "watermark_ok w \<longleftrightarrow>
     watermark_inv (wm_fs w) \<and> (\<forall>(m, c) \<in> wm_past w. \<forall>ino \<in> dom (m_inodes m). ino < c)"

lemma watermark_step_ok: "watermark_step w v \<Longrightarrow> watermark_ok w \<Longrightarrow> watermark_ok v"
proof (induction rule: watermark_step.induct)
  case (alloc w)
  then show ?case
    using word_less_Suc [of "st_next_id (wm_fs w)"]
    by (auto simp: watermark_ok_def watermark_inv_def allocate_def
        intro: order.strict_implies_order order.strict_trans1)
next
  case (batch w rqs env r t)
  then have "watermark_inv t"
    by (auto simp: watermark_ok_def intro: watermark_batch)
  with batch.prems show ?case
    by (auto simp: watermark_ok_def watermark_inv_def)
next
  case (restart m c w)
  then have "\<forall>ino \<in> dom (m_inodes m). ino < c"
    unfolding watermark_ok_def by blast
  with restart.prems show ?case
    by (simp add: watermark_ok_def watermark_inv_def boot_counters_def)
qed

lemma watermark_reachable: "watermark_step\<^sup>*\<^sup>* w v \<Longrightarrow> watermark_ok w \<Longrightarrow> watermark_ok v"
  by (induction rule: rtranclp_induct) (auto intro: watermark_step_ok)

section \<open>Properties\<close>

text \<open>
  C31. A batch of transactions is atomic: either every row change of every transaction is
  applied in queue order and every completed result is recorded, or no row and no result
  changes. Success means the former; a failure means the latter, unless synchronous writes are
  on and the flush after the apply failed.
\<close>

theorem commit_batch_atomic:
  assumes "worker_batch env rqs s = (r, t)"
  shows "(st_meta t = apply_ops (batch_ops rqs) (st_meta s)
           \<and> st_ledger t = ledger_add (batch_entries rqs) (st_ledger s)
           \<and> (r = Inr () \<or> we_sync_writes env))
       \<or> (st_meta t = st_meta s \<and> st_ledger t = st_ledger s \<and> r \<noteq> Inr ())"
  using worker_batch_atomic [OF assms] by blast

definition example_worker :: worker_env where
  "example_worker = \<lparr>we_faults = (\<lambda>_. None), we_ship = None, we_peer_copy = False,
     we_taint_put_ok = True, we_taint_flush_error = None, we_permit_ok = True, we_sync_writes = False,
     we_flush_error = None, we_lineage_token = 1\<rparr>"

definition example_fs :: fs where
  "example_fs = fs_new (100, 0) 0 0 1000000"

definition example_request :: commit_request where
  "example_request =
     \<lparr>cq_txn = set_dedup_result [1] DrApplied (inode_save 1 (Directory (root_directory (5, 0) 1 1)) transaction_new),
      cq_write_request = None, cq_settlement = NoSettlement\<rparr>"

theorem commit_batch_atomic_witness:
  "fst (worker_batch example_worker [example_request] example_fs) = Inr ()
   \<and> st_meta (snd (worker_batch example_worker [example_request] example_fs))
       = apply_ops (batch_ops [example_request]) (st_meta example_fs)"
proof -
  have ok: "fst (worker_batch example_worker [example_request] example_fs) = Inr ()"
    by code_simp
  have "worker_batch example_worker [example_request] example_fs =
      (Inr (), snd (worker_batch example_worker [example_request] example_fs))"
    by (simp add: prod_eq_iff ok)
  from commit_batch_atomic [OF this] show ?thesis
    using ok by auto
qed

text \<open>
  C35. Inode numbers are never reused: starting from a store whose inodes are below the persisted
  counter, after any sequence of allocations, batches (applied, refused before or after the
  counter was staged, or rejected by the peer) and restarts from the state after any earlier
  batch, the next number handed out is not the number of any stored inode.
\<close>

theorem allocated_ids_are_fresh:
  assumes "watermark_ok w" "watermark_step\<^sup>*\<^sup>* w v"
  shows "fst (allocate (wm_fs v)) \<notin> dom (m_inodes (st_meta (wm_fs v)))"
  using watermark_reachable [OF assms(2,1)] unfolding watermark_ok_def watermark_inv_def
  by (auto simp: allocate_def dest: order.strict_trans2)

theorem allocated_ids_are_fresh_witness:
  "watermark_ok \<lparr>wm_fs = example_fs, wm_past = {}\<rparr>
   \<and> fst (allocate (snd (allocate example_fs)))
       \<notin> dom (m_inodes (st_meta (snd (allocate example_fs))))"
proof -
  let ?w = "\<lparr>wm_fs = example_fs, wm_past = {}\<rparr>"
  have ok: "watermark_ok ?w"
    by (simp add: watermark_ok_def watermark_inv_def example_fs_def fs_new_def meta_new_def)
  have "watermark_step ?w (?w\<lparr>wm_fs := snd (allocate example_fs)\<rparr>)"
    using watermark_step.alloc [of ?w] by (simp add: example_fs_def fs_new_def)
  then show ?thesis
    using ok allocated_ids_are_fresh [OF ok, of "?w\<lparr>wm_fs := snd (allocate example_fs)\<rparr>"] by auto
qed

end
