(* ===== verification/Permissions.thy ===== *)
theory Permissions
  imports Fs_Types
begin

text \<open>
  Access control of \<open>fs/permissions.rs\<close>: credentials with their sixteen group slots, the
  mode-bit check, ownership, the sticky bit and the time-setting rule. The masks of the source
  are compared with a reference that picks one bit of the mode by class and access kind.
\<close>

unbundle bit_operations_syntax

section \<open>Credentials\<close>

record credentials =
  cr_uid :: u32
  cr_gid :: u32
  cr_gid_known :: bool
  cr_groups :: "u32 list"
  cr_groups_count :: nat
  cr_groups_complete :: bool

text \<open>The loop that copies at most sixteen groups into the zeroed array.\<close>

fun copy_groups :: "nat \<Rightarrow> u32 list \<Rightarrow> u32 list \<Rightarrow> u32 list" where
  "copy_groups i [] groups = groups"
| "copy_groups i (g # gs) groups = copy_groups (Suc i) gs (groups[i := g])"

definition credentials_from_auth_context :: "auth_context \<Rightarrow> credentials" where
  "credentials_from_auth_context auth =
     \<lparr>cr_uid = au_uid auth, cr_gid = au_gid auth, cr_gid_known = au_gid_known auth,
      cr_groups = copy_groups 0 (take 16 (au_gids auth)) (replicate 16 0),
      cr_groups_count = min (length (au_gids auth)) 16,
      cr_groups_complete = au_groups_complete auth\<rparr>"

definition with_gid :: "credentials \<Rightarrow> u32 \<Rightarrow> credentials" where
  "with_gid creds gid = creds\<lparr>cr_gid := gid\<rparr>"

definition is_known_member_of_group :: "credentials \<Rightarrow> u32 \<Rightarrow> bool" where
  "is_known_member_of_group creds gid \<longleftrightarrow>
     cr_gid_known creds \<and> cr_gid creds = gid
     \<or> list_ex (\<lambda>i. cr_groups creds ! i = gid) [0..<cr_groups_count creds]"

definition is_member_of_group :: "credentials \<Rightarrow> u32 \<Rightarrow> bool" where
  "is_member_of_group creds gid \<longleftrightarrow>
     is_known_member_of_group creds gid \<or> \<not> cr_groups_complete creds"

text \<open>\<open>From<&Credentials> for AuthContext\<close> in \<open>fs/types.rs\<close>.\<close>

definition auth_context_of_credentials :: "credentials \<Rightarrow> auth_context" where
  "auth_context_of_credentials creds =
     \<lparr>au_uid = cr_uid creds, au_gid = cr_gid creds, au_gid_known = cr_gid_known creds,
      au_gids = take (cr_groups_count creds) (cr_groups creds),
      au_groups_complete = cr_groups_complete creds\<rparr>"

section \<open>Checks\<close>

datatype access_mode = Read | Write | Execute

fun permission_bits :: "access_mode \<Rightarrow> u32 \<times> u32 \<times> u32" where
  "permission_bits Read = (0x100, 0x20, 0x4)"
| "permission_bits Write = (0x80, 0x10, 0x2)"
| "permission_bits Execute = (0x40, 0x8, 0x1)"

definition check_access :: "inode \<Rightarrow> credentials \<Rightarrow> access_mode \<Rightarrow> unit fs_result" where
  "check_access i creds m =
     (let uid = inode_uid i; gid = inode_gid i; file_mode = inode_mode i in
      if cr_uid creds = 0 then
        (if m = Execute \<and> file_mode AND 0x49 = 0 then Inl PermissionDenied else Inr ())
      else
        let (u, g, oth) = permission_bits m in
        if cr_uid creds = uid then
          (if file_mode AND u \<noteq> 0 then Inr () else Inl PermissionDenied)
        else if is_known_member_of_group creds gid then
          (if file_mode AND g \<noteq> 0 then Inr () else Inl PermissionDenied)
        else if \<not> cr_groups_complete creds then
          (if file_mode AND (g OR oth) \<noteq> 0 then Inr () else Inl PermissionDenied)
        else if file_mode AND oth \<noteq> 0 then Inr ()
        else Inl PermissionDenied)"

definition check_ownership :: "inode \<Rightarrow> credentials \<Rightarrow> unit fs_result" where
  "check_ownership i creds =
     (if cr_uid creds = 0 \<or> cr_uid creds = inode_uid i then Inr () else Inl OperationNotPermitted)"

definition check_sticky_bit_delete :: "inode \<Rightarrow> inode \<Rightarrow> credentials \<Rightarrow> unit fs_result" where
  "check_sticky_bit_delete parent target creds =
     (if is_directory parent \<and> inode_mode parent AND 0x200 \<noteq> 0 \<and> cr_uid creds \<noteq> 0
         \<and> cr_uid creds \<noteq> inode_uid parent \<and> cr_uid creds \<noteq> inode_uid target
      then Inl PermissionDenied else Inr ())"

definition validate_mode :: "u32 \<Rightarrow> u32" where
  "validate_mode mode = mode AND 0xFFF"

definition can_set_times :: "inode \<Rightarrow> credentials \<Rightarrow> bool \<Rightarrow> unit fs_result" where
  "can_set_times i creds to_current =
     (if cr_uid creds = 0 \<or> cr_uid creds = inode_uid i then Inr ()
      else if to_current then check_access i creds Write
      else Inl OperationNotPermitted)"

section \<open>Lemmas\<close>

lemma copy_groups_eq:
  "i + length gs \<le> length a \<Longrightarrow> copy_groups i gs a = take i a @ gs @ drop (i + length gs) a"
proof (induction gs arbitrary: i a)
  case (Cons g gs)
  then have "copy_groups (Suc i) gs (a[i := g]) = take (Suc i) (a[i := g]) @ gs @ drop (Suc i + length gs) (a[i := g])"
    by simp
  also have "take (Suc i) (a[i := g]) = take i a @ [g]"
    using Cons.prems by (simp add: take_Suc_conv_app_nth)
  finally show ?case
    by simp
qed simp

lemma known_member_iff:
  "is_known_member_of_group (credentials_from_auth_context auth) g \<longleftrightarrow>
     au_gid_known auth \<and> au_gid auth = g \<or> g \<in> set (take 16 (au_gids auth))"
proof -
  let ?gs = "take 16 (au_gids auth)"
  have "copy_groups 0 ?gs (replicate 16 0) = ?gs @ replicate (16 - length ?gs) 0"
    by (simp add: copy_groups_eq)
  then have "list_ex (\<lambda>i. copy_groups 0 ?gs (replicate 16 0) ! i = g) [0..<length ?gs]
      \<longleftrightarrow> (\<exists>i < length ?gs. ?gs ! i = g)"
    by (auto simp: list_ex_iff nth_append)
  then show ?thesis
    by (auto simp: is_known_member_of_group_def credentials_from_auth_context_def in_set_conv_nth
        min.commute)
qed

lemma auth_context_roundtrip:
  "auth_context_of_credentials (credentials_from_auth_context auth)
     = auth\<lparr>au_gids := take 16 (au_gids auth)\<rparr>"
  by (cases "length (au_gids auth) \<le> 16")
    (simp_all add: auth_context_of_credentials_def credentials_from_auth_context_def copy_groups_eq)

text \<open>The bit of the mode that decides an access: class owner, group or other, and the access.\<close>

fun access_bit :: "access_mode \<Rightarrow> nat" where
  "access_bit Read = 2"
| "access_bit Write = 1"
| "access_bit Execute = 0"

definition permission_class :: "inode \<Rightarrow> credentials \<Rightarrow> nat" where
  "permission_class i creds =
     (if cr_uid creds = inode_uid i then 2
      else if is_known_member_of_group creds (inode_gid i) then 1 else 0)"

lemma mask_bit: "w AND 2 ^ n = 0 \<longleftrightarrow> \<not> bit w n"
  for w :: u32
  using bit_iff_and_push_bit_not_eq_0 [of w n] by (simp add: push_bit_eq_mult)

lemma permission_bits_eq:
  "permission_bits m = (2 ^ (6 + access_bit m), 2 ^ (3 + access_bit m), 2 ^ access_bit m)"
  by (cases m) simp_all

lemma check_access_bit:
  assumes "cr_uid creds \<noteq> 0" "cr_groups_complete creds"
  shows "check_access i creds m =
    (if bit (inode_mode i) (3 * permission_class i creds + access_bit m)
     then Inr () else Inl PermissionDenied)"
  using assms by (simp add: check_access_def permission_bits_eq permission_class_def mask_bit Let_def)

lemma check_access_root:
  "cr_uid creds = 0 \<Longrightarrow>
   check_access i creds m = Inr () \<longleftrightarrow> m \<noteq> Execute \<or> inode_mode i AND 0x49 \<noteq> 0"
  by (auto simp: check_access_def Let_def)

lemma check_access_error: "check_access i creds m = Inl e \<Longrightarrow> e = PermissionDenied"
  by (auto simp: check_access_def Let_def split: if_splits prod.splits)

lemma validate_mode_idem [simp]: "validate_mode (validate_mode m) = validate_mode m"
  by (simp add: validate_mode_def)

lemma validate_mode_bit: "bit (validate_mode m) n \<longleftrightarrow> bit m n \<and> n < 12"
proof -
  have "validate_mode m = m AND mask 12"
    by (simp add: validate_mode_def mask_eq_exp_minus_1)
  then show ?thesis
    using bit_imp_le_length [of m n] by (auto simp only: bit_and_iff bit_mask_iff possible_bit_word)
qed

section \<open>Properties\<close>

text \<open>
  C20. For a non-root caller with a complete group list, the access check grants exactly when one
  bit of the mode is set: the bit of the caller's class (owner before group before other, the
  group being the primary group or one of the first sixteen supplementary ones) and of the
  requested access. The check never falls through to a weaker class.
\<close>

theorem check_access_posix:
  assumes "au_uid auth \<noteq> 0" "au_groups_complete auth" "au_gid_known auth"
  shows "check_access i (credentials_from_auth_context auth) m =
    (let class = if au_uid auth = inode_uid i then 2
                 else if inode_gid i \<in> insert (au_gid auth) (set (take 16 (au_gids auth))) then 1
                 else 0 :: nat in
     if bit (inode_mode i) (3 * class + access_bit m) then Inr () else Inl PermissionDenied)"
proof -
  let ?creds = "credentials_from_auth_context auth"
  have "cr_uid ?creds = au_uid auth" "cr_groups_complete ?creds"
    using assms by (simp_all add: credentials_from_auth_context_def)
  moreover have "permission_class i ?creds =
      (if au_uid auth = inode_uid i then 2
       else if inode_gid i \<in> insert (au_gid auth) (set (take 16 (au_gids auth))) then 1 else 0)"
    using assms \<open>cr_uid ?creds = au_uid auth\<close>
    by (auto simp: permission_class_def known_member_iff)
  ultimately show ?thesis
    using assms by (simp add: check_access_bit Let_def)
qed

definition example_attrs :: attrs where
  "example_attrs = \<lparr>i_mtime = 0, i_mtime_nsec = 0, i_ctime = 0, i_ctime_nsec = 0, i_atime = 0,
     i_atime_nsec = 0, i_mode = 0x1A4, i_uid = 10, i_gid = 20, i_name = Some [0x61], i_nlink = 1\<rparr>"

definition example_file :: inode where
  "example_file = File \<lparr>f_attrs = example_attrs, f_size = 0, f_parent = Some 0\<rparr>"

text \<open>Mode 0644: a member of the file's group may not write although the owner could.\<close>

theorem check_access_posix_witness:
  "check_access example_file
     (credentials_from_auth_context
       \<lparr>au_uid = 11, au_gid = 5, au_gid_known = True, au_gids = [20], au_groups_complete = True\<rparr>)
     Write = Inl PermissionDenied"
  by (subst check_access_posix)
    (simp_all add: example_file_def example_attrs_def inode_uid_def inode_gid_def inode_mode_def)

end
