(* ===== verification/Fs_State.thy ===== *)
theory Fs_State
  imports Write_Coordinator Permissions
begin

text \<open>
  What the operations of \<open>fs/ops\<close> share: the environment of a call, the effect of a fallible
  step on the state of the file system, replay of completed operations (\<open>fs/ops/mod.rs\<close>),
  deletion of a file's extents (\<open>fs/store/extent/write.rs\<close>) and the open-handle table
  (\<open>fs/handle.rs\<close>).

  An operation runs under the locks of the inodes it changes. What it reads before it holds them
  comes from \<open>oe_pre\<close>, an arbitrary earlier state; what it reads afterwards comes from the
  current state. The clock, read faults, the outcome of the metadata fence and the answers the
  commit worker gets are fields of the environment.
\<close>

section \<open>Environment and effects\<close>

record op_env =
  oe_pre :: fs
  oe_pre_faults :: faults
  oe_faults :: faults
  oe_scan_ok :: bool
  oe_fence :: "fs_error option"
  oe_read_only :: bool
  oe_clock :: "nat \<Rightarrow> u64 \<times> u32"
  oe_protected :: "inode_id \<Rightarrow> bool"
  oe_worker :: worker_env

type_synonym ('s, 'a) sm = "'s \<Rightarrow> 'a fs_result \<times> 's"

type_synonym 'a fsm = "(fs, 'a) sm"

definition sret :: "'a \<Rightarrow> ('s, 'a) sm" where
  "sret x s = (Inr x, s)"

definition sfail :: "fs_error \<Rightarrow> ('s, 'a) sm" where
  "sfail e s = (Inl e, s)"

definition sbind :: "('s, 'a) sm \<Rightarrow> ('a \<Rightarrow> ('s, 'b) sm) \<Rightarrow> ('s, 'b) sm" where
  "sbind c k s = (case c s of (Inl e, t) \<Rightarrow> (Inl e, t) | (Inr x, t) \<Rightarrow> k x t)"

definition slift :: "'a fs_result \<Rightarrow> ('s, 'a) sm" where
  "slift r s = (r, s)"

definition sread :: "('s \<Rightarrow> 'a fs_result) \<Rightarrow> ('s, 'a) sm" where
  "sread g s = (g s, s)"

definition smodify :: "('s \<Rightarrow> 's) \<Rightarrow> ('s, unit) sm" where
  "smodify g s = (Inr (), g s)"

definition fence_metadata :: "op_env \<Rightarrow> unit fs_result" where
  "fence_metadata env = (case oe_fence env of None \<Rightarrow> Inr () | Some e \<Rightarrow> Inl e)"

definition new_transaction :: "op_env \<Rightarrow> txn fs_result" where
  "new_transaction env = (if oe_read_only env then Inl ReadOnlyFilesystem else Inr transaction_new)"

definition s_inode_get :: "op_env \<Rightarrow> inode_id \<Rightarrow> inode fsm" where
  "s_inode_get env ino = sread (\<lambda>s. inode_get (oe_faults env) (st_meta s) ino)"

definition s_get_entry :: "op_env \<Rightarrow> inode_id \<Rightarrow> bytes \<Rightarrow> (inode_id \<times> u64) fsm" where
  "s_get_entry env dir name = sread (\<lambda>s. get_entry_with_cookie (oe_faults env) (st_meta s) dir name)"

definition s_allocate :: "inode_id fsm" where
  "s_allocate s = (let (ino, s) = allocate s in (Inr ino, s))"

definition s_commit :: "op_env \<Rightarrow> txn \<Rightarrow> commit_settlement \<Rightarrow> unit fsm" where
  "s_commit env t st = commit_with_settlement (oe_worker env) t st"

definition s_bump :: "metric list \<Rightarrow> unit fsm" where
  "s_bump ks = smodify (fold bump ks)"

section \<open>Replay of completed operations\<close>

definition dedup_get :: "(op_id \<rightharpoonup> dedup_result) \<Rightarrow> op_id \<Rightarrow> dedup_result option" where
  "dedup_get ledger op = (if has_op_id op then ledger op else None)"

definition replay_dedup_result ::
  "(op_id \<rightharpoonup> dedup_result) \<Rightarrow> op_id \<Rightarrow> (dedup_result \<Rightarrow> 'a option) \<Rightarrow> 'a option fs_result" where
  "replay_dedup_result ledger op extract =
     (case dedup_get ledger op of
        None \<Rightarrow> Inr None
      | Some r \<Rightarrow> (case extract r of Some x \<Rightarrow> Inr (Some x) | None \<Rightarrow> Inl InvalidArgument))"

text \<open>\<open>if let Some(result) = self.replay_dedup_result(..)? { return Ok(result); }\<close>, against the
  ledger seen before the locks and under them.\<close>

definition unless_replayed_pre ::
  "op_env \<Rightarrow> op_id \<Rightarrow> (dedup_result \<Rightarrow> 'a option) \<Rightarrow> 'a fsm \<Rightarrow> 'a fsm" where
  "unless_replayed_pre env op extract k =
     sbind (slift (replay_dedup_result (st_ledger (oe_pre env)) op extract))
       (\<lambda>r. case r of Some x \<Rightarrow> sret x | None \<Rightarrow> k)"

definition unless_replayed ::
  "op_id \<Rightarrow> (dedup_result \<Rightarrow> 'a option) \<Rightarrow> 'a fsm \<Rightarrow> 'a fsm" where
  "unless_replayed op extract k =
     sbind (sread (\<lambda>s. replay_dedup_result (st_ledger s) op extract))
       (\<lambda>r. case r of Some x \<Rightarrow> sret x | None \<Rightarrow> k)"

section \<open>Extents of a removed file\<close>

definition EXTENT_SIZE :: u64 where
  "EXTENT_SIZE = 32768"

definition SMALL_FILE_TOMBSTONE_THRESHOLD :: nat where
  "SMALL_FILE_TOMBSTONE_THRESHOLD = 10"

definition extent_delete :: "inode_id \<Rightarrow> u64 \<Rightarrow> txn \<Rightarrow> txn" where
  "extent_delete ino idx t = update_cached_extent_location ino idx None (put_op (DelExtent ino idx) t)"

definition seg_delta :: "segid \<Rightarrow> int \<Rightarrow> int \<Rightarrow> txn \<Rightarrow> txn" where
  "seg_delta seg live tot t = add_seg_delta (sg_epoch seg, sg_counter seg) live tot t"

definition delete_extent_row :: "meta \<Rightarrow> inode_id \<Rightarrow> nat \<Rightarrow> txn \<Rightarrow> txn" where
  "delete_extent_row m ino k t =
     (case m_extents m (ino, word_of_nat k) of
        None \<Rightarrow> t
      | Some loc \<Rightarrow>
          extent_delete ino (word_of_nat k) (seg_delta (fl_segid loc) (- uint (fl_byte_len loc)) 0 t))"

definition delete_range ::
  "bool \<Rightarrow> meta \<Rightarrow> inode_id \<Rightarrow> u64 \<Rightarrow> u64 \<Rightarrow> txn \<Rightarrow> txn fs_result" where
  "delete_range scan_ok m ino start stop t =
     (if start \<ge> stop then Inr t
      else if \<not> scan_ok then Inl IoError
      else Inr (fold (delete_extent_row m ino) [unat start..<unat stop] t))"

text \<open>The extents of a file that goes away: deleted at once when there are few, left to a
  tombstone otherwise.\<close>

definition stage_file_data_removal :: "op_env \<Rightarrow> inode_id \<Rightarrow> file_inode \<Rightarrow> txn \<Rightarrow> txn fsm" where
  "stage_file_data_removal env ino f t =
     (let total_extents = div_ceil (f_size f) EXTENT_SIZE in
      if unat total_extents \<le> SMALL_FILE_TOMBSTONE_THRESHOLD then
        sread (\<lambda>s. delete_range (oe_scan_ok env) (st_meta s) ino 0 total_extents t)
      else
        sbind (s_bump [TombstonesCreated]) (\<lambda>_.
        sret (tombstone_add (fst (oe_clock env 9)) ino (f_size f) t)))"

section \<open>Open handles\<close>

definition open_handle_count :: "fs \<Rightarrow> inode_id \<Rightarrow> u64" where
  "open_handle_count s ino = (case st_open s ino of None \<Rightarrow> 0 | Some n \<Rightarrow> n)"

definition open_handle_inc :: "inode_id \<Rightarrow> fs \<Rightarrow> fs" where
  "open_handle_inc ino s =
     s\<lparr>st_open := (st_open s)(ino \<mapsto> (case st_open s ino of None \<Rightarrow> 0 | Some n \<Rightarrow> n) + 1)\<rparr>"

definition dec_open_handle :: "inode_id \<Rightarrow> fs \<Rightarrow> u64 \<times> fs" where
  "dec_open_handle ino s =
     (case st_open s ino of
        Some n \<Rightarrow>
          let c = saturating_sub n 1 in
          if c = 0 then (0, s\<lparr>st_open := (st_open s)(ino := None)\<rparr>)
          else (c, s\<lparr>st_open := (st_open s)(ino \<mapsto> c)\<rparr>)
      | None \<Rightarrow> (0, s))"

definition open_handle_drop :: "inode_id \<Rightarrow> fs \<Rightarrow> fs" where
  "open_handle_drop ino s =
     (let (c, s) = dec_open_handle ino s in
      if c = 0 then s\<lparr>st_reclaim := st_reclaim s @ [ino]\<rparr> else s)"

definition should_defer_unlinked_inode :: "op_env \<Rightarrow> fs \<Rightarrow> inode_id \<Rightarrow> bool" where
  "should_defer_unlinked_inode env s ino \<longleftrightarrow> open_handle_count s ino > 0 \<or> oe_protected env ino"

section \<open>Reasoning about steps\<close>

text \<open>\<open>holds c Q s\<close>: running \<open>c\<close> from \<open>s\<close> ends with a result and a state that satisfy \<open>Q\<close>.\<close>

definition holds :: "('s, 'a) sm \<Rightarrow> ('a fs_result \<Rightarrow> 's \<Rightarrow> bool) \<Rightarrow> 's \<Rightarrow> bool" where
  "holds c Q s \<longleftrightarrow> Q (fst (c s)) (snd (c s))"

lemma holdsD: "holds c Q s \<Longrightarrow> c s = (r, t) \<Longrightarrow> Q r t"
  by (simp add: holds_def)

lemma holds_mono: "holds c Q s \<Longrightarrow> (\<And>r t. Q r t \<Longrightarrow> Q' r t) \<Longrightarrow> holds c Q' s"
  by (simp add: holds_def)

lemma holds_simps [simp]:
  "holds (sret x) Q s = Q (Inr x) s"
  "holds (sfail e) Q s = Q (Inl e) s"
  "holds (slift r) Q s = Q r s"
  "holds (sread g) Q s = Q (g s) s"
  "holds (smodify h) P s = P (Inr ()) (h s)"
  by (simp_all add: holds_def sret_def sfail_def slift_def sread_def smodify_def)

lemma holds_bump [simp]: "holds (s_bump ks) Q s = Q (Inr ()) (fold bump ks s)"
  by (simp add: s_bump_def)

lemma holds_bind:
  "holds (sbind c k) Q s = holds c (\<lambda>r t. case r of Inl e \<Rightarrow> Q (Inl e) t | Inr x \<Rightarrow> holds (k x) Q t) s"
  by (simp add: holds_def sbind_def split: prod.split sum.split)

lemma sbind_assoc: "sbind (sbind c f) k = sbind c (\<lambda>x. sbind (f x) k)"
  by (rule ext) (simp add: sbind_def split: prod.split sum.split)

lemma sbind_sret: "sbind (sret x) k = k x"
  by (simp add: fun_eq_iff sbind_def sret_def)

lemma sbind_slift:
  "sbind (slift (Inr x)) k = k x" "sbind (slift (Inl e)) l = sfail e"
  by (simp_all add: fun_eq_iff sbind_def slift_def sfail_def)

lemma holds_bind_simps [simp]:
  "holds (sbind (sret x) k) Q s = holds (k x) Q s"
  "holds (sbind (sfail e) l) Q s = Q (Inl e) s"
  "holds (sbind (sread (\<lambda>s. Inr (g s))) k) Q s = holds (k (g s)) Q s"
  by (simp_all add: holds_bind)

text \<open>One rule per kind of step; the first premise is the error case.\<close>

lemma holds_liftI:
  "(\<And>e. r = Inl e \<Longrightarrow> Q (Inl e) s) \<Longrightarrow> (\<And>x. r = Inr x \<Longrightarrow> holds (k x) Q s) \<Longrightarrow> holds (sbind (slift r) k) Q s"
  by (simp add: holds_bind split: sum.split)

lemma holds_readI:
  "(\<And>e. g s = Inl e \<Longrightarrow> Q (Inl e) s) \<Longrightarrow> (\<And>x. g s = Inr x \<Longrightarrow> holds (k x) Q s) \<Longrightarrow> holds (sbind (sread g) k) Q s"
  by (simp add: holds_bind split: sum.split)

lemma holds_checkI:
  "(\<not> b \<Longrightarrow> Q (Inl e) s) \<Longrightarrow> (b \<Longrightarrow> holds (k ()) Q s) \<Longrightarrow> holds (sbind (slift (check b e)) k) Q s"
  by (simp add: holds_bind check_def)

lemma holds_bumpI: "holds (k ()) Q (fold bump ks s) \<Longrightarrow> holds (sbind (s_bump ks) k) Q s"
  by (simp add: holds_bind)

lemma holds_directoryI:
  "(\<not> is_directory i \<Longrightarrow> Q (Inl e) s) \<Longrightarrow> (\<And>d. i = Directory d \<Longrightarrow> holds (f d) Q s) \<Longrightarrow>
   holds (case i of Directory d \<Rightarrow> f d | _ \<Rightarrow> sfail e) Q s"
  by (cases i) simp_all

lemma holds_directory_bindI:
  "(\<not> is_directory i \<Longrightarrow> Q (Inl e) s) \<Longrightarrow> (\<And>d. i = Directory d \<Longrightarrow> holds (sbind (f d) k) Q s) \<Longrightarrow>
   holds (sbind (case i of Directory d \<Rightarrow> f d | _ \<Rightarrow> sfail e) k) Q s"
  by (cases i) simp_all

lemma holds_pairI: "(\<And>a b. p = (a, b) \<Longrightarrow> holds (f a b) Q s) \<Longrightarrow> holds (case p of (a, b) \<Rightarrow> f a b) Q s"
  by (cases p) simp

lemma bump_simps [simp]:
  "st_meta (fold bump ks s) = st_meta s" "st_ledger (fold bump ks s) = st_ledger s"
  "st_next_id (fold bump ks s) = st_next_id s" "st_open (fold bump ks s) = st_open s"
  by (induction ks arbitrary: s) (simp_all add: bump_def)

lemma inode_get_Inr: "inode_get flt m x = Inr i \<Longrightarrow> m_inodes m x = Some i"
  by (simp add: inode_get_def ok_or_def split: option.splits)

lemma dir_exists_False: "dir_exists flt m d n = Inr False \<Longrightarrow> m_entries m (d, n) = None"
  by (cases "m_entries m (d, n)") (auto simp: dir_exists_def split: option.splits)

lemma new_transaction_Inr: "new_transaction env = Inr t \<Longrightarrow> t = transaction_new"
  by (simp add: new_transaction_def split: if_splits)

subsection \<open>Commits\<close>

text \<open>What a caller knows of a commit: the rows and the result are there, or nothing is.\<close>

definition txn_entries :: "txn \<Rightarrow> dedup_entry list" where
  "txn_entries t = (case tx_dedup_entry t of None \<Rightarrow> [] | Some e \<Rightarrow> [e])"

definition committed :: "op_env \<Rightarrow> txn \<Rightarrow> bool \<Rightarrow> fs \<Rightarrow> fs \<Rightarrow> bool" where
  "committed env tx ok s t \<longleftrightarrow>
     (st_meta t = apply_ops (tx_ops tx) (st_meta s) \<and> st_ledger t = ledger_add (txn_entries tx) (st_ledger s)
        \<and> (ok \<or> we_sync_writes (oe_worker env))
      \<or> st_meta t = st_meta s \<and> st_ledger t = st_ledger s \<and> \<not> ok)
     \<and> (st_next_id t = st_next_id s \<or> st_next_id t = st_next_id s + 1) \<and> st_open t = st_open s"

lemma s_commit_committed:
  assumes "s_commit env tx st s = (r, t)"
  shows "committed env tx (r = Inr ()) s t"
proof -
  let ?rq = "\<lparr>cq_txn = tx, cq_write_request = None, cq_settlement = st\<rparr>"
  have b: "worker_batch (oe_worker env) [?rq] s = (r, t)"
    using assms by (simp add: s_commit_def commit_with_settlement_def)
  have "batch_ops [?rq] = tx_ops tx" "batch_entries [?rq] = txn_entries tx"
    by (simp_all add: batch_ops_def batch_entries_def txn_entries_def)
  then show ?thesis
    using worker_batch_atomic [OF b] worker_batch_counters [OF b] worker_batch_open [OF b]
    unfolding committed_def by auto
qed

lemma holds_commitI:
  assumes "\<And>e t. committed env tx False s t \<Longrightarrow> Q (Inl e) t"
    and "\<And>t. committed env tx True s t \<Longrightarrow> holds (k ()) Q t"
  shows "holds (sbind (s_commit env tx st) k) Q s"
proof -
  obtain r t where rt: "s_commit env tx st s = (r, t)"
    by fastforce
  show ?thesis
    using s_commit_committed [OF rt] assms(1) assms(2) [of t] rt
    by (cases r) (simp_all add: holds_bind, simp_all add: holds_def)
qed

end
