(* ===== verification/Namespace.thy ===== *)
theory Namespace
  imports Meta_Store
begin

text \<open>
  What the metadata rows mean: a tree of directories with hard links. The abstract state keeps
  for every inode its kind and the fields that describe its place (number of links, number of
  entries, parent and name), the entries by name, and the set of inodes without a link. Its
  operations are the specification of the operations of \<open>fs/ops\<close>; its invariant is the
  consistency of the namespace.
\<close>

section \<open>Abstract state\<close>

datatype skel =
    SDir (sd_count: nat) (sk_links: nat) (sd_up: inode_id) (sd_name: "bytes option")
  | SLeaf (sk_links: nat) (sl_parent: "inode_id option") (sl_name: "bytes option")

fun skel_of :: "inode \<Rightarrow> skel" where
  "skel_of (Directory d) =
     SDir (unat (d_entry_count d)) (unat (i_nlink (d_attrs d))) (d_parent d) (i_name (d_attrs d))"
| "skel_of i = SLeaf (unat (inode_nlink i)) (inode_parent i) (inode_name i)"

record ns =
  ns_nodes :: "inode_id \<rightharpoonup> skel"
  ns_ents :: "inode_id \<times> bytes \<rightharpoonup> inode_id"
  ns_orph :: "inode_id set"

definition ns_of :: "meta \<Rightarrow> ns" where
  "ns_of m = \<lparr>ns_nodes = map_option skel_of \<circ> m_inodes m, ns_ents = map_option fst \<circ> m_entries m,
     ns_orph = m_orphans m\<rparr>"

section \<open>Abstract operations\<close>

fun grow :: "bool \<Rightarrow> skel \<Rightarrow> skel" where
  "grow sub (SDir c l p nm) = SDir (c + 1) (if sub then l + 1 else l) p nm"
| "grow sub k = k"

fun shrink :: "bool \<Rightarrow> skel \<Rightarrow> skel" where
  "shrink sub (SDir c l p nm) = SDir (c - 1) (if sub then l - 1 else l) p nm"
| "shrink sub k = k"

definition ns_add :: "inode_id \<Rightarrow> bytes \<Rightarrow> inode_id \<Rightarrow> skel \<Rightarrow> ns \<Rightarrow> ns" where
  "ns_add d n x k N =
     N\<lparr>ns_nodes := (ns_nodes N)(d := map_option (grow (is_SDir k)) (ns_nodes N d), x \<mapsto> k),
       ns_ents := (ns_ents N)((d, n) \<mapsto> x)\<rparr>"

text \<open>A hard link; an inode without a link gets its name back.\<close>

fun link_skel :: "inode_id \<Rightarrow> bytes \<Rightarrow> skel \<Rightarrow> skel" where
  "link_skel d n (SLeaf l p nm) = (if l = 0 then SLeaf 1 (Some d) (Some n) else SLeaf (l + 1) None None)"
| "link_skel d n k = k"

definition ns_link :: "inode_id \<Rightarrow> bytes \<Rightarrow> inode_id \<Rightarrow> ns \<Rightarrow> ns" where
  "ns_link d n x N =
     N\<lparr>ns_nodes := (ns_nodes N)(d := map_option (grow False) (ns_nodes N d),
         x := map_option (link_skel d n) (ns_nodes N x)),
       ns_ents := (ns_ents N)((d, n) \<mapsto> x),
       ns_orph := ns_orph N - {x}\<rparr>"

text \<open>Removing an entry. \<open>keep\<close> says that the inode outlives its last link.\<close>

definition unlinked_skel :: "bool \<Rightarrow> skel \<Rightarrow> skel option" where
  "unlinked_skel keep k =
     (case k of
        SLeaf l p nm \<Rightarrow> if l > 1 then Some (SLeaf (l - 1) p nm) else if keep then Some (SLeaf 0 None None) else None
      | SDir c l p nm \<Rightarrow> if keep then Some (SDir c 0 p None) else None)"

definition ns_unlink :: "bool \<Rightarrow> inode_id \<Rightarrow> bytes \<Rightarrow> ns \<Rightarrow> ns" where
  "ns_unlink keep d n N =
     (case ns_ents N (d, n) of
        None \<Rightarrow> N
      | Some x \<Rightarrow>
          (case ns_nodes N x of
             None \<Rightarrow> N
           | Some k \<Rightarrow>
               N\<lparr>ns_nodes := (ns_nodes N)(d := map_option (shrink (is_SDir k)) (ns_nodes N d),
                   x := unlinked_skel keep k),
                 ns_ents := (ns_ents N)((d, n) := None),
                 ns_orph := (if map_option sk_links (unlinked_skel keep k) = Some 0
                             then insert x (ns_orph N) else ns_orph N)\<rparr>))"

text \<open>Moving an entry to a free name.\<close>

fun moved_skel :: "inode_id \<Rightarrow> bytes \<Rightarrow> skel \<Rightarrow> skel" where
  "moved_skel d n (SDir c l p nm) = SDir c l d (Some n)"
| "moved_skel d n (SLeaf l p nm) = (if l = 1 then SLeaf l (Some d) (Some n) else SLeaf l p nm)"

definition ns_move :: "inode_id \<Rightarrow> bytes \<Rightarrow> inode_id \<Rightarrow> bytes \<Rightarrow> ns \<Rightarrow> ns" where
  "ns_move d1 n1 d2 n2 N =
     (case ns_ents N (d1, n1) of
        None \<Rightarrow> N
      | Some x \<Rightarrow>
          (case ns_nodes N x of
             None \<Rightarrow> N
           | Some k \<Rightarrow>
               (let nodes = (if d1 = d2 then ns_nodes N
                  else (ns_nodes N)(d1 := map_option (shrink (is_SDir k)) (ns_nodes N d1),
                                    d2 := map_option (grow (is_SDir k)) (ns_nodes N d2)))
                in N\<lparr>ns_nodes := nodes(x \<mapsto> moved_skel d2 n2 k),
                     ns_ents := (ns_ents N)((d1, n1) := None, (d2, n2) \<mapsto> x)\<rparr>)))"

definition ns_rename :: "bool \<Rightarrow> inode_id \<Rightarrow> bytes \<Rightarrow> inode_id \<Rightarrow> bytes \<Rightarrow> ns \<Rightarrow> ns" where
  "ns_rename keep d1 n1 d2 n2 N = ns_move d1 n1 d2 n2 (ns_unlink keep d2 n2 N)"

text \<open>Reclaiming an inode without a link.\<close>

definition ns_reclaim :: "inode_id \<Rightarrow> ns \<Rightarrow> ns" where
  "ns_reclaim x N = N\<lparr>ns_nodes := (ns_nodes N)(x := None), ns_orph := ns_orph N - {x}\<rparr>"

text \<open>The inodes before and after.\<close>

lemma ns_add_nodes: "ns_nodes (ns_add d n x k N) y = None \<longleftrightarrow> y \<noteq> x \<and> ns_nodes N y = None"
  by (simp add: ns_add_def)

lemma ns_link_nodes: "ns_nodes (ns_link d n x N) y = None \<longleftrightarrow> ns_nodes N y = None"
  by (simp add: ns_link_def)

lemma ns_unlink_dom:
  "ns_nodes N y = None \<Longrightarrow> ns_nodes (ns_unlink keep d n N) y = None"
  "ns_nodes (ns_unlink keep d n N) y = None \<Longrightarrow> ns_nodes N y = None \<or> \<not> keep \<and> ns_ents N (d, n) = Some y"
  by (auto simp: ns_unlink_def unlinked_skel_def Let_def split: option.splits skel.splits if_splits)

lemma ns_move_nodes: "ns_nodes (ns_move d1 n1 d2 n2 N) y = None \<longleftrightarrow> ns_nodes N y = None"
  by (auto simp: ns_move_def Let_def split: option.splits)

lemma ns_rename_nodes:
  "ns_nodes N y = None \<Longrightarrow> ns_nodes (ns_rename keep d1 n1 d2 n2 N) y = None"
  "ns_nodes (ns_rename keep d1 n1 d2 n2 N) y = None \<Longrightarrow> ns_nodes N y = None \<or> \<not> keep \<and> ns_ents N (d2, n2) = Some y"
  unfolding ns_rename_def ns_move_nodes by (rule ns_unlink_dom; assumption)+

lemma ns_reclaim_nodes: "ns_nodes (ns_reclaim x N) y = None \<longleftrightarrow> y = x \<or> ns_nodes N y = None"
  by (simp add: ns_reclaim_def)

section \<open>Consistency\<close>

definition refs :: "ns \<Rightarrow> inode_id \<Rightarrow> (inode_id \<times> bytes) set" where
  "refs N x = {k. ns_ents N k = Some x}"

definition kids :: "ns \<Rightarrow> inode_id \<Rightarrow> bytes set" where
  "kids N d = {n. ns_ents N (d, n) \<noteq> None}"

definition is_dir :: "ns \<Rightarrow> inode_id \<Rightarrow> bool" where
  "is_dir N x \<longleftrightarrow> (\<exists>k. ns_nodes N x = Some k \<and> is_SDir k)"

definition subs :: "ns \<Rightarrow> inode_id \<Rightarrow> bytes set" where
  "subs N d = {n. \<exists>x. ns_ents N (d, n) = Some x \<and> is_dir N x}"

definition live_dir :: "ns \<Rightarrow> inode_id \<Rightarrow> bool" where
  "live_dir N d \<longleftrightarrow> (\<exists>c l p nm. ns_nodes N d = Some (SDir c l p nm) \<and> l \<noteq> 0)"

text \<open>A directory whose chain of parents ends at the root.\<close>

inductive rooted :: "ns \<Rightarrow> inode_id \<Rightarrow> bool" for N where
  root: "rooted N 0"
| up: "ns_nodes N d = Some (SDir c l p nm) \<Longrightarrow> rooted N p \<Longrightarrow> rooted N d"

definition dir_ok :: "ns \<Rightarrow> inode_id \<Rightarrow> nat \<Rightarrow> nat \<Rightarrow> inode_id \<Rightarrow> bytes option \<Rightarrow> bool" where
  "dir_ok N d c l p nm \<longleftrightarrow>
     c = card (kids N d)
     \<and> (if l = 0 then nm = None \<and> refs N d = {} \<and> d \<noteq> 0
        else l = 2 + card (subs N d)
          \<and> (if d = 0 then p = 0 \<and> nm = None else (\<exists>n. nm = Some n \<and> refs N d = {(p, n)})))"

definition leaf_ok :: "ns \<Rightarrow> inode_id \<Rightarrow> nat \<Rightarrow> inode_id option \<Rightarrow> bytes option \<Rightarrow> bool" where
  "leaf_ok N x l p nm \<longleftrightarrow>
     l = card (refs N x)
     \<and> (p = None) = (nm = None)
     \<and> (\<forall>q n. p = Some q \<and> nm = Some n \<longrightarrow> refs N x = {(q, n)})"

definition ns_inv :: "ns \<Rightarrow> bool" where
  "ns_inv N \<longleftrightarrow>
     finite (dom (ns_ents N))
     \<and> live_dir N 0
     \<and> (\<forall>d n x. ns_ents N (d, n) = Some x \<longrightarrow> live_dir N d \<and> x \<in> dom (ns_nodes N) \<and> x \<noteq> 0)
     \<and> (\<forall>d c l p nm. ns_nodes N d = Some (SDir c l p nm) \<longrightarrow> dir_ok N d c l p nm)
     \<and> (\<forall>x l p nm. ns_nodes N x = Some (SLeaf l p nm) \<longrightarrow> leaf_ok N x l p nm)
     \<and> ns_orph N = {x. \<exists>k. ns_nodes N x = Some k \<and> sk_links k = 0}
     \<and> (\<forall>d. live_dir N d \<longrightarrow> rooted N d)"

section \<open>Consequences of consistency\<close>

lemma ns_invD:
  assumes "ns_inv N"
  shows "finite (dom (ns_ents N))"
    and "live_dir N 0"
    and "ns_ents N (d, n) = Some x \<Longrightarrow> live_dir N d"
    and "ns_ents N (d, n) = Some x \<Longrightarrow> \<exists>k. ns_nodes N x = Some k"
    and "ns_ents N (d, n) = Some x \<Longrightarrow> x \<noteq> 0"
    and "ns_nodes N d = Some (SDir c l p nm) \<Longrightarrow> dir_ok N d c l p nm"
    and "ns_nodes N x = Some (SLeaf l p' nm) \<Longrightarrow> leaf_ok N x l p' nm"
    and "ns_orph N = {x. \<exists>k. ns_nodes N x = Some k \<and> sk_links k = 0}"
    and "live_dir N d \<Longrightarrow> rooted N d"
  using assms unfolding ns_inv_def by blast+

lemma ns_invI:
  assumes "finite (dom (ns_ents N))"
    and "live_dir N 0"
    and "\<And>d n x. ns_ents N (d, n) = Some x \<Longrightarrow> live_dir N d \<and> x \<in> dom (ns_nodes N) \<and> x \<noteq> 0"
    and "\<And>d c l p nm. ns_nodes N d = Some (SDir c l p nm) \<Longrightarrow> dir_ok N d c l p nm"
    and "\<And>x l p nm. ns_nodes N x = Some (SLeaf l p nm) \<Longrightarrow> leaf_ok N x l p nm"
    and "\<And>x. x \<in> ns_orph N \<longleftrightarrow> (\<exists>k. ns_nodes N x = Some k \<and> sk_links k = 0)"
    and "\<And>d. live_dir N d \<Longrightarrow> rooted N d"
  shows "ns_inv N"
  using assms unfolding ns_inv_def by blast

lemma finite_refs: "finite (dom (ns_ents N)) \<Longrightarrow> finite (refs N x)"
  by (erule finite_subset [rotated]) (auto simp: refs_def)

lemma finite_kids: "finite (dom (ns_ents N)) \<Longrightarrow> finite (kids N d)"
  by (rule finite_subset [of _ "snd ` dom (ns_ents N)"]) (force simp: kids_def image_iff, simp)

lemma subs_subset_kids: "subs N d \<subseteq> kids N d"
  by (auto simp: subs_def kids_def)

lemma finite_subs: "finite (dom (ns_ents N)) \<Longrightarrow> finite (subs N d)"
  using finite_kids finite_subset subs_subset_kids by blast

lemma live_dir_is_dir: "live_dir N d \<Longrightarrow> is_dir N d"
  by (auto simp: live_dir_def is_dir_def)

lemma no_refs_absent: "ns_inv N \<Longrightarrow> ns_nodes N x = None \<Longrightarrow> refs N x = {}"
  using ns_invD(4) by (fastforce simp: refs_def)

lemma no_kids_dead: "ns_inv N \<Longrightarrow> \<not> live_dir N d \<Longrightarrow> kids N d = {}"
  using ns_invD(3) by (fastforce simp: kids_def)

lemma root_no_refs: "ns_inv N \<Longrightarrow> refs N 0 = {}"
  using ns_invD(5) by (fastforce simp: refs_def)

text \<open>A directory that is referenced is referenced once, from its parent.\<close>

lemma dir_single_ref:
  assumes "ns_inv N" "ns_nodes N x = Some (SDir c l p nm)" "ns_ents N (d, n) = Some x"
  shows "l \<noteq> 0" "p = d" "nm = Some n" "refs N x = {(d, n)}" "x \<noteq> 0" "live_dir N x"
proof -
  have ref: "(d, n) \<in> refs N x"
    using assms(3) by (simp add: refs_def)
  have ok: "dir_ok N x c l p nm" and nz: "x \<noteq> 0"
    using ns_invD(5,6) [OF assms(1)] assms(2,3) by auto
  show "x \<noteq> 0" by (rule nz)
  show l: "l \<noteq> 0"
    using ok ref by (cases "l = 0") (auto simp: dir_ok_def)
  then show "p = d" "nm = Some n" "refs N x = {(d, n)}"
    using ok ref nz by (auto simp: dir_ok_def)
  show "live_dir N x"
    using assms(2) l by (auto simp: live_dir_def)
qed

lemma rooted_cong:
  assumes "rooted N d"
    and "\<And>e c l p nm. ns_nodes N e = Some (SDir c l p nm) \<Longrightarrow>
      \<exists>c' l' nm'. ns_nodes M e = Some (SDir c' l' p nm')"
  shows "rooted M d"
  using assms(1)
proof (induction rule: rooted.induct)
  case root
  then show ?case by (rule rooted.root)
next
  case (up d c l p nm)
  then show ?case
    using assms(2) [OF up(1)] by (auto intro: rooted.up)
qed

lemma dir_ok_cong:
  "refs M d = refs N d \<Longrightarrow> card (kids M d) = card (kids N d) \<Longrightarrow> card (subs M d) = card (subs N d) \<Longrightarrow>
   dir_ok M d c l p nm = dir_ok N d c l p nm"
  by (simp add: dir_ok_def)

lemma leaf_ok_cong: "refs M x = refs N x \<Longrightarrow> leaf_ok M x l p nm = leaf_ok N x l p nm"
  by (simp add: leaf_ok_def)

text \<open>Changing one entry.\<close>

lemma refs_put:
  "ns_ents M = (ns_ents N)(k \<mapsto> x) \<Longrightarrow> ns_ents N k = None \<Longrightarrow>
   refs M y = (if y = x then insert k (refs N y) else refs N y)"
  by (auto simp: refs_def)

lemma refs_del: "ns_ents M = (ns_ents N)(k := None) \<Longrightarrow> refs M y = refs N y - {k}"
  by (auto simp: refs_def)

lemma kids_put:
  "ns_ents M = (ns_ents N)((d, n) \<mapsto> x) \<Longrightarrow> kids M e = (if e = d then insert n (kids N e) else kids N e)"
  by (auto simp: kids_def)

lemma kids_del:
  "ns_ents M = (ns_ents N)((d, n) := None) \<Longrightarrow> kids M e = (if e = d then kids N e - {n} else kids N e)"
  by (auto simp: kids_def)

lemma subs_put:
  assumes "ns_ents M = (ns_ents N)((d, n) \<mapsto> x)" "ns_ents N (d, n) = None"
    and "\<And>e q y. ns_ents N (e, q) = Some y \<Longrightarrow> is_dir M y = is_dir N y"
  shows "subs M e = (if e = d \<and> is_dir M x then insert n (subs N e) else subs N e)"
  using assms(2,3) by (fastforce simp: subs_def assms(1) split: if_splits)

lemma subs_del:
  assumes "ns_ents M = (ns_ents N)((d, n) := None)"
    and "\<And>e q y. ns_ents N (e, q) = Some y \<Longrightarrow> (e, q) \<noteq> (d, n) \<Longrightarrow> is_dir M y = is_dir N y"
  shows "subs M e = (if e = d then subs N e - {n} else subs N e)"
  using assms(2) by (fastforce simp: subs_def assms(1) split: if_splits)

lemma in_kids: "ns_ents N (d, n) = Some x \<Longrightarrow> n \<in> kids N d"
  by (simp add: kids_def)

lemma in_subs: "ns_ents N (d, n) = Some x \<Longrightarrow> n \<in> subs N d \<longleftrightarrow> is_dir N x"
  by (simp add: subs_def)

lemma in_refs: "k \<in> refs N x \<longleftrightarrow> ns_ents N k = Some x"
  by (simp add: refs_def)

lemma not_in_kids: "ns_ents N (d, n) = None \<Longrightarrow> n \<notin> kids N d \<and> n \<notin> subs N d"
  by (simp add: kids_def subs_def)

lemma rooted_upto:
  assumes "rooted N e" "P e"
    and "\<And>e c l p nm. P e \<Longrightarrow> e \<noteq> 0 \<Longrightarrow> ns_nodes N e = Some (SDir c l p nm) \<Longrightarrow>
      P p \<and> (\<exists>c' l' nm'. ns_nodes M e = Some (SDir c' l' p nm'))"
  shows "rooted M e"
  using assms(1,2)
proof (induction rule: rooted.induct)
  case (up d c l p nm)
  show ?case
  proof (cases "d = 0")
    case False
    then show ?thesis
      using assms(3) [OF up.prems False up.hyps(1)] up.IH by (auto intro: rooted.up)
  qed (simp add: rooted.root)
qed (rule rooted.root)

text \<open>The parent of a live directory other than the root is live.\<close>

lemma live_parent:
  assumes "ns_inv N" "live_dir N e" "e \<noteq> 0" "ns_nodes N e = Some (SDir c l p nm)"
  shows "live_dir N p" "kids N p \<noteq> {}"
proof -
  have "l \<noteq> 0"
    using assms(2,4) by (auto simp: live_dir_def)
  then obtain n where "refs N e = {(p, n)}"
    using ns_invD(6) [OF assms(1,4)] assms(3) by (auto simp: dir_ok_def)
  then have "ns_ents N (p, n) = Some e"
    by (auto simp: refs_def)
  then show "live_dir N p" "kids N p \<noteq> {}"
    using ns_invD(3) [OF assms(1)] in_kids by blast+
qed

section \<open>Adding a new inode\<close>

lemma sk_links_map_grow: "is_SDir k \<Longrightarrow> sk_links (grow b k) = sk_links k + (if b then 1 else 0)"
  by (cases k) simp_all

lemma ns_add_inv:
  assumes inv: "ns_inv N" and d: "live_dir N d" and free: "ns_ents N (d, n) = None"
    and x: "ns_nodes N x = None"
    and k: "k = SDir 0 2 d (Some n) \<or> k = SLeaf 1 (Some d) (Some n)"
  shows "ns_inv (ns_add d n x k N)"
proof -
  define M where "M = ns_add d n x k N"
  obtain c l p nm where dn: "ns_nodes N d = Some (SDir c l p nm)" and l: "l \<noteq> 0"
    using d by (auto simp: live_dir_def)
  have dx: "d \<noteq> x" and x0: "x \<noteq> 0"
    using dn x ns_invD(2) [OF inv] by (auto simp: live_dir_def)
  have nodes: "ns_nodes M = (ns_nodes N)(d \<mapsto> SDir (c + 1) (if is_SDir k then l + 1 else l) p nm, x \<mapsto> k)"
    and ents: "ns_ents M = (ns_ents N)((d, n) \<mapsto> x)" and orph: "ns_orph M = ns_orph N"
    by (simp_all add: M_def ns_add_def dn)
  have refs: "refs M y = (if y = x then {(d, n)} else refs N y)" for y
    using refs_put [OF ents free] no_refs_absent [OF inv x] by simp
  note kids = kids_put [OF ents]
  have isd: "is_dir M y = (if y = x then is_SDir k else is_dir N y)" for y
    using dn by (auto simp: is_dir_def nodes)
  have unref: "y \<noteq> x" if "ns_ents N (e, q) = Some y" for e q y
    using ns_invD(4) [OF inv that] x by auto
  have subs: "subs M e = (if e = d \<and> is_SDir k then insert n (subs N e) else subs N e)" for e
    using subs_put [OF ents free] unref by (simp add: isd)
  have live: "live_dir M e = (if e = x then is_SDir k else live_dir N e)" for e
    using k dn l by (auto simp: live_dir_def nodes)
  have nk: "n \<notin> kids N d" "n \<notin> subs N d"
    using not_in_kids [OF free] by auto
  have kx: "kids N x = {}" "subs N x = {}"
    using no_kids_dead [OF inv, of x] x subs_subset_kids [of N x] by (auto simp: live_dir_def)
  note fin = finite_kids [OF ns_invD(1) [OF inv]] finite_subs [OF ns_invD(1) [OF inv]]
  have "ns_inv M"
  proof (rule ns_invI)
    show "finite (dom (ns_ents M))"
      using ns_invD(1) [OF inv] by (simp add: ents)
    show "live_dir M 0"
      using ns_invD(2) [OF inv] x0 by (simp add: live)
    show "live_dir M e \<and> y \<in> dom (ns_nodes M) \<and> y \<noteq> 0" if "ns_ents M (e, q) = Some y" for e q y
    proof (cases "(e, q) = (d, n)")
      case True
      then show ?thesis
        using that d dx x0 by (simp add: ents live nodes)
    next
      case False
      then have "ns_ents N (e, q) = Some y"
        using that by (auto simp: ents)
      from ns_invD(3,4,5) [OF inv this] show ?thesis
        using x dx dn by (auto simp: live nodes) (auto simp: live_dir_def)
    qed
    show "dir_ok M e c' l' p' nm'" if "ns_nodes M e = Some (SDir c' l' p' nm')" for e c' l' p' nm'
      using that k dx x0 kx nk fin l ns_invD(6) [OF inv dn] ns_invD(6) [OF inv, of e c' l' p' nm']
      by (auto simp: nodes dir_ok_def refs kids subs split: if_splits)
    show "leaf_ok M y l' p' nm'" if "ns_nodes M y = Some (SLeaf l' p' nm')" for y l' p' nm'
      using that k ns_invD(7) [OF inv, of y l' p' nm']
      by (auto simp: nodes leaf_ok_def refs split: if_splits)
    show "y \<in> ns_orph M \<longleftrightarrow> (\<exists>k. ns_nodes M y = Some k \<and> sk_links k = 0)" for y
      using ns_invD(8) [OF inv] k dn l x dx by (auto simp: orph nodes)
    have mono: "rooted M e" if "rooted N e" for e
      using that by (rule rooted_cong) (use dn x in \<open>auto simp: nodes\<close>)
    show "rooted M e" if "live_dir M e" for e
    proof (cases "e = x")
      case True
      then show ?thesis
        using that k dx mono [OF ns_invD(9) [OF inv d]] rooted.up [of M x 0 2 d "Some n"]
        by (auto simp: live nodes)
    next
      case False
      then show ?thesis
        using that mono ns_invD(9) [OF inv] by (auto simp: live)
    qed
  qed
  then show ?thesis
    by (simp add: M_def)
qed

section \<open>Adding a hard link\<close>

lemma ns_link_inv:
  assumes inv: "ns_inv N" and d: "live_dir N d" and free: "ns_ents N (d, n) = None"
    and x: "ns_nodes N x = Some (SLeaf lx px nx)"
  shows "ns_inv (ns_link d n x N)"
proof -
  define M where "M = ns_link d n x N"
  obtain c l p nm where dn: "ns_nodes N d = Some (SDir c l p nm)" and l: "l \<noteq> 0"
    using d by (auto simp: live_dir_def)
  have dx: "d \<noteq> x" and x0: "x \<noteq> 0"
    using dn x ns_invD(2) [OF inv] by (auto simp: live_dir_def)
  have nodes: "ns_nodes M = (ns_nodes N)(d \<mapsto> SDir (c + 1) l p nm, x \<mapsto> link_skel d n (SLeaf lx px nx))"
    and ents: "ns_ents M = (ns_ents N)((d, n) \<mapsto> x)" and orph: "ns_orph M = ns_orph N - {x}"
    using dx by (simp_all add: M_def ns_link_def dn x)
  note refs = refs_put [OF ents free] and kids = kids_put [OF ents]
  have isd: "is_dir M y = is_dir N y" for y
    using dn x by (auto simp: is_dir_def nodes)
  have subs: "subs M e = subs N e" for e
    using subs_put [OF ents free] x by (simp add: isd) (simp add: is_dir_def)
  have live: "live_dir M e = live_dir N e" for e
    using dn x l by (auto simp: live_dir_def nodes)
  note lx = ns_invD(7) [OF inv x] and fin = ns_invD(1) [OF inv]
  have "ns_inv M"
  proof (rule ns_invI)
    show "finite (dom (ns_ents M))"
      using fin by (simp add: ents)
    show "live_dir M 0"
      using ns_invD(2) [OF inv] by (simp add: live)
    show "live_dir M e \<and> y \<in> dom (ns_nodes M) \<and> y \<noteq> 0" if "ns_ents M (e, q) = Some y" for e q y
      using that d x0 ns_invD(3,4,5) [OF inv, of e q y] by (auto simp: ents live nodes split: if_splits)
    show "dir_ok M e c' l' p' nm'" if "ns_nodes M e = Some (SDir c' l' p' nm')" for e c' l' p' nm'
      using that dx not_in_kids [OF free] finite_kids [OF fin] ns_invD(6) [OF inv dn]
        ns_invD(6) [OF inv, of e c' l' p' nm']
      by (auto simp: nodes dir_ok_def refs kids subs split: if_splits)
    show "leaf_ok M y l' p' nm'" if "ns_nodes M y = Some (SLeaf l' p' nm')" for y l' p' nm'
      using that lx free finite_refs [OF fin] ns_invD(7) [OF inv, of y l' p' nm']
      by (auto simp: nodes leaf_ok_def refs in_refs split: if_splits)
    show "y \<in> ns_orph M \<longleftrightarrow> (\<exists>k. ns_nodes M y = Some k \<and> sk_links k = 0)" for y
      using ns_invD(8) [OF inv] dn l by (auto simp: orph nodes)
    show "rooted M e" if "live_dir M e" for e
      by (rule rooted_cong [OF ns_invD(9) [OF inv]]) (use that live dn x in \<open>auto simp: nodes\<close>)
  qed
  then show ?thesis
    by (simp add: M_def)
qed

text \<open>An inode that is referenced has a link, and one with a single link has a single reference.\<close>

lemma ref_links_pos:
  assumes "ns_inv N" "ns_ents N (d, n) = Some x" "ns_nodes N x = Some k"
  shows "sk_links k \<noteq> 0"
proof (cases k)
  case (SDir c l p nm)
  then show ?thesis
    using dir_single_ref(1) [OF assms(1) _ assms(2)] assms(3) by simp
next
  case (SLeaf l p nm)
  then have "l = card (refs N x)"
    using ns_invD(7) [OF assms(1)] assms(3) by (auto simp: leaf_ok_def)
  moreover have "(d, n) \<in> refs N x" "finite (refs N x)"
    using assms(2) finite_refs [OF ns_invD(1) [OF assms(1)]] by (auto simp: in_refs)
  ultimately show ?thesis
    using SLeaf by auto
qed

lemma leaf_single_ref:
  assumes "ns_inv N" "ns_ents N (d, n) = Some x" "ns_nodes N x = Some (SLeaf l p nm)" "l \<le> 1"
  shows "refs N x = {(d, n)}"
proof -
  have "card (refs N x) \<le> Suc 0"
    using ns_invD(7) [OF assms(1,3)] assms(4) by (simp add: leaf_ok_def)
  then have "\<forall>a \<in> refs N x. \<forall>b \<in> refs N x. a = b"
    using finite_refs [OF ns_invD(1) [OF assms(1)], of x] by (simp add: card_le_Suc0_iff_eq)
  moreover have "(d, n) \<in> refs N x"
    using assms(2) by (simp add: in_refs)
  ultimately show ?thesis
    by blast
qed

lemma dir_kids_empty:
  assumes "ns_inv N" "ns_nodes N x = Some k" "is_SDir k \<Longrightarrow> sd_count k = 0"
  shows "kids N x = {}"
proof (cases k)
  case (SDir c l p nm)
  then show ?thesis
    using assms(2,3) ns_invD(6) [OF assms(1), of x c l p nm] finite_kids [OF ns_invD(1) [OF assms(1)], of x]
    by (simp add: dir_ok_def)
next
  case (SLeaf l p nm)
  then show ?thesis
    using no_kids_dead [OF assms(1), of x] assms(2) by (auto simp: live_dir_def)
qed

section \<open>Removing an entry\<close>

lemma ns_unlink_inv:
  assumes inv: "ns_inv N" and e: "ns_ents N (d, n) = Some x" and x: "ns_nodes N x = Some k"
    and empty: "is_SDir k \<Longrightarrow> sd_count k = 0"
  shows "ns_inv (ns_unlink keep d n N)"
proof -
  define M where "M = ns_unlink keep d n N"
  note fin = ns_invD(1) [OF inv]
  obtain c l p nm where dn: "ns_nodes N d = Some (SDir c l p nm)" and l: "l \<noteq> 0"
    using ns_invD(3) [OF inv e] by (auto simp: live_dir_def)
  have kx: "kids N x = {}"
    by (rule dir_kids_empty [OF inv x empty])
  have dx: "d \<noteq> x" and x0: "x \<noteq> 0"
    using kx in_kids [OF e] ns_invD(5) [OF inv e] by auto
  have nodes: "ns_nodes M = (ns_nodes N)(d \<mapsto> SDir (c - 1) (if is_SDir k then l - 1 else l) p nm,
      x := unlinked_skel keep k)"
    and ents: "ns_ents M = (ns_ents N)((d, n) := None)"
    and orph: "ns_orph M = (if map_option sk_links (unlinked_skel keep k) = Some 0
      then insert x (ns_orph N) else ns_orph N)"
    using dx by (simp_all add: M_def ns_unlink_def dn x e)
  have refs: "refs M y = (if y = x then refs N x - {(d, n)} else refs N y)" for y
    using refs_del [OF ents, of y] e by (auto simp: in_refs)
  note kids = kids_del [OF ents]
  have isd: "is_dir M y = is_dir N y" if "y \<noteq> x" for y
    using dn that by (auto simp: is_dir_def nodes)
  have dirref: "refs N x = {(d, n)}" if "is_SDir k"
    using dir_single_ref(4) [OF inv _ e] x that by (cases k) auto
  have other: "\<not> is_SDir k \<and> sk_links k > 1" if "ns_ents N (f, q) = Some x" "(f, q) \<noteq> (d, n)" for f q
  proof (cases k)
    case (SDir c l p nm)
    then show ?thesis
      using dirref that in_refs [of "(f, q)" N x] by auto
  next
    case (SLeaf l p nm)
    then show ?thesis
      using leaf_single_ref [OF inv e, of l p nm] x that in_refs [of "(f, q)" N x] by fastforce
  qed
  have subs: "subs M f = (if f = d then subs N f - {n} else subs N f)" for f
  proof (rule subs_del [OF ents])
    fix f q y
    assume "ns_ents N (f, q) = Some y" "(f, q) \<noteq> (d, n)"
    then show "is_dir M y = is_dir N y"
      using other [of f q] isd [of y] x
      by (cases "y = x") (auto simp: is_dir_def nodes unlinked_skel_def split: skel.splits if_splits)
  qed
  have subn: "n \<in> subs N d \<longleftrightarrow> is_SDir k"
    using in_subs [OF e] x by (simp add: is_dir_def)
  have lx: "l = 2 + card (subs N d)" "c = card (kids N d)"
    using ns_invD(6) [OF inv dn] l by (auto simp: dir_ok_def)
  have l2: "(if is_SDir k then l - 1 else l) \<noteq> 0"
    using lx by simp
  have live: "live_dir M y = (if y = x then False else live_dir N y)" for y
    using dn l l2 x by (auto simp: live_dir_def nodes unlinked_skel_def split: skel.splits if_splits)
  have "ns_inv M"
  proof (rule ns_invI)
    show "finite (dom (ns_ents M))"
      using fin by (simp add: ents)
    show "live_dir M 0"
      using ns_invD(2) [OF inv] x0 by (simp add: live)
    show "live_dir M f \<and> y \<in> dom (ns_nodes M) \<and> y \<noteq> 0" if "ns_ents M (f, q) = Some y" for f q y
    proof -
      have f: "ns_ents N (f, q) = Some y" "(f, q) \<noteq> (d, n)"
        using that by (auto simp: ents split: if_splits)
      then have "f \<noteq> x"
        using kx in_kids by blast
      moreover have "y \<in> dom (ns_nodes M)"
        using f ns_invD(4) [OF inv f(1)] other [of f q]
        by (cases "y = x") (auto simp: nodes unlinked_skel_def split: skel.splits)
      ultimately show ?thesis
        using ns_invD(3,5) [OF inv f(1)] by (simp add: live)
    qed
    show "dir_ok M y c' l' p' nm'" if "ns_nodes M y = Some (SDir c' l' p' nm')" for y c' l' p' nm'
    proof -
      consider "y = d" | "y = x" | "y \<noteq> d" "y \<noteq> x" by blast
      then show ?thesis
      proof cases
        case 1
        then show ?thesis
          using that dx lx l l2 subn in_kids [OF e] finite_kids [OF fin] finite_subs [OF fin]
            ns_invD(6) [OF inv dn] card_gt_0_iff [of "subs N d"]
          by (auto simp: nodes dir_ok_def refs kids subs)
      next
        case 2
        then show ?thesis
          using that dx x0 kx dirref empty x
          by (auto simp: nodes dir_ok_def refs kids unlinked_skel_def split: skel.splits if_splits)
      next
        case 3
        then show ?thesis
          using that ns_invD(6) [OF inv, of y c' l' p' nm'] dir_ok_cong [of M y N]
          by (simp add: nodes refs kids subs)
      qed
    qed
    show "leaf_ok M y l' p' nm'" if "ns_nodes M y = Some (SLeaf l' p' nm')" for y l' p' nm'
    proof (cases "y = x")
      case True
      then have u: "unlinked_skel keep k = Some (SLeaf l' p' nm')"
        using that by (simp add: nodes)
      then obtain lk pk nk where k: "k = SLeaf lk pk nk"
        by (cases k) (auto simp: unlinked_skel_def split: if_splits)
      then have lk: "leaf_ok N x lk pk nk"
        using ns_invD(7) [OF inv] x by simp
      show ?thesis
      proof (cases "lk > 1")
        case multi: True
        then have "pk = None"
          using lk k by (cases pk) (auto simp: leaf_ok_def)
        then show ?thesis
          using True u k lk multi e finite_refs [OF fin, of x]
          by (auto simp: leaf_ok_def unlinked_skel_def refs in_refs)
      next
        case False
        then show ?thesis
          using True u k leaf_single_ref [OF inv e, of lk pk nk] x
          by (auto simp: leaf_ok_def unlinked_skel_def refs split: if_splits)
      qed
    next
      case False
      then show ?thesis
        using that ns_invD(7) [OF inv, of y l' p' nm'] leaf_ok_cong [of M y N]
        by (simp add: nodes refs split: if_splits)
    qed
    show "y \<in> ns_orph M \<longleftrightarrow> (\<exists>k. ns_nodes M y = Some k \<and> sk_links k = 0)" for y
      using ns_invD(8) [OF inv] dn l l2 x dx ref_links_pos [OF inv e x] by (auto simp: orph nodes)
    show "rooted M y" if "live_dir M y" for y
    proof (rule rooted_upto [where P = "\<lambda>y. live_dir M y"])
      show "rooted N y"
        using that ns_invD(9) [OF inv] by (simp add: live split: if_splits)
      show "live_dir M y" by (rule that)
      fix y c' l' p' nm'
      assume y: "live_dir M y" "y \<noteq> 0" "ns_nodes N y = Some (SDir c' l' p' nm')"
      then have "live_dir N y" "y \<noteq> x"
        by (auto simp: live split: if_splits)
      with live_parent [OF inv _ y(2,3)] kx have "live_dir M p'"
        by (auto simp: live)
      then show "live_dir M p' \<and> (\<exists>c' l' nm'. ns_nodes M y = Some (SDir c' l' p' nm'))"
        using y \<open>y \<noteq> x\<close> dn by (auto simp: nodes)
    qed
  qed
  then show ?thesis
    by (simp add: M_def)
qed

section \<open>Moving an entry\<close>

text \<open>\<open>a\<close> is \<open>d\<close> or on its chain of parents, below the root.\<close>

inductive above :: "ns \<Rightarrow> inode_id \<Rightarrow> inode_id \<Rightarrow> bool" for N a where
  here: "above N a a"
| up: "d \<noteq> 0 \<Longrightarrow> ns_nodes N d = Some (SDir c l p nm) \<Longrightarrow> above N a p \<Longrightarrow> above N a d"

lemma rooted_no_self_parent:
  "rooted N d \<Longrightarrow> d \<noteq> 0 \<Longrightarrow> ns_nodes N d = Some (SDir c l p nm) \<Longrightarrow> p \<noteq> d"
  by (induction arbitrary: c l nm rule: rooted.induct) auto

text \<open>The situation of a move: the source exists, the target name is free in a live directory, and a
  directory does not move below itself.\<close>

definition can_move :: "ns \<Rightarrow> inode_id \<Rightarrow> bytes \<Rightarrow> inode_id \<Rightarrow> bytes \<Rightarrow> inode_id \<Rightarrow> skel \<Rightarrow> bool" where
  "can_move N d1 n1 d2 n2 x k \<longleftrightarrow>
     ns_ents N (d1, n1) = Some x \<and> ns_nodes N x = Some k \<and> live_dir N d2 \<and> ns_ents N (d2, n2) = None
     \<and> (is_SDir k \<longrightarrow> \<not> above N x d2)"

lemma can_move_distinct:
  assumes inv: "ns_inv N" and mv: "can_move N d1 n1 d2 n2 x k"
  shows "x \<noteq> 0" "(d1, n1) \<noteq> (d2, n2)" "d1 \<noteq> x" "d2 \<noteq> x"
proof -
  have e: "ns_ents N (d1, n1) = Some x" and x: "ns_nodes N x = Some k"
    and free: "ns_ents N (d2, n2) = None" and d2: "live_dir N d2"
    and acyc: "is_SDir k \<Longrightarrow> \<not> above N x d2"
    using mv by (auto simp: can_move_def)
  show x0: "x \<noteq> 0" and "(d1, n1) \<noteq> (d2, n2)"
    using ns_invD(5) [OF inv e] e free by auto
  show "d1 \<noteq> x"
  proof
    assume eq: "d1 = x"
    obtain c l p nm where d: "ns_nodes N x = Some (SDir c l p nm)"
      using ns_invD(3) [OF inv e] eq by (auto simp: live_dir_def)
    then show False
      using rooted_no_self_parent [OF ns_invD(9) [OF inv ns_invD(3) [OF inv e]]]
        dir_single_ref(2) [OF inv d e] eq x0 by auto
  qed
  show "d2 \<noteq> x"
    using acyc d2 x above.here [of N x] by (cases k) (auto simp: live_dir_def)
qed

lemma ns_move_effect:
  assumes inv: "ns_inv N" and mv: "can_move N d1 n1 d2 n2 x k"
  defines "M \<equiv> ns_move d1 n1 d2 n2 N"
  shows "ns_ents M = (ns_ents N)((d1, n1) := None, (d2, n2) \<mapsto> x)"
    and "ns_orph M = ns_orph N"
    and "ns_nodes M y =
      (if y = x then Some (moved_skel d2 n2 k)
       else if d1 = d2 then ns_nodes N y
       else if y = d1 then map_option (shrink (is_SDir k)) (ns_nodes N d1)
       else if y = d2 then map_option (grow (is_SDir k)) (ns_nodes N d2)
       else ns_nodes N y)"
    and "is_dir M y = is_dir N y"
    and "refs M y = (if y = x then insert (d2, n2) (refs N x - {(d1, n1)}) else refs N y)"
    and "kids M y = (if y = d1 then kids N y - {n1} else kids N y) \<union> (if y = d2 then {n2} else {})"
    and "subs M y = (if y = d1 then subs N y - {n1} else subs N y)
      \<union> (if y = d2 \<and> is_SDir k then {n2} else {})"
proof -
  note ne = can_move_distinct [OF inv mv]
  have e: "ns_ents N (d1, n1) = Some x" and x: "ns_nodes N x = Some k"
    and free: "ns_ents N (d2, n2) = None"
    using mv by (auto simp: can_move_def)
  have dirs: "is_dir N d1" "is_dir N d2"
    using ns_invD(3) [OF inv e] mv live_dir_is_dir by (auto simp: can_move_def)
  show ents: "ns_ents M = (ns_ents N)((d1, n1) := None, (d2, n2) \<mapsto> x)" and "ns_orph M = ns_orph N"
    by (simp_all add: M_def ns_move_def e x Let_def)
  show nodes: "ns_nodes M y =
      (if y = x then Some (moved_skel d2 n2 k)
       else if d1 = d2 then ns_nodes N y
       else if y = d1 then map_option (shrink (is_SDir k)) (ns_nodes N d1)
       else if y = d2 then map_option (grow (is_SDir k)) (ns_nodes N d2)
       else ns_nodes N y)" for y
    by (simp add: M_def ns_move_def e x)
  have "is_SDir (moved_skel d2 n2 k) = is_SDir k"
    by (cases k) simp_all
  moreover have "is_SDir (shrink b j) = is_SDir j" "is_SDir (grow b j) = is_SDir j" for b j
    by (cases j, simp_all)+
  ultimately show isd: "is_dir M y = is_dir N y" for y
    using x dirs by (auto simp: is_dir_def nodes)
  show "refs M y = (if y = x then insert (d2, n2) (refs N x - {(d1, n1)}) else refs N y)"
    using e free by (auto simp: refs_def ents)
  show "kids M y = (if y = d1 then kids N y - {n1} else kids N y) \<union> (if y = d2 then {n2} else {})"
    by (auto simp: kids_def ents)
  show "subs M y = (if y = d1 then subs N y - {n1} else subs N y)
      \<union> (if y = d2 \<and> is_SDir k then {n2} else {})"
  proof -
    have "is_dir N x \<longleftrightarrow> is_SDir k"
      using x by (simp add: is_dir_def)
    then show ?thesis
      using free by (auto simp: subs_def ents isd split: if_splits)
  qed
qed

text \<open>The moved directory's chain is that of its new parent, every other chain goes through the same
  parents.\<close>

lemma ns_move_rooted:
  assumes inv: "ns_inv N" and mv: "can_move N d1 n1 d2 n2 x k" and y: "rooted N y"
  shows "rooted (ns_move d1 n1 d2 n2 N) y"
proof -
  let ?M = "ns_move d1 n1 d2 n2 N"
  note nodes = ns_move_effect(3) [OF inv mv]
  have same: "\<exists>c' l' nm'. ns_nodes ?M e = Some (SDir c' l' p nm')"
    if "e \<noteq> x" "ns_nodes N e = Some (SDir c l p nm)" for e c l p nm
    using that by (auto simp: nodes)
  have keep: "rooted ?M y" if k: "\<not> is_SDir k"
  proof (rule rooted_cong [OF y])
    fix e c l p nm
    assume h: "ns_nodes N e = Some (SDir c l p nm)"
    then have "e \<noteq> x"
      using k mv by (auto simp: can_move_def)
    from same [OF this h] show "\<exists>c' l' nm'. ns_nodes ?M e = Some (SDir c' l' p nm')" .
  qed
  have new: "rooted ?M d2" if "is_SDir k"
  proof (rule rooted_upto [where P = "\<lambda>e. \<not> above N x e"])
    show "rooted N d2" "\<not> above N x d2"
      using mv ns_invD(9) [OF inv] that by (auto simp: can_move_def)
    fix e c l p nm
    assume "\<not> above N x e" "e \<noteq> 0" "ns_nodes N e = Some (SDir c l p nm)"
    then show "\<not> above N x p \<and> (\<exists>c' l' nm'. ns_nodes ?M e = Some (SDir c' l' p nm'))"
      using above.up [of e N c l p nm x] above.here [of N x] same [of e] by auto
  qed
  show ?thesis
  proof (cases k)
    case (SDir c l p nm)
    from y show ?thesis
    proof (induction rule: rooted.induct)
      case (up e c' l' p' nm')
      show ?case
      proof (cases "e = x")
        case True
        then show ?thesis
          using new SDir rooted.up [of ?M x c l d2 "Some n2"] by (simp add: nodes)
      next
        case False
        then show ?thesis
          using same [OF False up.hyps(1)] up.IH by (auto intro: rooted.up)
      qed
    qed (rule rooted.root)
  qed (use keep in simp)
qed

lemma ns_move_dirs:
  assumes inv: "ns_inv N" and mv: "can_move N d1 n1 d2 n2 x k"
  defines "M \<equiv> ns_move d1 n1 d2 n2 N"
  assumes y: "ns_nodes M y = Some (SDir c l p nm)"
  shows "dir_ok M y c l p nm"
proof -
  note eff = ns_move_effect [OF inv mv, folded M_def] and ne = can_move_distinct [OF inv mv]
  note fin = finite_kids [OF ns_invD(1) [OF inv]] finite_subs [OF ns_invD(1) [OF inv]]
  have e: "ns_ents N (d1, n1) = Some x" and x: "ns_nodes N x = Some k"
    and free: "ns_ents N (d2, n2) = None" and d2: "live_dir N d2"
    using mv by (auto simp: can_move_def)
  obtain c1 l1 p1 m1 where d1n: "ns_nodes N d1 = Some (SDir c1 l1 p1 m1)" and l1: "l1 \<noteq> 0"
    using ns_invD(3) [OF inv e] by (auto simp: live_dir_def)
  obtain c2 l2 p2 m2 where d2n: "ns_nodes N d2 = Some (SDir c2 l2 p2 m2)" and l2: "l2 \<noteq> 0"
    using d2 by (auto simp: live_dir_def)
  have n1: "n1 \<in> kids N d1" "n1 \<in> subs N d1 \<longleftrightarrow> is_SDir k" and n2: "n2 \<notin> kids N d2" "n2 \<notin> subs N d2"
    using in_kids [OF e] in_subs [OF e] x not_in_kids [OF free] by (auto simp: is_dir_def)
  have pos: "card (kids N d1) > 0" "is_SDir k \<Longrightarrow> card (subs N d1) > 0"
    using n1 fin by (auto simp: card_gt_0_iff)
  have ok1: "dir_ok N d1 c1 l1 p1 m1" and ok2: "dir_ok N d2 c2 l2 p2 m2"
    using ns_invD(6) [OF inv] d1n d2n by auto
  consider "y = x" | "y \<noteq> x" "d1 = d2" "y = d1" | "d1 \<noteq> d2" "y = d1" | "d1 \<noteq> d2" "y = d2"
    | "y \<noteq> x" "y \<noteq> d1" "y \<noteq> d2"
    using ne by blast
  then show ?thesis
  proof cases
    case 1
    then obtain p' nm' where k: "k = SDir c l p' nm'" and new: "p = d2" "nm = Some n2"
      using y eff(3) [of x] by (cases k) (auto split: if_splits)
    then have "refs N x = {(d1, n1)}" "l \<noteq> 0" "dir_ok N x c l p' nm'"
      using dir_single_ref [OF inv _ e] x ns_invD(6) [OF inv] by auto
    then show ?thesis
      using 1 ne new by (auto simp: dir_ok_def eff(5-7))
  next
    case 2
    then have "dir_ok N y c l p nm"
      using y ns_invD(6) [OF inv] by (simp add: eff(3))
    moreover have "card (kids M y) = card (kids N y)" "card (subs M y) = card (subs N y)"
      using 2 n1 n2 pos fin by (auto simp: eff(6,7))
    ultimately show ?thesis
      using 2 dir_ok_cong [of M y N] by (simp add: eff(5))
  next
    case 3
    then show ?thesis
      using y ne d1n ok1 l1 n1 pos fin by (auto simp: eff(3) dir_ok_def eff(5-7))
  next
    case 4
    then show ?thesis
      using y ne d2n ok2 l2 n2 fin by (auto simp: eff(3) dir_ok_def eff(5-7))
  next
    case 5
    then show ?thesis
      using y ns_invD(6) [OF inv, of y c l p nm] dir_ok_cong [of M y N]
      by (simp add: eff(3) eff(5-7) split: if_splits)
  qed
qed

lemma ns_move_leaves:
  assumes inv: "ns_inv N" and mv: "can_move N d1 n1 d2 n2 x k"
  defines "M \<equiv> ns_move d1 n1 d2 n2 N"
  assumes y: "ns_nodes M y = Some (SLeaf l p nm)"
  shows "leaf_ok M y l p nm"
proof -
  note eff = ns_move_effect [OF inv mv, folded M_def]
  note fin = finite_refs [OF ns_invD(1) [OF inv], of x]
  have e: "ns_ents N (d1, n1) = Some x" and x: "ns_nodes N x = Some k"
    and free: "ns_ents N (d2, n2) = None"
    using mv by (auto simp: can_move_def)
  show ?thesis
  proof (cases "y = x")
    case True
    then obtain lk pk nk where k: "k = SLeaf lk pk nk"
      using y by (cases k) (auto simp: eff(3))
    then have ok: "leaf_ok N x lk pk nk"
      using ns_invD(7) [OF inv] x by simp
    have card: "card (refs M x) = card (refs N x)"
    proof -
      have "(d1, n1) \<in> refs N x" "(d2, n2) \<notin> refs N x"
        using e free by (auto simp: in_refs)
      then show ?thesis
        using fin card_Suc_Diff1 [OF fin, of "(d1, n1)"] by (simp add: eff(5) del: card_Diff_singleton)
    qed
    show ?thesis
    proof (cases "lk = 1")
      case one: True
      then show ?thesis
        using True y k ok card leaf_single_ref [OF inv e, of lk pk nk] x by (auto simp: eff(3,5) leaf_ok_def)
    next
      case False
      then have "pk = None" "nk = None"
        using ok ref_links_pos [OF inv e x] k by (auto simp: leaf_ok_def)
      then show ?thesis
        using True y k ok card False by (auto simp: eff(3) leaf_ok_def)
    qed
  next
    case False
    have "live_dir N d1" "live_dir N d2"
      using mv ns_invD(3) [OF inv e] by (auto simp: can_move_def)
    then have "ns_nodes N y = Some (SLeaf l p nm)"
      using y False by (auto simp: eff(3) live_dir_def split: if_splits)
    then show ?thesis
      using ns_invD(7) [OF inv] False leaf_ok_cong [of M y N] by (simp add: eff(5))
  qed
qed

lemma ns_move_inv:
  assumes inv: "ns_inv N" and mv: "can_move N d1 n1 d2 n2 x k"
  shows "ns_inv (ns_move d1 n1 d2 n2 N)"
proof -
  define M where "M = ns_move d1 n1 d2 n2 N"
  note eff = ns_move_effect [OF inv mv, folded M_def] and ne = can_move_distinct [OF inv mv]
  note fin = ns_invD(1) [OF inv]
  have e: "ns_ents N (d1, n1) = Some x" and x: "ns_nodes N x = Some k"
    and free: "ns_ents N (d2, n2) = None" and d2: "live_dir N d2"
    using mv by (auto simp: can_move_def)
  obtain c1 l1 p1 m1 where d1n: "ns_nodes N d1 = Some (SDir c1 l1 p1 m1)" and l1: "l1 \<noteq> 0"
    using ns_invD(3) [OF inv e] by (auto simp: live_dir_def)
  obtain c2 l2 p2 m2 where d2n: "ns_nodes N d2 = Some (SDir c2 l2 p2 m2)" and l2: "l2 \<noteq> 0"
    using d2 by (auto simp: live_dir_def)
  have n1: "n1 \<in> kids N d1" "n1 \<in> subs N d1 \<longleftrightarrow> is_SDir k" and n2: "n2 \<notin> kids N d2" "n2 \<notin> subs N d2"
    using in_kids [OF e] in_subs [OF e] x not_in_kids [OF free] by (auto simp: is_dir_def)
  have ok1: "dir_ok N d1 c1 l1 p1 m1" and ok2: "dir_ok N d2 c2 l2 p2 m2"
    using ns_invD(6) [OF inv] d1n d2n by auto
  have l1': "is_SDir k \<Longrightarrow> l1 \<ge> 3"
    using ok1 l1 n1(2) finite_subs [OF fin, of d1] card_gt_0_iff [of "subs N d1"] by (auto simp: dir_ok_def)
  have links: "sk_links k \<noteq> 0"
    by (rule ref_links_pos [OF inv e x])
  have live: "live_dir M y = live_dir N y" for y
    using d1n d2n x l1 l2 l1' links ne by (cases k) (auto simp: live_dir_def eff(3))
  note dirs = ns_move_dirs [OF inv mv, folded M_def] and leaves = ns_move_leaves [OF inv mv, folded M_def]
  have "ns_inv M"
  proof (rule ns_invI)
    show "finite (dom (ns_ents M))"
      using fin by (simp add: eff(1))
    show "live_dir M 0"
      using ns_invD(2) [OF inv] by (simp add: live)
    show "live_dir M f \<and> y \<in> dom (ns_nodes M) \<and> y \<noteq> 0" if "ns_ents M (f, q) = Some y" for f q y
      using that d2 x ne(1) ns_invD(3,4,5) [OF inv, of f q y] d1n d2n
      by (auto simp: eff(1,3) live split: if_splits)
    show "y \<in> ns_orph M \<longleftrightarrow> (\<exists>k. ns_nodes M y = Some k \<and> sk_links k = 0)" for y
      using ns_invD(8) [OF inv] d1n d2n l1 l2 l1' x links
      by (cases k) (auto simp: eff(2,3))
    show "rooted M y" if "live_dir M y" for y
      using ns_move_rooted [OF inv mv ns_invD(9) [OF inv], folded M_def] that by (simp add: live)
  qed (fact dirs leaves)+
  then show ?thesis
    by (simp add: M_def)
qed

section \<open>Renaming over an existing entry\<close>

lemma above_mono:
  assumes "above M a d"
    and "\<And>e c l p nm. ns_nodes M e = Some (SDir c l p nm) \<Longrightarrow>
      \<exists>c' l' nm'. ns_nodes N e = Some (SDir c' l' p nm')"
  shows "above N a d"
  using assms(1)
proof (induction rule: above.induct)
  case (up d c l p nm)
  then show ?case
    using assms(2) [OF up.hyps(2)] by (auto intro: above.up)
qed (rule above.here)

lemma ns_unlink_nodes:
  assumes inv: "ns_inv N" and e: "ns_ents N (d, n) = Some x" and x: "ns_nodes N x = Some k"
    and empty: "is_SDir k \<Longrightarrow> sd_count k = 0"
  shows "ns_nodes (ns_unlink keep d n N) =
      (ns_nodes N)(d := map_option (shrink (is_SDir k)) (ns_nodes N d), x := unlinked_skel keep k)"
    and "d \<noteq> x" "live_dir (ns_unlink keep d n N) d"
    and "above (ns_unlink keep d n N) a b \<Longrightarrow> above N a b"
proof -
  show dx: "d \<noteq> x"
    using dir_kids_empty [OF inv x empty] in_kids [OF e] by auto
  show nodes: "ns_nodes (ns_unlink keep d n N) =
      (ns_nodes N)(d := map_option (shrink (is_SDir k)) (ns_nodes N d), x := unlinked_skel keep k)"
    by (simp add: ns_unlink_def e x)
  obtain c l p nm where dn: "ns_nodes N d = Some (SDir c l p nm)" and l: "l \<noteq> 0"
    using ns_invD(3) [OF inv e] by (auto simp: live_dir_def)
  have "l \<ge> 2"
    using ns_invD(6) [OF inv dn] l by (auto simp: dir_ok_def)
  then show "live_dir (ns_unlink keep d n N) d"
    using dx dn by (simp add: live_dir_def nodes)
  show "above N a b" if "above (ns_unlink keep d n N) a b"
    using that by (rule above_mono)
      (use dn x in \<open>auto simp: nodes unlinked_skel_def split: if_splits skel.splits\<close>)
qed

text \<open>What \<open>rename\<close> requires of the namespace.\<close>

definition can_rename :: "ns \<Rightarrow> inode_id \<Rightarrow> bytes \<Rightarrow> inode_id \<Rightarrow> bytes \<Rightarrow> inode_id \<Rightarrow> skel \<Rightarrow> bool" where
  "can_rename N d1 n1 d2 n2 x k \<longleftrightarrow>
     ns_ents N (d1, n1) = Some x \<and> ns_nodes N x = Some k \<and> live_dir N d2
     \<and> (is_SDir k \<longrightarrow> \<not> above N x d2)
     \<and> (\<forall>y. ns_ents N (d2, n2) = Some y \<longrightarrow>
          y \<noteq> x \<and> (\<forall>j. ns_nodes N y = Some j \<and> is_SDir j \<longrightarrow> sd_count j = 0))"

lemma can_rename_move:
  assumes inv: "ns_inv N" and rn: "can_rename N d1 n1 d2 n2 x k"
  shows "ns_inv (ns_unlink keep d2 n2 N)" "can_move (ns_unlink keep d2 n2 N) d1 n1 d2 n2 x k"
proof (atomize(full), cases "ns_ents N (d2, n2)")
  case None
  then show "ns_inv (ns_unlink keep d2 n2 N) \<and> can_move (ns_unlink keep d2 n2 N) d1 n1 d2 n2 x k"
    using inv rn by (simp add: ns_unlink_def can_rename_def can_move_def)
next
  case (Some y)
  then obtain j where j: "ns_nodes N y = Some j"
    using ns_invD(4) [OF inv] by blast
  have empty: "is_SDir j \<Longrightarrow> sd_count j = 0" and yx: "y \<noteq> x"
    using rn Some j by (auto simp: can_rename_def)
  let ?U = "ns_unlink keep d2 n2 N"
  note un = ns_unlink_nodes [OF inv Some j empty]
  have ents: "ns_ents ?U = (ns_ents N)((d2, n2) := None)"
    by (simp add: ns_unlink_def Some j)
  have "x \<noteq> d2" if "is_SDir k"
    using rn that above.here [of N x] by (auto simp: can_rename_def)
  moreover have "x \<noteq> d2" if "\<not> is_SDir k"
    using rn that by (auto simp: can_rename_def live_dir_def)
  ultimately have "x \<noteq> d2" by blast
  then have "can_move ?U d1 n1 d2 n2 x k"
    using rn un(1,3,4) yx Some by (auto simp: can_rename_def can_move_def ents)
  then show "ns_inv ?U \<and> can_move ?U d1 n1 d2 n2 x k"
    using ns_unlink_inv [OF inv Some j empty] by blast
qed

lemma ns_rename_inv:
  "ns_inv N \<Longrightarrow> can_rename N d1 n1 d2 n2 x k \<Longrightarrow> ns_inv (ns_rename keep d1 n1 d2 n2 N)"
  unfolding ns_rename_def by (rule ns_move_inv [OF can_rename_move])

section \<open>Reclaiming an orphan\<close>

lemma ns_reclaim_inv:
  assumes inv: "ns_inv N" and x: "ns_nodes N x = Some k" and dead: "sk_links k = 0"
  shows "ns_inv (ns_reclaim x N)"
proof -
  define M where "M = ns_reclaim x N"
  note fin = ns_invD(1) [OF inv]
  have nodes: "ns_nodes M = (ns_nodes N)(x := None)" and ents: "ns_ents M = ns_ents N"
    and orph: "ns_orph M = ns_orph N - {x}"
    by (simp_all add: M_def ns_reclaim_def)
  have rx: "ns_ents N (f, q) \<noteq> Some x" for f q
    using ref_links_pos [OF inv _ x] dead by auto
  have x0: "x \<noteq> 0" and nl: "\<not> live_dir N x"
    using ns_invD(2) [OF inv] x dead by (auto simp: live_dir_def)
  have kx: "kids N x = {}"
    by (rule no_kids_dead [OF inv nl])
  have refs: "refs M y = refs N y" and kids: "kids M y = kids N y" for y
    by (simp_all add: refs_def kids_def ents)
  have subs: "subs M y = subs N y" for y
    using rx by (auto simp: subs_def ents is_dir_def nodes) metis
  have live: "live_dir M y = live_dir N y" for y
    using nl by (auto simp: live_dir_def nodes)
  have "ns_inv M"
  proof (rule ns_invI)
    show "finite (dom (ns_ents M))" "live_dir M 0"
      using fin ns_invD(2) [OF inv] by (simp_all add: ents live)
    show "live_dir M f \<and> y \<in> dom (ns_nodes M) \<and> y \<noteq> 0" if "ns_ents M (f, q) = Some y" for f q y
      using that rx ns_invD(3,4,5) [OF inv, of f q y] by (auto simp: ents live nodes)
    show "dir_ok M y c l p nm" if "ns_nodes M y = Some (SDir c l p nm)" for y c l p nm
      using that ns_invD(6) [OF inv, of y c l p nm] dir_ok_cong [of M y N]
      by (simp add: nodes refs kids subs split: if_splits)
    show "leaf_ok M y l p nm" if "ns_nodes M y = Some (SLeaf l p nm)" for y l p nm
      using that ns_invD(7) [OF inv, of y l p nm] leaf_ok_cong [of M y N]
      by (simp add: nodes refs split: if_splits)
    show "y \<in> ns_orph M \<longleftrightarrow> (\<exists>k. ns_nodes M y = Some k \<and> sk_links k = 0)" for y
      using ns_invD(8) [OF inv] by (auto simp: orph nodes)
    show "rooted M y" if y: "live_dir M y" for y
    proof (rule rooted_upto [where P = "live_dir N"])
      show "rooted N y" "live_dir N y"
        using y ns_invD(9) [OF inv] by (simp_all add: live)
      fix e c l p nm
      assume e: "live_dir N e" "e \<noteq> 0" "ns_nodes N e = Some (SDir c l p nm)"
      then show "live_dir N p \<and> (\<exists>c' l' nm'. ns_nodes M e = Some (SDir c' l' p nm'))"
        using live_parent(1) [OF inv e] nl by (auto simp: nodes)
    qed
  qed
  then show ?thesis
    by (simp add: M_def)
qed

end
