(* ===== verification/Dir_Index.thy ===== *)
theory Dir_Index
  imports Namespace
begin

text \<open>
  The listing index of a directory: every entry has a cookie, every cookie below the directory's
  counter names at most one entry, and a scan row that embeds an inode is at the place the inode
  itself records. Embedded copies are equal to the inode rows as long as the reads that refresh
  them succeed.
\<close>

section \<open>Invariants\<close>

definition cookie_of :: "meta \<Rightarrow> inode_id \<Rightarrow> u64" where
  "cookie_of m d = (case m_cookies m d of Some c \<Rightarrow> c | None \<Rightarrow> COOKIE_FIRST_ENTRY)"

definition idx_inv :: "meta \<Rightarrow> bool" where
  "idx_inv m \<longleftrightarrow>
     (\<forall>d n x c. m_entries m (d, n) = Some (x, c) \<longleftrightarrow>
        (\<exists>v. m_scans m (d, c) = Some (n, v) \<and> scan_inode_id v = x))
     \<and> (\<forall>d c. m_scans m (d, c) \<noteq> None \<longrightarrow> COOKIE_FIRST_ENTRY \<le> c \<and> c < cookie_of m d)
     \<and> (\<forall>d. COOKIE_FIRST_ENTRY \<le> cookie_of m d)"

definition place :: "inode \<Rightarrow> inode_id option \<times> bytes option" where
  "place i = (inode_parent i, inode_name i)"

definition emb_inv :: "meta \<Rightarrow> bool" where
  "emb_inv m \<longleftrightarrow>
     (\<forall>d c n x i. m_scans m (d, c) = Some (n, WithInode x i) \<longrightarrow>
        (\<exists>j. m_inodes m x = Some j \<and> place j = (Some d, Some n)))"

definition emb_fresh :: "meta \<Rightarrow> bool" where
  "emb_fresh m \<longleftrightarrow> (\<forall>d c n x i. m_scans m (d, c) = Some (n, WithInode x i) \<longrightarrow> m_inodes m x = Some i)"

definition meta_inv :: "meta \<Rightarrow> bool" where
  "meta_inv m \<longleftrightarrow> ns_inv (ns_of m) \<and> idx_inv m \<and> emb_inv m"

section \<open>The index\<close>

lemma ns_of_simps [simp]:
  "ns_nodes (ns_of m) x = map_option skel_of (m_inodes m x)"
  "ns_ents (ns_of m) k = map_option fst (m_entries m k)"
  "ns_orph (ns_of m) = m_orphans m"
  by (simp_all add: ns_of_def)

lemma idx_invD:
  assumes "idx_inv m"
  shows "m_entries m (d, n) = Some (x, c) \<Longrightarrow> \<exists>v. m_scans m (d, c) = Some (n, v) \<and> scan_inode_id v = x"
    and "m_scans m (d, c) = Some (n, v) \<Longrightarrow> m_entries m (d, n) = Some (scan_inode_id v, c)"
    and "m_scans m (d, c) = Some nv \<Longrightarrow> COOKIE_FIRST_ENTRY \<le> c \<and> c < cookie_of m d"
    and "COOKIE_FIRST_ENTRY \<le> cookie_of m d"
  using assms unfolding idx_inv_def by blast+

lemma idx_invI:
  assumes "\<And>d n x c. m_entries m (d, n) = Some (x, c) \<Longrightarrow> \<exists>v. m_scans m (d, c) = Some (n, v) \<and> scan_inode_id v = x"
    and "\<And>d c n v. m_scans m (d, c) = Some (n, v) \<Longrightarrow> m_entries m (d, n) = Some (scan_inode_id v, c)"
    and "\<And>d c n v. m_scans m (d, c) = Some (n, v) \<Longrightarrow> COOKIE_FIRST_ENTRY \<le> c \<and> c < cookie_of m d"
    and "\<And>d. COOKIE_FIRST_ENTRY \<le> cookie_of m d"
  shows "idx_inv m"
  unfolding idx_inv_def
proof (intro conjI allI iffI)
  show "\<exists>v. m_scans m (d, c) = Some (n, v) \<and> scan_inode_id v = x" if "m_entries m (d, n) = Some (x, c)"
    for d n x c
    by (rule assms(1) [OF that])
  show "m_entries m (d, n) = Some (x, c)" if "\<exists>v. m_scans m (d, c) = Some (n, v) \<and> scan_inode_id v = x"
    for d n x c
    using that assms(2) by auto
  show "m_scans m (d, c) \<noteq> None \<longrightarrow> COOKIE_FIRST_ENTRY \<le> c \<and> c < cookie_of m d" for d c
    using assms(3) [of d c] by auto
qed (rule assms(4))

lemma idx_inv_cong:
  "m_entries m' = m_entries m \<Longrightarrow> m_scans m' = m_scans m \<Longrightarrow> m_cookies m' = m_cookies m \<Longrightarrow>
   idx_inv m' = idx_inv m"
  by (simp add: idx_inv_def cookie_of_def)

lemma idx_fresh_cookie: "idx_inv m \<Longrightarrow> m_scans m (d, cookie_of m d) = None"
  using idx_invD(3) by (metis not_None_eq order_less_irrefl surj_pair)

text \<open>A new entry takes an unused cookie below the counter.\<close>

lemma idx_put:
  assumes inv: "idx_inv m" and free: "m_entries m (d, n) = None"
    and c: "m_scans m (d, c) = None" "COOKIE_FIRST_ENTRY \<le> c" "c < cookie_of m' d"
    and e: "m_entries m' = (m_entries m)((d, n) \<mapsto> (x, c))"
    and s: "m_scans m' = (m_scans m)((d, c) \<mapsto> (n, v))" "scan_inode_id v = x"
    and ck: "\<And>f. cookie_of m f \<le> cookie_of m' f"
  shows "idx_inv m'"
proof (rule idx_invI)
  show "\<exists>v. m_scans m' (f, k) = Some (q, v) \<and> scan_inode_id v = y" if "m_entries m' (f, q) = Some (y, k)" for f q y k
    using that c(1) s(2) idx_invD(1) [OF inv, of f q y k] by (auto simp: e s(1) split: if_splits)
  show "m_entries m' (f, q) = Some (scan_inode_id w, k)" if "m_scans m' (f, k) = Some (q, w)" for f q k w
    using that free s(2) idx_invD(2) [OF inv, of f k q w] by (auto simp: e s(1) split: if_splits)
  show "COOKIE_FIRST_ENTRY \<le> k \<and> k < cookie_of m' f" if "m_scans m' (f, k) = Some (q, w)" for f q k w
    using that c(2,3) idx_invD(3) [OF inv, of f k] ck [of f]
    by (auto simp: s(1) split: if_splits intro: order.strict_trans2)
  show "COOKIE_FIRST_ENTRY \<le> cookie_of m' f" for f
    using idx_invD(4) [OF inv, of f] ck [of f] by (rule order.trans)
qed

lemma idx_add:
  assumes inv: "idx_inv m" and free: "m_entries m (d, n) = None" and wrap: "cookie_of m d \<noteq> u64_max"
    and e: "m_entries m' = (m_entries m)((d, n) \<mapsto> (x, cookie_of m d))"
    and s: "m_scans m' = (m_scans m)((d, cookie_of m d) \<mapsto> (n, v))" "scan_inode_id v = x"
    and c: "m_cookies m' = (m_cookies m)(d \<mapsto> cookie_of m d + 1)"
  shows "idx_inv m'"
proof (rule idx_put [OF inv free idx_fresh_cookie [OF inv] idx_invD(4) [OF inv] _ e s])
  show "cookie_of m d < cookie_of m' d"
    using word_less_Suc [OF wrap] by (simp add: cookie_of_def c)
  then show "cookie_of m f \<le> cookie_of m' f" for f
    by (cases "f = d") (simp_all, simp add: cookie_of_def c)
qed

text \<open>Removing an entry, replacing the value of a scan row, dropping an unused counter.\<close>

lemma idx_del:
  assumes inv: "idx_inv m" and old: "m_entries m (d, n) = Some (x, c)"
    and e: "m_entries m' = (m_entries m)((d, n) := None)" and s: "m_scans m' = (m_scans m)((d, c) := None)"
    and c: "m_cookies m' = m_cookies m"
  shows "idx_inv m'"
proof -
  obtain w where w: "m_scans m (d, c) = Some (n, w)"
    using idx_invD(1) [OF inv old] by blast
  have ck: "cookie_of m' f = cookie_of m f" for f
    by (simp add: cookie_of_def c)
  show ?thesis
  proof (rule idx_invI)
    show "\<exists>v. m_scans m' (f, k) = Some (q, v) \<and> scan_inode_id v = y" if "m_entries m' (f, q) = Some (y, k)" for f q y k
      using that w idx_invD(1) [OF inv, of f q y k] by (auto simp: e s split: if_splits)
    show "m_entries m' (f, q) = Some (scan_inode_id v, k)" if "m_scans m' (f, k) = Some (q, v)" for f q k v
      using that old idx_invD(2) [OF inv, of f k q v] by (auto simp: e s split: if_splits)
    show "COOKIE_FIRST_ENTRY \<le> k \<and> k < cookie_of m' f" if "m_scans m' (f, k) = Some (q, v)" for f q k v
      using that idx_invD(3) [OF inv, of f k] by (auto simp: s ck split: if_splits)
  qed (use idx_invD(4) [OF inv] ck in simp)
qed

lemma idx_rescan:
  assumes inv: "idx_inv m" and old: "m_entries m (d, n) = Some (x, c)" and v: "scan_inode_id v = x"
    and e: "m_entries m' = m_entries m" and s: "m_scans m' = (m_scans m)((d, c) \<mapsto> (n, v))"
    and c: "m_cookies m' = m_cookies m"
  shows "idx_inv m'"
proof -
  obtain w where w: "m_scans m (d, c) = Some (n, w)" "scan_inode_id w = x"
    using idx_invD(1) [OF inv old] by blast
  have ck: "cookie_of m' f = cookie_of m f" for f
    by (simp add: cookie_of_def c)
  show ?thesis
  proof (rule idx_invI)
    show "\<exists>v. m_scans m' (f, k) = Some (q, v) \<and> scan_inode_id v = y" if "m_entries m' (f, q) = Some (y, k)" for f q y k
      using that w v idx_invD(1) [OF inv, of f q y k] by (auto simp: e s)
    show "m_entries m' (f, q) = Some (scan_inode_id u, k)" if "m_scans m' (f, k) = Some (q, u)" for f q k u
      using that old v idx_invD(2) [OF inv, of f k q u] by (auto simp: e s split: if_splits)
    show "COOKIE_FIRST_ENTRY \<le> k \<and> k < cookie_of m' f" if "m_scans m' (f, k) = Some (q, u)" for f q k u
      using that w idx_invD(3) [OF inv, of f k] by (auto simp: s ck split: if_splits)
  qed (use idx_invD(4) [OF inv] ck in simp)
qed

lemma idx_del_cookie:
  assumes inv: "idx_inv m" and none: "\<And>c. m_scans m (x, c) = None"
    and e: "m_entries m' = m_entries m" and s: "m_scans m' = m_scans m" and c: "m_cookies m' = (m_cookies m)(x := None)"
  shows "idx_inv m'"
proof -
  have ck: "cookie_of m' f = (if f = x then COOKIE_FIRST_ENTRY else cookie_of m f)" for f
    by (simp add: cookie_of_def c)
  show ?thesis
  proof (rule idx_invI)
    show "COOKIE_FIRST_ENTRY \<le> k \<and> k < cookie_of m' f" if "m_scans m' (f, k) = Some (q, v)" for f q k v
      using that none idx_invD(3) [OF inv, of f k] by (auto simp: s ck)
  qed (use idx_invD [OF inv] in \<open>auto simp: e s ck\<close>)
qed

lemma no_kids_no_scans:
  assumes "idx_inv m" "kids (ns_of m) d = {}"
  shows "m_scans m (d, c) = None"
  using idx_invD(2) [OF assms(1), of d c] assms(2) by (cases "m_scans m (d, c)") (auto simp: kids_def)

text \<open>Cookies are distinct and at least three, so a directory cannot have as many entries as its
  64-bit counter could count.\<close>

lemma kids_bound:
  assumes "idx_inv m"
  shows "finite (kids (ns_of m) d)" "card (kids (ns_of m) d) < 2 ^ 64 - 1"
proof -
  let ?f = "\<lambda>n. unat (snd (the (m_entries m (d, n))))"
  have inj: "inj_on ?f (kids (ns_of m) d)"
  proof (rule inj_onI)
    fix a b
    assume ab: "a \<in> kids (ns_of m) d" "b \<in> kids (ns_of m) d" "?f a = ?f b"
    then obtain x y c where "m_entries m (d, a) = Some (x, c)" "m_entries m (d, b) = Some (y, c)"
      by (auto simp: kids_def word_unat_eq_iff [symmetric])
    from idx_invD(1) [OF assms this(1)] idx_invD(1) [OF assms this(2)] show "a = b"
      by auto
  qed
  have "?f ` kids (ns_of m) d \<subseteq> {3..<2 ^ 64}"
  proof
    fix k
    assume "k \<in> ?f ` kids (ns_of m) d"
    then obtain n x c where "m_entries m (d, n) = Some (x, c)" "k = unat c"
      by (auto simp: kids_def)
    then have "3 \<le> c" "k = unat c"
      using idx_invD(1,3) [OF assms] by (fastforce simp: COOKIE_FIRST_ENTRY_def)+
    then show "k \<in> {3..<2 ^ 64}"
      using unsigned_less [of c] by (simp add: word_le_nat_alt)
  qed
  then have "finite (?f ` kids (ns_of m) d)" "card (?f ` kids (ns_of m) d) \<le> card {3..<2 ^ 64 :: nat}"
    by (rule finite_subset, simp, intro card_mono) simp_all
  then show "finite (kids (ns_of m) d)" "card (kids (ns_of m) d) < 2 ^ 64 - 1"
    using inj by (auto simp: card_image finite_image_iff)
qed

section \<open>Embedded copies\<close>

lemma emb_invD:
  "emb_inv m \<Longrightarrow> m_scans m (d, c) = Some (n, WithInode x i) \<Longrightarrow>
   \<exists>j. m_inodes m x = Some j \<and> place j = (Some d, Some n)"
  unfolding emb_inv_def by blast

lemma emb_freshD:
  "emb_fresh m \<Longrightarrow> m_scans m (d, c) = Some (n, WithInode x i) \<Longrightarrow> m_inodes m x = Some i"
  unfolding emb_fresh_def by blast

lemma meta_invD:
  "meta_inv m \<Longrightarrow> ns_inv (ns_of m)" "meta_inv m \<Longrightarrow> idx_inv m" "meta_inv m \<Longrightarrow> emb_inv m"
  by (simp_all add: meta_inv_def)

lemma skel_of_place:
  "skel_of i = SDir c l p nm \<Longrightarrow> place i = (Some p, nm)"
  "skel_of i = SLeaf l q nm' \<Longrightarrow> place i = (q, nm')"
  by (cases i; simp add: place_def inode_name_def)+

lemma skel_of_directory: "is_SDir (skel_of i) = is_directory i"
  by (cases i) simp_all

lemma skel_of_links: "sk_links (skel_of i) = unat (inode_nlink i)"
  by (cases i) (simp_all add: inode_nlink_def)

lemma skel_of_leaf:
  "\<not> is_directory i \<Longrightarrow> skel_of i = SLeaf (unat (inode_nlink i)) (inode_parent i) (inode_name i)"
  by (cases i) simp_all

lemma skel_of_dir_cases:
  assumes "skel_of i = SDir c l p nm"
  obtains D where "i = Directory D"
  using assms by (cases i) auto

text \<open>An embedded inode is referenced only by the entry that embeds it.\<close>

lemma embedded_single_ref:
  assumes inv: "ns_inv (ns_of m)" and idx: "idx_inv m" and emb: "emb_inv m"
    and s: "m_scans m (d, c) = Some (n, WithInode x i)" and e: "m_entries m (d', n') = Some (x, c')"
  shows "(d', n', c') = (d, n, c)"
proof -
  obtain j where j: "m_inodes m x = Some j" "place j = (Some d, Some n)"
    using emb_invD [OF emb s] by blast
  have own: "m_entries m (d, n) = Some (x, c)"
    using idx_invD(2) [OF idx s] by simp
  have "refs (ns_of m) x = {(d, n)}"
  proof (cases "skel_of j")
    case (SDir k l p nm)
    then show ?thesis
      using dir_single_ref(4) [OF inv, of x k l p nm d n] j own by simp
  next
    case (SLeaf l p nm)
    then show ?thesis
      using ns_invD(7) [OF inv, of x l p nm] j skel_of_place(2) [OF SLeaf] by (simp add: leaf_ok_def)
  qed
  moreover have "(d', n') \<in> refs (ns_of m) x"
    using e by (simp add: in_refs)
  ultimately show ?thesis
    using own e by simp
qed

section \<open>Saving an inode and refreshing its copy\<close>

definition resave_ops :: "faults \<Rightarrow> meta \<Rightarrow> inode_id \<Rightarrow> inode \<Rightarrow> txop list" where
  "resave_ops flt m y j =
     PutInode y j #
     (case place j of
        (Some p, Some q) \<Rightarrow>
          (case get_entry_with_cookie flt m p q of
             Inr (_, c) \<Rightarrow> [PutScan p c q (WithInode y j)]
           | Inl _ \<Rightarrow> [])
      | _ \<Rightarrow> [])"

lemma get_entry_Inr:
  "get_entry_with_cookie flt m d n = Inr e \<longleftrightarrow> flt (DirEntryKey d n) = None \<and> m_entries m (d, n) = Some e"
  by (auto simp: get_entry_with_cookie_def ok_or_def split: option.split)

lemma resave_rows:
  "m_inodes (apply_ops (resave_ops flt m y j) u) = (m_inodes u)(y \<mapsto> j)"
  "m_entries (apply_ops (resave_ops flt m y j) u) = m_entries u"
  "m_cookies (apply_ops (resave_ops flt m y j) u) = m_cookies u"
  "m_orphans (apply_ops (resave_ops flt m y j) u) = m_orphans u"
  by (simp_all add: resave_ops_def split: option.split sum.split prod.split)

lemma resave_scans:
  assumes "\<And>p q. place j = (Some p, Some q) \<Longrightarrow> \<exists>c. m_entries m (p, q) = Some (y, c) \<and> m_entries u (p, q) = Some (y, c)"
  shows "m_scans (apply_ops (resave_ops flt m y j) u) = m_scans u
    \<or> (\<exists>p q c. place j = (Some p, Some q) \<and> m_entries u (p, q) = Some (y, c)
        \<and> m_scans (apply_ops (resave_ops flt m y j) u) = (m_scans u)((p, c) \<mapsto> (q, WithInode y j)))"
proof (cases "\<exists>p q e. place j = (Some p, Some q) \<and> get_entry_with_cookie flt m p q = Inr e")
  case True
  then obtain p q e where p: "place j = (Some p, Some q)" and g: "get_entry_with_cookie flt m p q = Inr e"
    by blast
  with assms [OF p] obtain c where "e = (y, c)" "m_entries u (p, q) = Some (y, c)"
    by (auto simp: get_entry_Inr)
  then show ?thesis
    using p g by (auto simp: resave_ops_def)
next
  case False
  then have "resave_ops flt m y j = [PutInode y j]"
    by (auto simp: resave_ops_def split: option.split sum.split prod.split)
  then show ?thesis
    by simp
qed

lemma resave_index:
  fixes flt :: faults and m u :: meta and y :: inode_id and j :: inode
  assumes idx: "idx_inv u" and emb: "emb_inv u"
    and old: "m_inodes u y = Some j0" "place j0 = place j"
    and own: "\<And>p q. place j = (Some p, Some q) \<Longrightarrow> \<exists>c. m_entries m (p, q) = Some (y, c) \<and> m_entries u (p, q) = Some (y, c)"
  defines "v \<equiv> apply_ops (resave_ops flt m y j) u"
  shows "idx_inv v" "emb_inv v"
    and "(\<And>p q. flt (DirEntryKey p q) = None) \<Longrightarrow> emb_fresh u \<Longrightarrow> emb_fresh v"
proof -
  note rows = resave_rows [of flt m y j u, folded v_def]
  note scans = resave_scans [of j m y u flt, folded v_def]
  have at: "place j = (Some d, Some n)" if "m_scans u (d, c) = Some (n, WithInode y i)" for d c n i
    using emb_invD [OF emb that] old by auto
  have emb_v: "emb_inv v"
    if s: "\<And>d c n x i. m_scans v (d, c) = Some (n, WithInode x i) \<Longrightarrow>
      m_scans u (d, c) = Some (n, WithInode x i) \<or> x = y \<and> place j = (Some d, Some n)"
    unfolding emb_inv_def
  proof (intro allI impI)
    fix d c n x i
    assume "m_scans v (d, c) = Some (n, WithInode x i)"
    from s [OF this] at [of d c n i] emb_invD [OF emb, of d c n x i]
    show "\<exists>j. m_inodes v x = Some j \<and> place j = (Some d, Some n)"
      by (cases "x = y") (auto simp: rows)
  qed
  consider (same) "m_scans v = m_scans u"
    | (put) p q c where "place j = (Some p, Some q)" "m_entries u (p, q) = Some (y, c)"
        "m_scans v = (m_scans u)((p, c) \<mapsto> (q, WithInode y j))"
    using scans own by blast
  then show "idx_inv v" "emb_inv v"
  proof (atomize(full), cases)
    case same
    then show "idx_inv v \<and> emb_inv v"
      using idx_inv_cong [of v u] idx emb_v by (simp add: rows)
  next
    case (put p q c)
    have "idx_inv v"
      by (rule idx_rescan [OF idx put(2) _ _ put(3)]) (simp_all add: rows)
    moreover have "emb_inv v"
      using put by (intro emb_v) (auto split: if_splits)
    ultimately show "idx_inv v \<and> emb_inv v" by blast
  qed
  show "emb_fresh v" if ok: "\<And>p q. flt (DirEntryKey p q) = None" and fr: "emb_fresh u"
    unfolding emb_fresh_def
  proof (intro allI impI)
    fix d c n x i
    assume s: "m_scans v (d, c) = Some (n, WithInode x i)"
    show "m_inodes v x = Some i"
    proof (cases "x = y")
      case False
      then have "m_scans u (d, c) = Some (n, WithInode x i)"
        using s scans own by (auto split: if_splits)
      then show ?thesis
        using emb_freshD [OF fr] False by (simp add: rows)
    next
      case True
      show ?thesis
      proof (rule ccontr)
        assume ne: "m_inodes v x \<noteq> Some i"
        then have "m_scans u (d, c) = Some (n, WithInode y i)"
          using s True scans own by (auto simp: rows split: if_splits)
        from emb_invD [OF emb this] idx_invD(2) [OF idx this]
        have p: "place j = (Some d, Some n)" "m_entries u (d, n) = Some (y, c)"
          using old by auto
        with own [OF p(1)] ok have "m_scans v (d, c) = Some (n, WithInode y j)"
          by (auto simp: v_def resave_ops_def get_entry_with_cookie_def ok_or_def)
        then show False
          using s True ne by (simp add: rows)
      qed
    qed
  qed
qed

end
