(* ===== verification/Dir_Ops.thy ===== *)
theory Dir_Ops
  imports Dir_Index
begin

text \<open>
  The row changes of the directory operations and what they do to the namespace. Every operation
  changes some rows and then saves one or two directories, refreshing the copies in their own
  entries; the lemmas take the changed rows as equations, so that they apply to whatever else
  (extents, tombstones) a transaction holds.
\<close>

section \<open>Saving a directory\<close>

lemma place_directory: "place (Directory D) = (Some (d_parent D), i_name (d_attrs D))"
  by (simp add: place_def inode_name_def)

lemma live_dirI:
  "m_inodes m d = Some (Directory D) \<Longrightarrow> i_nlink (d_attrs D) \<noteq> 0 \<Longrightarrow> live_dir (ns_of m) d"
  using unat_eq_0 [of "i_nlink (d_attrs D)"] by (auto simp: live_dir_def)

lemma live_dirE:
  assumes "live_dir (ns_of m) d"
  obtains D where "m_inodes m d = Some (Directory D)" "i_nlink (d_attrs D) \<noteq> 0"
proof -
  obtain c l p nm i where i: "m_inodes m d = Some i" "skel_of i = SDir c l p nm" "l \<noteq> 0"
    using assms by (auto simp: live_dir_def)
  then show ?thesis
    using that by (cases i) fastforce+
qed

text \<open>The entry of a linked directory.\<close>

lemma dir_own_entry:
  assumes inv: "ns_inv (ns_of m)" and d: "m_inodes m d = Some (Directory D)"
    and place: "place (Directory D) = (Some p, Some q)"
  shows "\<exists>c. m_entries m (p, q) = Some (d, c)"
proof -
  have "dir_ok (ns_of m) d (unat (d_entry_count D)) (unat (i_nlink (d_attrs D))) (d_parent D) (i_name (d_attrs D))"
    by (rule ns_invD(6) [OF inv]) (simp add: d)
  then have "(p, q) \<in> refs (ns_of m) d"
    using place by (auto simp: dir_ok_def place_directory split: if_splits)
  then show ?thesis
    by (auto simp: in_refs)
qed

lemma resave_dir:
  fixes flt :: faults and m u :: meta and d :: inode_id and D D' :: directory_inode
  assumes idx: "idx_inv u" and emb: "emb_inv u" and inv: "ns_inv (ns_of m)"
    and d: "m_inodes m d = Some (Directory D)" "m_inodes u d = Some (Directory D)"
    and same: "place (Directory D') = place (Directory D)"
    and kept: "\<And>k c. m_entries m k = Some (d, c) \<Longrightarrow> m_entries u k = Some (d, c)"
  defines "v \<equiv> apply_ops (resave_ops flt m d (Directory D')) u"
  shows "idx_inv v" "emb_inv v"
    and "(\<And>p q. flt (DirEntryKey p q) = None) \<Longrightarrow> emb_fresh u \<Longrightarrow> emb_fresh v"
    and "ns_of v = (ns_of u)\<lparr>ns_nodes := (ns_nodes (ns_of u))(d \<mapsto> skel_of (Directory D'))\<rparr>"
proof -
  have own: "\<exists>c. m_entries m (p, q) = Some (d, c) \<and> m_entries u (p, q) = Some (d, c)"
    if "place (Directory D') = (Some p, Some q)" for p q
    using dir_own_entry [OF inv d(1), of p q] that same kept by auto
  note res = resave_index [OF idx emb d(2) same [symmetric] own, of flt, folded v_def]
  show "idx_inv v" "emb_inv v" by (rule res(1), simp, rule res(2), simp)
  show "emb_fresh v" if "\<And>p q. flt (DirEntryKey p q) = None" "emb_fresh u"
    using res(3) that by blast
  show "ns_of v = (ns_of u)\<lparr>ns_nodes := (ns_nodes (ns_of u))(d \<mapsto> skel_of (Directory D'))\<rparr>"
    by (simp add: ns_of_def v_def resave_rows fun_eq_iff)
qed

text \<open>Embedded copies that were there before, of inodes that did not change, or new ones.\<close>

lemma emb_change:
  assumes emb: "emb_inv m"
    and change: "\<And>e c q y j. m_scans u (e, c) = Some (q, WithInode y j) \<Longrightarrow>
      m_scans m (e, c) = Some (q, WithInode y j) \<and> m_inodes u y = m_inodes m y
      \<or> m_inodes u y = Some j \<and> place j = (Some e, Some q)"
  shows "emb_inv u" "emb_fresh m \<Longrightarrow> emb_fresh u"
proof -
  show "emb_inv u"
    unfolding emb_inv_def
  proof (intro allI impI)
    fix e c q y j
    assume "m_scans u (e, c) = Some (q, WithInode y j)"
    from change [OF this] emb_invD [OF emb, of e c q y j]
    show "\<exists>j. m_inodes u y = Some j \<and> place j = (Some e, Some q)"
      by auto
  qed
  show "emb_fresh u" if fresh: "emb_fresh m"
    unfolding emb_fresh_def
  proof (intro allI impI)
    fix e c q y j
    assume "m_scans u (e, c) = Some (q, WithInode y j)"
    from change [OF this] emb_freshD [OF fresh, of e c q y j] show "m_inodes u y = Some j"
      by auto
  qed
qed

text \<open>The directory with one entry more or less.\<close>

lemma dir_count:
  assumes "meta_inv m" "m_inodes m d = Some (Directory D)"
  shows "unat (d_entry_count D) = card (kids (ns_of m) d)"
    and "unat (d_entry_count D + 1) = unat (d_entry_count D) + 1"
    and "i_nlink (d_attrs D) \<noteq> 0 \<Longrightarrow> unat (i_nlink (d_attrs D)) = 2 + card (subs (ns_of m) d)"
proof -
  have ok: "dir_ok (ns_of m) d (unat (d_entry_count D)) (unat (i_nlink (d_attrs D))) (d_parent D) (i_name (d_attrs D))"
    by (rule ns_invD(6) [OF meta_invD(1) [OF assms(1)]]) (simp add: assms(2))
  then show c: "unat (d_entry_count D) = card (kids (ns_of m) d)"
    by (simp add: dir_ok_def)
  have "unat (d_entry_count D) < 2 ^ 64 - 1"
    using kids_bound(2) [OF meta_invD(2) [OF assms(1)], of d] c by simp
  then show "unat (d_entry_count D + 1) = unat (d_entry_count D) + 1"
    by (simp add: unat_word_ariths)
  show "unat (i_nlink (d_attrs D)) = 2 + card (subs (ns_of m) d)" if "i_nlink (d_attrs D) \<noteq> 0"
    using ok that by (simp add: dir_ok_def unat_eq_0)
qed

section \<open>Adding a new inode\<close>

lemma meta_add_child:
  fixes flt :: faults
  assumes inv: "meta_inv m" and d: "m_inodes m d = Some (Directory D)" and live: "i_nlink (d_attrs D) \<noteq> 0"
    and free: "m_entries m (d, n) = None" and x: "m_inodes m x = None" and wrap: "cookie_of m d \<noteq> u64_max"
    and i: "place i = (Some d, Some n)"
      "skel_of i = SDir 0 2 d (Some n) \<or> skel_of i = SLeaf 1 (Some d) (Some n)"
    and rows: "m_inodes u = (m_inodes m)(x \<mapsto> i)" "m_entries u = (m_entries m)((d, n) \<mapsto> (x, cookie_of m d))"
      "m_scans u = (m_scans m)((d, cookie_of m d) \<mapsto> (n, WithInode x i))"
      "m_cookies u = (m_cookies m)(d \<mapsto> cookie_of m d + 1)" "m_orphans u = m_orphans m"
    and D': "place (Directory D') = place (Directory D)"
      "skel_of (Directory D') = grow (is_SDir (skel_of i)) (skel_of (Directory D))"
  defines "v \<equiv> apply_ops (resave_ops flt m d (Directory D')) u"
  shows "ns_of v = ns_add d n x (skel_of i) (ns_of m)" "meta_inv v"
    and "(\<And>p q. flt (DirEntryKey p q) = None) \<Longrightarrow> emb_fresh m \<Longrightarrow> emb_fresh v"
proof -
  note ns = meta_invD(1) [OF inv] and idx = meta_invD(2) [OF inv] and emb = meta_invD(3) [OF inv]
  have dx: "d \<noteq> x"
    using d x by auto
  have noemb: "m_scans m (e, c) \<noteq> Some (q, WithInode x j)" for e c q j
    using emb_invD [OF emb] x by fastforce
  have idx_u: "idx_inv u"
    by (rule idx_add [OF idx free wrap rows(2,3) _ rows(4)]) simp
  have change: "m_scans m (e, c) = Some (q, WithInode y j) \<and> m_inodes u y = m_inodes m y
      \<or> m_inodes u y = Some j \<and> place j = (Some e, Some q)"
    if "m_scans u (e, c) = Some (q, WithInode y j)" for e c q y j
    using that noemb [of e c q j] i(1) by (auto simp: rows split: if_splits)
  have emb_u: "emb_inv u" and fresh_u: "emb_fresh m \<Longrightarrow> emb_fresh u"
    by (rule emb_change [OF emb change]; simp)+
  note res = resave_dir [OF idx_u emb_u ns d _ D'(1), of flt, folded v_def]
  have du: "m_inodes u d = Some (Directory D)"
    using d dx by (simp add: rows)
  have kept: "m_entries u k = Some (d, c)" if "m_entries m k = Some (d, c)" for k c
    using that free by (auto simp: rows)
  show nsv: "ns_of v = ns_add d n x (skel_of i) (ns_of m)"
    using d dx D'(2) by (simp add: res(4) [OF du kept] ns_add_def) (auto simp: ns_of_def rows fun_eq_iff)
  have "ns_inv (ns_of v)"
    unfolding nsv using free x i(2)
    by (intro ns_add_inv ns live_dirI [OF d live]) simp_all
  then show "meta_inv v"
    using res(1,2) [OF du kept] by (simp add: meta_inv_def)
  show "emb_fresh v" if "\<And>p q. flt (DirEntryKey p q) = None" "emb_fresh m"
    using res(3) [OF du kept] fresh_u that by blast
qed

section \<open>Adding a hard link\<close>

text \<open>The copy of the inode in its only entry, if it has one, becomes a reference first.\<close>

lemma meta_link:
  fixes flt :: faults
  assumes inv: "meta_inv m" and d: "m_inodes m d = Some (Directory D)" and live: "i_nlink (d_attrs D) \<noteq> 0"
    and free: "m_entries m (d, n) = None" and wrap: "cookie_of m d \<noteq> u64_max"
    and x: "m_inodes m x = Some i" "\<not> is_directory i"
    and i': "skel_of i' = link_skel d n (skel_of i)"
    and conv: "\<And>p q. place i = (Some p, Some q) \<Longrightarrow>
      \<exists>c. m_entries m (p, q) = Some (x, c) \<and> S = (m_scans m)((p, c) \<mapsto> (q, Reference x))"
      "(\<And>p q. place i \<noteq> (Some p, Some q)) \<Longrightarrow> S = m_scans m"
    and w: "scan_inode_id w = x" "\<And>y j. w = WithInode y j \<Longrightarrow> j = i' \<and> place i' = (Some d, Some n)"
    and rows: "m_inodes u = (m_inodes m)(x \<mapsto> i')" "m_entries u = (m_entries m)((d, n) \<mapsto> (x, cookie_of m d))"
      "m_scans u = S((d, cookie_of m d) \<mapsto> (n, w))"
      "m_cookies u = (m_cookies m)(d \<mapsto> cookie_of m d + 1)" "m_orphans u = m_orphans m - {x}"
    and D': "place (Directory D') = place (Directory D)"
      "skel_of (Directory D') = grow False (skel_of (Directory D))"
  defines "v \<equiv> apply_ops (resave_ops flt m d (Directory D')) u"
  shows "ns_of v = ns_link d n x (ns_of m)" "meta_inv v"
    and "(\<And>p q. flt (DirEntryKey p q) = None) \<Longrightarrow> emb_fresh m \<Longrightarrow> emb_fresh v"
proof -
  note ns = meta_invD(1) [OF inv] and idx = meta_invD(2) [OF inv] and emb = meta_invD(3) [OF inv]
  have dx: "d \<noteq> x"
    using d x by auto
  define m' where "m' = m\<lparr>m_scans := S\<rparr>"
  have idx': "idx_inv m'"
  proof (cases "\<exists>p q. place i = (Some p, Some q)")
    case True
    then obtain p q c where "m_entries m (p, q) = Some (x, c)" "S = (m_scans m)((p, c) \<mapsto> (q, Reference x))"
      using conv(1) by blast
    then show ?thesis
      by (intro idx_rescan [OF idx, of p q x c "Reference x"]) (simp_all add: m'_def)
  next
    case False
    then show ?thesis
      using conv(2) idx by (auto simp: m'_def)
  qed
  have ck: "cookie_of m' = cookie_of m"
    by (simp add: m'_def cookie_of_def fun_eq_iff)
  have idx_u: "idx_inv u"
    by (rule idx_add [OF idx', where d = d and n = n and x = x and v = w]) (use free wrap w(1) rows in \<open>simp_all add: ck\<close>, simp_all add: m'_def)
  have S: "m_scans m (e, c) = Some (q, WithInode y j) \<and> y \<noteq> x" if s: "S (e, c) = Some (q, WithInode y j)" for e c q y j
  proof -
    have old: "m_scans m (e, c) = Some (q, WithInode y j)"
      using s conv by (cases "\<exists>p q. place i = (Some p, Some q)") (auto split: if_splits)
    moreover have "y \<noteq> x"
    proof
      assume "y = x"
      then have "place i = (Some e, Some q)" "m_entries m (e, q) = Some (x, c)"
        using emb_invD [OF emb old] idx_invD(2) [OF idx old] x by auto
      then show False
        using conv(1) s by auto
    qed
    ultimately show ?thesis by blast
  qed
  have change: "m_scans m (e, c) = Some (q, WithInode y j) \<and> m_inodes u y = m_inodes m y
      \<or> m_inodes u y = Some j \<and> place j = (Some e, Some q)"
    if "m_scans u (e, c) = Some (q, WithInode y j)" for e c q y j
    using that S [of e c q y j] w(1) w(2) [of y j] by (auto simp: rows split: if_splits)
  have emb_u: "emb_inv u" and fresh_u: "emb_fresh m \<Longrightarrow> emb_fresh u"
    by (rule emb_change [OF emb change]; simp)+
  note res = resave_dir [OF idx_u emb_u ns d _ D'(1), of flt, folded v_def]
  have du: "m_inodes u d = Some (Directory D)"
    using d dx by (simp add: rows)
  have kept: "m_entries u k = Some (d, c)" if "m_entries m k = Some (d, c)" for k c
    using that free by (auto simp: rows)
  show nsv: "ns_of v = ns_link d n x (ns_of m)"
    using d dx x D'(2) i' by (simp add: res(4) [OF du kept] ns_link_def) (auto simp: ns_of_def rows fun_eq_iff)
  have "ns_inv (ns_of v)"
    unfolding nsv using free x
    by (intro ns_link_inv ns live_dirI [OF d live]) (simp_all add: skel_of_leaf)
  then show "meta_inv v"
    using res(1,2) [OF du kept] by (simp add: meta_inv_def)
  show "emb_fresh v" if "\<And>p q. flt (DirEntryKey p q) = None" "emb_fresh m"
    using res(3) [OF du kept] fresh_u that by blast
qed

section \<open>Removing an entry\<close>

text \<open>No copy of an inode is left once the entry that may embed it is gone.\<close>

lemma unembedded:
  assumes "meta_inv m" "m_entries m (d, n) = Some (x, c)" "m_scans m (e, k) = Some (q, WithInode x j)"
  shows "(e, k) = (d, c)"
  using embedded_single_ref [OF meta_invD [OF assms(1)] assms(3,2)] by simp

text \<open>The rows after one link of an inode and its entry are gone, the directory not yet saved.\<close>

definition link_dropped ::
  "bool \<Rightarrow> inode_id \<Rightarrow> bytes \<Rightarrow> inode_id \<Rightarrow> u64 \<Rightarrow> inode \<Rightarrow> meta \<Rightarrow> meta \<Rightarrow> bool" where
  "link_dropped keep d n x c i m u \<longleftrightarrow>
     m_entries m (d, n) = Some (x, c) \<and> m_inodes m x = Some i
     \<and> (\<exists>i'. map_option skel_of i' = unlinked_skel keep (skel_of i) \<and> m_inodes u = (m_inodes m)(x := i'))
     \<and> m_entries u = (m_entries m)((d, n) := None) \<and> m_scans u = (m_scans m)((d, c) := None)
     \<and> (m_cookies u = m_cookies m \<or> m_cookies u = (m_cookies m)(x := None))
     \<and> m_orphans u = (if map_option sk_links (unlinked_skel keep (skel_of i)) = Some 0
          then insert x (m_orphans m) else m_orphans m)"

lemma unlink_rows:
  assumes inv: "meta_inv m" and dropped: "link_dropped keep d n x c i m u"
    and empty: "is_SDir (skel_of i) \<longrightarrow> sd_count (skel_of i) = 0"
  shows "idx_inv u" "emb_inv u" "emb_fresh m \<Longrightarrow> emb_fresh u" "d \<noteq> x" "cookie_of u d = cookie_of m d"
    and "kids (ns_of m) x = {}"
proof -
  note ns = meta_invD(1) [OF inv] and idx = meta_invD(2) [OF inv] and emb = meta_invD(3) [OF inv]
  obtain i' where e: "m_entries m (d, n) = Some (x, c)" and x: "m_inodes m x = Some i"
    and rows: "m_inodes u = (m_inodes m)(x := i')" "m_entries u = (m_entries m)((d, n) := None)"
      "m_scans u = (m_scans m)((d, c) := None)"
      "m_cookies u = m_cookies m \<or> m_cookies u = (m_cookies m)(x := None)"
    using dropped unfolding link_dropped_def by blast
  show kx: "kids (ns_of m) x = {}"
    by (rule dir_kids_empty [OF ns, of x "skel_of i"]) (simp_all add: x empty)
  then show dx: "d \<noteq> x"
    using e by (auto simp: kids_def)
  show "cookie_of u d = cookie_of m d"
    using rows(4) dx by (auto simp: cookie_of_def)
  define m' where "m' = m\<lparr>m_entries := m_entries u, m_scans := m_scans u\<rparr>"
  have idx': "idx_inv m'"
    by (rule idx_del [OF idx e]) (simp_all add: m'_def rows)
  have noscans: "m_scans m' (x, k) = None" for k
    using no_kids_no_scans [OF idx kx] dx by (simp add: m'_def rows)
  show "idx_inv u"
    using rows(4)
  proof
    assume "m_cookies u = m_cookies m"
    then have "idx_inv u = idx_inv m'"
      by (intro idx_inv_cong) (simp_all add: m'_def)
    with idx' show ?thesis by simp
  next
    assume "m_cookies u = (m_cookies m)(x := None)"
    then show ?thesis
      by (intro idx_del_cookie [OF idx' noscans]) (simp_all add: m'_def)
  qed
  have change: "m_scans m (f, k) = Some (q, WithInode y j) \<and> m_inodes u y = m_inodes m y
      \<or> m_inodes u y = Some j \<and> place j = (Some f, Some q)"
    if "m_scans u (f, k) = Some (q, WithInode y j)" for f k q y j
    using that unembedded [OF inv e, of f k q j] by (auto simp: rows(1,3) split: if_splits)
  show "emb_inv u" "emb_fresh m \<Longrightarrow> emb_fresh u"
    by (rule emb_change [OF emb change]; simp)+
qed

lemma unlink_ns:
  assumes "link_dropped keep d n x c i m u" "d \<noteq> x"
  shows "ns_unlink keep d n (ns_of m) =
    (ns_of u)\<lparr>ns_nodes := (ns_nodes (ns_of u))(d := map_option (shrink (is_directory i)) (ns_nodes (ns_of m) d))\<rparr>"
proof -
  obtain i' where e: "m_entries m (d, n) = Some (x, c)" and x: "m_inodes m x = Some i"
    and i': "map_option skel_of i' = unlinked_skel keep (skel_of i)"
    and rows: "m_inodes u = (m_inodes m)(x := i')" "m_entries u = (m_entries m)((d, n) := None)"
      "m_orphans u = (if map_option sk_links (unlinked_skel keep (skel_of i)) = Some 0
          then insert x (m_orphans m) else m_orphans m)"
    using assms(1) unfolding link_dropped_def by blast
  show ?thesis
    using assms(2) e x i' by (simp add: ns_unlink_def skel_of_directory)
      (auto simp: ns_of_def rows fun_eq_iff)
qed

lemma meta_unlink:
  fixes flt :: faults
  assumes inv: "meta_inv m" and dropped: "link_dropped keep d n x c i m u"
    and empty: "is_SDir (skel_of i) \<longrightarrow> sd_count (skel_of i) = 0" and d: "m_inodes m d = Some (Directory D)"
    and D': "place (Directory D') = place (Directory D)"
      "skel_of (Directory D') = shrink (is_directory i) (skel_of (Directory D))"
  defines "v \<equiv> apply_ops (resave_ops flt m d (Directory D')) u"
  shows "ns_of v = ns_unlink keep d n (ns_of m)" "meta_inv v"
    and "(\<And>p q. flt (DirEntryKey p q) = None) \<Longrightarrow> emb_fresh m \<Longrightarrow> emb_fresh v"
proof -
  note ns = meta_invD(1) [OF inv]
  note un = unlink_rows [OF inv dropped empty]
  have e: "m_entries m (d, n) = Some (x, c)" and x: "m_inodes m x = Some i"
    using dropped unfolding link_dropped_def by blast+
  have du: "m_inodes u d = Some (Directory D)"
    using d un(4) dropped by (auto simp: link_dropped_def)
  have kept: "m_entries u k = Some (d, c)" if "m_entries m k = Some (d, c)" for k c
    using that e un(4) dropped by (auto simp: link_dropped_def)
  note res = resave_dir [OF un(1,2) ns d du D'(1) kept, of flt, folded v_def]
  show nsv: "ns_of v = ns_unlink keep d n (ns_of m)"
    using D'(2) d by (simp add: res(4) unlink_ns [OF dropped un(4)])
  have "ns_inv (ns_of v)"
    unfolding nsv by (rule ns_unlink_inv [OF ns, of d n x "skel_of i"]) (simp_all add: e x empty)
  then show "meta_inv v"
    using res(1,2) by (simp add: meta_inv_def)
  show "emb_fresh v" if "\<And>p q. flt (DirEntryKey p q) = None" "emb_fresh m"
    using res(3) un(3) that by blast
qed

section \<open>Renaming\<close>

text \<open>The target of a rename, if there is one, has lost its link; the two directories are not yet
  saved.\<close>

definition target_dropped ::
  "bool \<Rightarrow> inode_id \<Rightarrow> bytes \<Rightarrow> (inode_id \<times> u64 \<times> inode) option \<Rightarrow> meta \<Rightarrow> meta \<Rightarrow> bool" where
  "target_dropped keep d n tgt m u \<longleftrightarrow>
     (case tgt of
        None \<Rightarrow> m_entries m (d, n) = None \<and> u = m
      | Some (y, c, i) \<Rightarrow>
          link_dropped keep d n y c i m u \<and> (is_SDir (skel_of i) \<longrightarrow> sd_count (skel_of i) = 0))"

definition after_drop :: "(inode_id \<times> u64 \<times> inode) option \<Rightarrow> skel \<Rightarrow> skel" where
  "after_drop tgt k = (case tgt of None \<Rightarrow> k | Some (y, c, i) \<Rightarrow> shrink (is_directory i) k)"

lemma target_rows:
  assumes inv: "meta_inv m" and dropped: "target_dropped keep d n tgt m u"
  shows "idx_inv u \<and> emb_inv u \<and> (emb_fresh m \<longrightarrow> emb_fresh u) \<and> cookie_of u d = cookie_of m d"
    and "m_entries u = (m_entries m)((d, n) := None) \<and> (\<forall>k w. m_scans u k = Some w \<longrightarrow> m_scans m k = Some w)"
    and "(\<forall>y c. m_entries m (d, n) = Some (y, c) \<longrightarrow> kids (ns_of m) y = {})
      \<and> (\<forall>z. (\<forall>c. m_entries m (d, n) \<noteq> Some (z, c)) \<longrightarrow> m_inodes u z = m_inodes m z)"
    and "ns_unlink keep d n (ns_of m) =
      (ns_of u)\<lparr>ns_nodes := (ns_nodes (ns_of u))(d := map_option (after_drop tgt) (ns_nodes (ns_of m) d))\<rparr>"
proof -
  note J = meta_invD [OF inv]
  consider (none) "tgt = None" "m_entries m (d, n) = None" "u = m"
    | (some) y c i where "tgt = Some (y, c, i)" "link_dropped keep d n y c i m u"
        "is_SDir (skel_of i) \<longrightarrow> sd_count (skel_of i) = 0"
    using dropped by (cases tgt) (auto simp: target_dropped_def)
  note split = this
  show "idx_inv u \<and> emb_inv u \<and> (emb_fresh m \<longrightarrow> emb_fresh u) \<and> cookie_of u d = cookie_of m d"
  proof (rule split)
    fix y c i
    assume "link_dropped keep d n y c i m u" "is_SDir (skel_of i) \<longrightarrow> sd_count (skel_of i) = 0"
    from unlink_rows(1,2,3,5) [OF inv this] show ?thesis by blast
  qed (simp add: J)
  show "m_entries u = (m_entries m)((d, n) := None) \<and> (\<forall>k w. m_scans u k = Some w \<longrightarrow> m_scans m k = Some w)"
    by (rule split) (simp_all add: link_dropped_def fun_upd_idem)
  show "(\<forall>y c. m_entries m (d, n) = Some (y, c) \<longrightarrow> kids (ns_of m) y = {})
      \<and> (\<forall>z. (\<forall>c. m_entries m (d, n) \<noteq> Some (z, c)) \<longrightarrow> m_inodes u z = m_inodes m z)"
  proof (rule split)
    fix y c i
    assume l: "link_dropped keep d n y c i m u" and "is_SDir (skel_of i) \<longrightarrow> sd_count (skel_of i) = 0"
    from unlink_rows(6) [OF inv this] l show ?thesis
      by (auto simp: link_dropped_def)
  qed simp
  show "ns_unlink keep d n (ns_of m) =
      (ns_of u)\<lparr>ns_nodes := (ns_nodes (ns_of u))(d := map_option (after_drop tgt) (ns_nodes (ns_of m) d))\<rparr>"
  proof (rule split)
    fix y c i
    assume t: "tgt = Some (y, c, i)" and l: "link_dropped keep d n y c i m u"
      and "is_SDir (skel_of i) \<longrightarrow> sd_count (skel_of i) = 0"
    then show ?thesis
      using unlink_ns [OF l unlink_rows(4) [OF inv l]] by (simp add: after_drop_def [abs_def])
  qed (simp add: ns_unlink_def after_drop_def [abs_def] option.map_ident ns_of_def fun_eq_iff)
qed

text \<open>The entry moves: within a directory it keeps its cookie, otherwise it gets a new one.\<close>

definition entry_moved ::
  "inode_id \<Rightarrow> bytes \<Rightarrow> inode_id \<Rightarrow> bytes \<Rightarrow> inode_id \<Rightarrow> u64 \<Rightarrow> inode \<Rightarrow> dir_scan_value \<Rightarrow> meta \<Rightarrow> meta \<Rightarrow> bool" where
  "entry_moved d1 n1 d2 n2 x c i' w u0 u \<longleftrightarrow>
     (let c' = (if d1 = d2 then c else cookie_of u0 d2) in
      m_inodes u = (m_inodes u0)(x \<mapsto> i')
      \<and> m_entries u = (m_entries u0)((d1, n1) := None, (d2, n2) \<mapsto> (x, c'))
      \<and> m_scans u = (m_scans u0)((d1, c) := None, (d2, c') \<mapsto> (n2, w))
      \<and> m_cookies u = (if d1 = d2 then m_cookies u0 else (m_cookies u0)(d2 \<mapsto> c' + 1))
      \<and> m_orphans u = m_orphans u0)"

lemma entry_moved_idx:
  assumes idx: "idx_inv u0" and e: "m_entries u0 (d1, n1) = Some (x, c)" and free: "m_entries u0 (d2, n2) = None"
    and wrap: "d1 \<noteq> d2 \<longrightarrow> cookie_of u0 d2 \<noteq> u64_max" and w: "scan_inode_id w = x"
    and moved: "entry_moved d1 n1 d2 n2 x c i' w u0 u"
  shows "idx_inv u"
proof -
  define u1 where "u1 = u0\<lparr>m_entries := (m_entries u0)((d1, n1) := None), m_scans := (m_scans u0)((d1, c) := None)\<rparr>"
  have idx1: "idx_inv u1"
    by (rule idx_del [OF idx e]) (simp_all add: u1_def)
  have ck: "cookie_of u1 = cookie_of u0"
    by (simp add: u1_def cookie_of_def fun_eq_iff)
  have free1: "m_entries u1 (d2, n2) = None"
    using free by (simp add: u1_def)
  show ?thesis
  proof (cases "d1 = d2")
    case False
    then show ?thesis
      using moved wrap
      by (intro idx_add [OF idx1 free1, of u x w]) (simp_all add: ck w entry_moved_def Let_def, simp_all add: u1_def)
  next
    case True
    obtain z where "m_scans u0 (d1, c) = Some (n1, z)"
      using idx_invD(1) [OF idx e] by blast
    then have c: "COOKIE_FIRST_ENTRY \<le> c" "c < cookie_of u0 d1"
      using idx_invD(3) [OF idx] by blast+
    have "cookie_of u = cookie_of u0"
      using moved True by (simp add: entry_moved_def Let_def cookie_of_def fun_eq_iff)
    then show ?thesis
      using moved True c
      by (intro idx_put [OF idx1 free1, of c u x w]) (simp_all add: ck w entry_moved_def Let_def, simp_all add: u1_def)
  qed
qed

lemma rename_rows:
  assumes inv: "meta_inv m" and dropped: "target_dropped keep d2 n2 tgt m u0"
    and e: "m_entries m (d1, n1) = Some (x, c)" "(d1, n1) \<noteq> (d2, n2)"
    and wrap: "d1 \<noteq> d2 \<longrightarrow> cookie_of m d2 \<noteq> u64_max"
    and w: "scan_inode_id w = x" "\<And>y j. w = WithInode y j \<Longrightarrow> j = i' \<and> place i' = (Some d2, Some n2)"
    and moved: "entry_moved d1 n1 d2 n2 x c i' w u0 u"
  shows "idx_inv u" "emb_inv u" "emb_fresh m \<Longrightarrow> emb_fresh u"
proof -
  note tg = target_rows [OF inv dropped]
  have e0: "m_entries u0 (d1, n1) = Some (x, c)" and free0: "m_entries u0 (d2, n2) = None"
    using tg(2) e by auto
  show "idx_inv u"
    by (rule entry_moved_idx [OF _ e0 free0 _ w(1) moved]) (use tg(1) wrap in simp_all)
  have emb0: "emb_inv u0"
    using tg(1) by blast
  have change: "m_scans u0 (f, k) = Some (q, WithInode y j) \<and> m_inodes u y = m_inodes u0 y
      \<or> m_inodes u y = Some j \<and> place j = (Some f, Some q)"
    if s: "m_scans u (f, k) = Some (q, WithInode y j)" for f k q y j
  proof -
    consider "q = n2" "f = d2" "w = WithInode y j"
      | "m_scans u0 (f, k) = Some (q, WithInode y j)" "(f, k) \<noteq> (d1, c)"
      using s moved by (auto simp: entry_moved_def Let_def split: if_splits)
    then show ?thesis
    proof cases
      case 1
      then show ?thesis
        using w moved by (auto simp: entry_moved_def Let_def)
    next
      case 2
      then have "y \<noteq> x"
        using unembedded [OF inv e(1), of f k q j] tg(2) by auto
      then show ?thesis
        using 2 moved by (simp add: entry_moved_def Let_def)
    qed
  qed
  show "emb_inv u"
    by (rule emb_change(1) [OF emb0 change])
  show "emb_fresh u" if "emb_fresh m"
    using tg(1) that by (intro emb_change(2) [OF emb0 change]) simp_all
qed

lemma entry_moved_ns:
  "entry_moved d1 n1 d2 n2 x c i' w u0 u \<Longrightarrow>
   ns_of u = (ns_of u0)\<lparr>ns_nodes := (ns_nodes (ns_of u0))(x \<mapsto> skel_of i'),
     ns_ents := (ns_ents (ns_of u0))((d1, n1) := None, (d2, n2) \<mapsto> x)\<rparr>"
  by (auto simp: entry_moved_def Let_def ns_of_def fun_eq_iff)

lemma rename_distinct:
  assumes inv: "meta_inv m" and dropped: "target_dropped keep d2 n2 tgt m u0"
    and rn: "can_rename (ns_of m) d1 n1 d2 n2 x (skel_of i)"
    and moved: "entry_moved d1 n1 d2 n2 x c i' w u0 u" and z: "z = d1 \<or> z = d2"
  shows "x \<noteq> z" "m_inodes u z = m_inodes m z" "m_entries m k = Some (z, c') \<Longrightarrow> m_entries u k = Some (z, c')"
proof -
  note tg = target_rows [OF inv dropped]
  note cm = can_rename_move [OF meta_invD(1) [OF inv] rn, of keep]
  show xz: "x \<noteq> z"
    using can_move_distinct [OF cm] z by blast
  have e: "ns_ents (ns_of m) (d1, n1) = Some x"
    using rn by (simp add: can_rename_def)
  have yz: "m_entries m (d2, n2) \<noteq> Some (z, c')" for c'
    using tg(3) in_kids [OF e] z by (auto simp: kids_def)
  then have "m_inodes u0 z = m_inodes m z"
    using tg(3) by blast
  then show "m_inodes u z = m_inodes m z"
    using moved xz by (simp add: entry_moved_def Let_def)
  show "m_entries u k = Some (z, c')" if "m_entries m k = Some (z, c')"
    using that moved tg(2) yz e xz by (auto simp: entry_moved_def Let_def)
qed

lemma meta_rename:
  fixes flt :: faults
  assumes inv: "meta_inv m" and dropped: "target_dropped keep d2 n2 tgt m u0"
    and rn: "can_rename (ns_of m) d1 n1 d2 n2 x (skel_of i)"
    and e: "m_entries m (d1, n1) = Some (x, c)"
    and wrap: "d1 \<noteq> d2 \<longrightarrow> cookie_of m d2 \<noteq> u64_max"
    and i': "skel_of i' = moved_skel d2 n2 (skel_of i)"
    and w: "scan_inode_id w = x" "\<And>y j. w = WithInode y j \<Longrightarrow> j = i' \<and> place i' = (Some d2, Some n2)"
    and moved: "entry_moved d1 n1 d2 n2 x c i' w u0 u"
    and d: "m_inodes m d1 = Some (Directory D1)" "m_inodes m d2 = Some (Directory D2)"
    and D1': "place (Directory D1') = place (Directory D1)"
      "skel_of (Directory D1') =
         (if d1 = d2 then after_drop tgt (skel_of (Directory D1)) else shrink (is_directory i) (skel_of (Directory D1)))"
    and D2': "d1 \<noteq> d2 \<Longrightarrow> place (Directory D2') = place (Directory D2)"
      "d1 \<noteq> d2 \<Longrightarrow> skel_of (Directory D2') = grow (is_directory i) (after_drop tgt (skel_of (Directory D2)))"
  defines "v1 \<equiv> apply_ops (resave_ops flt m d1 (Directory D1')) u"
  defines "v \<equiv> if d1 = d2 then v1 else apply_ops (resave_ops flt m d2 (Directory D2')) v1"
  shows "ns_of v = ns_rename keep d1 n1 d2 n2 (ns_of m)" "meta_inv v"
    and "(\<And>p q. flt (DirEntryKey p q) = None) \<Longrightarrow> emb_fresh m \<Longrightarrow> emb_fresh v"
proof -
  note ns = meta_invD(1) [OF inv]
  note tg = target_rows [OF inv dropped] and cm = can_rename_move [OF ns rn, of keep]
  have ne: "(d1, n1) \<noteq> (d2, n2)"
    by (rule can_move_distinct(2) [OF cm])
  note dist = rename_distinct [OF inv dropped rn moved]
  note rr = rename_rows [OF inv dropped e ne wrap w moved]
  have du: "m_inodes u d1 = Some (Directory D1)" "m_inodes u d2 = Some (Directory D2)"
    using dist(2) d by simp_all
  have idx_u: "idx_inv u" and emb_u: "emb_inv u" and fresh_u: "emb_fresh m \<Longrightarrow> emb_fresh u"
    by (rule rr; simp)+
  have r1: "idx_inv v1" "emb_inv v1"
      "(\<And>p q. flt (DirEntryKey p q) = None) \<Longrightarrow> emb_fresh u \<Longrightarrow> emb_fresh v1"
      "ns_of v1 = (ns_of u)\<lparr>ns_nodes := (ns_nodes (ns_of u))(d1 \<mapsto> skel_of (Directory D1'))\<rparr>"
    unfolding v1_def by (rule resave_dir [OF idx_u emb_u ns d(1) du(1) D1'(1)]; use dist(3) in blast)+
  have dv: "m_inodes v1 d2 = Some (Directory D2)" "\<And>k c'. m_entries m k = Some (d2, c') \<Longrightarrow> m_entries v1 k = Some (d2, c')"
    if "d1 \<noteq> d2"
    using du(2) dist(3) that by (simp_all add: v1_def resave_rows)
  have r2: "idx_inv v" "emb_inv v"
      "(\<And>p q. flt (DirEntryKey p q) = None) \<Longrightarrow> emb_fresh v1 \<Longrightarrow> emb_fresh v"
      "ns_of v = (if d1 = d2 then ns_of v1
         else (ns_of v1)\<lparr>ns_nodes := (ns_nodes (ns_of v1))(d2 \<mapsto> skel_of (Directory D2'))\<rparr>)"
    using r1 resave_dir [OF r1(1,2) ns d(2) dv(1) D2'(1) dv(2)] by (simp_all add: v_def)
  define N where "N = ns_unlink keep d2 n2 (ns_of m)"
  note eff = ns_move_effect(1-3) [OF cm, folded N_def]
  have N: "ns_nodes N = (ns_nodes (ns_of u0))(d2 := map_option (after_drop tgt) (ns_nodes (ns_of m) d2))"
    "ns_ents N = ns_ents (ns_of u0)" "ns_orph N = ns_orph (ns_of u0)"
    by (simp_all add: N_def tg(4))
  note v_ns = r2(4) r1(4) entry_moved_ns [OF moved]
  show nsv: "ns_of v = ns_rename keep d1 n1 d2 n2 (ns_of m)"
    unfolding ns_rename_def N_def [symmetric]
  proof (rule ns.equality)
    show "ns_nodes (ns_of v) = ns_nodes (ns_move d1 n1 d2 n2 N)"
    proof
      fix z
      have x: "x \<noteq> d1" "x \<noteq> d2"
        using dist(1) by auto
      then have "m_inodes u0 d1 = Some (Directory D1)" "m_inodes u0 d2 = Some (Directory D2)" "d1 = d2 \<Longrightarrow> D2 = D1"
        using du d moved by (auto simp: entry_moved_def Let_def)
      then show "ns_nodes (ns_of v) z = ns_nodes (ns_move d1 n1 d2 n2 N) z"
        using x d D1'(2) D2'(2) i' unfolding eff(3) v_ns N(1)
        by (cases "d1 = d2") (simp_all add: skel_of_directory)
    qed
    show "ns_ents (ns_of v) = ns_ents (ns_move d1 n1 d2 n2 N)" "ns_orph (ns_of v) = ns_orph (ns_move d1 n1 d2 n2 N)"
      unfolding eff(1,2) v_ns N(2,3) by simp_all
  qed simp
  show "meta_inv v"
    using r2(1,2) ns_rename_inv [OF ns rn] by (simp add: meta_inv_def nsv)
  show "emb_fresh v" if "\<And>p q. flt (DirEntryKey p q) = None" "emb_fresh m"
    using r1(3) r2(3) fresh_u that by blast
qed

section \<open>Reclaiming an orphan\<close>

lemma meta_reclaim:
  assumes inv: "meta_inv m" and x: "m_inodes m x = Some i" and dead: "inode_nlink i = 0"
    and rows: "m_inodes u = (m_inodes m)(x := None)" "m_entries u = m_entries m" "m_scans u = m_scans m"
      "m_cookies u = m_cookies m \<or> m_cookies u = (m_cookies m)(x := None)" "m_orphans u = m_orphans m - {x}"
  shows "ns_of u = ns_reclaim x (ns_of m)" "meta_inv u" "emb_fresh m \<Longrightarrow> emb_fresh u"
proof -
  note ns = meta_invD(1) [OF inv] and idx = meta_invD(2) [OF inv] and emb = meta_invD(3) [OF inv]
  have links: "sk_links (skel_of i) = 0"
    using dead by (simp add: skel_of_links)
  have norefs: "m_entries m (e, q) \<noteq> Some (x, c)" for e q c
    using ref_links_pos [OF ns, of e q x "skel_of i"] by (simp add: x links, auto)
  have "\<not> live_dir (ns_of m) x"
    using x links by (auto simp: live_dir_def)
  then have "kids (ns_of m) x = {}"
    by (rule no_kids_dead [OF ns])
  then have noscans: "m_scans m (x, k) = None" for k
    by (rule no_kids_no_scans [OF idx])
  have idx_u: "idx_inv u"
    using rows(4)
  proof
    assume "m_cookies u = m_cookies m"
    then show ?thesis
      using idx_inv_cong [OF rows(2,3)] idx by simp
  next
    assume "m_cookies u = (m_cookies m)(x := None)"
    then show ?thesis
      by (rule idx_del_cookie [OF idx noscans rows(2,3)])
  qed
  have change: "m_scans m (f, k) = Some (q, WithInode y j) \<and> m_inodes u y = m_inodes m y
      \<or> m_inodes u y = Some j \<and> place j = (Some f, Some q)"
    if "m_scans u (f, k) = Some (q, WithInode y j)" for f k q y j
  proof -
    have s: "m_scans m (f, k) = Some (q, WithInode y j)"
      using that by (simp add: rows(3))
    then have "y \<noteq> x"
      using norefs [of f q k] idx_invD(2) [OF idx s] by auto
    then show ?thesis
      using s by (simp add: rows(1))
  qed
  have emb_u: "emb_inv u" and fresh_u: "emb_fresh m \<Longrightarrow> emb_fresh u"
    by (rule emb_change [OF emb change]; simp)+
  show nsu: "ns_of u = ns_reclaim x (ns_of m)"
    by (simp add: ns_of_def ns_reclaim_def rows(1,2,5) fun_eq_iff)
  show "meta_inv u"
    using ns_reclaim_inv [OF ns, of x "skel_of i"] links x idx_u emb_u by (simp add: meta_inv_def nsu)
  show "emb_fresh m \<Longrightarrow> emb_fresh u" by (rule fresh_u)
qed

section \<open>Counts, in terms of rows\<close>

lemma ns_of_sets:
  "refs (ns_of m) x = {(d, n). \<exists>c. m_entries m (d, n) = Some (x, c)}"
  "kids (ns_of m) d = {n. m_entries m (d, n) \<noteq> None}"
  "subs (ns_of m) d = {n. \<exists>y c E. m_entries m (d, n) = Some (y, c) \<and> m_inodes m y = Some (Directory E)}"
proof -
  show "refs (ns_of m) x = {(d, n). \<exists>c. m_entries m (d, n) = Some (x, c)}" "kids (ns_of m) d = {n. m_entries m (d, n) \<noteq> None}"
    by (auto simp: refs_def kids_def)
  have "is_directory z \<longleftrightarrow> (\<exists>E. z = Directory E)" for z
    by (cases z) simp_all
  then have "is_dir (ns_of m) y \<longleftrightarrow> (\<exists>E. m_inodes m y = Some (Directory E))" for y
    by (auto simp: is_dir_def skel_of_directory)
  then show "subs (ns_of m) d = {n. \<exists>y c E. m_entries m (d, n) = Some (y, c) \<and> m_inodes m y = Some (Directory E)}"
    by (auto simp: subs_def)
qed

lemma leaf_links:
  assumes "meta_inv m" "m_inodes m x = Some i" "\<not> is_directory i"
  shows "unat (inode_nlink i) = card (refs (ns_of m) x)"
  using ns_invD(7) [OF meta_invD(1) [OF assms(1)], of x] assms(2) skel_of_leaf [OF assms(3)] by (simp add: leaf_ok_def)

lemma dir_refs:
  assumes "meta_inv m" "m_inodes m x = Some (Directory D)" "i_nlink (d_attrs D) \<noteq> 0" "x \<noteq> 0"
  shows "\<exists>n. i_name (d_attrs D) = Some n \<and> refs (ns_of m) x = {(d_parent D, n)}"
proof -
  have "dir_ok (ns_of m) x (unat (d_entry_count D)) (unat (i_nlink (d_attrs D))) (d_parent D) (i_name (d_attrs D))"
    by (rule ns_invD(6) [OF meta_invD(1) [OF assms(1)]]) (simp add: assms(2))
  then show ?thesis
    using assms(3,4) by (auto simp: dir_ok_def unat_eq_0 split: if_splits)
qed

lemma entry_rows:
  assumes "meta_inv m" "m_entries m (x, n) = Some (y, c)" "m_inodes m x = Some i"
  shows "is_directory i \<and> inode_nlink i \<noteq> 0 \<and> m_inodes m y \<noteq> None"
proof -
  note ns = meta_invD(1) [OF assms(1)]
  have e: "ns_ents (ns_of m) (x, n) = Some y"
    using assms(2) by simp
  obtain D where "m_inodes m x = Some (Directory D)" "i_nlink (d_attrs D) \<noteq> 0"
    using live_dirE [OF ns_invD(3) [OF ns e]] .
  moreover have "m_inodes m y \<noteq> None"
    using ns_invD(4) [OF ns e] by auto
  ultimately show ?thesis
    using assms(3) by (simp add: inode_nlink_def)
qed

lemma orphan_row: "meta_inv m \<Longrightarrow> m_inodes m x = Some i \<Longrightarrow> x \<in> m_orphans m \<longleftrightarrow> inode_nlink i = 0"
  using ns_invD(8) [OF meta_invD(1), of m] by (auto simp: skel_of_links unat_eq_0)

end
