(* ===== verification/Op_Spec.thy ===== *)
theory Op_Spec
  imports Fs_State Dir_Ops
begin

text \<open>
  What an operation on the namespace promises. An operation is refused and leaves the rows and the
  ledger alone, or replays a recorded result, or applies one abstract operation of the namespace
  in one commit and records its result. Only a failed flush under \<open>sync_writes\<close> makes an applied
  operation report an error. An operation whose identifier is already recorded changes nothing.
\<close>

section \<open>States\<close>

definition fs_inv :: "fs \<Rightarrow> bool" where
  "fs_inv s \<longleftrightarrow> meta_inv (st_meta s) \<and> (\<forall>x. m_inodes (st_meta s) x \<noteq> None \<longrightarrow> x < st_next_id s)"

text \<open>Room in the 64-bit counters for one more operation.\<close>

definition roomy :: "fs \<Rightarrow> bool" where
  "roomy s \<longleftrightarrow> unat (st_next_id s) + 2 < 2 ^ 64 \<and> (\<forall>d. cookie_of (st_meta s) d \<noteq> u64_max)"

definition reads_entries :: "op_env \<Rightarrow> bool" where
  "reads_entries env \<longleftrightarrow> (\<forall>d n. oe_faults env (DirEntryKey d n) = None)"

text \<open>The database reports a missing key as an empty answer, never as an error.\<close>

definition faults_ok :: "op_env \<Rightarrow> bool" where
  "faults_ok env \<longleftrightarrow> (\<forall>k. oe_faults env k \<noteq> Some NotFound)"

section \<open>Outcomes\<close>

text \<open>One abstract operation has been applied and its result recorded.\<close>

definition ns_step :: "op_env \<Rightarrow> (ns \<Rightarrow> ns) \<Rightarrow> op_id \<Rightarrow> dedup_result \<Rightarrow> fs \<Rightarrow> fs \<Rightarrow> bool" where
  "ns_step env f op result s t \<longleftrightarrow>
     ns_of (st_meta t) = f (ns_of (st_meta s)) \<and> meta_inv (st_meta t)
     \<and> (reads_entries env \<and> emb_fresh (st_meta s) \<longrightarrow> emb_fresh (st_meta t))
     \<and> st_ledger t = (if has_op_id op then record_entry \<lparr>dd_op_id = op, dd_result = result\<rparr> (st_ledger s)
                      else st_ledger s)"

definition replayed :: "op_env \<Rightarrow> op_id \<Rightarrow> (dedup_result \<Rightarrow> 'a option) \<Rightarrow> fs \<Rightarrow> 'a \<Rightarrow> bool" where
  "replayed env op extract s y \<longleftrightarrow>
     Option.bind (dedup_get (st_ledger (oe_pre env)) op) extract = Some y
     \<or> Option.bind (dedup_get (st_ledger s) op) extract = Some y"

definition op_result ::
  "op_env \<Rightarrow> op_id \<Rightarrow> (dedup_result \<Rightarrow> 'a option) \<Rightarrow> ('a \<Rightarrow> fs \<Rightarrow> bool) \<Rightarrow> fs \<Rightarrow> 'a fs_result \<Rightarrow> fs \<Rightarrow> bool" where
  "op_result env op extract eff s r t \<longleftrightarrow>
     st_open t = st_open s
     \<and> (\<exists>k \<le> 2. st_next_id t = st_next_id s + word_of_nat k)
     \<and> (st_meta t = st_meta s \<and> st_ledger t = st_ledger s \<and> (\<exists>e. r = Inl e)
        \<or> st_meta t = st_meta s \<and> st_ledger t = st_ledger s \<and> (\<exists>y. r = Inr y \<and> replayed env op extract s y)
        \<or> (\<exists>y. eff y t
            \<and> (\<forall>res. dedup_get (st_ledger s) op = Some res \<longrightarrow>
                 st_meta t = st_meta s \<and> st_ledger t = st_ledger s \<and> extract res \<in> {None, Some y})
            \<and> (r = Inr y \<or> we_sync_writes (oe_worker env) \<and> (\<exists>e. r = Inl e))))"

text \<open>Nothing but the counter of identifiers and the metrics has changed.\<close>

definition quiet :: "nat \<Rightarrow> fs \<Rightarrow> fs \<Rightarrow> bool" where
  "quiet k s t \<longleftrightarrow>
     st_meta t = st_meta s \<and> st_ledger t = st_ledger s \<and> st_open t = st_open s
     \<and> st_next_id t = st_next_id s + word_of_nat k"

section \<open>Lemmas\<close>

lemma next_id_le:
  assumes "roomy s" "k \<le> 2"
  shows "st_next_id s \<le> st_next_id s + word_of_nat k"
proof -
  have "unat (word_of_nat k :: u64) = k"
    using assms(2) by (simp add: unat_of_nat take_bit_eq_mod)
  then show ?thesis
    using assms unfolding roomy_def word_le_nat_alt by (simp add: unat_word_ariths)
qed

lemma op_result_error: "quiet k s t \<Longrightarrow> k \<le> 2 \<Longrightarrow> op_result env op ex eff s (Inl e) t"
  by (auto simp: op_result_def quiet_def)

lemma op_result_refused [simp]: "op_result env op ex eff s (Inl e) s"
  by (rule op_result_error [where k = 0]) (simp_all add: quiet_def)

lemma op_result_replayed: "replayed env op ex s y \<Longrightarrow> op_result env op ex eff s (Inr y) s"
  unfolding op_result_def by (auto intro!: exI [of _ 0])

lemma op_result_mono:
  "op_result env op ex eff s r t \<Longrightarrow> (\<And>y u. eff y u \<Longrightarrow> eff' y u) \<Longrightarrow> op_result env op ex eff' s r t"
  unfolding op_result_def by blast

lemma replay_dedup_result_Inr:
  "replay_dedup_result l op ex = Inr (Some y) \<longleftrightarrow> Option.bind (dedup_get l op) ex = Some y"
  by (auto simp: replay_dedup_result_def split: option.splits)

lemma replay_dedup_result_None: "replay_dedup_result l op ex = Inr None \<longleftrightarrow> dedup_get l op = None"
  by (auto simp: replay_dedup_result_def split: option.splits)

lemma replayed_preI:
  "holds k (op_result env op ex eff s) s \<Longrightarrow>
   holds (unless_replayed_pre env op ex k) (op_result env op ex eff s) s"
  unfolding unless_replayed_pre_def
  by (rule holds_liftI, simp)
    (auto simp: replay_dedup_result_Inr replayed_def intro: op_result_replayed split: option.split)

lemma replayedI:
  "(dedup_get (st_ledger s) op = None \<Longrightarrow> holds k (op_result env op ex eff s) s) \<Longrightarrow>
   holds (unless_replayed op ex k) (op_result env op ex eff s) s"
  unfolding unless_replayed_def
  by (rule holds_readI, simp)
    (auto simp: replay_dedup_result_Inr replay_dedup_result_None replayed_def intro: op_result_replayed
      split: option.split)

lemma txn_entries_set: "tx_dedup_entry t = (if has_op_id op then Some \<lparr>dd_op_id = op, dd_result = res\<rparr> else None) \<Longrightarrow>
   ledger_add (txn_entries t) l = (if has_op_id op then record_entry \<lparr>dd_op_id = op, dd_result = res\<rparr> l else l)"
  by (simp add: txn_entries_def ledger_add_def)

lemma tx_dedup_simps [simp]:
  "tx_dedup_entry transaction_new = None"
  "tx_dedup_entry (put_op p t) = tx_dedup_entry t"
  "tx_dedup_entry (set_dedup_result op r t) = (if has_op_id op then Some \<lparr>dd_op_id = op, dd_result = r\<rparr> else None)"
  "tx_dedup_entry (update_cached_inode ino v t) = tx_dedup_entry t"
  "tx_dedup_entry (update_cached_directory_entry d n e t) = tx_dedup_entry t"
  "tx_dedup_entry (update_cached_extent_location ino x l t) = tx_dedup_entry t"
  "tx_dedup_entry (add_inode_count_delta ino k t) = tx_dedup_entry t"
  "tx_dedup_entry (add_seg_delta seg live tot t) = tx_dedup_entry t"
  by (simp_all add: transaction_new_def put_op_def set_dedup_result_def update_cached_inode_def
      update_cached_directory_entry_def update_cached_extent_location_def add_inode_count_delta_def
      add_seg_delta_def)

lemma tx_dedup_stage [simp]:
  "tx_dedup_entry (inode_save ino i t) = tx_dedup_entry t"
  "tx_dedup_entry (inode_delete ino t) = tx_dedup_entry t"
  "tx_dedup_entry (stage_cookie_increment d c t) = tx_dedup_entry t"
  "tx_dedup_entry (dir_add d n ino c io t) = tx_dedup_entry t"
  "tx_dedup_entry (dir_unlink_entry d n c t) = tx_dedup_entry t"
  "tx_dedup_entry (delete_directory d t) = tx_dedup_entry t"
  "tx_dedup_entry (orphan_add ino t) = tx_dedup_entry t"
  "tx_dedup_entry (orphan_remove ino t) = tx_dedup_entry t"
  "tx_dedup_entry (tombstone_add now ino sz t) = tx_dedup_entry t"
  by (simp_all add: inode_save_def inode_delete_def stage_cookie_increment_def dir_add_def
      dir_unlink_entry_def delete_directory_def orphan_add_def orphan_remove_def
      tombstone_add_def Let_def)

lemma allocate_cookie_Inr:
  "allocate_cookie flt m d t = Inr (c, t') \<longleftrightarrow>
   flt (DirCookieKey d) = None \<and> c = cookie_of m d \<and> t' = stage_cookie_increment d c t"
  by (auto simp: allocate_cookie_def read_cookie_def try_bind_def cookie_of_def split: option.splits)

text \<open>The end of an operation: commit, count, answer.\<close>

lemma commit_result_idI:
  assumes s: "quiet k s s'" "k \<le> 1"
    and new: "\<And>res. dedup_get (st_ledger s) op = Some res \<Longrightarrow> apply_ops (tx_ops tx) (st_meta s) = st_meta s
      \<and> ledger_add (txn_entries tx) (st_ledger s) = st_ledger s \<and> ex res \<in> {None, Some y}"
    and eff: "\<And>t. st_meta t = apply_ops (tx_ops tx) (st_meta s) \<Longrightarrow>
      st_ledger t = ledger_add (txn_entries tx) (st_ledger s) \<Longrightarrow>
      st_next_id t \<in> {st_next_id s', st_next_id s' + 1} \<Longrightarrow> eff y t"
  shows "holds (sbind (s_commit env tx st) (\<lambda>_. sbind (s_bump ks) (\<lambda>_. sret y))) (op_result env op ex eff s) s'"
proof -
  have ids: "\<exists>k \<le> 2. st_next_id t = st_next_id s + word_of_nat k" if "committed env tx b s' t" for b t
    using that s by (auto simp: committed_def quiet_def intro: exI [of _ k] exI [of _ "Suc k"])
  show ?thesis
  proof (rule holds_commitI)
    fix e t
    assume c: "committed env tx False s' t"
    then show "op_result env op ex eff s (Inl e) t"
      using ids [OF c] s(1) eff [of t] new unfolding committed_def op_result_def quiet_def by auto
  next
    fix t
    assume c: "committed env tx True s' t"
    then have "eff y (fold bump ks t)"
      using s(1) by (intro eff) (auto simp: committed_def quiet_def)
    then show "holds (sbind (s_bump ks) (\<lambda>_. sret y)) (op_result env op ex eff s) t"
      using c ids [OF c] s(1) new by (auto simp: holds_bind op_result_def committed_def quiet_def)
  qed
qed

lemma commit_resultI:
  assumes "quiet k s s'" "k \<le> 1" "dedup_get (st_ledger s) op = None"
    and "\<And>t. st_meta t = apply_ops (tx_ops tx) (st_meta s) \<Longrightarrow>
      st_ledger t = ledger_add (txn_entries tx) (st_ledger s) \<Longrightarrow> eff y t"
  shows "holds (sbind (s_commit env tx st) (\<lambda>_. sbind (s_bump ks) (\<lambda>_. sret y))) (op_result env op ex eff s) s'"
  by (rule commit_result_idI [OF assms(1,2)]) (simp add: assms(3), rule assms(4))

lemma m_inodes_ns: "m_inodes m x = None \<longleftrightarrow> ns_nodes (ns_of m) x = None"
  by (simp add: ns_of_def)

lemma ns_step_ledger:
  assumes "ns_step env f op res s t"
  shows "st_ledger s \<subseteq>\<^sub>m st_ledger t"
    and "has_op_id op \<Longrightarrow> st_ledger s op = None \<Longrightarrow> st_ledger t op = Some res"
  using assms by (auto simp: ns_step_def record_entry_def map_le_def)

lemma ns_stepD:
  assumes "ns_step env f op res s t"
  shows "meta_inv (st_meta t)" "m_inodes (st_meta t) x = None \<longleftrightarrow> ns_nodes (f (ns_of (st_meta s))) x = None"
    and "reads_entries env \<and> emb_fresh (st_meta s) \<longrightarrow> emb_fresh (st_meta t)"
  using assms by (simp_all add: ns_step_def m_inodes_ns)

lemma ns_step_bump [simp]: "ns_step env f op res s (fold bump ks t) = ns_step env f op res s t"
  by (simp add: ns_step_def)

section \<open>The contract of an operation\<close>

text \<open>
  What every effect keeps: the rows stay consistent, a new inode has a fresh identifier, an inode
  with an open handle stays, no recorded result is forgotten, a call that changed rows has recorded
  its answer, and the copies of inodes in directory listings stay exact unless a listing row cannot
  be read.
\<close>

definition effect_ok :: "op_env \<Rightarrow> op_id \<Rightarrow> (dedup_result \<Rightarrow> 'a option) \<Rightarrow> fs \<Rightarrow> 'a \<Rightarrow> fs \<Rightarrow> bool" where
  "effect_ok env op ans s y t \<longleftrightarrow>
     meta_inv (st_meta t)
     \<and> (\<forall>x. m_inodes (st_meta t) x \<noteq> None \<longrightarrow> m_inodes (st_meta s) x \<noteq> None \<or> x < st_next_id t)
     \<and> (\<forall>x. 0 < open_handle_count s x \<and> m_inodes (st_meta s) x \<noteq> None \<longrightarrow> m_inodes (st_meta t) x \<noteq> None)
     \<and> st_ledger s \<subseteq>\<^sub>m st_ledger t
     \<and> (has_op_id op \<and> st_ledger s op = None \<and> st_meta t \<noteq> st_meta s \<longrightarrow>
          (\<exists>res. st_ledger t op = Some res \<and> ans res = Some y))
     \<and> (reads_entries env \<and> emb_fresh (st_meta s) \<longrightarrow> emb_fresh (st_meta t))"

lemma effect_ok_same:
  "fs_inv s \<Longrightarrow> st_meta t = st_meta s \<Longrightarrow> st_ledger s \<subseteq>\<^sub>m st_ledger t \<Longrightarrow> effect_ok env op ans s y t"
  by (simp add: effect_ok_def fs_inv_def)

lemma effect_ok_records:
  "effect_ok env op ans s y t \<Longrightarrow> has_op_id op \<Longrightarrow> st_ledger s op = None \<Longrightarrow> st_meta t \<noteq> st_meta s \<Longrightarrow>
   \<exists>res. st_ledger t op = Some res \<and> ans res = Some y"
  unfolding effect_ok_def by blast

lemma effect_ok_step:
  assumes st: "ns_step env f op res s t"
    and new: "\<And>x. ns_nodes (ns_of (st_meta s)) x = None \<Longrightarrow> ns_nodes (f (ns_of (st_meta s))) x = None \<or> x < st_next_id t"
    and kept: "\<And>x. ns_nodes (f (ns_of (st_meta s))) x = None \<Longrightarrow>
      ns_nodes (ns_of (st_meta s)) x = None \<or> open_handle_count s x = 0"
    and ans: "has_op_id op \<Longrightarrow> ans res = Some y"
  shows "effect_ok env op ans s y t"
proof -
  have "m_inodes (st_meta s) x \<noteq> None \<or> x < st_next_id t" if "m_inodes (st_meta t) x \<noteq> None" for x
    using new [of x] that unfolding ns_stepD(2) [OF st] m_inodes_ns [of "st_meta s"] by argo
  moreover have "m_inodes (st_meta t) x \<noteq> None" if "0 < open_handle_count s x \<and> m_inodes (st_meta s) x \<noteq> None" for x
    using kept [of x] that unfolding ns_stepD(2) [OF st] m_inodes_ns [of "st_meta s"] word_gt_0 by argo
  moreover have "\<exists>res. st_ledger t op = Some res \<and> ans res = Some y"
    if "has_op_id op \<and> st_ledger s op = None \<and> st_meta t \<noteq> st_meta s"
    using ns_step_ledger(2) [OF st] ans that by simp
  ultimately show ?thesis
    unfolding effect_ok_def using ns_stepD(1) [OF st] ns_step_ledger(1) [OF st]
    by (intro conjI allI ns_stepD(3) [OF st]) (assumption | rule impI)+
qed

text \<open>What a step of the file system keeps, seen from outside; \<open>e\<close> is the error it answers.\<close>

definition error_of :: "'a fs_result \<Rightarrow> fs_error option" where
  "error_of r = (case r of Inl e \<Rightarrow> Some e | Inr _ \<Rightarrow> None)"

definition step_keeps :: "op_env \<Rightarrow> fs \<Rightarrow> fs_error option \<Rightarrow> fs \<Rightarrow> bool" where
  "step_keeps env s e t \<longleftrightarrow>
     fs_inv t \<and> st_ledger s \<subseteq>\<^sub>m st_ledger t
     \<and> (\<forall>x. 0 < open_handle_count s x \<and> m_inodes (st_meta s) x \<noteq> None \<longrightarrow> m_inodes (st_meta t) x \<noteq> None)
     \<and> (reads_entries env \<and> emb_fresh (st_meta s) \<longrightarrow> emb_fresh (st_meta t))
     \<and> (e \<noteq> None \<and> \<not> we_sync_writes (oe_worker env) \<longrightarrow> st_meta t = st_meta s \<and> st_ledger t = st_ledger s)"

lemma step_keepsD:
  assumes "step_keeps env s e t"
  shows "fs_inv t" "st_ledger s \<subseteq>\<^sub>m st_ledger t"
    and "0 < open_handle_count s x \<Longrightarrow> m_inodes (st_meta s) x \<noteq> None \<Longrightarrow> m_inodes (st_meta t) x \<noteq> None"
    and "reads_entries env \<Longrightarrow> emb_fresh (st_meta s) \<Longrightarrow> emb_fresh (st_meta t)"
    and "e \<noteq> None \<Longrightarrow> \<not> we_sync_writes (oe_worker env) \<Longrightarrow> st_meta t = st_meta s \<and> st_ledger t = st_ledger s"
  using assms unfolding step_keeps_def by blast+

lemma step_keeps_None: "step_keeps env s e t \<Longrightarrow> step_keeps env s None t"
  unfolding step_keeps_def by blast

lemma step_keeps_rows: "fs_inv t \<Longrightarrow> st_meta t = st_meta s \<Longrightarrow> st_ledger t = st_ledger s \<Longrightarrow> step_keeps env s e t"
  by (simp add: step_keeps_def)

text \<open>
  An operation \<open>run\<close>, the identifier \<open>key\<close> it was called with, the answer \<open>ans\<close> that a recorded
  result stands for, the effect \<open>eff\<close> of a call that is applied, and the calls \<open>admits\<close> that the
  promise is made for.
\<close>

locale ns_operation =
  fixes run :: "op_env \<Rightarrow> fs \<Rightarrow> 'a fs_result \<Rightarrow> fs \<Rightarrow> bool"
    and key :: op_id
    and ans :: "dedup_result \<Rightarrow> 'a option"
    and eff :: "op_env \<Rightarrow> fs \<Rightarrow> 'a \<Rightarrow> fs \<Rightarrow> bool"
    and admits :: "op_env \<Rightarrow> fs \<Rightarrow> bool"
  assumes result: "fs_inv s \<Longrightarrow> roomy s \<Longrightarrow> admits env s \<Longrightarrow> run env s r t \<Longrightarrow> op_result env key ans (eff env s) s r t"
    and eff_ok: "fs_inv s \<Longrightarrow> admits env s \<Longrightarrow> eff env s y t \<Longrightarrow> effect_ok env key ans s y t"
begin

lemma result_cases:
  assumes "fs_inv s" "roomy s" "admits env s" "run env s r t"
  obtains (same) "st_meta t = st_meta s" "st_ledger t = st_ledger s"
  | (applied) y where "eff env s y t" "dedup_get (st_ledger s) key = None"
      "r = Inr y \<or> we_sync_writes (oe_worker env) \<and> (\<exists>e. r = Inl e)"
  using result [OF assms] unfolding op_result_def by (metis not_None_eq)

lemma result_ids:
  assumes "fs_inv s" "roomy s" "admits env s" "run env s r t"
  shows "st_next_id s \<le> st_next_id t" "st_open t = st_open s"
  using result [OF assms] next_id_le [OF assms(2)] by (auto simp: op_result_def)

lemma keeps_inv:
  assumes "fs_inv s" "roomy s" "admits env s" "run env s r t"
  shows "fs_inv t"
proof (cases rule: result_cases [OF assms])
  case 1
  then show ?thesis
    using assms(1) result_ids(1) [OF assms] by (auto simp: fs_inv_def dest: order_less_le_trans)
next
  case (2 y)
  have "effect_ok env key ans s y t"
    by (rule eff_ok [OF assms(1,3) 2(1)])
  then have "meta_inv (st_meta t)"
    and new: "\<forall>x. m_inodes (st_meta t) x \<noteq> None \<longrightarrow> m_inodes (st_meta s) x \<noteq> None \<or> x < st_next_id t"
    unfolding effect_ok_def by blast+
  moreover have "x < st_next_id t" if "m_inodes (st_meta t) x \<noteq> None" for x
    using new [rule_format, OF that] assms(1) result_ids(1) [OF assms] order_less_le_trans unfolding fs_inv_def by blast
  ultimately show ?thesis
    by (simp add: fs_inv_def)
qed

lemma failed_unchanged:
  assumes "fs_inv s" "roomy s" "admits env s" "run env s (Inl e) t" "\<not> we_sync_writes (oe_worker env)"
  shows "st_meta t = st_meta s \<and> st_ledger t = st_ledger s"
  using assms(5) by (cases rule: result_cases [OF assms(1-4)]) simp_all

lemma keeps_rows:
  assumes "fs_inv s" "roomy s" "admits env s" "run env s r t"
  shows "(\<forall>x. 0 < open_handle_count s x \<and> m_inodes (st_meta s) x \<noteq> None \<longrightarrow> m_inodes (st_meta t) x \<noteq> None)
    \<and> st_ledger s \<subseteq>\<^sub>m st_ledger t \<and> (reads_entries env \<and> emb_fresh (st_meta s) \<longrightarrow> emb_fresh (st_meta t))"
proof (cases rule: result_cases [OF assms])
  case (2 y)
  from eff_ok [OF assms(1,3) 2(1)] show ?thesis
    unfolding effect_ok_def by (elim conjE) (intro conjI)
qed simp

lemma keeps:
  assumes "fs_inv s" "roomy s" "admits env s" "run env s r t"
  shows "step_keeps env s (error_of r) t"
proof -
  have "st_meta t = st_meta s \<and> st_ledger t = st_ledger s" if "error_of r \<noteq> None" "\<not> we_sync_writes (oe_worker env)"
    using that failed_unchanged [OF assms(1-3)] assms(4) by (cases r) (auto simp: error_of_def)
  then show ?thesis
    unfolding step_keeps_def using keeps_inv [OF assms] keeps_rows [OF assms] by blast
qed

text \<open>A call with a recorded identifier changes nothing and answers what was recorded.\<close>

lemma recorded_unchanged:
  assumes "fs_inv s" "roomy s" "admits env s" "run env s r t"
    and op: "has_op_id key" "st_ledger s key = Some res"
  shows "st_meta t = st_meta s" "st_ledger t = st_ledger s"
    and "\<lbrakk>ans res = Some y; st_ledger (oe_pre env) \<subseteq>\<^sub>m st_ledger s\<rbrakk> \<Longrightarrow> r = Inr y \<or> (\<exists>e. r = Inl e)"
proof -
  have get: "dedup_get (st_ledger s) key = Some res"
    using op by (simp add: dedup_get_def)
  note res = result [OF assms(1-4), unfolded op_result_def get]
  show "st_meta t = st_meta s" "st_ledger t = st_ledger s"
    using res by auto
  assume y: "ans res = Some y" and "st_ledger (oe_pre env) \<subseteq>\<^sub>m st_ledger s"
  then have "dedup_get (st_ledger (oe_pre env)) key \<in> {None, Some res}"
    using op by (auto simp: dedup_get_def map_le_def dom_def)
  then show "r = Inr y \<or> (\<exists>e. r = Inl e)"
    using res y get by (auto simp: replayed_def)
qed

lemma success_recorded:
  assumes "fs_inv s" "roomy s" "admits env s" "run env s (Inr y) t"
    and "has_op_id key" "st_meta t \<noteq> st_meta s"
  shows "\<exists>res. st_ledger t key = Some res \<and> ans res = Some y"
proof (cases rule: result_cases [OF assms(1-4)])
  case 1
  then show ?thesis
    using assms(6) by simp
next
  case (2 z)
  then show ?thesis
    using effect_ok_records [OF eff_ok [OF assms(1,3) 2(1)] assms(5) _ assms(6)] assms(5) by (auto simp: dedup_get_def)
qed

text \<open>A retry of a completed call, in any later state, does nothing and repeats the answer.\<close>

lemma retry:
  assumes first: "fs_inv s" "roomy s" "admits env s" "run env s (Inr y) t" "st_meta t \<noteq> st_meta s"
    and op: "has_op_id key" and later: "st_ledger t \<subseteq>\<^sub>m st_ledger u"
    and again: "fs_inv u" "roomy u" "admits env' u" "run env' u r v" "st_ledger (oe_pre env') \<subseteq>\<^sub>m st_ledger u"
  shows "st_meta v = st_meta u \<and> st_ledger v = st_ledger u \<and> (r = Inr y \<or> (\<exists>e. r = Inl e))"
proof -
  obtain res where res: "st_ledger t key = Some res" "ans res = Some y"
    using success_recorded [OF first(1-4) op first(5)] by blast
  then have "st_ledger u key = Some res"
    using later by (metis map_le_def domI)
  from recorded_unchanged [OF again(1-4) op this] show ?thesis
    using res(2) again(5) by simp
qed

end

end
