(* ===== verification/Example_State.thy ===== *)
theory Example_State
  imports Op_Spec
begin

text \<open>
  Concrete states and an environment without faults, at which the properties of the operations are
  instantiated: a new file system, and one whose root holds two directories and a file in one of
  them.
\<close>

section \<open>A new file system, and one with two directories and a file\<close>

lemma meta_new_ns:
  "ns_of (meta_new now uid gid) = \<lparr>ns_nodes = [0 \<mapsto> SDir 0 2 0 None], ns_ents = Map.empty, ns_orph = {}\<rparr>"
  by (auto simp: ns_of_def meta_new_def root_directory_def)

lemma fs_new_inv: "fs_inv (fs_new now uid gid mb)" "emb_fresh (st_meta (fs_new now uid gid mb))"
proof -
  have "ns_inv (ns_of (meta_new now uid gid))"
    unfolding meta_new_ns
    by (rule ns_invI) (auto simp: live_dir_def dir_ok_def kids_def subs_def intro: rooted.root split: if_splits)
  then show "fs_inv (fs_new now uid gid mb)"
    by (simp add: fs_inv_def fs_new_def meta_inv_def idx_inv_def emb_inv_def)
      (simp add: meta_new_def cookie_of_def)
  show "emb_fresh (st_meta (fs_new now uid gid mb))"
    by (simp add: emb_fresh_def fs_new_def meta_new_def)
qed

lemma roomy_example: "fs_inv example_fs" "roomy example_fs"
  by (simp_all add: example_fs_def fs_new_inv) (simp add: roomy_def fs_new_def meta_new_def cookie_of_def COOKIE_FIRST_ENTRY_def)

definition example_env :: op_env where
  "example_env =
     \<lparr>oe_pre = example_fs, oe_pre_faults = (\<lambda>_. None), oe_faults = (\<lambda>_. None), oe_scan_ok = True,
      oe_fence = None, oe_read_only = False, oe_clock = (\<lambda>_. (7, 0)), oe_protected = (\<lambda>_. False),
      oe_worker = example_worker\<rparr>"

definition example_op :: op_id where
  "example_op = 1 # replicate 15 0"

definition tree_attrs :: "bytes option \<Rightarrow> u32 \<Rightarrow> attrs" where
  "tree_attrs n l =
     \<lparr>i_mtime = 100, i_mtime_nsec = 0, i_ctime = 100, i_ctime_nsec = 0, i_atime = 100, i_atime_nsec = 0,
      i_mode = 0x1FF, i_uid = 0, i_gid = 0, i_name = n, i_nlink = l\<rparr>"

definition tree_inode :: "inode_id \<Rightarrow> inode option" where
  "tree_inode x =
     (if x = 0 then Some (Directory \<lparr>d_attrs = tree_attrs None 4, d_entry_count = 2, d_parent = 0\<rparr>)
      else if x = 1 then Some (Directory \<lparr>d_attrs = tree_attrs (Some [0x61]) 2, d_entry_count = 1, d_parent = 0\<rparr>)
      else if x = 2 then Some (Directory \<lparr>d_attrs = tree_attrs (Some [0x62]) 2, d_entry_count = 0, d_parent = 0\<rparr>)
      else if x = 3 then Some (File \<lparr>f_attrs = tree_attrs (Some [0x66]) 1, f_size = 0, f_parent = Some 1\<rparr>)
      else None)"

definition example_tree :: fs where
  "example_tree = example_fs
     \<lparr>st_meta := \<lparr>m_inodes = tree_inode,
        m_entries = [(0, [0x61]) \<mapsto> (1, 3), (0, [0x62]) \<mapsto> (2, 4), (1, [0x66]) \<mapsto> (3, 3)],
        m_scans = [(0, 3) \<mapsto> ([0x61], Reference 1), (0, 4) \<mapsto> ([0x62], Reference 2), (1, 3) \<mapsto> ([0x66], Reference 3)],
        m_cookies = [0 \<mapsto> 5, 1 \<mapsto> 4], m_orphans = {}, m_tombs = Map.empty, m_extents = Map.empty\<rparr>,
      st_next_id := 4\<rparr>"

lemma example_tree_ns:
  "ns_of (st_meta example_tree) =
     \<lparr>ns_nodes = [0 \<mapsto> SDir 2 4 0 None, 1 \<mapsto> SDir 1 2 0 (Some [0x61]), 2 \<mapsto> SDir 0 2 0 (Some [0x62]),
         3 \<mapsto> SLeaf 1 (Some 1) (Some [0x66])],
      ns_ents = [(0, [0x61]) \<mapsto> 1, (0, [0x62]) \<mapsto> 2, (1, [0x66]) \<mapsto> 3], ns_orph = {}\<rparr>"
  by (auto simp: ns_of_def example_tree_def tree_inode_def tree_attrs_def fun_eq_iff inode_nlink_def inode_name_def)

lemma example_tree_sets:
  "kids (ns_of (st_meta example_tree)) 0 = {[0x61], [0x62]}" "kids (ns_of (st_meta example_tree)) 1 = {[0x66]}"
  "kids (ns_of (st_meta example_tree)) 2 = {}"
  "subs (ns_of (st_meta example_tree)) 0 = {[0x61], [0x62]}" "subs (ns_of (st_meta example_tree)) 1 = {}"
  "subs (ns_of (st_meta example_tree)) 2 = {}"
  "refs (ns_of (st_meta example_tree)) 1 = {(0, [0x61])}" "refs (ns_of (st_meta example_tree)) 2 = {(0, [0x62])}"
  "refs (ns_of (st_meta example_tree)) 3 = {(1, [0x66])}"
  unfolding example_tree_ns by (auto simp: kids_def subs_def refs_def is_dir_def split: if_splits)

lemma example_tree_rows: "ns_inv (ns_of (st_meta example_tree))"
proof (rule ns_invI)
  note N = example_tree_ns
  show "finite (dom (ns_ents (ns_of (st_meta example_tree))))"
    unfolding N by simp
  show "live_dir (ns_of (st_meta example_tree)) 0"
    unfolding N by (simp add: live_dir_def)
  show "ns_ents (ns_of (st_meta example_tree)) (d, n) = Some x \<Longrightarrow>
      live_dir (ns_of (st_meta example_tree)) d \<and> x \<in> dom (ns_nodes (ns_of (st_meta example_tree))) \<and> x \<noteq> 0" for d n x
    unfolding N by (auto simp: live_dir_def split: if_splits)
  show "ns_nodes (ns_of (st_meta example_tree)) d = Some (SDir c l p nm) \<Longrightarrow>
      dir_ok (ns_of (st_meta example_tree)) d c l p nm" for d c l p nm
    by (subst (asm) N) (auto simp: dir_ok_def example_tree_sets split: if_splits)
  show "ns_nodes (ns_of (st_meta example_tree)) x = Some (SLeaf l p nm) \<Longrightarrow>
      leaf_ok (ns_of (st_meta example_tree)) x l p nm" for x l p nm
    by (subst (asm) N) (auto simp: leaf_ok_def example_tree_sets split: if_splits)
  show "x \<in> ns_orph (ns_of (st_meta example_tree)) \<longleftrightarrow>
      (\<exists>k. ns_nodes (ns_of (st_meta example_tree)) x = Some k \<and> sk_links k = 0)" for x
    unfolding N by (auto split: if_splits)
  show "live_dir (ns_of (st_meta example_tree)) d \<Longrightarrow> rooted (ns_of (st_meta example_tree)) d" for d
    unfolding N by (auto simp: live_dir_def split: if_splits intro: rooted.intros)
qed

lemma example_tree_inv: "fs_inv example_tree" "roomy example_tree"
proof -
  have "idx_inv (st_meta example_tree)"
    unfolding idx_inv_def by (auto simp: example_tree_def cookie_of_def COOKIE_FIRST_ENTRY_def split: if_splits)
  moreover have "emb_inv (st_meta example_tree)"
    by (auto simp: emb_inv_def example_tree_def split: if_splits)
  ultimately show "fs_inv example_tree"
    using example_tree_rows by (simp add: fs_inv_def meta_inv_def) (simp add: example_tree_def tree_inode_def)
  show "roomy example_tree"
    by (auto simp: roomy_def example_tree_def example_fs_def fs_new_def cookie_of_def COOKIE_FIRST_ENTRY_def)
qed

end
