(* ===== verification/Op_Create.thy ===== *)
theory Op_Create
  imports Example_State
begin

text \<open>
  The operations that add a new inode to a directory: \<open>create\<close>, \<open>mkdir\<close>, \<open>mknod\<close>
  (\<open>fs/ops/create.rs\<close>) and \<open>symlink\<close> (\<open>fs/ops/link.rs\<close>). Each reads the parent and the name
  under the parent's lock, stages the new inode, its directory entry and the changed parent in
  one transaction together with the result to replay, and commits it.
\<close>

section \<open>Shared steps\<close>

text \<open>Reading and checking the parent directory.\<close>

definition open_parent :: "op_env \<Rightarrow> credentials \<Rightarrow> inode_id \<Rightarrow> bytes \<Rightarrow> directory_inode fsm" where
  "open_parent env creds dirid name =
     sbind (s_inode_get env dirid) (\<lambda>dir_inode.
     sbind (sread (\<lambda>s. dir_exists (oe_faults env) (st_meta s) dirid name)) (\<lambda>exists.
     sbind (slift (check_access dir_inode creds Write)) (\<lambda>_.
     sbind (slift (check_access dir_inode creds Execute)) (\<lambda>_.
     case dir_inode of
       Directory dir \<Rightarrow>
         sbind (slift (check (i_nlink (d_attrs dir) \<noteq> 0) StaleHandle)) (\<lambda>_.
         sbind (slift (check (\<not> exists) Exists)) (\<lambda>_.
         sret dir))
     | _ \<Rightarrow> sfail NotDirectory))))"

definition new_attrs :: "u64 \<times> u32 \<Rightarrow> u32 \<Rightarrow> u32 \<Rightarrow> u32 \<Rightarrow> bytes \<Rightarrow> u32 \<Rightarrow> attrs" where
  "new_attrs now mode uid gid name nlink =
     \<lparr>i_mtime = fst now, i_mtime_nsec = snd now, i_ctime = fst now, i_ctime_nsec = snd now,
      i_atime = fst now, i_atime_nsec = snd now, i_mode = mode, i_uid = uid, i_gid = gid,
      i_name = Some name, i_nlink = nlink\<rparr>"

definition set_or :: "'a \<Rightarrow> 'a set_field \<Rightarrow> 'a" where
  "set_or d v = (case v of Set x \<Rightarrow> x | NoChange \<Rightarrow> d)"

definition time_or :: "u64 \<times> u32 \<Rightarrow> set_time \<Rightarrow> u64 \<times> u32" where
  "time_or now v =
     (case v of
        SetToClientTime ts \<Rightarrow> (t_seconds ts, t_nanoseconds ts)
      | SetToServerTime \<Rightarrow> now
      | TimeNoChange \<Rightarrow> now)"

text \<open>Modification and change time of a directory whose entries change.\<close>

definition touch_attrs :: "u64 \<times> u32 \<Rightarrow> attrs \<Rightarrow> attrs" where
  "touch_attrs now a =
     a\<lparr>i_mtime := fst now, i_mtime_nsec := snd now, i_ctime := fst now, i_ctime_nsec := snd now\<rparr>"

definition touch_dir :: "u64 \<times> u32 \<Rightarrow> directory_inode \<Rightarrow> directory_inode" where
  "touch_dir now d = d\<lparr>d_attrs := touch_attrs now (d_attrs d)\<rparr>"

text \<open>One entry more; a subdirectory adds a link.\<close>

definition grow_dir :: "bool \<Rightarrow> directory_inode \<Rightarrow> directory_inode" where
  "grow_dir new_subdir d =
     (let d = d\<lparr>d_entry_count := d_entry_count d + 1\<rparr>
      in if new_subdir then d\<lparr>d_attrs := (d_attrs d)\<lparr>i_nlink := i_nlink (d_attrs d) + 1\<rparr>\<rparr> else d)"

text \<open>Saving a directory and refreshing the copy of it in its own entry.\<close>

definition save_directory :: "faults \<Rightarrow> meta \<Rightarrow> inode_id \<Rightarrow> directory_inode \<Rightarrow> txn \<Rightarrow> txn" where
  "save_directory flt m dirid dir t =
     (let t = inode_save dirid (Directory dir) t in
      case i_name (d_attrs dir) of
        None \<Rightarrow> t
      | Some n \<Rightarrow> stage_ok (update_inode_in_entry flt m (d_parent dir) n dirid (Directory dir) t) t)"

definition stage_child ::
  "faults \<Rightarrow> meta \<Rightarrow> inode_id \<Rightarrow> directory_inode \<Rightarrow> bytes \<Rightarrow> inode_id \<Rightarrow> inode \<Rightarrow> u64 \<Rightarrow> op_id \<Rightarrow>
   dedup_result \<Rightarrow> txn \<Rightarrow> txn" where
  "stage_child flt m dirid dir name new_id i cookie op result t =
     (let t = set_dedup_result op result t;
          t = inode_save new_id i t;
          t = dir_add dirid name new_id cookie (Some i) t;
          t = save_directory flt m dirid dir t
      in add_inode_count_delta new_id 1 t)"

definition commit_child ::
  "op_env \<Rightarrow> txn \<Rightarrow> metric list \<Rightarrow> inode_id \<times> file_attributes \<Rightarrow> (inode_id \<times> file_attributes) fsm" where
  "commit_child env t metrics result =
     sbind (s_commit env t NoSettlement) (\<lambda>_.
     sbind (s_bump metrics) (\<lambda>_.
     sret result))"

text \<open>The transaction of a new child, from the fresh id to the commit.\<close>

definition add_child ::
  "op_env \<Rightarrow> inode_id \<Rightarrow> directory_inode \<Rightarrow> bytes \<Rightarrow> inode_id \<Rightarrow> inode \<Rightarrow> op_id \<Rightarrow>
   (inode_id \<Rightarrow> file_attributes \<Rightarrow> dedup_result) \<Rightarrow> metric list \<Rightarrow> (inode_id \<times> file_attributes) fsm" where
  "add_child env dirid dir name new_id i op mk metrics =
     sbind (slift (new_transaction env)) (\<lambda>t.
     sbind (sread (\<lambda>s. allocate_cookie (oe_faults env) (st_meta s) dirid t)) (\<lambda>(cookie, t).
     let attrs = file_attributes_of i new_id in
     sbind (slift (check (\<not> (is_directory i \<and> i_nlink (d_attrs dir) = - 1)) NoSpace)) (\<lambda>_.
     let dir = touch_dir (oe_clock env 0) (grow_dir (is_directory i) dir) in
     sbind (sread (\<lambda>s. Inr (stage_child (oe_faults env) (st_meta s) dirid dir name new_id i cookie op (mk new_id attrs) t))) (\<lambda>t.
     commit_child env t metrics (new_id, attrs)))))"

section \<open>create\<close>

definition create_idempotent ::
  "op_env \<Rightarrow> credentials \<Rightarrow> inode_id \<Rightarrow> bytes \<Rightarrow> set_attributes \<Rightarrow> op_id \<Rightarrow>
   (inode_id \<times> file_attributes) fsm" where
  "create_idempotent env creds dirid name attr op =
     unless_replayed_pre env op into_create (
     sbind (slift (validate_filename name)) (\<lambda>_.
     sbind (slift (fence_metadata env)) (\<lambda>_.
     unless_replayed op into_create (
     sbind (open_parent env creds dirid name) (\<lambda>dir.
     sbind s_allocate (\<lambda>file_id.
     let final_mode = (case sa_mode attr of Set m \<Rightarrow> validate_mode m | NoChange \<Rightarrow> 0x1B6);
         file_inode = File \<lparr>f_attrs = new_attrs (oe_clock env 0) final_mode
             (set_or (cr_uid creds) (sa_uid attr)) (set_or (cr_gid creds) (sa_gid attr)) name 1,
           f_size = 0, f_parent = Some dirid\<rparr>
     in add_child env dirid dir name file_id file_inode op DrCreate
          [FilesCreated, WriteOperations, TotalOperations]))))))"

definition create ::
  "op_env \<Rightarrow> credentials \<Rightarrow> inode_id \<Rightarrow> bytes \<Rightarrow> set_attributes \<Rightarrow> (inode_id \<times> file_attributes) fsm" where
  "create env creds dirid name attr = create_idempotent env creds dirid name attr no_op_id"

definition create_exclusive :: "op_env \<Rightarrow> auth_context \<Rightarrow> inode_id \<Rightarrow> bytes \<Rightarrow> inode_id fsm" where
  "create_exclusive env auth dirid filename =
     sbind (create env (credentials_from_auth_context auth) dirid filename default_set_attributes)
       (\<lambda>(ino, _). sret ino)"

section \<open>mkdir\<close>

definition mkdir_idempotent ::
  "op_env \<Rightarrow> credentials \<Rightarrow> inode_id \<Rightarrow> bytes \<Rightarrow> set_attributes \<Rightarrow> op_id \<Rightarrow>
   (inode_id \<times> file_attributes) fsm" where
  "mkdir_idempotent env creds dirid name attr op =
     unless_replayed_pre env op into_mkdir (
     sbind (slift (validate_filename name)) (\<lambda>_.
     sbind (slift (fence_metadata env)) (\<lambda>_.
     unless_replayed op into_mkdir (
     sbind (open_parent env creds dirid name) (\<lambda>dir.
     sbind s_allocate (\<lambda>new_dir_id.
     let now = oe_clock env 0;
         new_mode = set_or 0x1FF (sa_mode attr);
         parent_mode = i_mode (d_attrs dir);
         new_mode = (if parent_mode AND 0x400 \<noteq> 0 then new_mode OR 0x400 else new_mode);
         new_uid = set_or (cr_uid creds) (sa_uid attr);
         new_gid = set_or (if parent_mode AND 0x400 \<noteq> 0 then i_gid (d_attrs dir) else cr_gid creds)
           (sa_gid attr);
         atime = time_or now (sa_atime attr);
         mtime = time_or now (sa_mtime attr);
         attrs = (new_attrs now new_mode new_uid new_gid name 2)\<lparr>
           i_mtime := fst mtime, i_mtime_nsec := snd mtime, i_atime := fst atime, i_atime_nsec := snd atime\<rparr>;
         new_dir_inode = \<lparr>d_attrs = attrs, d_entry_count = 0, d_parent = dirid\<rparr>
     in add_child env dirid dir name new_dir_id (Directory new_dir_inode) op DrMkdir
          [DirectoriesCreated, WriteOperations, TotalOperations]))))))"

definition mkdir ::
  "op_env \<Rightarrow> credentials \<Rightarrow> inode_id \<Rightarrow> bytes \<Rightarrow> set_attributes \<Rightarrow> (inode_id \<times> file_attributes) fsm" where
  "mkdir env creds dirid name attr = mkdir_idempotent env creds dirid name attr no_op_id"

section \<open>mknod\<close>

fun special_of :: "file_type \<Rightarrow> special_inode \<Rightarrow> inode fs_result" where
  "special_of FtFifo p = Inr (Fifo p)"
| "special_of FtCharDevice p = Inr (CharDevice p)"
| "special_of FtBlockDevice p = Inr (BlockDevice p)"
| "special_of FtSocket p = Inr (Socket p)"
| "special_of _ _ = Inl InvalidArgument"

definition mknod_idempotent ::
  "op_env \<Rightarrow> credentials \<Rightarrow> inode_id \<Rightarrow> bytes \<Rightarrow> file_type \<Rightarrow> set_attributes \<Rightarrow> (u32 \<times> u32) option \<Rightarrow>
   op_id \<Rightarrow> (inode_id \<times> file_attributes) fsm" where
  "mknod_idempotent env creds dirid name ftype attr rdev op =
     unless_replayed_pre env op into_mknod (
     sbind (slift (validate_filename name)) (\<lambda>_.
     sbind (slift (check (case rdev of
         Some (major, minor) \<Rightarrow> \<not> (major > MAX_DEVICE_MAJOR \<or> minor > MAX_DEVICE_MINOR)
       | None \<Rightarrow> True) InvalidArgument)) (\<lambda>_.
     sbind (slift (fence_metadata env)) (\<lambda>_.
     unless_replayed op into_mknod (
     sbind (open_parent env creds dirid name) (\<lambda>dir.
     sbind s_allocate (\<lambda>special_id.
     let final_mode = (case sa_mode attr of Set m \<Rightarrow> validate_mode m | NoChange \<Rightarrow> 0x1B6);
         special_inode = \<lparr>p_attrs = new_attrs (oe_clock env 0) final_mode
             (set_or (cr_uid creds) (sa_uid attr)) (set_or (cr_gid creds) (sa_gid attr)) name 1,
           p_parent = Some dirid, p_rdev = rdev\<rparr>
     in
     sbind (slift (special_of ftype special_inode)) (\<lambda>i.
     add_child env dirid dir name special_id i op DrMknod
       [FilesCreated, WriteOperations, TotalOperations]))))))))"

definition mknod ::
  "op_env \<Rightarrow> credentials \<Rightarrow> inode_id \<Rightarrow> bytes \<Rightarrow> file_type \<Rightarrow> set_attributes \<Rightarrow> (u32 \<times> u32) option \<Rightarrow>
   (inode_id \<times> file_attributes) fsm" where
  "mknod env creds dirid name ftype attr rdev =
     mknod_idempotent env creds dirid name ftype attr rdev no_op_id"

section \<open>symlink\<close>

definition symlink_idempotent ::
  "op_env \<Rightarrow> credentials \<Rightarrow> inode_id \<Rightarrow> bytes \<Rightarrow> bytes \<Rightarrow> set_attributes \<Rightarrow> op_id \<Rightarrow>
   (inode_id \<times> file_attributes) fsm" where
  "symlink_idempotent env creds dirid linkname target attr op =
     unless_replayed_pre env op into_symlink (
     sbind (slift (validate_filename linkname)) (\<lambda>_.
     sbind (slift (fence_metadata env)) (\<lambda>_.
     unless_replayed op into_symlink (
     sbind (open_parent env creds dirid linkname) (\<lambda>dir.
     sbind s_allocate (\<lambda>new_id.
     let mode = (case sa_mode attr of Set m \<Rightarrow> m OR 0xA000 | NoChange \<Rightarrow> 0xA1FF);
         symlink_inode = Symlink \<lparr>s_attrs = new_attrs (oe_clock env 0) mode
             (set_or (cr_uid creds) (sa_uid attr)) (set_or (cr_gid creds) (sa_gid attr)) linkname 1,
           s_target = target, s_parent = Some dirid\<rparr>
     in add_child env dirid dir linkname new_id symlink_inode op DrSymlink
          [LinksCreated, WriteOperations, TotalOperations]))))))"

definition symlink ::
  "op_env \<Rightarrow> credentials \<Rightarrow> inode_id \<Rightarrow> bytes \<Rightarrow> bytes \<Rightarrow> set_attributes \<Rightarrow>
   (inode_id \<times> file_attributes) fsm" where
  "symlink env creds dirid linkname target attr =
     symlink_idempotent env creds dirid linkname target attr no_op_id"

section \<open>Lemmas\<close>

lemma save_directory_tx [simp]:
  "tx_ops (save_directory flt m d D t) = tx_ops t @ resave_ops flt m d (Directory D)"
  "tx_dedup_entry (save_directory flt m d D t) = tx_dedup_entry t"
  by (auto simp: save_directory_def resave_ops_def place_directory stage_ok_def Let_def
      update_inode_in_entry_def try_bind_def split: option.split sum.split)

lemma touch_dir_simps [simp]:
  "d_entry_count (touch_dir now D) = d_entry_count D"
  "d_parent (touch_dir now D) = d_parent D"
  "i_nlink (d_attrs (touch_dir now D)) = i_nlink (d_attrs D)"
  "i_name (d_attrs (touch_dir now D)) = i_name (d_attrs D)"
  by (simp_all add: touch_dir_def touch_attrs_def)

lemma open_parentI:
  assumes err: "\<And>e. Q (Inl e) s"
    and ok: "\<And>D. m_inodes (st_meta s) d = Some (Directory D) \<Longrightarrow> i_nlink (d_attrs D) \<noteq> 0 \<Longrightarrow>
      m_entries (st_meta s) (d, n) = None \<Longrightarrow> check_access (Directory D) creds Write = Inr () \<Longrightarrow>
      check_access (Directory D) creds Execute = Inr () \<Longrightarrow> holds (k D) Q s"
  shows "holds (sbind (open_parent env creds d n) k) Q s"
  unfolding open_parent_def s_inode_get_def sbind_assoc
  by (intro holds_readI holds_liftI holds_directory_bindI err; simp only: sbind_assoc)
    (auto intro!: holds_checkI err ok dest: inode_get_Inr dir_exists_False)

lemma grow_dir_place [simp]: "place (Directory (grow_dir b D)) = place (Directory D)"
  by (simp add: grow_dir_def place_directory Let_def)

lemma touch_dir_place [simp]: "place (Directory (touch_dir now D)) = place (Directory D)"
  by (simp add: place_directory)

lemma touch_dir_skel [simp]: "skel_of (Directory (touch_dir now D)) = skel_of (Directory D)"
  by simp

lemma grow_dir_skel:
  assumes "meta_inv m" "m_inodes m d = Some (Directory D)" "\<not> (b \<and> i_nlink (d_attrs D) = - 1)"
  shows "skel_of (Directory (grow_dir b D)) = grow b (skel_of (Directory D))"
  using dir_count(2) [OF assms(1,2)] assms(3) by (auto simp: grow_dir_def Let_def unat_Suc_word)

text \<open>The transaction of a new child, applied.\<close>

lemma stage_child_applied:
  fixes env :: op_env and s t :: fs
  defines "m \<equiv> st_meta s"
  assumes inv: "meta_inv m" and D: "m_inodes m d = Some (Directory D)" and live: "i_nlink (d_attrs D) \<noteq> 0"
    and free: "m_entries m (d, n) = None" and x: "m_inodes m x = None" and wrap: "cookie_of m d \<noteq> u64_max"
    and i: "place i = (Some d, Some n)"
      "skel_of i = SDir 0 2 d (Some n) \<or> skel_of i = SLeaf 1 (Some d) (Some n)"
    and lim: "\<not> (is_directory i \<and> i_nlink (d_attrs D) = - 1)"
    and tx: "tx = stage_child (oe_faults env) m d (touch_dir now (grow_dir (is_directory i) D)) n x i (cookie_of m d) op
      res (stage_cookie_increment d (cookie_of m d) transaction_new)"
    and t: "st_meta t = apply_ops (tx_ops tx) m" "st_ledger t = ledger_add (txn_entries tx) (st_ledger s)"
  shows "m_inodes (st_meta t) x = Some i" "ns_step env (ns_add d n x (skel_of i)) op res s t"
proof -
  define u where "u = apply_ops [PutCookie d (cookie_of m d + 1), PutInode x i,
    PutEntry d n x (cookie_of m d), PutScan d (cookie_of m d) n (WithInode x i)] m"
  let ?D = "touch_dir now (grow_dir (is_directory i) D)"
  have tm: "st_meta t = apply_ops (resave_ops (oe_faults env) m d (Directory ?D)) u"
    by (simp add: t(1) tx stage_child_def Let_def u_def)
  have sk: "skel_of (Directory ?D) = grow (is_SDir (skel_of i)) (skel_of (Directory D))"
    using grow_dir_skel [OF inv D lim] by (simp only: touch_dir_skel skel_of_directory)
  have "place (Directory ?D) = place (Directory D)"
    by simp
  note add = meta_add_child [OF inv D live free x wrap i _ _ _ _ _ this sk, of u "oe_faults env", folded tm]
  have "x \<noteq> d"
    using D x by auto
  then show "m_inodes (st_meta t) x = Some i"
    by (simp add: tm resave_rows u_def)
  have "ns_of (st_meta t) = ns_add d n x (skel_of i) (ns_of m)" "meta_inv (st_meta t)"
    "(\<And>p q. oe_faults env (DirEntryKey p q) = None) \<Longrightarrow> emb_fresh m \<Longrightarrow> emb_fresh (st_meta t)"
    by (rule add; simp add: u_def)+
  then show "ns_step env (ns_add d n x (skel_of i)) op res s t"
    by (simp add: ns_step_def m_def reads_entries_def t(2) tx stage_child_def Let_def txn_entries_set)
qed

lemma add_childI:
  fixes env :: op_env and s s' :: fs
  defines "m \<equiv> st_meta s"
  assumes inv: "meta_inv m" and D: "m_inodes m d = Some (Directory D)" and live: "i_nlink (d_attrs D) \<noteq> 0"
    and free: "m_entries m (d, n) = None" and x: "m_inodes m x = None" and wrap: "cookie_of m d \<noteq> u64_max"
    and i: "place i = (Some d, Some n)"
      "skel_of i = SDir 0 2 d (Some n) \<or> skel_of i = SLeaf 1 (Some d) (Some n)"
    and s': "quiet 1 s s'" and new: "dedup_get (st_ledger s) op = None"
  shows "holds (add_child env d D n x i op mk ks)
    (op_result env op ex (\<lambda>y t. y = (x, file_attributes_of i x) \<and> m_inodes (st_meta t) x = Some i
       \<and> st_next_id t \<in> {st_next_id s', st_next_id s' + 1}
       \<and> ns_step env (ns_add d n x (skel_of i)) op (mk x (file_attributes_of i x)) s t) s) s'"
proof -
  have err: "op_result env op ex eff s (Inl e) s'" for e and eff :: "inode_id \<times> file_attributes \<Rightarrow> fs \<Rightarrow> bool"
    by (rule op_result_error [OF s']) simp
  have same: "st_meta s' = m"
    using s' by (simp add: quiet_def m_def)
  note applied = stage_child_applied [OF inv [unfolded m_def] D [unfolded m_def] live free [unfolded m_def]
    x [unfolded m_def] wrap [unfolded m_def] i]
  show ?thesis
    unfolding add_child_def Let_def commit_child_def
  proof (intro holds_liftI holds_readI holds_pairI holds_checkI err)
    fix t0 p c t u tx
    assume "new_transaction env = Inr t0" "allocate_cookie (oe_faults env) (st_meta s') d t0 = Inr p" "p = (c, t)"
      and lim: "check (\<not> (is_directory i \<and> i_nlink (d_attrs D) = - 1)) NoSpace = Inr u"
      and "Inr (stage_child (oe_faults env) (st_meta s') d (touch_dir (oe_clock env 0) (grow_dir (is_directory i) D))
        n x i c op (mk x (file_attributes_of i x)) t) = Inr tx"
    then have tx: "tx = stage_child (oe_faults env) (st_meta s) d (touch_dir (oe_clock env 0) (grow_dir (is_directory i) D))
      n x i (cookie_of (st_meta s) d) op (mk x (file_attributes_of i x))
      (stage_cookie_increment d (cookie_of (st_meta s) d) transaction_new)"
      by (auto simp: allocate_cookie_Inr same m_def dest: new_transaction_Inr)
    have lim: "\<not> (is_directory i \<and> i_nlink (d_attrs D) = - 1)"
      using lim by (simp add: check_def split: if_splits)
    show "holds (sbind (s_commit env tx NoSettlement) (\<lambda>_. sbind (s_bump ks) (\<lambda>_. sret (x, file_attributes_of i x))))
       (op_result env op ex (\<lambda>y t. y = (x, file_attributes_of i x) \<and> m_inodes (st_meta t) x = Some i
       \<and> st_next_id t \<in> {st_next_id s', st_next_id s' + 1}
         \<and> ns_step env (ns_add d n x (skel_of i)) op (mk x (file_attributes_of i x)) s t) s) s'"
      by (intro commit_result_idI [OF s'] conjI refl applied [OF lim tx]) (simp_all add: new)
  qed
qed

lemma holds_allocate [simp]:
  "holds (sbind s_allocate k) Q s = holds (k (st_next_id s)) Q (s\<lparr>st_next_id := st_next_id s + 1\<rparr>)"
  by (simp add: s_allocate_def allocate_def holds_bind) (simp add: holds_def s_allocate_def allocate_def)

lemma fs_inv_fresh: "fs_inv s \<Longrightarrow> m_inodes (st_meta s) (st_next_id s) = None"
  unfolding fs_inv_def by (metis order_less_irrefl)

lemma new_attrs_simps [simp]:
  "i_name (new_attrs now mode uid gid n l) = Some n" "i_nlink (new_attrs now mode uid gid n l) = l"
  by (simp_all add: new_attrs_def)

text \<open>A new child was made: the caller may write to the directory, the name was free and valid, and
  the answer describes the stored inode.\<close>

definition child_made ::
  "op_env \<Rightarrow> credentials \<Rightarrow> inode_id \<Rightarrow> bytes \<Rightarrow> op_id \<Rightarrow> (inode_id \<Rightarrow> file_attributes \<Rightarrow> dedup_result) \<Rightarrow>
   (inode \<Rightarrow> bool) \<Rightarrow> fs \<Rightarrow> inode_id \<times> file_attributes \<Rightarrow> fs \<Rightarrow> bool" where
  "child_made env creds d n op mk kind s y t \<longleftrightarrow>
     (\<exists>i D x a. y = (x, a) \<and> x = st_next_id s \<and> x < st_next_id t \<and> a = file_attributes_of i x \<and> kind i
        \<and> validate_filename n = Inr ()
        \<and> m_inodes (st_meta s) d = Some (Directory D)
        \<and> check_access (Directory D) creds Write = Inr () \<and> check_access (Directory D) creds Execute = Inr ()
        \<and> m_inodes (st_meta t) x = Some i
        \<and> skel_of i = (if is_directory i then SDir 0 2 d (Some n) else SLeaf 1 (Some d) (Some n))
        \<and> ns_step env (ns_add d n x (skel_of i)) op (mk x a) s t)"

lemma next_id_less: "roomy s \<Longrightarrow> st_next_id s < st_next_id s + 1 \<and> st_next_id s < st_next_id s + 1 + 1"
  unfolding roomy_def word_less_nat_alt by (simp add: unat_word_ariths)

lemma make_childI:
  assumes inv: "fs_inv s" "roomy s" and name: "validate_filename n = Inr ()"
    and new: "dedup_get (st_ledger s) op = None"
    and i: "\<And>D x. kind (f D x) \<and> place (f D x) = (Some d, Some n)
      \<and> skel_of (f D x) = (if is_directory (f D x) then SDir 0 2 d (Some n) else SLeaf 1 (Some d) (Some n))"
  shows "holds (sbind (open_parent env creds d n) (\<lambda>D. sbind s_allocate (\<lambda>x. add_child env d D n x (f D x) op mk ks)))
    (op_result env op ex (child_made env creds d n op mk kind s) s) s"
proof (rule open_parentI)
  fix D
  assume D: "m_inodes (st_meta s) d = Some (Directory D)" "i_nlink (d_attrs D) \<noteq> 0" "m_entries (st_meta s) (d, n) = None"
    and acc: "check_access (Directory D) creds Write = Inr ()" "check_access (Directory D) creds Execute = Inr ()"
  let ?x = "st_next_id s" let ?i = "f D ?x"
  have q: "quiet 1 s (s\<lparr>st_next_id := ?x + 1\<rparr>)"
    by (simp add: quiet_def)
  have "holds (add_child env d D n ?x ?i op mk ks)
     (op_result env op ex (\<lambda>y t. y = (?x, file_attributes_of ?i ?x) \<and> m_inodes (st_meta t) ?x = Some ?i
       \<and> st_next_id t \<in> {?x + 1, ?x + 1 + 1}
       \<and> ns_step env (ns_add d n ?x (skel_of ?i)) op (mk ?x (file_attributes_of ?i ?x)) s t) s) (s\<lparr>st_next_id := ?x + 1\<rparr>)"
    using add_childI [OF _ D(1,2,3) fs_inv_fresh [OF inv(1)] _ _ _ q new, of ?i] inv i [of D ?x]
    by (simp add: fs_inv_def roomy_def)
  moreover have "?x < st_next_id t" if "st_next_id t \<in> {?x + 1, ?x + 1 + 1}" for t
    using that next_id_less [OF inv(2)] by auto
  ultimately show "holds (sbind s_allocate (\<lambda>x. add_child env d D n x (f D x) op mk ks))
     (op_result env op ex (child_made env creds d n op mk kind s) s) s"
    unfolding holds_allocate
    by (elim holds_mono op_result_mono) (use i [of D ?x] name D acc in \<open>auto simp: child_made_def\<close>)
qed simp

lemma create_result:
  assumes "fs_inv s" "roomy s"
  shows "holds (create_idempotent env creds d n attr op) (op_result env op into_create
    (child_made env creds d n op DrCreate (\<lambda>i. \<exists>f. i = File f \<and> f_size f = 0) s) s) s"
  unfolding create_idempotent_def Let_def
  by (intro replayed_preI holds_liftI replayedI make_childI assms)
    (simp_all add: place_def inode_name_def inode_nlink_def)

lemma mkdir_result:
  assumes "fs_inv s" "roomy s"
  shows "holds (mkdir_idempotent env creds d n attr op) (op_result env op into_mkdir
    (child_made env creds d n op DrMkdir is_directory s) s) s"
  unfolding mkdir_idempotent_def Let_def
  by (intro replayed_preI holds_liftI replayedI make_childI assms)
    (simp_all add: place_def inode_name_def inode_nlink_def)

lemma symlink_result:
  assumes "fs_inv s" "roomy s"
  shows "holds (symlink_idempotent env creds d n tgt attr op) (op_result env op into_symlink
    (child_made env creds d n op DrSymlink (\<lambda>i. \<exists>l. i = Symlink l \<and> s_target l = tgt) s) s) s"
  unfolding symlink_idempotent_def Let_def
  by (intro replayed_preI holds_liftI replayedI make_childI assms)
    (simp_all add: place_def inode_name_def inode_nlink_def)

fun special_kind :: "file_type \<Rightarrow> inode \<Rightarrow> bool" where
  "special_kind FtFifo (Fifo _) = True"
| "special_kind FtCharDevice (CharDevice _) = True"
| "special_kind FtBlockDevice (BlockDevice _) = True"
| "special_kind FtSocket (Socket _) = True"
| "special_kind _ _ = False"

lemma special_ofI:
  assumes inv: "fs_inv s" "roomy s" and name: "validate_filename n = Inr ()"
    and new: "dedup_get (st_ledger s) op = None"
    and p: "\<And>D x. p_parent (p D x) = Some d \<and> i_name (p_attrs (p D x)) = Some n \<and> i_nlink (p_attrs (p D x)) = 1"
  shows "holds (sbind (open_parent env creds d n) (\<lambda>D. sbind s_allocate (\<lambda>x.
      sbind (slift (special_of ftype (p D x))) (\<lambda>i. add_child env d D n x i op mk ks))))
    (op_result env op ex (child_made env creds d n op mk (special_kind ftype) s) s) s"
proof (cases "\<exists>q. special_of ftype q = Inl InvalidArgument")
  case True
  then have "special_of ftype q = Inl InvalidArgument" for q
    by (cases ftype) simp_all
  then show ?thesis
    by (simp add: sbind_slift) (intro open_parentI; simp add: op_result_error [where k = 1] quiet_def)
next
  case False
  then obtain K where K: "\<And>q. special_of ftype q = Inr (K q)" "\<And>q. special_kind ftype (K q)"
    "\<And>q. inode_attrs (K q) = p_attrs q \<and> inode_parent (K q) = p_parent q \<and> \<not> is_directory (K q)"
    by (cases ftype) auto
  show ?thesis
    unfolding K(1) sbind_slift
    by (intro make_childI inv name new)
      (use K p in \<open>simp add: place_def inode_name_def inode_nlink_def skel_of_leaf\<close>)
qed

lemma mknod_result:
  assumes "fs_inv s" "roomy s"
  shows "holds (mknod_idempotent env creds d n ftype attr rdev op) (op_result env op into_mknod
    (child_made env creds d n op DrMknod (special_kind ftype) s) s) s"
  unfolding mknod_idempotent_def Let_def
  by (intro replayed_preI holds_liftI replayedI special_ofI assms) simp_all

section \<open>The contract\<close>

lemma child_contract:
  assumes "\<And>env s. fs_inv s \<Longrightarrow> roomy s \<Longrightarrow> holds (f env) (op_result env op ex (child_made env creds d n op mk kind s) s) s"
    and "\<And>x a. ex (mk x a) = Some (x, a)"
  shows "ns_operation (\<lambda>env s r t. f env s = (r, t)) op ex (\<lambda>env. child_made env creds d n op mk kind) (\<lambda>_ _. True)"
proof
  show "child_made env creds d n op mk kind s y t \<Longrightarrow> effect_ok env op ex s y t" for env s y t
    unfolding child_made_def by (elim exE conjE, rule effect_ok_step) (auto simp: ns_add_nodes assms(2))
qed (rule holdsD [OF assms(1)])

interpretation create_op: ns_operation "\<lambda>env s r t. create_idempotent env creds d n attr op s = (r, t)" op into_create
  "\<lambda>env. child_made env creds d n op DrCreate (\<lambda>i. \<exists>f. i = File f \<and> f_size f = 0)" "\<lambda>_ _. True"
  for creds d n attr op
  by (rule child_contract) (simp_all add: create_result)

interpretation mkdir_op: ns_operation "\<lambda>env s r t. mkdir_idempotent env creds d n attr op s = (r, t)" op into_mkdir
  "\<lambda>env. child_made env creds d n op DrMkdir is_directory" "\<lambda>_ _. True"
  for creds d n attr op
  by (rule child_contract) (simp_all add: mkdir_result)

interpretation symlink_op: ns_operation "\<lambda>env s r t. symlink_idempotent env creds d n tgt attr op s = (r, t)" op into_symlink
  "\<lambda>env. child_made env creds d n op DrSymlink (\<lambda>i. \<exists>l. i = Symlink l \<and> s_target l = tgt)" "\<lambda>_ _. True"
  for creds d n tgt attr op
  by (rule child_contract) (simp_all add: symlink_result)

interpretation mknod_op: ns_operation "\<lambda>env s r t. mknod_idempotent env creds d n ftype attr rdev op s = (r, t)" op into_mknod
  "\<lambda>env. child_made env creds d n op DrMknod (special_kind ftype)" "\<lambda>_ _. True"
  for creds d n ftype attr rdev op
  by (rule child_contract) (simp_all add: mknod_result)

section \<open>Properties\<close>

text \<open>
  C6. A \<open>create\<close> call refines the abstract operation that adds a leaf to the namespace. From a
  consistent state, whatever the environment answers, it is refused and changes no row and no
  recorded result, or repeats a recorded result, or has made exactly one new empty file: under a
  fresh identifier, in a directory the caller may write to and search, under a valid name, with the
  attributes it answers stored in the inode row and its result recorded under the operation
  identifier. Only a failed flush under \<open>sync_writes\<close> turns a call that was applied into an error.
\<close>

theorem create_refines_ns_add:
  assumes "fs_inv s" "roomy s" "create_idempotent env creds d n attr op s = (r, t)"
  shows "op_result env op into_create
    (child_made env creds d n op DrCreate (\<lambda>i. \<exists>f. i = File f \<and> f_size f = 0) s) s r t"
  using create_op.result [OF assms(1,2) TrueI assms(3)] .

definition example_create :: "(inode_id \<times> file_attributes) fs_result \<times> fs" where
  "example_create = create_idempotent example_env (credentials_from_auth_context default_auth_context) 0 [0x61]
     default_set_attributes example_op example_fs"

lemma example_create_ok: "error_of (fst example_create) = None"
  by code_simp

theorem create_refines_ns_add_witness:
  "error_of (fst example_create) = None
   \<and> op_result example_env example_op into_create (child_made example_env
       (credentials_from_auth_context default_auth_context) 0 [0x61] example_op DrCreate
       (\<lambda>i. \<exists>f. i = File f \<and> f_size f = 0) example_fs) example_fs (fst example_create) (snd example_create)"
proof
  show "error_of (fst example_create) = None"
    by (rule example_create_ok)
  show "op_result example_env example_op into_create (child_made example_env
       (credentials_from_auth_context default_auth_context) 0 [0x61] example_op DrCreate
       (\<lambda>i. \<exists>f. i = File f \<and> f_size f = 0) example_fs) example_fs (fst example_create) (snd example_create)"
    by (rule create_refines_ns_add [OF roomy_example]) (simp add: example_create_def)
qed

text \<open>
  C13. A \<open>mkdir\<close> call refines the abstract operation that adds an empty directory to the namespace,
  with the same three outcomes: refused without a change, a recorded result repeated, or one new
  directory with two links whose parent gains one link and one entry.
\<close>

theorem mkdir_refines_ns_add:
  assumes "fs_inv s" "roomy s" "mkdir_idempotent env creds d n attr op s = (r, t)"
  shows "op_result env op into_mkdir (child_made env creds d n op DrMkdir is_directory s) s r t"
  using mkdir_op.result [OF assms(1,2) TrueI assms(3)] .

definition example_mkdir :: "(inode_id \<times> file_attributes) fs_result \<times> fs" where
  "example_mkdir = mkdir_idempotent example_env (credentials_from_auth_context default_auth_context) 0 [0x61]
     default_set_attributes example_op example_fs"

theorem mkdir_refines_ns_add_witness:
  "error_of (fst example_mkdir) = None
   \<and> op_result example_env example_op into_mkdir (child_made example_env
       (credentials_from_auth_context default_auth_context) 0 [0x61] example_op DrMkdir is_directory example_fs)
       example_fs (fst example_mkdir) (snd example_mkdir)"
proof
  show "error_of (fst example_mkdir) = None"
    by code_simp
  show "op_result example_env example_op into_mkdir (child_made example_env
       (credentials_from_auth_context default_auth_context) 0 [0x61] example_op DrMkdir is_directory example_fs)
       example_fs (fst example_mkdir) (snd example_mkdir)"
    by (rule mkdir_refines_ns_add [OF roomy_example]) (simp add: example_mkdir_def)
qed


lemma example_create_room: "roomy (snd example_create)"
proof -
  have "m_cookies (st_meta (snd example_create)) d = (if d = 0 then Some 4 else None)" for d
    by (code_simp, simp)
  moreover have "st_next_id (snd example_create) = 2"
    by code_simp
  ultimately show ?thesis
    by (simp add: roomy_def cookie_of_def COOKIE_FIRST_ENTRY_def)
qed


end
