(* ===== verification/Op_Link.thy ===== *)
theory Op_Link
  imports Op_Create
begin

text \<open>
  Hard links (\<open>fs/ops/link.rs\<close>). An inode with one link carries its parent and name and its
  directory entry embeds a copy of it; the second link turns the first entry into a reference
  and clears both fields. Linking an inode that was unlinked while open gives it back its name.
\<close>

definition MAX_HARDLINKS_PER_INODE :: u32 where
  "MAX_HARDLINKS_PER_INODE = - 1"

text \<open>The parent field of an inode that is not a directory.\<close>

fun set_link_parent :: "inode_id option \<Rightarrow> inode \<Rightarrow> inode" where
  "set_link_parent p (File f) = File (f\<lparr>f_parent := p\<rparr>)"
| "set_link_parent p (Directory d) = Directory d"
| "set_link_parent p (Symlink l) = Symlink (l\<lparr>s_parent := p\<rparr>)"
| "set_link_parent p (Fifo q) = Fifo (q\<lparr>p_parent := p\<rparr>)"
| "set_link_parent p (Socket q) = Socket (q\<lparr>p_parent := p\<rparr>)"
| "set_link_parent p (CharDevice q) = CharDevice (q\<lparr>p_parent := p\<rparr>)"
| "set_link_parent p (BlockDevice q) = BlockDevice (q\<lparr>p_parent := p\<rparr>)"

definition set_ctime :: "u64 \<times> u32 \<Rightarrow> attrs \<Rightarrow> attrs" where
  "set_ctime now a = a\<lparr>i_ctime := fst now, i_ctime_nsec := snd now\<rparr>"

definition link_inode :: "u64 \<times> u32 \<Rightarrow> inode_id \<Rightarrow> bytes \<Rightarrow> inode \<Rightarrow> inode" where
  "link_inode now dirid name i =
     (let resurrected = (inode_nlink i = 0);
          i = map_inode_attrs (\<lambda>a. a\<lparr>i_nlink := i_nlink a + 1\<rparr>) i;
          i = (if resurrected then
                 set_link_parent (Some dirid) (map_inode_attrs (\<lambda>a. a\<lparr>i_name := Some name\<rparr>) i)
               else if inode_nlink i > 1 then
                 set_link_parent None (map_inode_attrs (\<lambda>a. a\<lparr>i_name := None\<rparr>) i)
               else i)
      in map_inode_attrs (set_ctime now) i)"

text \<open>The transaction of a hard link, once the directory and the inode are known.\<close>

definition link_commit ::
  "op_env \<Rightarrow> inode_id \<Rightarrow> inode_id \<Rightarrow> directory_inode \<Rightarrow> bytes \<Rightarrow> inode \<Rightarrow> op_id \<Rightarrow>
   (inode_id \<times> file_attributes) fsm" where
  "link_commit env fileid linkdirid link_dir linkname file_inode op =
     sbind (slift (new_transaction env)) (\<lambda>t.
     sbind (sread (\<lambda>s. allocate_cookie (oe_faults env) (st_meta s) linkdirid t)) (\<lambda>(cookie, t).
     sbind (case (inode_parent file_inode, inode_name file_inode) of
              (Some orig_parent, Some orig_name) \<Rightarrow>
                sread (\<lambda>s. convert_to_reference (oe_faults env) (st_meta s) orig_parent orig_name fileid t)
            | _ \<Rightarrow> sret t) (\<lambda>t.
     sbind (slift (check (inode_nlink file_inode \<noteq> MAX_HARDLINKS_PER_INODE) TooManyLinks)) (\<lambda>_.
     let now = oe_clock env 0;
         resurrected = (inode_nlink file_inode = 0);
         file_inode = link_inode now linkdirid linkname file_inode;
         embed_inode = (if inode_nlink file_inode = 1 then Some file_inode else None);
         t = dir_add linkdirid linkname fileid cookie embed_inode t;
         attrs = file_attributes_of file_inode fileid;
         t = set_dedup_result op (DrLink fileid attrs) t;
         t = (if resurrected then orphan_remove fileid t else t);
         t = inode_save fileid file_inode t;
         link_dir = touch_dir now (grow_dir False link_dir)
     in
     sbind (sread (\<lambda>s. Inr (save_directory (oe_faults env) (st_meta s) linkdirid link_dir t))) (\<lambda>t.
     sbind (s_commit env t NoSettlement) (\<lambda>_.
     sbind (s_bump [LinksCreated, WriteOperations, TotalOperations]) (\<lambda>_.
     sret (fileid, attrs))))))))"

definition link_idempotent ::
  "op_env \<Rightarrow> auth_context \<Rightarrow> inode_id \<Rightarrow> inode_id \<Rightarrow> bytes \<Rightarrow> op_id \<Rightarrow>
   (inode_id \<times> file_attributes) fsm" where
  "link_idempotent env auth fileid linkdirid linkname op =
     unless_replayed_pre env op into_link (
     sbind (slift (validate_filename linkname)) (\<lambda>_.
     sbind (slift (fence_metadata env)) (\<lambda>_.
     unless_replayed op into_link (
     let creds = credentials_from_auth_context auth in
     sbind (s_inode_get env linkdirid) (\<lambda>link_dir_inode.
     sbind (s_inode_get env fileid) (\<lambda>file_inode.
     sbind (sread (\<lambda>s. dir_exists (oe_faults env) (st_meta s) linkdirid linkname)) (\<lambda>exists.
     sbind (slift (check_access link_dir_inode creds Write)) (\<lambda>_.
     sbind (slift (check_access link_dir_inode creds Execute)) (\<lambda>_.
     case link_dir_inode of
       Directory link_dir \<Rightarrow>
         sbind (slift (check (i_nlink (d_attrs link_dir) \<noteq> 0) StaleHandle)) (\<lambda>_.
         sbind (slift (check (\<not> is_directory file_inode) InvalidArgument)) (\<lambda>_.
         sbind (slift (check (\<not> exists) Exists)) (\<lambda>_.
         link_commit env fileid linkdirid link_dir linkname file_inode op)))
     | _ \<Rightarrow> sfail NotDirectory)))))))))"

definition link :: "op_env \<Rightarrow> auth_context \<Rightarrow> inode_id \<Rightarrow> inode_id \<Rightarrow> bytes \<Rightarrow> unit fsm" where
  "link env auth fileid linkdirid linkname =
     sbind (link_idempotent env auth fileid linkdirid linkname no_op_id) (\<lambda>_. sret ())"

section \<open>Lemmas\<close>

lemma map_inode_attrs_simps [simp]:
  "inode_attrs (map_inode_attrs g i) = g (inode_attrs i)"
  "inode_parent (map_inode_attrs g i) = inode_parent i"
  "is_directory (map_inode_attrs g i) = is_directory i"
  by (cases i; simp)+

lemma set_link_parent_simps [simp]:
  "inode_attrs (set_link_parent p i) = inode_attrs i"
  "is_directory (set_link_parent p i) = is_directory i"
  "\<not> is_directory i \<Longrightarrow> inode_parent (set_link_parent p i) = p"
  by (cases i; simp)+

lemma link_inode_simps:
  assumes "\<not> is_directory i" "inode_nlink i \<noteq> - 1"
  shows "\<not> is_directory (link_inode now d n i)"
    and "inode_nlink (link_inode now d n i) = inode_nlink i + 1"
    and "skel_of (link_inode now d n i) = link_skel d n (skel_of i)"
    and "inode_nlink (link_inode now d n i) = 1 \<Longrightarrow> place (link_inode now d n i) = (Some d, Some n)"
proof -
  have suc: "unat (inode_nlink i + 1) = unat (inode_nlink i) + 1"
    using assms(2) by (simp add: unat_Suc_word)
  have gt: "1 < inode_nlink i + 1 \<longleftrightarrow> inode_nlink i \<noteq> 0"
    using suc unat_eq_0 [of "inode_nlink i"] by (auto simp: word_less_nat_alt)
  show dir: "\<not> is_directory (link_inode now d n i)"
    using assms(1) by (simp add: link_inode_def Let_def)
  show nl: "inode_nlink (link_inode now d n i) = inode_nlink i + 1"
    by (simp add: link_inode_def Let_def inode_nlink_def set_ctime_def)
  show "skel_of (link_inode now d n i) = link_skel d n (skel_of i)"
    using assms(1) gt suc unat_eq_0 [of "inode_nlink i"] unfolding skel_of_leaf [OF dir] skel_of_leaf [OF assms(1)] nl
    by (simp add: link_inode_def Let_def inode_nlink_def inode_name_def set_ctime_def)
  show "place (link_inode now d n i) = (Some d, Some n)" if "inode_nlink (link_inode now d n i) = 1"
    using that assms(1) unfolding nl
    by (simp add: link_inode_def Let_def inode_nlink_def inode_name_def set_ctime_def place_def)
qed

text \<open>The row changes of a hard link, applied.\<close>

definition convert_ops :: "meta \<Rightarrow> inode_id \<Rightarrow> inode \<Rightarrow> txop list" where
  "convert_ops m x i =
     (case place i of
        (Some p, Some q) \<Rightarrow> (case m_entries m (p, q) of Some (_, c) \<Rightarrow> [PutScan p c q (Reference x)] | None \<Rightarrow> [])
      | _ \<Rightarrow> [])"

definition link_ops ::
  "meta \<Rightarrow> inode_id \<Rightarrow> bytes \<Rightarrow> inode_id \<Rightarrow> inode \<Rightarrow> inode \<Rightarrow> txop list" where
  "link_ops m d n x i i' =
     (let c = cookie_of m d in
      [PutCookie d (c + 1)] @ convert_ops m x i
      @ [PutEntry d n x c, PutScan d c n (if inode_nlink i' = 1 then WithInode x i' else Reference x)]
      @ (if inode_nlink i = 0 then [DelOrphan x] else [])
      @ [PutInode x i'])"

lemma leaf_own_entry:
  assumes inv: "ns_inv (ns_of m)" and x: "m_inodes m x = Some i" "\<not> is_directory i" "place i = (Some p, Some q)"
  shows "\<exists>c. m_entries m (p, q) = Some (x, c)"
proof -
  have "leaf_ok (ns_of m) x (unat (inode_nlink i)) (inode_parent i) (inode_name i)"
    by (rule ns_invD(7) [OF inv]) (simp add: x skel_of_leaf)
  then have "(p, q) \<in> refs (ns_of m) x"
    using x(3) by (simp add: leaf_ok_def place_def)
  then show ?thesis
    by (auto simp: in_refs)
qed

lemma link_applied:
  fixes flt :: faults and now :: "u64 \<times> u32"
  assumes inv: "meta_inv m" and D: "m_inodes m d = Some (Directory D)" and live: "i_nlink (d_attrs D) \<noteq> 0"
    and free: "m_entries m (d, n) = None" and wrap: "cookie_of m d \<noteq> u64_max"
    and x: "m_inodes m x = Some i" "\<not> is_directory i" and lim: "inode_nlink i \<noteq> - 1"
  defines "i' \<equiv> link_inode now d n i"
  defines "v \<equiv> apply_ops (resave_ops flt m d (Directory (touch_dir now (grow_dir False D))))
    (apply_ops (link_ops m d n x i i') m)"
  shows "ns_of v = ns_link d n x (ns_of m)" "meta_inv v" "m_inodes v x = Some i'"
    and "(\<And>p q. flt (DirEntryKey p q) = None) \<Longrightarrow> emb_fresh m \<Longrightarrow> emb_fresh v"
proof -
  note li = link_inode_simps [OF x(2) lim, of now d n, folded i'_def]
  let ?u = "apply_ops (link_ops m d n x i i') m"
  let ?w = "if inode_nlink i' = 1 then WithInode x i' else Reference x"
  let ?D = "touch_dir now (grow_dir False D)"
  define S where "S = (case place i of
      (Some p, Some q) \<Rightarrow> (case m_entries m (p, q) of
         Some (_, c) \<Rightarrow> (m_scans m)((p, c) \<mapsto> (q, Reference x)) | None \<Rightarrow> m_scans m)
    | _ \<Rightarrow> m_scans m)"
  have orph: "m_orphans m - {x} = m_orphans m" if "inode_nlink i \<noteq> 0"
    using ns_invD(8) [OF meta_invD(1) [OF inv]] that x unat_eq_0 [of "inode_nlink i"]
    by (auto simp: skel_of_leaf)
  have rows: "m_inodes ?u = (m_inodes m)(x \<mapsto> i')" "m_entries ?u = (m_entries m)((d, n) \<mapsto> (x, cookie_of m d))"
      "m_scans ?u = S((d, cookie_of m d) \<mapsto> (n, ?w))"
      "m_cookies ?u = (m_cookies m)(d \<mapsto> cookie_of m d + 1)" "m_orphans ?u = m_orphans m - {x}"
    using orph by (simp_all add: link_ops_def convert_ops_def S_def Let_def split: option.split prod.split)
  have conv: "\<exists>c. m_entries m (p, q) = Some (x, c) \<and> S = (m_scans m)((p, c) \<mapsto> (q, Reference x))"
    if "place i = (Some p, Some q)" for p q
    using leaf_own_entry [OF meta_invD(1) [OF inv] x that] that by (auto simp: S_def)
  have conv': "S = m_scans m" if "\<And>p q. place i \<noteq> (Some p, Some q)"
    using that by (auto simp: S_def split: option.split prod.split)
  have w: "scan_inode_id ?w = x" "\<And>y j. ?w = WithInode y j \<Longrightarrow> j = i' \<and> place i' = (Some d, Some n)"
    using li(4) by (auto split: if_splits)
  have D': "place (Directory ?D) = place (Directory D)" "skel_of (Directory ?D) = grow False (skel_of (Directory D))"
    using grow_dir_skel [OF inv D, of False] by simp_all
  note ml = meta_link [OF inv D live free wrap x li(3) conv conv' w rows D', where flt = flt, folded v_def]
  show "ns_of v = ns_link d n x (ns_of m)" "meta_inv v"
    "(\<And>p q. flt (DirEntryKey p q) = None) \<Longrightarrow> emb_fresh m \<Longrightarrow> emb_fresh v"
    by (rule ml; blast)+
  have "x \<noteq> d"
    using D x by auto
  then show "m_inodes v x = Some i'"
    by (simp add: v_def resave_rows rows)
qed

section \<open>Outcome\<close>

definition link_made ::
  "op_env \<Rightarrow> credentials \<Rightarrow> inode_id \<Rightarrow> inode_id \<Rightarrow> bytes \<Rightarrow> op_id \<Rightarrow> fs \<Rightarrow> inode_id \<times> file_attributes \<Rightarrow> fs \<Rightarrow> bool" where
  "link_made env creds x d n op s y t \<longleftrightarrow>
     (\<exists>i i' D. y = (x, file_attributes_of i' x) \<and> validate_filename n = Inr ()
        \<and> m_inodes (st_meta s) d = Some (Directory D)
        \<and> check_access (Directory D) creds Write = Inr () \<and> check_access (Directory D) creds Execute = Inr ()
        \<and> m_inodes (st_meta s) x = Some i \<and> \<not> is_directory i
        \<and> m_inodes (st_meta t) x = Some i' \<and> unat (inode_nlink i') = unat (inode_nlink i) + 1
        \<and> ns_step env (ns_link d n x) op (DrLink x (file_attributes_of i' x)) s t)"

lemma convert_Inr:
  "convert_to_reference flt m p q x t = Inr t' \<longleftrightarrow>
   flt (DirEntryKey p q) = None \<and> (\<exists>y c. m_entries m (p, q) = Some (y, c) \<and> t' = put_op (PutScan p c q (Reference x)) t)"
  by (auto simp: convert_to_reference_def get_entry_with_cookie_def try_bind_def ok_or_def split: option.splits)

lemma convert_stepI:
  assumes err: "\<And>e. Q (Inl e) s"
    and ok: "\<And>t'. tx_ops t' = tx_ops t @ convert_ops (st_meta s) x i \<Longrightarrow> tx_dedup_entry t' = tx_dedup_entry t \<Longrightarrow> holds (k t') Q s"
  shows "holds (sbind (case (inode_parent i, inode_name i) of
       (Some p, Some q) \<Rightarrow> sread (\<lambda>s. convert_to_reference flt (st_meta s) p q x t)
     | _ \<Rightarrow> sret t) k) Q s"
  by (auto simp: place_def convert_ops_def convert_Inr intro!: holds_readI err ok split: option.split)

text \<open>The transaction that reaches the commit.\<close>

lemma link_commitI:
  assumes err: "\<And>e. Q (Inl e) s"
    and ok: "\<And>tx. tx_ops tx = link_ops (st_meta s) d n x i (link_inode (oe_clock env 0) d n i)
          @ resave_ops (oe_faults env) (st_meta s) d (Directory (touch_dir (oe_clock env 0) (grow_dir False D))) \<Longrightarrow>
        tx_dedup_entry tx = (if has_op_id op
          then Some \<lparr>dd_op_id = op, dd_result = DrLink x (file_attributes_of (link_inode (oe_clock env 0) d n i) x)\<rparr>
          else None) \<Longrightarrow>
        inode_nlink i \<noteq> - 1 \<Longrightarrow>
        holds (sbind (s_commit env tx NoSettlement) (\<lambda>_. sbind (s_bump [LinksCreated, WriteOperations, TotalOperations])
          (\<lambda>_. sret (x, file_attributes_of (link_inode (oe_clock env 0) d n i) x)))) Q s"
  shows "holds (link_commit env x d D n i op) Q s"
  unfolding link_commit_def Let_def
  by (rule holds_liftI, rule err, rule holds_readI, rule err, rule holds_pairI, rule convert_stepI, rule err,
      rule holds_checkI, rule err, unfold holds_bind_simps, rule ok)
    (auto simp: link_ops_def allocate_cookie_Inr MAX_HARDLINKS_PER_INODE_def Let_def dest!: new_transaction_Inr)

lemma link_result:
  assumes inv: "fs_inv s" "roomy s"
  shows "holds (link_idempotent env auth x d n op) (op_result env op into_link
    (link_made env (credentials_from_auth_context auth) x d n op s) s) s"
  unfolding link_idempotent_def Let_def s_inode_get_def
proof (intro replayed_preI holds_liftI replayedI holds_readI holds_directoryI holds_checkI link_commitI op_result_refused)
  fix u i dir exists D a b v w z and tx :: txn
  assume new: "dedup_get (st_ledger s) op = None" and name: "validate_filename n = Inr u"
    and dir: "inode_get (oe_faults env) (st_meta s) d = Inr dir" and i: "inode_get (oe_faults env) (st_meta s) x = Inr i"
    and free: "dir_exists (oe_faults env) (st_meta s) d n = Inr exists"
    and acc: "check_access dir (credentials_from_auth_context auth) Write = Inr a"
      "check_access dir (credentials_from_auth_context auth) Execute = Inr b"
    and D: "dir = Directory D"
    and chk: "check (i_nlink (d_attrs D) \<noteq> 0) StaleHandle = Inr v" "check (\<not> is_directory i) InvalidArgument = Inr w"
      "check (\<not> exists) Exists = Inr z"
    and tx: "tx_ops tx = link_ops (st_meta s) d n x i (link_inode (oe_clock env 0) d n i)
          @ resave_ops (oe_faults env) (st_meta s) d (Directory (touch_dir (oe_clock env 0) (grow_dir False D)))"
      "tx_dedup_entry tx = (if has_op_id op
          then Some \<lparr>dd_op_id = op, dd_result = DrLink x (file_attributes_of (link_inode (oe_clock env 0) d n i) x)\<rparr>
          else None)" "inode_nlink i \<noteq> - 1"
  have c: "i_nlink (d_attrs D) \<noteq> 0" "\<not> is_directory i" "\<not> exists"
    using chk by (simp_all add: check_def split: if_splits)
  have rows: "m_inodes (st_meta s) d = Some (Directory D)" "m_inodes (st_meta s) x = Some i"
    "m_entries (st_meta s) (d, n) = None"
    using inode_get_Inr [OF dir] inode_get_Inr [OF i] dir_exists_False [of _ _ d n] free c D by auto
  have wrap: "cookie_of (st_meta s) d \<noteq> u64_max" and minv: "meta_inv (st_meta s)"
    using inv by (simp_all add: roomy_def fs_inv_def)
  note eff = link_applied [OF minv rows(1) c(1) rows(3) wrap rows(2) c(2) tx(3),
      where now = "oe_clock env 0" and flt = "oe_faults env"]
  have nl: "unat (inode_nlink (link_inode (oe_clock env 0) d n i)) = unat (inode_nlink i) + 1"
    using tx(3) by (simp add: link_inode_simps(2) [OF c(2) tx(3)] unat_Suc_word)
  show "holds (sbind (s_commit env tx NoSettlement) (\<lambda>_. sbind (s_bump [LinksCreated, WriteOperations, TotalOperations])
          (\<lambda>_. sret (x, file_attributes_of (link_inode (oe_clock env 0) d n i) x)))) (op_result env op into_link
    (link_made env (credentials_from_auth_context auth) x d n op s) s) s"
  proof (rule commit_resultI [where k = 0])
    fix t :: fs
    assume "st_meta t = apply_ops (tx_ops tx) (st_meta s)" "st_ledger t = ledger_add (txn_entries tx) (st_ledger s)"
    then show "link_made env (credentials_from_auth_context auth) x d n op s
        (x, file_attributes_of (link_inode (oe_clock env 0) d n i) x) t"
      using name rows c acc D eff nl
      by (auto simp: link_made_def ns_step_def reads_entries_def tx(1) txn_entries_set [OF tx(2)])
  qed (simp_all add: quiet_def new)
qed

section \<open>The contract\<close>

interpretation link_op: ns_operation "\<lambda>env s r t. link_idempotent env auth x d n op s = (r, t)" op into_link
  "\<lambda>env. link_made env (credentials_from_auth_context auth) x d n op" "\<lambda>_ _. True"
  for auth x d n op
proof
  show "link_made env (credentials_from_auth_context auth) x d n op s y t \<Longrightarrow> effect_ok env op into_link s y t" for env s y t
    unfolding link_made_def by (elim exE conjE, rule effect_ok_step) (auto simp: ns_link_nodes)
qed (rule holdsD [OF link_result])

section \<open>Properties\<close>

text \<open>
  C12. A \<open>link\<close> call refines the abstract operation that adds one more name of an existing inode:
  refused without a change, a recorded result repeated, or one new entry in a directory the caller
  may write to and search, for an inode that is no directory, whose link count is then one higher.
\<close>

theorem link_refines_ns_link:
  assumes "fs_inv s" "roomy s" "link_idempotent env auth x d n op s = (r, t)"
  shows "op_result env op into_link (link_made env (credentials_from_auth_context auth) x d n op s) s r t"
  using link_op.result [OF assms(1,2) TrueI assms(3)] .

theorem link_refines_ns_link_witness:
  "fs_inv example_tree \<and> roomy example_tree
   \<and> (let c = link_idempotent (example_env\<lparr>oe_pre := example_tree\<rparr>) default_auth_context 3 2 [0x67] example_op example_tree
      in op_result (example_env\<lparr>oe_pre := example_tree\<rparr>) example_op into_link
        (link_made (example_env\<lparr>oe_pre := example_tree\<rparr>) (credentials_from_auth_context default_auth_context) 3 2 [0x67]
          example_op example_tree) example_tree (fst c) (snd c))"
  unfolding Let_def by (intro conjI example_tree_inv link_refines_ns_link [OF example_tree_inv]) simp

end
