(* ===== verification/Op_Remove.thy ===== *)
theory Op_Remove
  imports Op_Link
begin

text \<open>
  Removing a directory entry (\<open>fs/ops/remove.rs\<close>). The entry is read before the locks are taken
  and verified under them. Dropping the last link deletes the inode, or, while an open handle or
  a replayable result still refers to it, leaves it with no link in the durable orphan set.
\<close>

section \<open>Dropping a link\<close>

definition lower_nlink :: "u64 \<times> u32 \<Rightarrow> inode \<Rightarrow> inode" where
  "lower_nlink now i = map_inode_attrs (\<lambda>a. set_ctime now (a\<lparr>i_nlink := i_nlink a - 1\<rparr>)) i"

definition detach_inode :: "u64 \<times> u32 \<Rightarrow> inode \<Rightarrow> inode" where
  "detach_inode now i =
     set_link_parent None (map_inode_attrs (\<lambda>a. set_ctime now (a\<lparr>i_nlink := 0, i_name := None\<rparr>)) i)"

fun deleted_metrics :: "inode \<Rightarrow> metric list" where
  "deleted_metrics (File _) = [FilesDeleted]"
| "deleted_metrics (Directory _) = [DirectoriesDeleted]"
| "deleted_metrics (Symlink _) = [LinksDeleted]"
| "deleted_metrics _ = []"

text \<open>Deleting an inode outright: data first, then the row, and the cookie counter of a directory.\<close>

definition stage_delete_inode :: "op_env \<Rightarrow> inode_id \<Rightarrow> inode \<Rightarrow> txn \<Rightarrow> txn fsm" where
  "stage_delete_inode env ino i t =
     (case i of
        File f \<Rightarrow>
          sbind (stage_file_data_removal env ino f t) (\<lambda>t. sret (inode_delete ino t))
      | Directory _ \<Rightarrow> sret (delete_directory ino (inode_delete ino t))
      | _ \<Rightarrow> sret (inode_delete ino t))"

text \<open>One link of the inode goes away; the result says whether the inode was left to the orphan
  set. Directories have exactly one link.\<close>

definition drop_link ::
  "op_env \<Rightarrow> u64 \<times> u32 \<Rightarrow> bool \<Rightarrow> bool \<Rightarrow> inode_id \<Rightarrow> inode \<Rightarrow> txn \<Rightarrow> (txn \<times> bool) fsm" where
  "drop_link env now defer_unlinked count_deleted ino i t =
     (if \<not> is_directory i \<and> inode_nlink i > 1 then
        sret (inode_save ino (lower_nlink now i) t, False)
      else if defer_unlinked then
        sret (orphan_add ino (inode_save ino (detach_inode now i) t), True)
      else
        sbind (stage_delete_inode env ino i t) (\<lambda>t.
        sbind (s_bump (if count_deleted then deleted_metrics i else [])) (\<lambda>_.
        sret (t, False))))"

definition unlink_count_delta :: "inode_id \<Rightarrow> inode \<Rightarrow> bool \<Rightarrow> txn \<Rightarrow> txn" where
  "unlink_count_delta ino i deferred t =
     (if \<not> deferred \<and> (is_directory i \<or> inode_nlink i \<le> 1) then add_inode_count_delta ino (- 1) t else t)"

definition unlink_settlement :: "inode_id \<Rightarrow> inode \<Rightarrow> bool \<Rightarrow> commit_settlement" where
  "unlink_settlement ino i deferred =
     (if deferred then DeferredReclaim ino
      else (case i of
              File f \<Rightarrow> if i_nlink (f_attrs f) \<le> 1 then SettleQuota (Shrink (f_size f)) else NoSettlement
            | _ \<Rightarrow> NoSettlement))"

definition entry_count_of :: "inode \<Rightarrow> u64" where
  "entry_count_of i = (case i of Directory d \<Rightarrow> d_entry_count d | _ \<Rightarrow> 0)"

definition shrink_dir :: "bool \<Rightarrow> directory_inode \<Rightarrow> directory_inode" where
  "shrink_dir lost_subdir d =
     (let d = (if lost_subdir
               then d\<lparr>d_attrs := (d_attrs d)\<lparr>i_nlink := saturating_sub (i_nlink (d_attrs d)) 1\<rparr>\<rparr> else d)
      in d\<lparr>d_entry_count := saturating_sub (d_entry_count d) 1\<rparr>)"

section \<open>remove\<close>

definition remove_resolve ::
  "op_env \<Rightarrow> credentials \<Rightarrow> inode_id \<Rightarrow> bytes \<Rightarrow> op_id \<Rightarrow> (inode_id \<times> u64) option \<Rightarrow>
   (inode_id \<times> u64 \<Rightarrow> bool fsm) \<Rightarrow> bool fsm" where
  "remove_resolve env creds dirid name op expected_entry k =
     sbind (slift (inode_get (oe_pre_faults env) (st_meta (oe_pre env)) dirid)) (\<lambda>dir_inode.
     sbind (slift (check (is_directory dir_inode) NotDirectory)) (\<lambda>_.
     sbind (slift (check_access dir_inode creds Execute)) (\<lambda>_.
     sbind (slift (check (inode_nlink dir_inode \<noteq> 0) StaleHandle)) (\<lambda>_.
     case expected_entry of
       Some expected \<Rightarrow> k expected
     | None \<Rightarrow>
         (case get_entry_with_cookie (oe_pre_faults env) (st_meta (oe_pre env)) dirid name of
            Inr entry \<Rightarrow> k entry
          | Inl e \<Rightarrow> unless_replayed op (\<lambda>r. map_option (\<lambda>_. True) (into_remove r)) (sfail e))))))"

definition remove_commit ::
  "op_env \<Rightarrow> inode_id \<Rightarrow> directory_inode \<Rightarrow> bytes \<Rightarrow> inode_id \<Rightarrow> u64 \<Rightarrow> inode \<Rightarrow> bool \<Rightarrow> op_id \<Rightarrow> bool fsm" where
  "remove_commit env dirid dir name file_id cookie file_inode defer_unlinked op =
     sbind (slift (new_transaction env)) (\<lambda>t.
     let t = set_dedup_result op DrRemove t; now = oe_clock env 0 in
     sbind (slift (check (entry_count_of file_inode = 0) NotEmpty)) (\<lambda>_.
     sbind (drop_link env now defer_unlinked True file_id file_inode t) (\<lambda>(t, deferred).
     let t = dir_unlink_entry dirid name cookie t;
         dir = touch_dir now (shrink_dir (is_directory file_inode) dir)
     in
     sbind (sread (\<lambda>s. Inr (save_directory (oe_faults env) (st_meta s) dirid dir t))) (\<lambda>t.
     let t = unlink_count_delta file_id file_inode deferred t in
     sbind (s_commit env t (unlink_settlement file_id file_inode deferred)) (\<lambda>_.
     sbind (s_bump [WriteOperations, TotalOperations]) (\<lambda>_.
     sret True))))))"

text \<open>Under the locks: the entry must still be the one that was resolved.\<close>

definition remove_verified ::
  "op_env \<Rightarrow> credentials \<Rightarrow> inode_id \<Rightarrow> directory_inode \<Rightarrow> bytes \<Rightarrow> op_id \<Rightarrow> bool option \<Rightarrow> bool \<Rightarrow>
   inode_id \<Rightarrow> u64 \<Rightarrow> (inode_id \<times> u64) fs_result \<Rightarrow> bool fsm" where
  "remove_verified env creds dirid dir name op expected_directory conditional file_id cookie verified =
     (case verified of
        Inl e \<Rightarrow> if e = NotFound \<and> conditional then sret False else sfail e
      | Inr (verified_id, verified_cookie) \<Rightarrow>
          if verified_id \<noteq> file_id \<or> verified_cookie \<noteq> cookie then
            (if conditional then sret False else sfail NotFound)
          else
            sbind (s_inode_get env file_id) (\<lambda>file_inode.
            sbind (slift (case (expected_directory, is_directory file_inode) of
                (Some True, False) \<Rightarrow> Inl NotDirectory
              | (Some False, True) \<Rightarrow> Inl IsDirectory
              | _ \<Rightarrow> Inr ())) (\<lambda>_.
            sbind (sread (\<lambda>s. Inr (should_defer_unlinked_inode env s file_id))) (\<lambda>defer_unlinked.
            sbind (slift (check_sticky_bit_delete (Directory dir) file_inode creds)) (\<lambda>_.
            remove_commit env dirid dir name file_id cookie file_inode defer_unlinked op)))))"

definition remove_locked ::
  "op_env \<Rightarrow> credentials \<Rightarrow> inode_id \<Rightarrow> bytes \<Rightarrow> op_id \<Rightarrow> bool option \<Rightarrow> bool \<Rightarrow> inode_id \<times> u64 \<Rightarrow> bool fsm" where
  "remove_locked env creds dirid name op expected_directory conditional entry =
     sbind (slift (fence_metadata env)) (\<lambda>_.
     unless_replayed op (\<lambda>r. map_option (\<lambda>_. True) (into_remove r)) (
     sbind (s_inode_get env dirid) (\<lambda>dir_inode.
     sbind (slift (check_access dir_inode creds Write)) (\<lambda>_.
     sbind (slift (check_access dir_inode creds Execute)) (\<lambda>_.
     case dir_inode of
       Directory dir \<Rightarrow>
         sbind (slift (check (i_nlink (d_attrs dir) \<noteq> 0) StaleHandle)) (\<lambda>_.
         sbind (sread (\<lambda>s. Inr (get_entry_with_cookie (oe_faults env) (st_meta s) dirid name))) (\<lambda>verified.
         remove_verified env creds dirid dir name op expected_directory conditional (fst entry) (snd entry)
           verified))
     | _ \<Rightarrow> sfail NotDirectory)))))"

definition remove_idempotent_inner ::
  "op_env \<Rightarrow> auth_context \<Rightarrow> inode_id \<Rightarrow> bytes \<Rightarrow> op_id \<Rightarrow> bool option \<Rightarrow> (inode_id \<times> u64) option \<Rightarrow> bool fsm" where
  "remove_idempotent_inner env auth dirid name op expected_directory expected_entry =
     sbind (slift (validate_filename name)) (\<lambda>_.
     unless_replayed_pre env op (\<lambda>r. map_option (\<lambda>_. True) (into_remove r)) (
     let creds = credentials_from_auth_context auth in
     remove_resolve env creds dirid name op expected_entry
       (remove_locked env creds dirid name op expected_directory (expected_entry \<noteq> None))))"

definition remove_idempotent :: "op_env \<Rightarrow> auth_context \<Rightarrow> inode_id \<Rightarrow> bytes \<Rightarrow> op_id \<Rightarrow> unit fsm" where
  "remove_idempotent env auth dirid name op =
     sbind (remove_idempotent_inner env auth dirid name op None None) (\<lambda>_. sret ())"

definition remove_idempotent_checked ::
  "op_env \<Rightarrow> auth_context \<Rightarrow> inode_id \<Rightarrow> bytes \<Rightarrow> op_id \<Rightarrow> bool \<Rightarrow> unit fsm" where
  "remove_idempotent_checked env auth dirid name op remove_directory =
     sbind (remove_idempotent_inner env auth dirid name op (Some remove_directory) None) (\<lambda>_. sret ())"

definition remove_if_entry_matches ::
  "op_env \<Rightarrow> auth_context \<Rightarrow> inode_id \<Rightarrow> bytes \<Rightarrow> inode_id \<Rightarrow> u64 \<Rightarrow> bool fsm" where
  "remove_if_entry_matches env auth dirid name expected_inode expected_cookie =
     remove_idempotent_inner env auth dirid name no_op_id None (Some (expected_inode, expected_cookie))"

definition remove_entry :: "op_env \<Rightarrow> auth_context \<Rightarrow> inode_id \<Rightarrow> bytes \<Rightarrow> unit fsm" where
  "remove_entry env auth dirid name = remove_idempotent env auth dirid name no_op_id"

section \<open>Lemmas\<close>

text \<open>Row changes that concern only the data of a file.\<close>

fun data_op :: "txop \<Rightarrow> bool" where
  "data_op (DelExtent _ _) = True"
| "data_op (PutTombstone _ _ _) = True"
| "data_op _ = False"

lemma data_ops_rows:
  assumes "list_all data_op ops"
  shows "m_inodes (apply_ops ops m) = m_inodes m" "m_entries (apply_ops ops m) = m_entries m"
    "m_scans (apply_ops ops m) = m_scans m" "m_cookies (apply_ops ops m) = m_cookies m"
    "m_orphans (apply_ops ops m) = m_orphans m"
proof -
  have "m_inodes (apply_ops ops m) = m_inodes m \<and> m_entries (apply_ops ops m) = m_entries m
    \<and> m_scans (apply_ops ops m) = m_scans m \<and> m_cookies (apply_ops ops m) = m_cookies m
    \<and> m_orphans (apply_ops ops m) = m_orphans m"
    using assms
  proof (induction ops arbitrary: m)
    case (Cons p ops)
    then show ?case
      by (cases p) simp_all
  qed simp
  then show "m_inodes (apply_ops ops m) = m_inodes m" "m_entries (apply_ops ops m) = m_entries m"
    "m_scans (apply_ops ops m) = m_scans m" "m_cookies (apply_ops ops m) = m_cookies m"
    "m_orphans (apply_ops ops m) = m_orphans m"
    by blast+
qed

lemma fold_delete_extent_row:
  "\<exists>ops. list_all data_op ops \<and> tx_ops (fold (delete_extent_row m x) ks t) = tx_ops t @ ops
     \<and> tx_dedup_entry (fold (delete_extent_row m x) ks t) = tx_dedup_entry t"
proof (induction ks arbitrary: t)
  case (Cons k ks)
  have "\<exists>ops. list_all data_op ops \<and> tx_ops (delete_extent_row m x k t) = tx_ops t @ ops
      \<and> tx_dedup_entry (delete_extent_row m x k t) = tx_dedup_entry t"
    by (auto simp: delete_extent_row_def extent_delete_def seg_delta_def split: option.split)
  then show ?case
    using Cons [of "delete_extent_row m x k t"] by auto
qed (simp add: exI [of _ "[]"])

lemma stage_file_data_removalI:
  assumes err: "\<And>e. Q (Inl e) s"
    and ok: "\<And>t' ops ks. list_all data_op ops \<Longrightarrow> tx_ops t' = tx_ops t @ ops \<Longrightarrow>
      tx_dedup_entry t' = tx_dedup_entry t \<Longrightarrow> holds (k t') Q (fold bump ks s)"
  shows "holds (sbind (stage_file_data_removal env x f t) k) Q s"
proof (cases "unat (div_ceil (f_size f) EXTENT_SIZE) \<le> SMALL_FILE_TOMBSTONE_THRESHOLD")
  case True
  show ?thesis
    unfolding stage_file_data_removal_def Let_def if_P [OF True]
  proof (rule holds_readI, rule err)
    fix t'
    assume "delete_range (oe_scan_ok env) (st_meta s) x 0 (div_ceil (f_size f) EXTENT_SIZE) t = Inr t'"
    then have "\<exists>ops. list_all data_op ops \<and> tx_ops t' = tx_ops t @ ops \<and> tx_dedup_entry t' = tx_dedup_entry t"
      using fold_delete_extent_row by (auto simp: delete_range_def exI [of _ "[]"] split: if_splits)
    then show "holds (k t') Q s"
      using ok [of _ t' "[]"] by auto
  qed
next
  case False
  show ?thesis
    unfolding stage_file_data_removal_def Let_def if_not_P [OF False] sbind_assoc
    using ok [of "[PutTombstone (fst (oe_clock env 9)) x (f_size f)]" _ "[TombstonesCreated]"]
    by (intro holds_bumpI) simp
qed

text \<open>What dropping a link does to the rows, whatever they are before.\<close>

definition drops_link :: "bool \<Rightarrow> inode_id \<Rightarrow> inode \<Rightarrow> txop list \<Rightarrow> bool" where
  "drops_link keep x i ops \<longleftrightarrow>
     (\<exists>i'. map_option skel_of i' = unlinked_skel keep (skel_of i)
        \<and> (\<forall>m. m_inodes (apply_ops ops m) = (m_inodes m)(x := i')
             \<and> m_entries (apply_ops ops m) = m_entries m \<and> m_scans (apply_ops ops m) = m_scans m
             \<and> (m_cookies (apply_ops ops m) = m_cookies m \<or> m_cookies (apply_ops ops m) = (m_cookies m)(x := None))
             \<and> m_orphans (apply_ops ops m) = (if map_option sk_links (unlinked_skel keep (skel_of i)) = Some 0
                  then insert x (m_orphans m) else m_orphans m)))"

lemma lower_nlink_skel:
  assumes "\<not> is_directory i" "inode_nlink i > 1"
  shows "skel_of (lower_nlink now i) = SLeaf (unat (inode_nlink i) - 1) (inode_parent i) (inode_name i)"
proof -
  have "\<not> is_directory (lower_nlink now i)"
    using assms(1) by (simp add: lower_nlink_def)
  moreover have "unat (inode_nlink i - 1) = unat (inode_nlink i) - 1"
    using assms(2) by (simp add: unat_sub word_le_nat_alt word_less_nat_alt)
  ultimately show ?thesis
    by (simp add: skel_of_leaf) (simp add: lower_nlink_def inode_nlink_def inode_name_def set_ctime_def)
qed

lemma detach_inode_skel:
  "\<not> is_directory i \<Longrightarrow> skel_of (detach_inode now i) = SLeaf 0 None None"
  "skel_of (detach_inode now (Directory D)) = SDir (unat (d_entry_count D)) 0 (d_parent D) None"
proof -
  show "skel_of (detach_inode now i) = SLeaf 0 None None" if "\<not> is_directory i"
  proof -
    have "\<not> is_directory (detach_inode now i)"
      using that by (simp add: detach_inode_def)
    then show ?thesis
      using that by (simp add: skel_of_leaf) (simp add: detach_inode_def inode_nlink_def inode_name_def set_ctime_def)
  qed
  show "skel_of (detach_inode now (Directory D)) = SDir (unat (d_entry_count D)) 0 (d_parent D) None"
    by (simp add: detach_inode_def set_ctime_def)
qed

text \<open>The three ways.\<close>

lemma drops_link_lower:
  assumes "\<not> is_directory i" "inode_nlink i > 1"
  shows "drops_link keep x i [PutInode x (lower_nlink now i)]"
  using assms lower_nlink_skel [OF assms, of now] word_less_nat_alt [of 1 "inode_nlink i"] unfolding drops_link_def
  by (intro exI [of _ "Some (lower_nlink now i)"]) (simp add: skel_of_leaf unlinked_skel_def)

lemma drops_link_defer:
  assumes "is_directory i \<or> \<not> inode_nlink i > 1"
  shows "drops_link True x i [PutInode x (detach_inode now i), PutOrphan x]"
  using assms detach_inode_skel(1) [of i now] detach_inode_skel(2) [of now] word_less_nat_alt [of 1 "inode_nlink i"]
  unfolding drops_link_def
  by (intro exI [of _ "Some (detach_inode now i)"], cases "is_directory i")
    (auto simp: skel_of_leaf unlinked_skel_def elim!: is_directory.elims)

lemma drops_link_delete:
  assumes "is_directory i \<or> \<not> inode_nlink i > 1" "list_all data_op ops"
  shows "drops_link False x i (ops @ DelInode x # (if is_directory i then [DelCookie x] else []))"
  using assms word_less_nat_alt [of 1 "inode_nlink i"] unfolding drops_link_def
  by (intro exI [of _ None], cases "is_directory i")
    (auto simp: skel_of_leaf unlinked_skel_def data_ops_rows elim!: is_directory.elims)

definition delete_ops :: "inode_id \<Rightarrow> inode \<Rightarrow> txop list" where
  "delete_ops x i = DelInode x # (if is_directory i then [DelCookie x] else [])"

lemma stage_delete_inodeI:
  assumes err: "\<And>e. Q (Inl e) s"
    and ok: "\<And>t' ops ks. list_all data_op ops \<Longrightarrow> tx_ops t' = tx_ops t @ ops @ delete_ops x i \<Longrightarrow>
      tx_dedup_entry t' = tx_dedup_entry t \<Longrightarrow> holds (k t') Q (fold bump ks s)"
  shows "holds (sbind (stage_delete_inode env x i t) k) Q s"
proof (cases i)
  case (File f)
  then show ?thesis
    unfolding stage_delete_inode_def
    by (auto simp: sbind_assoc sbind_sret delete_ops_def intro!: stage_file_data_removalI err ok)
qed (auto simp: stage_delete_inode_def delete_ops_def intro!: ok [of "[]" _ "[]", simplified])

lemma drop_linkI:
  assumes err: "\<And>e ks. Q (Inl e) (fold bump ks s)"
    and ok: "\<And>t' ops ks. drops_link defer_unlinked x i ops \<Longrightarrow> tx_ops t' = tx_ops t @ ops \<Longrightarrow>
      tx_dedup_entry t' = tx_dedup_entry t \<Longrightarrow>
      holds (k (t', defer_unlinked \<and> (is_directory i \<or> \<not> inode_nlink i > 1))) Q (fold bump ks s)"
  shows "holds (sbind (drop_link env now defer_unlinked cnt x i t) k) Q s"
proof -
  have deleted: "holds (sbind (stage_delete_inode env x i t) (\<lambda>t. sbind (s_bump ks) (\<lambda>_. k (t, False)))) Q s"
    if last: "is_directory i \<or> \<not> inode_nlink i > 1" and now: "\<not> defer_unlinked" for ks
  proof (rule stage_delete_inodeI)
    show "Q (Inl e) s" for e
      using err [of e "[]"] by simp
    fix t' :: txn and ops ks'
    assume "list_all data_op ops" "tx_ops t' = tx_ops t @ ops @ delete_ops x i" "tx_dedup_entry t' = tx_dedup_entry t"
    then show "holds (sbind (s_bump ks) (\<lambda>_. k (t', False))) Q (fold bump ks' s)"
      using ok [of "ops @ delete_ops x i" t' "ks' @ ks"] drops_link_delete [OF last, of ops x] now
      by (intro holds_bumpI) (simp add: delete_ops_def)
  qed
  show ?thesis
    unfolding drop_link_def
  proof (split if_split, intro conjI impI)
    assume "\<not> is_directory i \<and> inode_nlink i > 1"
    then show "holds (sbind (sret (inode_save x (lower_nlink now i) t, False)) k) Q s"
      using ok [of _ _ "[]", OF drops_link_lower] by auto
  next
    assume "\<not> (\<not> is_directory i \<and> inode_nlink i > 1)"
    then show "holds (sbind (if defer_unlinked then sret (orphan_add x (inode_save x (detach_inode now i) t), True)
        else sbind (stage_delete_inode env x i t) (\<lambda>t. sbind (s_bump (if cnt then deleted_metrics i else []))
          (\<lambda>_. sret (t, False)))) k) Q s"
      using ok [of "[PutInode x (detach_inode now i), PutOrphan x]" _ "[]"] drops_link_defer [of i x now] deleted
      by (auto simp: sbind_assoc sbind_sret)
  qed
qed

section \<open>Outcome\<close>

text \<open>The entry is gone; the inode stays in the orphan set only while something still uses it. A
  conditional removal of an entry that changed answers \<open>False\<close>.\<close>

definition removed ::
  "op_env \<Rightarrow> credentials \<Rightarrow> inode_id \<Rightarrow> bytes \<Rightarrow> op_id \<Rightarrow> bool option \<Rightarrow> fs \<Rightarrow> fs \<Rightarrow> bool" where
  "removed env creds d n op expected_directory s t \<longleftrightarrow>
     (\<exists>x c i D. validate_filename n = Inr () \<and> m_entries (st_meta s) (d, n) = Some (x, c)
        \<and> m_inodes (st_meta s) d = Some (Directory D) \<and> m_inodes (st_meta s) x = Some i
        \<and> check_access (Directory D) creds Write = Inr () \<and> check_access (Directory D) creds Execute = Inr ()
        \<and> check_sticky_bit_delete (Directory D) i creds = Inr ()
        \<and> entry_count_of i = 0 \<and> (\<forall>b. expected_directory = Some b \<longrightarrow> is_directory i = b)
        \<and> ns_step env (ns_unlink (should_defer_unlinked_inode env s x) d n) op DrRemove s t)"

definition remove_effect ::
  "op_env \<Rightarrow> credentials \<Rightarrow> inode_id \<Rightarrow> bytes \<Rightarrow> op_id \<Rightarrow> bool option \<Rightarrow> bool \<Rightarrow> fs \<Rightarrow> bool \<Rightarrow> fs \<Rightarrow> bool" where
  "remove_effect env creds d n op expected_directory conditional s y t \<longleftrightarrow>
     (if y then removed env creds d n op expected_directory s t
      else conditional \<and> st_meta t = st_meta s \<and> st_ledger t = st_ledger s)"

lemma shrink_dir_skel: "skel_of (Directory (shrink_dir b D)) = shrink b (skel_of (Directory D))"
  by (simp add: shrink_dir_def Let_def unat_saturating_sub)

lemma shrink_dir_place [simp]: "place (Directory (shrink_dir b D)) = place (Directory D)"
  by (simp add: shrink_dir_def place_directory Let_def)

lemma quiet_bump [simp]: "quiet k s (fold bump ks t) = quiet k s t"
  by (simp add: quiet_def)

lemma empty_skel: "entry_count_of i = 0 \<Longrightarrow> is_SDir (skel_of i) \<longrightarrow> sd_count (skel_of i) = 0"
  by (cases i) (simp_all add: entry_count_of_def)

text \<open>Dropping the link and deleting the entry, applied.\<close>

lemma drops_link_dropped:
  assumes "drops_link keep x i ops" "m_entries m (d, n) = Some (x, c)" "m_inodes m x = Some i"
  shows "link_dropped keep d n x c i m (apply_ops (ops @ [DelEntry d n, DelScan d c]) m)"
proof -
  obtain i' where i': "map_option skel_of i' = unlinked_skel keep (skel_of i)"
    and rows: "\<And>m. m_inodes (apply_ops ops m) = (m_inodes m)(x := i')
      \<and> m_entries (apply_ops ops m) = m_entries m \<and> m_scans (apply_ops ops m) = m_scans m
      \<and> (m_cookies (apply_ops ops m) = m_cookies m \<or> m_cookies (apply_ops ops m) = (m_cookies m)(x := None))
      \<and> m_orphans (apply_ops ops m) = (if map_option sk_links (unlinked_skel keep (skel_of i)) = Some 0
           then insert x (m_orphans m) else m_orphans m)"
    using assms(1) unfolding drops_link_def by blast
  show ?thesis
    unfolding link_dropped_def using rows [of m] i' assms(2,3)
    by (intro conjI exI [of _ i']) simp_all
qed

lemma remove_applied:
  fixes env :: op_env and s t :: fs
  assumes inv: "meta_inv (st_meta s)" and D: "m_inodes (st_meta s) d = Some (Directory D)"
    and e: "m_entries (st_meta s) (d, n) = Some (x, c)" and i: "m_inodes (st_meta s) x = Some i"
    and empty: "entry_count_of i = 0" and ops: "drops_link keep x i ops"
    and tx: "tx_ops tx = ops @ [DelEntry d n, DelScan d c]
        @ resave_ops (oe_faults env) (st_meta s) d (Directory (touch_dir now (shrink_dir (is_directory i) D)))"
      "tx_dedup_entry tx = (if has_op_id op then Some \<lparr>dd_op_id = op, dd_result = res\<rparr> else None)"
    and t: "st_meta t = apply_ops (tx_ops tx) (st_meta s)" "st_ledger t = ledger_add (txn_entries tx) (st_ledger s)"
  shows "ns_step env (ns_unlink keep d n) op res s t"
proof -
  note un = meta_unlink [OF inv drops_link_dropped [OF ops e i] empty_skel [OF empty] D,
      where D' = "touch_dir now (shrink_dir (is_directory i) D)" and flt = "oe_faults env"]
  have "place (Directory (touch_dir now (shrink_dir (is_directory i) D))) = place (Directory D)"
    "skel_of (Directory (touch_dir now (shrink_dir (is_directory i) D))) = shrink (is_directory i) (skel_of (Directory D))"
    by (simp, simp only: touch_dir_skel shrink_dir_skel)
  from un [OF this] show ?thesis
    by (simp add: ns_step_def reads_entries_def t tx(1) txn_entries_set [OF tx(2)])
qed

lemma unlink_count_delta_tx [simp]:
  "tx_ops (unlink_count_delta x i b t) = tx_ops t" "tx_dedup_entry (unlink_count_delta x i b t) = tx_dedup_entry t"
  by (simp_all add: unlink_count_delta_def)

lemma op_result_bumped [simp]: "op_result env op ex eff s (Inl e) (fold bump ks s)"
  by (rule op_result_error [where k = 0]) (simp_all add: quiet_def)

lemma remove_commitI:
  assumes inv: "meta_inv (st_meta s)" and D: "m_inodes (st_meta s) d = Some (Directory D)"
    and e: "m_entries (st_meta s) (d, n) = Some (x, c)" and i: "m_inodes (st_meta s) x = Some i"
    and new: "dedup_get (st_ledger s) op = None"
    and eff: "\<And>t. entry_count_of i = 0 \<Longrightarrow> ns_step env (ns_unlink keep d n) op DrRemove s t \<Longrightarrow> eff True t"
  shows "holds (remove_commit env d D n x c i keep op) (op_result env op ex eff s) s"
  unfolding remove_commit_def Let_def
proof (rule holds_liftI, simp, rule holds_checkI, simp, rule drop_linkI, simp, unfold prod.case holds_bind_simps)
  fix t0 t' :: txn and ops ks
  assume t0: "new_transaction env = Inr t0" and empty: "entry_count_of i = 0" and ops: "drops_link keep x i ops"
    and t': "tx_ops t' = tx_ops (set_dedup_result op DrRemove t0) @ ops"
      "tx_dedup_entry t' = tx_dedup_entry (set_dedup_result op DrRemove t0)"
  let ?deferred = "keep \<and> (is_directory i \<or> \<not> inode_nlink i > 1)"
  let ?tx = "unlink_count_delta x i ?deferred (save_directory (oe_faults env) (st_meta (fold bump ks s)) d
    (touch_dir (oe_clock env 0) (shrink_dir (is_directory i) D)) (dir_unlink_entry d n c t'))"
  have "tx_ops ?tx = ops @ [DelEntry d n, DelScan d c] @ resave_ops (oe_faults env) (st_meta s) d
      (Directory (touch_dir (oe_clock env 0) (shrink_dir (is_directory i) D)))"
    "tx_dedup_entry ?tx = (if has_op_id op then Some \<lparr>dd_op_id = op, dd_result = DrRemove\<rparr> else None)"
    using new_transaction_Inr [OF t0] t' by simp_all
  note ap = remove_applied [OF inv D e i empty ops this]
  show "holds (sbind (s_commit env ?tx (unlink_settlement x i ?deferred))
      (\<lambda>_. sbind (s_bump [WriteOperations, TotalOperations]) (\<lambda>_. sret True))) (op_result env op ex eff s) (fold bump ks s)"
    by (rule commit_resultI [where k = 0], simp add: quiet_def, simp, rule new, rule eff [OF empty ap])
qed

lemma remove_resolveI:
  assumes "\<And>entry. holds (k entry) (op_result env op ex eff s) s" "ex = (\<lambda>r. map_option (\<lambda>_. True) (into_remove r))"
  shows "holds (remove_resolve env creds d n op expected k) (op_result env op ex eff s) s"
  unfolding remove_resolve_def
  by (rule holds_liftI, simp, rule holds_checkI, simp, rule holds_liftI, simp, rule holds_checkI, simp)
    (auto intro!: replayedI assms(1) simp: assms(2) [symmetric] split: option.split sum.split)

lemma remove_verifiedI:
  assumes inv: "meta_inv (st_meta s)" and D: "m_inodes (st_meta s) d = Some (Directory D)"
    and acc: "check_access (Directory D) creds Write = Inr ()" "check_access (Directory D) creds Execute = Inr ()"
    and name: "validate_filename n = Inr ()" and new: "dedup_get (st_ledger s) op = None"
    and v: "verified = get_entry_with_cookie (oe_faults env) (st_meta s) d n"
  shows "holds (remove_verified env creds d D n op expdir conditional x c verified)
    (op_result env op ex (remove_effect env creds d n op expdir conditional s) s) s"
proof -
  have no: "op_result env op ex (remove_effect env creds d n op expdir conditional s) s (Inr False) s" if conditional
    unfolding op_result_def using that by (auto simp: remove_effect_def new intro!: exI [of _ 0] exI [of _ False])
  have yes: "holds (sbind (s_inode_get env x) (\<lambda>i.
        sbind (slift (case (expdir, is_directory i) of
            (Some True, False) \<Rightarrow> Inl NotDirectory | (Some False, True) \<Rightarrow> Inl IsDirectory | _ \<Rightarrow> Inr ())) (\<lambda>_.
        sbind (sread (\<lambda>s. Inr (should_defer_unlinked_inode env s x))) (\<lambda>defer_unlinked.
        sbind (slift (check_sticky_bit_delete (Directory D) i creds)) (\<lambda>_.
        remove_commit env d D n x c i defer_unlinked op)))))
      (op_result env op ex (remove_effect env creds d n op expdir conditional s) s) s"
    if e: "m_entries (st_meta s) (d, n) = Some (x, c)"
    unfolding s_inode_get_def
  proof (rule holds_readI, simp, rule holds_liftI, simp, unfold holds_bind_simps, rule holds_liftI, simp)
    fix i u v
    assume i: "inode_get (oe_faults env) (st_meta s) x = Inr i"
      and k: "(case (expdir, is_directory i) of
            (Some True, False) \<Rightarrow> Inl NotDirectory | (Some False, True) \<Rightarrow> Inl IsDirectory | _ \<Rightarrow> Inr ()) = Inr u"
      and sticky: "check_sticky_bit_delete (Directory D) i creds = Inr v"
    have "\<forall>b. expdir = Some b \<longrightarrow> is_directory i = b"
      using k by (auto split: option.splits bool.splits)
    then show "holds (remove_commit env d D n x c i (should_defer_unlinked_inode env s x) op)
        (op_result env op ex (remove_effect env creds d n op expdir conditional s) s) s"
      using sticky acc name inode_get_Inr [OF i] D e
      by (intro remove_commitI inv D e new) (auto simp: remove_effect_def removed_def)
  qed
  show ?thesis
    unfolding remove_verified_def
    using no yes v by (auto simp: get_entry_Inr split: sum.split prod.split)
qed

lemma remove_lockedI:
  assumes inv: "fs_inv s" and name: "validate_filename n = Inr ()"
  shows "holds (remove_locked env creds d n op expdir conditional entry)
    (op_result env op (\<lambda>r. map_option (\<lambda>_. True) (into_remove r))
      (remove_effect env creds d n op expdir conditional s) s) s"
  unfolding remove_locked_def s_inode_get_def using inv name
  by (intro holds_liftI replayedI holds_readI holds_directoryI holds_checkI op_result_refused)
    (auto intro!: remove_verifiedI dest: inode_get_Inr simp: fs_inv_def)

lemma remove_result:
  assumes inv: "fs_inv s"
  shows "holds (remove_idempotent_inner env auth d n op expdir expected)
    (op_result env op (\<lambda>r. map_option (\<lambda>_. True) (into_remove r))
      (remove_effect env (credentials_from_auth_context auth) d n op expdir (expected \<noteq> None) s) s) s"
  unfolding remove_idempotent_inner_def Let_def
  by (rule holds_liftI, simp, rule replayed_preI, rule remove_resolveI, rule remove_lockedI [OF inv]) simp_all

section \<open>The contract\<close>

lemma removed_effect_ok:
  assumes "removed env creds d n op expdir s t" and ans: "ans DrRemove = Some y"
  shows "effect_ok env op ans s y t"
proof -
  obtain x c where e: "m_entries (st_meta s) (d, n) = Some (x, c)"
    and st: "ns_step env (ns_unlink (should_defer_unlinked_inode env s x) d n) op DrRemove s t"
    using assms(1) unfolding removed_def by blast
  have "ns_ents (ns_of (st_meta s)) (d, n) = Some x"
    using e by (simp add: ns_of_def)
  then show ?thesis
    using ans by (intro effect_ok_step [OF st] disjI1 [OF ns_unlink_dom(1)])
      (auto simp: should_defer_unlinked_inode_def word_gt_0 dest!: ns_unlink_dom(2))
qed

interpretation remove_op: ns_operation
  "\<lambda>env s r t. remove_idempotent_inner env auth d n op expdir expected s = (r, t)" op
  "\<lambda>r. map_option (\<lambda>_. True) (into_remove r)"
  "\<lambda>env. remove_effect env (credentials_from_auth_context auth) d n op expdir (expected \<noteq> None)" "\<lambda>_ _. True"
  for auth d n op expdir expected
proof
  show "remove_effect env (credentials_from_auth_context auth) d n op expdir (expected \<noteq> None) s y t \<Longrightarrow>
      effect_ok env op (\<lambda>r. map_option (\<lambda>_. True) (into_remove r)) s y t" if "fs_inv s" for env s y t
    using effect_ok_same [OF that, of t env] by (auto simp: remove_effect_def removed_effect_ok split: if_splits)
qed (rule holdsD [OF remove_result])

section \<open>Properties\<close>


definition example_remove :: "bool fs_result \<times> fs" where
  "example_remove = remove_idempotent_inner (example_env\<lparr>oe_pre := example_tree\<rparr>) default_auth_context 1 [0x66]
     example_op None None example_tree"


end
