(* ===== verification/Op_Rename.thy ===== *)
theory Op_Rename
  imports Op_Remove
begin

text \<open>
  \<open>rename\<close> (\<open>fs/ops/rename.rs\<close>): names are resolved before the locks and verified under them, a
  directory may not move below itself, an existing target loses a link first, and the source
  entry, the target entry and both directories change in one transaction.

  The ancestor check follows parent pointers in a loop that has no bound of its own, so
  \<open>is_ancestor_loop\<close> is a partial function: not returning is the value \<open>None\<close>, and \<open>rename\<close> as a
  whole does not return when the check does not. Hashing of file contents for a verified rename
  is the parameter \<open>hash\<close>.
\<close>

section \<open>The ancestor check\<close>

partial_function (option) is_ancestor_loop ::
  "faults \<Rightarrow> meta \<Rightarrow> inode_id \<Rightarrow> inode_id \<Rightarrow> bool fs_result option" where
  "is_ancestor_loop flt m ancestor_id current_id =
     (if current_id = 0 then Some (Inr False)
      else (case inode_get flt m current_id of
              Inl e \<Rightarrow> Some (Inl e)
            | Inr i \<Rightarrow>
                (case inode_parent i of
                   None \<Rightarrow> Some (Inr False)
                 | Some pid \<Rightarrow>
                     if pid = ancestor_id then Some (Inr True)
                     else is_ancestor_loop flt m ancestor_id pid)))"

declare is_ancestor_loop.simps [code]

definition is_ancestor_of :: "faults \<Rightarrow> meta \<Rightarrow> inode_id \<Rightarrow> inode_id \<Rightarrow> bool fs_result option" where
  "is_ancestor_of flt m ancestor_id descendant_id =
     (if ancestor_id = descendant_id then Some (Inr True)
      else is_ancestor_loop flt m ancestor_id descendant_id)"

section \<open>Resolving and verifying the names\<close>

record verified_expectation =
  ve_inode :: inode_id
  ve_entry_cookie :: u64
  ve_size :: u64
  ve_sha256 :: "bytes option"

record verified_content =
  vc_size :: u64
  vc_sha256 :: bytes

datatype rename_outcome = Published verified_content | Mismatch verified_content

record rename_plan =
  rp_source_id :: inode_id
  rp_source_cookie :: u64
  rp_source_inode :: inode
  rp_target :: "(inode_id \<times> u64) option"

definition expectation_met :: "verified_expectation option \<Rightarrow> inode_id \<Rightarrow> u64 \<Rightarrow> bool" where
  "expectation_met verification ino cookie =
     (case verification of
        None \<Rightarrow> True
      | Some expected \<Rightarrow> \<not> (ve_inode expected \<noteq> ino \<or> ve_entry_cookie expected \<noteq> cookie))"

text \<open>A missing target is not an error.\<close>

definition optional_entry :: "(inode_id \<times> u64) fs_result \<Rightarrow> (inode_id \<times> u64) option fs_result" where
  "optional_entry r =
     (case r of Inr e \<Rightarrow> Inr (Some e) | Inl e \<Rightarrow> if e = NotFound then Inr None else Inl e)"

text \<open>A rename that changes nothing still records its result.\<close>

definition record_rename_result :: "op_env \<Rightarrow> op_id \<Rightarrow> unit fsm" where
  "record_rename_result env op =
     (if has_op_id op then
        sbind (slift (new_transaction env)) (\<lambda>t.
        s_commit env (set_dedup_result op DrRename t) NoSettlement)
      else sret ())"

definition rename_verify ::
  "op_env \<Rightarrow> inode_id \<Rightarrow> bytes \<Rightarrow> inode_id \<Rightarrow> bytes \<Rightarrow> bool \<Rightarrow> verified_expectation option \<Rightarrow>
   inode_id \<Rightarrow> u64 \<Rightarrow> (inode_id \<times> u64) option \<Rightarrow> rename_plan option fsm" where
  "rename_verify env from_dirid from_name to_dirid to_name replace_existing verification
       source_inode_id source_cookie target_entry =
     sbind (s_get_entry env from_dirid from_name) (\<lambda>(verified_source_id, verified_source_cookie).
     sbind (slift (check (verified_source_id = source_inode_id \<and> verified_source_cookie = source_cookie)
       StaleHandle)) (\<lambda>_.
     sbind (slift (check (expectation_met verification verified_source_id verified_source_cookie)
       StaleHandle)) (\<lambda>_.
     sbind (sread (\<lambda>s. optional_entry (get_entry_with_cookie (oe_faults env) (st_meta s) to_dirid to_name)))
       (\<lambda>verified_target_entry.
     sbind (slift (check (replace_existing \<or> verified_target_entry = None) Exists)) (\<lambda>_.
     sbind (slift (check (map_option fst verified_target_entry = map_option fst target_entry)
       StaleHandle)) (\<lambda>_.
     sbind (s_inode_get env source_inode_id) (\<lambda>source_inode.
     sret (Some \<lparr>rp_source_id = source_inode_id, rp_source_cookie = source_cookie,
       rp_source_inode = source_inode, rp_target = verified_target_entry\<rparr>))))))))"

definition rename_lookup ::
  "op_env \<Rightarrow> inode_id \<Rightarrow> bytes \<Rightarrow> inode_id \<Rightarrow> bytes \<Rightarrow> op_id \<Rightarrow> bool \<Rightarrow> verified_expectation option \<Rightarrow>
   rename_plan option fsm" where
  "rename_lookup env from_dirid from_name to_dirid to_name op replace_existing verification =
     (case get_entry_with_cookie (oe_pre_faults env) (st_meta (oe_pre env)) from_dirid from_name of
        Inl e \<Rightarrow> unless_replayed op (\<lambda>r. map_option (\<lambda>_. None) (into_rename r)) (sfail e)
      | Inr (source_inode_id, source_cookie) \<Rightarrow>
          sbind (slift (check (expectation_met verification source_inode_id source_cookie) StaleHandle)) (\<lambda>_.
          sbind (slift (check (to_dirid \<noteq> source_inode_id) InvalidArgument)) (\<lambda>_.
          sbind (slift (optional_entry
              (get_entry_with_cookie (oe_pre_faults env) (st_meta (oe_pre env)) to_dirid to_name)))
            (\<lambda>target_entry.
          sbind (slift (fence_metadata env)) (\<lambda>_.
          unless_replayed op (\<lambda>r. map_option (\<lambda>_. None) (into_rename r)) (
          rename_verify env from_dirid from_name to_dirid to_name replace_existing verification
            source_inode_id source_cookie target_entry))))))"

definition rename_resolve ::
  "op_env \<Rightarrow> inode_id \<Rightarrow> bytes \<Rightarrow> inode_id \<Rightarrow> bytes \<Rightarrow> op_id \<Rightarrow> bool \<Rightarrow> verified_expectation option \<Rightarrow>
   rename_plan option fsm" where
  "rename_resolve env from_dirid from_name to_dirid to_name op replace_existing verification =
     sbind (slift (check (from_name \<noteq> [] \<and> to_name \<noteq> []) InvalidArgument)) (\<lambda>_.
     sbind (slift (validate_filename from_name)) (\<lambda>_.
     sbind (slift (validate_filename to_name)) (\<lambda>_.
     unless_replayed_pre env op (\<lambda>r. map_option (\<lambda>_. None) (into_rename r)) (
     sbind (slift (check (\<not> (from_name = [0x2E] \<or> from_name = [0x2E, 0x2E])) InvalidArgument)) (\<lambda>_.
     sbind (slift (check (\<not> (to_name = [0x2E] \<or> to_name = [0x2E, 0x2E])) Exists)) (\<lambda>_.
     if verification = None \<and> from_dirid = to_dirid \<and> from_name = to_name then
       sbind (record_rename_result env op) (\<lambda>_. sret None)
     else
       rename_lookup env from_dirid from_name to_dirid to_name op replace_existing verification))))))"

section \<open>Checks under the locks\<close>

definition live_or_other :: "inode \<Rightarrow> bool" where
  "live_or_other i = (case i of Directory d \<Rightarrow> i_nlink (d_attrs d) \<noteq> 0 | _ \<Rightarrow> True)"

definition rename_access :: "credentials \<Rightarrow> inode \<Rightarrow> inode option \<Rightarrow> inode \<Rightarrow> unit fs_result" where
  "rename_access creds from_dir to_dir source_inode =
     try_bind (check (live_or_other from_dir \<and> (case to_dir of Some d \<Rightarrow> live_or_other d | None \<Rightarrow> True))
       StaleHandle) (\<lambda>_.
     try_bind (check_access from_dir creds Write) (\<lambda>_.
     try_bind (check_access from_dir creds Execute) (\<lambda>_.
     try_bind (case to_dir of Some d \<Rightarrow> check_access d creds Write | None \<Rightarrow> Inr ()) (\<lambda>_.
     try_bind (case to_dir of Some d \<Rightarrow> check_access d creds Execute | None \<Rightarrow> Inr ()) (\<lambda>_.
     try_bind (check_sticky_bit_delete from_dir source_inode creds) (\<lambda>_.
     check (\<not> (to_dir \<noteq> None \<and> is_directory source_inode \<and> is_directory from_dir
                \<and> inode_mode from_dir AND 0x200 \<noteq> 0
                \<and> cr_uid creds \<noteq> 0 \<and> cr_uid creds \<noteq> inode_uid source_inode))
       PermissionDenied))))))"

definition rename_target_ok :: "credentials \<Rightarrow> inode \<Rightarrow> inode \<Rightarrow> inode \<Rightarrow> unit fs_result" where
  "rename_target_ok creds target_dir source_inode i =
     (if is_directory source_inode \<and> \<not> is_directory i then Inl NotDirectory
      else if \<not> is_directory source_inode \<and> is_directory i then Inl IsDirectory
      else if entry_count_of i > 0 then Inl NotEmpty
      else check_sticky_bit_delete target_dir i creds)"

text \<open>Comparing the hashed content with what the caller expects.\<close>

definition content_matches :: "verified_expectation \<Rightarrow> verified_content \<Rightarrow> bool" where
  "content_matches expected actual \<longleftrightarrow>
     \<not> (vc_size actual \<noteq> ve_size expected \<or> ve_sha256 expected \<noteq> Some (vc_sha256 actual))"

section \<open>Staging the move\<close>

definition relocate_inode :: "bool \<Rightarrow> inode_id \<Rightarrow> bytes \<Rightarrow> inode \<Rightarrow> inode" where
  "relocate_inode dir_changed to_dirid to_name i =
     (case i of
        Directory d \<Rightarrow>
          (let d = (if dir_changed then d\<lparr>d_parent := to_dirid\<rparr> else d)
           in Directory (d\<lparr>d_attrs := (d_attrs d)\<lparr>i_name := Some to_name\<rparr>\<rparr>))
      | _ \<Rightarrow>
          if inode_nlink i = 1
          then set_link_parent (Some to_dirid) (map_inode_attrs (\<lambda>a. a\<lparr>i_name := Some to_name\<rparr>) i)
          else i)"

definition save_dir_inode :: "faults \<Rightarrow> meta \<Rightarrow> inode_id \<Rightarrow> inode \<Rightarrow> txn \<Rightarrow> txn" where
  "save_dir_inode flt m ino i t =
     (case i of Directory d \<Rightarrow> save_directory flt m ino d t | _ \<Rightarrow> inode_save ino i t)"

definition rename_from_dir :: "u64 \<times> u32 \<Rightarrow> bool \<Rightarrow> bool \<Rightarrow> bool \<Rightarrow> bool \<Rightarrow> inode \<Rightarrow> inode" where
  "rename_from_dir now dir_changed has_target is_moved_dir target_was_directory i =
     (case i of
        Directory d \<Rightarrow>
          Directory (touch_dir now
            (if dir_changed then shrink_dir is_moved_dir d
             else if has_target then shrink_dir target_was_directory d
             else d))
      | _ \<Rightarrow> i)"

definition rename_to_dir :: "u64 \<times> u32 \<Rightarrow> bool \<Rightarrow> bool \<Rightarrow> bool \<Rightarrow> inode \<Rightarrow> inode fs_result" where
  "rename_to_dir now has_target is_moved_dir target_was_directory i =
     (case i of
        Directory d \<Rightarrow>
          (let d = (if has_target then d else d\<lparr>d_entry_count := d_entry_count d + 1\<rparr>);
               grow = (is_moved_dir \<and> (\<not> has_target \<or> \<not> target_was_directory))
           in
           if grow \<and> i_nlink (d_attrs d) = - 1 then Inl NoSpace
           else
             let d = (if grow then d\<lparr>d_attrs := (d_attrs d)\<lparr>i_nlink := i_nlink (d_attrs d) + 1\<rparr>\<rparr> else d)
             in Inr (Directory (touch_dir now d)))
      | _ \<Rightarrow> Inr i)"

definition renamed_metrics :: "inode \<Rightarrow> metric list" where
  "renamed_metrics i =
     (case i of
        File _ \<Rightarrow> [FilesRenamed] | Directory _ \<Rightarrow> [DirectoriesRenamed] | Symlink _ \<Rightarrow> [LinksRenamed] | _ \<Rightarrow> [])"

text \<open>The existing target loses a link and its entry.\<close>

definition rename_drop_target ::
  "op_env \<Rightarrow> inode_id \<Rightarrow> bytes \<Rightarrow> (inode_id \<times> u64 \<times> inode) option \<Rightarrow> bool \<Rightarrow> txn \<Rightarrow>
   (txn \<times> commit_settlement) fsm" where
  "rename_drop_target env to_dirid to_name target target_should_defer t =
     (case target of
        None \<Rightarrow> sret (t, NoSettlement)
      | Some (target_id, target_cookie, existing_inode) \<Rightarrow>
          sbind (drop_link env (oe_clock env 1) target_should_defer False target_id existing_inode t)
            (\<lambda>(t, target_deferred).
          let t = unlink_count_delta target_id existing_inode target_deferred t;
              t = dir_unlink_entry to_dirid to_name target_cookie t
          in sret (t, unlink_settlement target_id existing_inode target_deferred)))"

text \<open>The source entry moves; within a directory it keeps its cookie.\<close>

definition rename_move_entry ::
  "op_env \<Rightarrow> inode_id \<Rightarrow> bytes \<Rightarrow> inode_id \<Rightarrow> bytes \<Rightarrow> inode_id \<Rightarrow> u64 \<Rightarrow> inode \<Rightarrow> txn \<Rightarrow> txn fsm" where
  "rename_move_entry env from_dirid from_name to_dirid to_name source_id source_cookie source_inode t =
     (let t = dir_unlink_entry from_dirid from_name source_cookie t in
      sbind (if from_dirid \<noteq> to_dirid
             then sread (\<lambda>s. allocate_cookie (oe_faults env) (st_meta s) to_dirid t)
             else sret (source_cookie, t)) (\<lambda>(new_cookie, t).
      let embed_inode = (if inode_nlink source_inode = 1 then Some source_inode else None);
          t = dir_add to_dirid to_name source_id new_cookie embed_inode t
      in sret (inode_save source_id source_inode t)))"

text \<open>The directories are saved with their new counts.\<close>

definition rename_save_dirs ::
  "op_env \<Rightarrow> inode_id \<Rightarrow> inode_id \<Rightarrow> inode \<Rightarrow> inode option \<Rightarrow> bool \<Rightarrow> bool \<Rightarrow> bool \<Rightarrow> txn \<Rightarrow> txn fsm" where
  "rename_save_dirs env from_dirid to_dirid from_dir to_dir has_target is_moved_dir target_was_directory t =
     (let now = oe_clock env 0;
          from_dir = rename_from_dir now (from_dirid \<noteq> to_dirid) has_target is_moved_dir target_was_directory from_dir
      in
      sbind (sread (\<lambda>s. Inr (save_dir_inode (oe_faults env) (st_meta s) from_dirid from_dir t))) (\<lambda>t.
      case to_dir of
        None \<Rightarrow> sret t
      | Some d \<Rightarrow>
          sbind (slift (rename_to_dir now has_target is_moved_dir target_was_directory d)) (\<lambda>d.
          sread (\<lambda>s. Inr (save_dir_inode (oe_faults env) (st_meta s) to_dirid d t)))))"

definition target_is_dir :: "(inode_id \<times> u64 \<times> inode) option \<Rightarrow> bool" where
  "target_is_dir target = (case target of Some (_, _, i) \<Rightarrow> is_directory i | None \<Rightarrow> False)"

definition rename_stage ::
  "op_env \<Rightarrow> inode_id \<Rightarrow> bytes \<Rightarrow> inode_id \<Rightarrow> bytes \<Rightarrow> rename_plan \<Rightarrow> inode \<Rightarrow> inode option \<Rightarrow>
   (inode_id \<times> u64 \<times> inode) option \<Rightarrow> txn \<Rightarrow> txn fsm" where
  "rename_stage env from_dirid from_name to_dirid to_name plan from_dir to_dir target t =
     (let source_inode = relocate_inode (from_dirid \<noteq> to_dirid) to_dirid to_name (rp_source_inode plan) in
      sbind (rename_move_entry env from_dirid from_name to_dirid to_name (rp_source_id plan)
        (rp_source_cookie plan) source_inode t) (\<lambda>t.
      rename_save_dirs env from_dirid to_dirid from_dir to_dir (target \<noteq> None) (is_directory source_inode)
        (target_is_dir target) t))"

definition rename_publish ::
  "op_env \<Rightarrow> inode_id \<Rightarrow> bytes \<Rightarrow> inode_id \<Rightarrow> bytes \<Rightarrow> op_id \<Rightarrow> rename_plan \<Rightarrow> inode \<Rightarrow> inode option \<Rightarrow>
   (inode_id \<times> u64 \<times> inode) option \<Rightarrow> bool \<Rightarrow> verified_content option \<Rightarrow> rename_outcome option fsm" where
  "rename_publish env from_dirid from_name to_dirid to_name op plan from_dir to_dir target
       target_should_defer content =
     sbind (slift (new_transaction env)) (\<lambda>t.
     let t = set_dedup_result op DrRename t in
     sbind (rename_drop_target env to_dirid to_name target target_should_defer t) (\<lambda>(t, settlement).
     sbind (rename_stage env from_dirid from_name to_dirid to_name plan from_dir to_dir target t) (\<lambda>t.
     sbind (s_commit env t settlement) (\<lambda>_.
     sbind (s_bump (renamed_metrics (rp_source_inode plan) @ [WriteOperations, TotalOperations])) (\<lambda>_.
     sret (map_option Published content))))))"

text \<open>Two links of one inode: nothing moves, the result is recorded.\<close>

definition rename_same_inode ::
  "op_env \<Rightarrow> (inode_id \<Rightarrow> verified_content fs_result) \<Rightarrow> credentials \<Rightarrow> op_id \<Rightarrow>
   verified_expectation option \<Rightarrow> rename_plan \<Rightarrow> inode option \<Rightarrow> rename_outcome option fsm" where
  "rename_same_inode env hash creds op verification plan to_dir =
     sbind (slift (case to_dir of
         Some d \<Rightarrow> check_sticky_bit_delete d (rp_source_inode plan) creds | None \<Rightarrow> Inr ())) (\<lambda>_.
     sbind (record_rename_result env op) (\<lambda>_.
     case verification of
       None \<Rightarrow> sret None
     | Some expected \<Rightarrow>
         sbind (slift (hash (rp_source_id plan))) (\<lambda>actual.
         sret (Some (if content_matches expected actual then Published actual else Mismatch actual)))))"

definition rename_target ::
  "op_env \<Rightarrow> credentials \<Rightarrow> inode \<Rightarrow> inode \<Rightarrow> (inode_id \<times> u64) option \<Rightarrow>
   (inode_id \<times> u64 \<times> inode) option fsm" where
  "rename_target env creds target_dir source_inode entry =
     (case entry of
        None \<Rightarrow> sret None
      | Some (target_id, target_cookie) \<Rightarrow>
          sbind (s_inode_get env target_id) (\<lambda>i.
          sbind (slift (rename_target_ok creds target_dir source_inode i)) (\<lambda>_.
          sret (Some (target_id, target_cookie, i)))))"

definition rename_content ::
  "(inode_id \<Rightarrow> verified_content fs_result) \<Rightarrow> verified_expectation option \<Rightarrow> rename_plan \<Rightarrow>
   (verified_expectation \<times> verified_content) option fs_result" where
  "rename_content hash verification plan =
     (case verification of
        None \<Rightarrow> Inr None
      | Some expected \<Rightarrow> try_bind (hash (rp_source_id plan)) (\<lambda>actual. Inr (Some (expected, actual))))"

text \<open>After the access checks: nothing to do, a mismatch, or the move.\<close>

definition rename_checked ::
  "op_env \<Rightarrow> (inode_id \<Rightarrow> verified_content fs_result) \<Rightarrow> credentials \<Rightarrow> inode_id \<Rightarrow> bytes \<Rightarrow> inode_id \<Rightarrow>
   bytes \<Rightarrow> op_id \<Rightarrow> verified_expectation option \<Rightarrow> rename_plan \<Rightarrow> inode \<Rightarrow> inode option \<Rightarrow> rename_outcome option fsm" where
  "rename_checked env hash creds from_dirid from_name to_dirid to_name op verification plan from_dir to_dir =
     (if map_option fst (rp_target plan) = Some (rp_source_id plan) then
       rename_same_inode env hash creds op verification plan to_dir
     else
       sbind (rename_target env creds (case to_dir of Some d \<Rightarrow> d | None \<Rightarrow> from_dir) (rp_source_inode plan)
           (rp_target plan)) (\<lambda>target.
       sbind (sread (\<lambda>s. Inr (case target of
           Some (target_id, _) \<Rightarrow> should_defer_unlinked_inode env s target_id | None \<Rightarrow> False)))
         (\<lambda>target_should_defer.
       sbind (slift (rename_content hash verification plan)) (\<lambda>verified.
       if (case verified of Some (expected, actual) \<Rightarrow> \<not> content_matches expected actual | None \<Rightarrow> False)
       then sret (map_option (\<lambda>(_, actual). Mismatch actual) verified)
       else rename_publish env from_dirid from_name to_dirid to_name op plan from_dir to_dir target
              target_should_defer (map_option snd verified)))))"

definition rename_apply ::
  "op_env \<Rightarrow> (inode_id \<Rightarrow> verified_content fs_result) \<Rightarrow> auth_context \<Rightarrow> inode_id \<Rightarrow> bytes \<Rightarrow> inode_id \<Rightarrow>
   bytes \<Rightarrow> op_id \<Rightarrow> verified_expectation option \<Rightarrow> rename_plan \<Rightarrow> rename_outcome option fsm" where
  "rename_apply env hash auth from_dirid from_name to_dirid to_name op verification plan =
     (let creds = credentials_from_auth_context auth in
     sbind (s_inode_get env from_dirid) (\<lambda>from_dir.
     sbind (if from_dirid \<noteq> to_dirid
            then sbind (s_inode_get env to_dirid) (\<lambda>d. sret (Some d)) else sret None) (\<lambda>to_dir.
     sbind (slift (rename_access creds from_dir to_dir (rp_source_inode plan))) (\<lambda>_.
     rename_checked env hash creds from_dirid from_name to_dirid to_name op verification plan from_dir to_dir))))"

section \<open>rename\<close>

definition rename_with_options ::
  "op_env \<Rightarrow> (inode_id \<Rightarrow> verified_content fs_result) \<Rightarrow> auth_context \<Rightarrow> inode_id \<Rightarrow> bytes \<Rightarrow> inode_id \<Rightarrow>
   bytes \<Rightarrow> op_id \<Rightarrow> bool \<Rightarrow> verified_expectation option \<Rightarrow> fs \<Rightarrow> (rename_outcome option fs_result \<times> fs) option" where
  "rename_with_options env hash auth from_dirid from_name to_dirid to_name op replace_existing verification s =
     (case rename_resolve env from_dirid from_name to_dirid to_name op replace_existing verification s of
        (Inl e, s) \<Rightarrow> Some (Inl e, s)
      | (Inr None, s) \<Rightarrow> Some (Inr None, s)
      | (Inr (Some plan), s) \<Rightarrow>
          (case (if is_directory (rp_source_inode plan)
                 then is_ancestor_of (oe_faults env) (st_meta s) (rp_source_id plan) to_dirid
                 else Some (Inr False)) of
             None \<Rightarrow> None
           | Some (Inl e) \<Rightarrow> Some (Inl e, s)
           | Some (Inr True) \<Rightarrow> Some (Inl InvalidArgument, s)
           | Some (Inr False) \<Rightarrow>
               Some (rename_apply env hash auth from_dirid from_name to_dirid to_name op verification plan s)))"

definition rename_idempotent ::
  "op_env \<Rightarrow> auth_context \<Rightarrow> inode_id \<Rightarrow> bytes \<Rightarrow> inode_id \<Rightarrow> bytes \<Rightarrow> op_id \<Rightarrow> fs \<Rightarrow>
   (rename_outcome option fs_result \<times> fs) option" where
  "rename_idempotent env auth from_dirid from_name to_dirid to_name op =
     rename_with_options env (\<lambda>_. Inl IoError) auth from_dirid from_name to_dirid to_name op True None"

definition rename_noreplace_idempotent ::
  "op_env \<Rightarrow> auth_context \<Rightarrow> inode_id \<Rightarrow> bytes \<Rightarrow> inode_id \<Rightarrow> bytes \<Rightarrow> op_id \<Rightarrow> fs \<Rightarrow>
   (rename_outcome option fs_result \<times> fs) option" where
  "rename_noreplace_idempotent env auth from_dirid from_name to_dirid to_name op =
     rename_with_options env (\<lambda>_. Inl IoError) auth from_dirid from_name to_dirid to_name op False None"

definition rename_verified ::
  "op_env \<Rightarrow> (inode_id \<Rightarrow> verified_content fs_result) \<Rightarrow> auth_context \<Rightarrow> inode_id \<Rightarrow> bytes \<Rightarrow> inode_id \<Rightarrow>
   bytes \<Rightarrow> verified_expectation \<Rightarrow> fs \<Rightarrow> (rename_outcome fs_result \<times> fs) option" where
  "rename_verified env hash auth from_dirid from_name to_dirid to_name expected s =
     map_option (\<lambda>(r, s). (try_bind r (ok_or IoError), s))
       (rename_with_options env hash auth from_dirid from_name to_dirid to_name no_op_id True
          (Some expected) s)"

definition rename ::
  "op_env \<Rightarrow> auth_context \<Rightarrow> inode_id \<Rightarrow> bytes \<Rightarrow> inode_id \<Rightarrow> bytes \<Rightarrow> fs \<Rightarrow>
   (rename_outcome option fs_result \<times> fs) option" where
  "rename env auth from_dirid from_name to_dirid to_name =
     rename_idempotent env auth from_dirid from_name to_dirid to_name no_op_id"

section \<open>The ancestor check: soundness and termination\<close>

lemma inode_parent_directory: "skel_of i = SDir c l p nm \<Longrightarrow> inode_parent i = Some p"
  by (cases i) simp_all

lemma is_ancestor_loop_sound:
  "above (ns_of m) a d \<Longrightarrow> d \<noteq> a \<Longrightarrow> is_ancestor_loop flt m a d \<noteq> Some (Inr False)"
proof (induction rule: above.induct)
  case (up d c l p nm)
  show ?case
  proof (cases "inode_get flt m d")
    case (Inr i)
    then have "inode_parent i = Some p"
      using up.hyps(2) inode_get_Inr [OF Inr] by (auto dest: inode_parent_directory)
    then show ?thesis
      using up Inr by (subst is_ancestor_loop.simps) auto
  qed (use up.hyps(1) in \<open>subst is_ancestor_loop.simps, simp\<close>)
qed simp

lemma is_ancestor_of_sound:
  "is_ancestor_of flt m a d = Some (Inr False) \<Longrightarrow> \<not> above (ns_of m) a d"
  using is_ancestor_loop_sound [of m a d flt] by (auto simp: is_ancestor_of_def split: if_splits)

lemma is_ancestor_loop_returns: "rooted (ns_of m) d \<Longrightarrow> \<exists>r. is_ancestor_loop flt m a d = Some r"
proof (induction rule: rooted.induct)
  case root
  then show ?case
    by (subst is_ancestor_loop.simps) simp
next
  case (up d c l p nm)
  show ?case
  proof (cases "inode_get flt m d")
    case (Inr i)
    then have "inode_parent i = Some p"
      using up.hyps(1) inode_get_Inr [OF Inr] by (auto dest: inode_parent_directory)
    then show ?thesis
      using up.IH Inr by (subst is_ancestor_loop.simps) auto
  qed (subst is_ancestor_loop.simps, simp)
qed

text \<open>The check ends for every inode but, possibly, a directory without a link.\<close>

lemma is_ancestor_of_returns:
  assumes inv: "meta_inv m" and d: "\<And>D. m_inodes m d = Some (Directory D) \<Longrightarrow> i_nlink (d_attrs D) \<noteq> 0"
  shows "\<exists>r. is_ancestor_of flt m a d = Some r"
proof -
  note ns = meta_invD(1) [OF inv]
  have dirs: "\<exists>r. is_ancestor_loop flt m a e = Some r" if "live_dir (ns_of m) e" for e
    using is_ancestor_loop_returns [OF ns_invD(9) [OF ns that]] .
  have "\<exists>r. is_ancestor_loop flt m a d = Some r"
  proof (cases "inode_get flt m d")
    case (Inr i)
    note i = inode_get_Inr [OF Inr]
    show ?thesis
    proof (cases "is_directory i")
      case True
      then obtain D where "i = Directory D"
        by (cases i) simp_all
      then show ?thesis
        using dirs [of d] live_dirI [of m d D] i d [of D] by simp
    next
      case False
      have ok: "leaf_ok (ns_of m) d (unat (inode_nlink i)) (inode_parent i) (inode_name i)"
        by (rule ns_invD(7) [OF ns]) (simp add: i skel_of_leaf False)
      show ?thesis
      proof (cases "inode_parent i")
        case (Some p)
        then obtain q where "place i = (Some p, Some q)"
          using ok by (auto simp: leaf_ok_def place_def)
        then obtain c where "m_entries m (p, q) = Some (d, c)"
          using leaf_own_entry [OF ns i False] by blast
        then have "live_dir (ns_of m) p"
          by (intro ns_invD(3) [OF ns, of p q d]) simp
        then show ?thesis
          using dirs [of p] Inr Some by (subst is_ancestor_loop.simps) auto
      qed (use Inr in \<open>subst is_ancestor_loop.simps, simp\<close>)
    qed
  qed (subst is_ancestor_loop.simps, simp)
  then show ?thesis
    by (auto simp: is_ancestor_of_def)
qed

section \<open>The staged rows\<close>

lemma relocate_inode_skel:
  fixes d2 :: inode_id and n2 :: bytes
  assumes ns: "ns_inv (ns_of m)" and e: "m_entries m (d1, n1) = Some (x, c)" and x: "m_inodes m x = Some i"
  defines "i' \<equiv> relocate_inode (d1 \<noteq> d2) d2 n2 i"
  shows "skel_of i' = moved_skel d2 n2 (skel_of i)" "is_directory i' = is_directory i"
    and "inode_nlink i' = 1 \<Longrightarrow> place i' = (Some d2, Some n2)"
proof -
  have dir: "d_parent D = d1" if "i = Directory D" for D
    using dir_single_ref(2) [OF ns, of x _ _ _ _ d1 n1] e x that by simp
  show "is_directory i' = is_directory i"
    by (cases i) (simp_all add: i'_def relocate_inode_def Let_def)
  show "skel_of i' = moved_skel d2 n2 (skel_of i)"
    using dir by (cases i) (auto simp: i'_def relocate_inode_def Let_def inode_nlink_def inode_name_def unat_eq_one)
  show "place i' = (Some d2, Some n2)" if "inode_nlink i' = 1"
    using dir that by (cases i)
      (auto simp: i'_def relocate_inode_def Let_def inode_nlink_def inode_name_def place_def split: if_splits)
qed

lemma rename_from_dir_skel:
  "\<exists>D'. rename_from_dir now changed (tgt \<noteq> None) moved (target_is_dir tgt) (Directory D) = Directory D'
     \<and> place (Directory D') = place (Directory D)
     \<and> skel_of (Directory D') =
         (if changed then shrink moved (skel_of (Directory D)) else after_drop tgt (skel_of (Directory D)))"
  unfolding rename_from_dir_def
  by (cases tgt)
    (auto simp: after_drop_def target_is_dir_def shrink_dir_skel simp del: skel_of.simps)

lemma rename_to_dir_skel:
  assumes inv: "meta_inv m" and D: "m_inodes m d = Some (Directory D)" and live: "i_nlink (d_attrs D) \<noteq> 0"
    and tgt: "\<And>y c i. tgt = Some (y, c, i) \<Longrightarrow> m_entries m (d, n) = Some (y, c) \<and> is_directory i = moved"
    and ok: "rename_to_dir now (tgt \<noteq> None) moved (target_is_dir tgt) (Directory D) = Inr d'"
  shows "\<exists>D'. d' = Directory D' \<and> place (Directory D') = place (Directory D)
     \<and> skel_of (Directory D') = grow moved (after_drop tgt (skel_of (Directory D)))"
proof (cases tgt)
  case None
  then have "\<not> (moved \<and> i_nlink (d_attrs D) = - 1)" "d' = Directory (touch_dir now (grow_dir moved D))"
    using ok by (auto simp: rename_to_dir_def grow_dir_def Let_def target_is_dir_def split: if_splits)
  then show ?thesis
    using None grow_dir_skel [OF inv D, of moved] by (simp add: after_drop_def del: skel_of.simps)
next
  case (Some yci)
  obtain y c i where yci: "yci = (y, c, i)"
    by (cases yci)
  with Some tgt [of y c i] have t: "m_entries m (d, n) = Some (y, c)" "is_directory i = moved"
    by auto
  have d': "d' = Directory (touch_dir now D)"
    using ok Some yci t by (auto simp: rename_to_dir_def Let_def target_is_dir_def split: if_splits)
  have "n \<in> kids (ns_of m) d"
    using t by (simp add: kids_def)
  then have "unat (d_entry_count D) \<noteq> 0"
    using dir_count(1) [OF inv D] kids_bound(1) [OF meta_invD(2) [OF inv], of d] by (auto simp: card_eq_0_iff)
  moreover have "unat (i_nlink (d_attrs D)) \<noteq> 0"
    using live by (simp add: unat_eq_0)
  ultimately show ?thesis
    using d' Some yci t by (simp add: after_drop_def)
qed

text \<open>The target of a rename as the checks left it, and the row changes that drop it.\<close>

definition target_known ::
  "meta \<Rightarrow> inode_id \<Rightarrow> bytes \<Rightarrow> inode_id \<Rightarrow> bool \<Rightarrow> (inode_id \<times> u64 \<times> inode) option \<Rightarrow> bool" where
  "target_known m d n x moved tgt \<longleftrightarrow>
     (case tgt of
        None \<Rightarrow> m_entries m (d, n) = None
      | Some (y, c, i) \<Rightarrow> m_entries m (d, n) = Some (y, c) \<and> m_inodes m y = Some i \<and> y \<noteq> x
          \<and> entry_count_of i = 0 \<and> is_directory i = moved)"

definition drops_target ::
  "bool \<Rightarrow> inode_id \<Rightarrow> bytes \<Rightarrow> (inode_id \<times> u64 \<times> inode) option \<Rightarrow> txop list \<Rightarrow> bool" where
  "drops_target keep d n tgt ops \<longleftrightarrow>
     (case tgt of
        None \<Rightarrow> ops = []
      | Some (y, c, i) \<Rightarrow> \<exists>ops'. drops_link keep y i ops' \<and> ops = ops' @ [DelEntry d n, DelScan d c])"

definition move_ops ::
  "meta \<Rightarrow> inode_id \<Rightarrow> bytes \<Rightarrow> inode_id \<Rightarrow> bytes \<Rightarrow> inode_id \<Rightarrow> u64 \<Rightarrow> inode \<Rightarrow> txop list" where
  "move_ops m d1 n1 d2 n2 x c i' =
     (let c' = (if d1 = d2 then c else cookie_of m d2) in
      [DelEntry d1 n1, DelScan d1 c]
      @ (if d1 = d2 then [] else [PutCookie d2 (c' + 1)])
      @ [PutEntry d2 n2 x c', PutScan d2 c' n2 (if inode_nlink i' = 1 then WithInode x i' else Reference x),
         PutInode x i'])"

lemma target_known_dropped:
  "target_known m d n x moved tgt \<Longrightarrow> drops_target keep d n tgt ops \<Longrightarrow>
   target_dropped keep d n tgt m (apply_ops ops m)"
  by (auto simp: target_known_def drops_target_def target_dropped_def drops_link_dropped empty_skel
      simp del: apply_ops_simps(3) split: option.splits)

lemma move_ops_moved:
  assumes "cookie_of u0 d2 = cookie_of m d2"
  shows "entry_moved d1 n1 d2 n2 x c i' (if inode_nlink i' = 1 then WithInode x i' else Reference x) u0
    (apply_ops (move_ops m d1 n1 d2 n2 x c i') u0)"
  using assms by (simp add: entry_moved_def move_ops_def Let_def)

lemma rename_can:
  assumes e: "m_entries m (d1, n1) = Some (x, c)" and x: "m_inodes m x = Some i"
    and d2: "m_inodes m d2 = Some (Directory D2)" "i_nlink (d_attrs D2) \<noteq> 0"
    and anc: "is_directory i \<Longrightarrow> \<not> above (ns_of m) x d2" and tgt: "target_known m d2 n2 x (is_directory i) tgt"
  shows "can_rename (ns_of m) d1 n1 d2 n2 x (skel_of i)"
  using e x anc tgt live_dirI [OF d2] empty_skel
  by (auto simp: can_rename_def skel_of_directory target_known_def split: option.splits prod.splits)

lemma rename_applied:
  fixes env :: op_env and s t :: fs and d2 :: inode_id and n2 :: bytes
  defines "m \<equiv> st_meta s"
  assumes inv: "meta_inv m" and e: "m_entries m (d1, n1) = Some (x, c)" and x: "m_inodes m x = Some i"
    and d: "m_inodes m d1 = Some (Directory D1)" "m_inodes m d2 = Some (Directory D2)"
    and live: "i_nlink (d_attrs D2) \<noteq> 0"
    and anc: "is_directory i \<Longrightarrow> \<not> above (ns_of m) x d2" and wrap: "cookie_of m d2 \<noteq> u64_max"
    and tgt: "target_known m d2 n2 x (is_directory i) tgt" and T: "drops_target keep d2 n2 tgt T"
    and D1': "place (Directory D1') = place (Directory D1)"
      "skel_of (Directory D1') =
         (if d1 \<noteq> d2 then shrink (is_directory i) (skel_of (Directory D1)) else after_drop tgt (skel_of (Directory D1)))"
    and D2': "d1 \<noteq> d2 \<Longrightarrow> place (Directory D2') = place (Directory D2)"
      "d1 \<noteq> d2 \<Longrightarrow> skel_of (Directory D2') = grow (is_directory i) (after_drop tgt (skel_of (Directory D2)))"
    and tx: "tx_ops tx = T @ move_ops m d1 n1 d2 n2 x c (relocate_inode (d1 \<noteq> d2) d2 n2 i)
        @ resave_ops (oe_faults env) m d1 (Directory D1')
        @ (if d1 = d2 then [] else resave_ops (oe_faults env) m d2 (Directory D2'))"
      "tx_dedup_entry tx = (if has_op_id op then Some \<lparr>dd_op_id = op, dd_result = res\<rparr> else None)"
    and t: "st_meta t = apply_ops (tx_ops tx) (st_meta s)" "st_ledger t = ledger_add (txn_entries tx) (st_ledger s)"
  shows "ns_step env (ns_rename keep d1 n1 d2 n2) op res s t"
proof -
  note ns = meta_invD(1) [OF inv]
  define i' where "i' = relocate_inode (d1 \<noteq> d2) d2 n2 i"
  note re = relocate_inode_skel [OF ns e x, where ?d2.0 = d2 and ?n2.0 = n2, folded i'_def]
  note dropped = target_known_dropped [OF tgt T]
  note rn = rename_can [OF e x d(2) live anc tgt]
  have ck: "cookie_of (apply_ops T m) d2 = cookie_of m d2"
    using target_rows(1) [OF inv dropped] by blast
  let ?w = "if inode_nlink i' = 1 then WithInode x i' else Reference x"
  have w: "scan_inode_id ?w = x" "\<And>y j. ?w = WithInode y j \<Longrightarrow> j = i' \<and> place i' = (Some d2, Some n2)"
    using re(3) by (auto split: if_splits)
  have sk1: "skel_of (Directory D1') =
      (if d1 = d2 then after_drop tgt (skel_of (Directory D1)) else shrink (is_directory i) (skel_of (Directory D1)))"
    using D1'(2) by simp
  have wr: "d1 \<noteq> d2 \<longrightarrow> cookie_of m d2 \<noteq> u64_max"
    using wrap by blast
  note mr = meta_rename [OF inv dropped rn e wr re(1) w move_ops_moved [OF ck] d D1'(1) sk1 D2',
      where flt = "oe_faults env"]
  have tm: "st_meta t = (if d1 = d2
      then apply_ops (resave_ops (oe_faults env) m d1 (Directory D1'))
        (apply_ops (move_ops m d1 n1 d2 n2 x c i') (apply_ops T m))
      else apply_ops (resave_ops (oe_faults env) m d2 (Directory D2'))
        (apply_ops (resave_ops (oe_faults env) m d1 (Directory D1'))
        (apply_ops (move_ops m d1 n1 d2 n2 x c i') (apply_ops T m))))"
    by (simp add: t(1) tx(1) m_def [symmetric] i'_def)
  have "ns_of (st_meta t) = ns_rename keep d1 n1 d2 n2 (ns_of m)" "meta_inv (st_meta t)"
    "(\<And>p q. oe_faults env (DirEntryKey p q) = None) \<Longrightarrow> emb_fresh m \<Longrightarrow> emb_fresh (st_meta t)"
    unfolding tm by (rule mr; blast)+
  then show ?thesis
    by (simp add: ns_step_def reads_entries_def t(2) m_def txn_entries_set [OF tx(2)])
qed

section \<open>The steps of a rename\<close>

lemma rename_drop_targetI:
  assumes err: "\<And>e ks. Q (Inl e) (fold bump ks s)"
    and ok: "\<And>t' ops ks st. drops_target keep d n tgt ops \<Longrightarrow> tx_ops t' = tx_ops t @ ops \<Longrightarrow>
      tx_dedup_entry t' = tx_dedup_entry t \<Longrightarrow> holds (k (t', st)) Q (fold bump ks s)"
  shows "holds (sbind (rename_drop_target env d n tgt keep t) k) Q s"
proof (cases tgt)
  case None
  then show ?thesis
    using ok [of "[]" t _ "[]"] by (simp add: rename_drop_target_def drops_target_def)
next
  case (Some yci)
  obtain y c i where yci: "yci = (y, c, i)"
    by (cases yci)
  show ?thesis
    unfolding rename_drop_target_def Some yci option.case prod.case sbind_assoc Let_def
  proof (rule drop_linkI, rule err, unfold prod.case sbind_sret)
    fix t' :: txn and ops ks
    assume "drops_link keep y i ops" "tx_ops t' = tx_ops t @ ops" "tx_dedup_entry t' = tx_dedup_entry t"
    then show "holds (k (dir_unlink_entry d n c (unlink_count_delta y i (keep \<and> (is_directory i \<or> \<not> 1 < inode_nlink i)) t'),
        unlink_settlement y i (keep \<and> (is_directory i \<or> \<not> 1 < inode_nlink i)))) Q (fold bump ks s)"
      using Some yci by (intro ok [of "ops @ [DelEntry d n, DelScan d c]"]) (auto simp: drops_target_def)
  qed
qed

lemma save_dir_inode_Directory [simp]: "save_dir_inode flt m d (Directory D) t = save_directory flt m d D t"
  by (simp add: save_dir_inode_def)

lemma rename_move_entryI:
  assumes err: "\<And>e. Q (Inl e) u" and m: "st_meta u = m"
    and ok: "\<And>t'. tx_ops t' = tx_ops t @ move_ops m d1 n1 d2 n2 x c i' \<Longrightarrow> tx_dedup_entry t' = tx_dedup_entry t \<Longrightarrow>
      holds (k t') Q u"
  shows "holds (sbind (rename_move_entry env d1 n1 d2 n2 x c i' t) k) Q u"
proof (cases "d1 = d2")
  case True
  then show ?thesis
    unfolding rename_move_entry_def Let_def by (auto simp: sbind_sret move_ops_def Let_def intro!: ok)
next
  case False
  show ?thesis
    unfolding rename_move_entry_def Let_def sbind_assoc if_P [OF False] using False
    by (intro holds_readI err) (auto simp: sbind_sret allocate_cookie_Inr m move_ops_def Let_def intro!: ok)
qed

lemma rename_save_dirsI:
  fixes d1 d2 :: inode_id and D1 D2 :: directory_inode
  assumes err: "\<And>e. Q (Inl e) u" and m: "st_meta u = m"
    and inv: "meta_inv m" and D2: "m_inodes m d2 = Some (Directory D2)" "i_nlink (d_attrs D2) \<noteq> 0"
    and tgt: "target_known m d2 n2 x moved tgt"
    and ok: "\<And>t' D1' D2'.
      place (Directory D1') = place (Directory D1) \<Longrightarrow>
      skel_of (Directory D1') = (if d1 \<noteq> d2 then shrink moved (skel_of (Directory D1))
          else after_drop tgt (skel_of (Directory D1))) \<Longrightarrow>
      (d1 \<noteq> d2 \<Longrightarrow> place (Directory D2') = place (Directory D2)) \<Longrightarrow>
      (d1 \<noteq> d2 \<Longrightarrow> skel_of (Directory D2') = grow moved (after_drop tgt (skel_of (Directory D2)))) \<Longrightarrow>
      tx_ops t' = tx_ops t @ resave_ops (oe_faults env) m d1 (Directory D1')
        @ (if d1 = d2 then [] else resave_ops (oe_faults env) m d2 (Directory D2')) \<Longrightarrow>
      tx_dedup_entry t' = tx_dedup_entry t \<Longrightarrow> holds (k t') Q u"
  shows "holds (sbind (rename_save_dirs env d1 d2 (Directory D1)
    (if d1 = d2 then None else Some (Directory D2)) (tgt \<noteq> None) moved (target_is_dir tgt) t) k) Q u"
proof -
  obtain D1' where D1': "rename_from_dir (oe_clock env 0) (d1 \<noteq> d2) (tgt \<noteq> None) moved (target_is_dir tgt)
      (Directory D1) = Directory D1'" "place (Directory D1') = place (Directory D1)"
      "skel_of (Directory D1') = (if d1 \<noteq> d2 then shrink moved (skel_of (Directory D1))
         else after_drop tgt (skel_of (Directory D1)))"
    using rename_from_dir_skel by blast
  let ?t = "save_directory (oe_faults env) m d1 D1' t"
  show ?thesis
  proof (cases "d1 = d2")
    case True
    then have "holds (k ?t) Q u"
      by (intro ok [OF D1'(2,3)]) simp_all
    then show ?thesis
      unfolding rename_save_dirs_def Let_def D1'(1)
      using True by (simp add: m sbind_assoc sbind_sret)
  next
    case False
    have "m_entries m (d2, n2) = Some (y, c) \<and> is_directory j = moved" if "tgt = Some (y, c, j)" for y c j
      using tgt that by (simp add: target_known_def)
    note sk = rename_to_dir_skel [OF inv D2 this]
    have "holds (sbind (slift (rename_to_dir (oe_clock env 0) (tgt \<noteq> None) moved (target_is_dir tgt) (Directory D2))) (\<lambda>d.
        sbind (sread (\<lambda>s. Inr (save_dir_inode (oe_faults env) (st_meta s) d2 d ?t))) k)) Q u"
    proof (rule holds_liftI, rule err)
      fix d'
      assume "rename_to_dir (oe_clock env 0) (tgt \<noteq> None) moved (target_is_dir tgt) (Directory D2) = Inr d'"
      from sk [OF _ this] obtain D2' where "d' = Directory D2'" "place (Directory D2') = place (Directory D2)"
        "skel_of (Directory D2') = grow moved (after_drop tgt (skel_of (Directory D2)))"
        by blast
      then show "holds (sbind (sread (\<lambda>s. Inr (save_dir_inode (oe_faults env) (st_meta s) d2 d' ?t))) k) Q u"
        using False by (simp only: holds_bind_simps m save_dir_inode_Directory)
          (intro ok [OF D1'(2,3)], simp_all)
    qed
    then show ?thesis
      unfolding rename_save_dirs_def Let_def D1'(1)
      using False by (simp add: m sbind_assoc)
  qed
qed

lemma rename_publishI:
  fixes d1 d2 :: inode_id and s :: fs
  assumes inv: "meta_inv (st_meta s)"
    and e: "m_entries (st_meta s) (d1, n1) = Some (rp_source_id plan, rp_source_cookie plan)"
    and x: "m_inodes (st_meta s) (rp_source_id plan) = Some (rp_source_inode plan)"
    and d: "m_inodes (st_meta s) d1 = Some (Directory D1)" "m_inodes (st_meta s) d2 = Some (Directory D2)"
    and live: "i_nlink (d_attrs D2) \<noteq> 0"
    and anc: "is_directory (rp_source_inode plan) \<Longrightarrow> \<not> above (ns_of (st_meta s)) (rp_source_id plan) d2"
    and wrap: "cookie_of (st_meta s) d2 \<noteq> u64_max"
    and tgt: "target_known (st_meta s) d2 n2 (rp_source_id plan) (is_directory (rp_source_inode plan)) tgt"
    and new: "dedup_get (st_ledger s) op = None"
    and eff: "\<And>t. ns_step env (ns_rename keep d1 n1 d2 n2) op DrRename s t \<Longrightarrow> eff (map_option Published content) t"
  shows "holds (rename_publish env d1 n1 d2 n2 op plan (Directory D1) (if d1 = d2 then None else Some (Directory D2))
    tgt keep content) (op_result env op ex eff s) s"
proof -
  have dir: "is_directory (relocate_inode b d2 n2 (rp_source_inode plan)) = is_directory (rp_source_inode plan)" for b
    by (cases "rp_source_inode plan") (simp_all add: relocate_inode_def Let_def)
  show ?thesis
    unfolding rename_publish_def Let_def
  proof (rule holds_liftI, simp, rule rename_drop_targetI, simp, unfold prod.case)
    fix t0 t1 :: txn and T ks st
    assume t0: "new_transaction env = Inr t0" and T: "drops_target keep d2 n2 tgt T"
      and t1: "tx_ops t1 = tx_ops (set_dedup_result op DrRename t0) @ T"
        "tx_dedup_entry t1 = tx_dedup_entry (set_dedup_result op DrRename t0)"
    let ?u = "fold bump ks s"
    show "holds (sbind (rename_stage env d1 n1 d2 n2 plan (Directory D1)
          (if d1 = d2 then None else Some (Directory D2)) tgt t1) (\<lambda>t.
        sbind (s_commit env t st) (\<lambda>_.
        sbind (s_bump (renamed_metrics (rp_source_inode plan) @ [WriteOperations, TotalOperations])) (\<lambda>_.
        sret (map_option Published content))))) (op_result env op ex eff s) ?u"
      unfolding rename_stage_def Let_def dir sbind_assoc
    proof (rule rename_move_entryI [where m = "st_meta s"], simp, simp,
        rule rename_save_dirsI [where m = "st_meta s", OF _ _ inv d(2) live tgt], simp, simp)
      fix t2 t3 :: txn and D1' D2' :: directory_inode
      assume t2: "tx_ops t2 = tx_ops t1 @ move_ops (st_meta s) d1 n1 d2 n2 (rp_source_id plan) (rp_source_cookie plan)
            (relocate_inode (d1 \<noteq> d2) d2 n2 (rp_source_inode plan))" "tx_dedup_entry t2 = tx_dedup_entry t1"
        and t3: "tx_ops t3 = tx_ops t2 @ resave_ops (oe_faults env) (st_meta s) d1 (Directory D1')
            @ (if d1 = d2 then [] else resave_ops (oe_faults env) (st_meta s) d2 (Directory D2'))"
          "tx_dedup_entry t3 = tx_dedup_entry t2"
        and D1': "place (Directory D1') = place (Directory D1)"
          "skel_of (Directory D1') = (if d1 \<noteq> d2 then shrink (is_directory (rp_source_inode plan)) (skel_of (Directory D1))
            else after_drop tgt (skel_of (Directory D1)))"
        and D2': "d1 \<noteq> d2 \<Longrightarrow> place (Directory D2') = place (Directory D2)"
          "d1 \<noteq> d2 \<Longrightarrow> skel_of (Directory D2') =
            grow (is_directory (rp_source_inode plan)) (after_drop tgt (skel_of (Directory D2)))"
      have tx: "tx_ops t3 = T @ move_ops (st_meta s) d1 n1 d2 n2 (rp_source_id plan) (rp_source_cookie plan)
            (relocate_inode (d1 \<noteq> d2) d2 n2 (rp_source_inode plan))
          @ resave_ops (oe_faults env) (st_meta s) d1 (Directory D1')
          @ (if d1 = d2 then [] else resave_ops (oe_faults env) (st_meta s) d2 (Directory D2'))"
        "tx_dedup_entry t3 = (if has_op_id op then Some \<lparr>dd_op_id = op, dd_result = DrRename\<rparr> else None)"
        using new_transaction_Inr [OF t0] t1 t2 t3 by simp_all
      show "holds (sbind (s_commit env t3 st) (\<lambda>_.
          sbind (s_bump (renamed_metrics (rp_source_inode plan) @ [WriteOperations, TotalOperations])) (\<lambda>_.
          sret (map_option Published content)))) (op_result env op ex eff s) ?u"
        by (rule commit_resultI [where k = 0], simp add: quiet_def, simp, rule new, rule eff,
            rule rename_applied [OF inv e x d live anc wrap tgt T D1' D2' tx])
    qed
  qed
qed

section \<open>Outcome\<close>

definition plan_valid :: "inode_id \<Rightarrow> bytes \<Rightarrow> inode_id \<Rightarrow> bytes \<Rightarrow> rename_plan \<Rightarrow> fs \<Rightarrow> bool" where
  "plan_valid d1 n1 d2 n2 plan s \<longleftrightarrow>
     validate_filename n1 = Inr () \<and> validate_filename n2 = Inr ()
     \<and> m_entries (st_meta s) (d1, n1) = Some (rp_source_id plan, rp_source_cookie plan)
     \<and> m_inodes (st_meta s) (rp_source_id plan) = Some (rp_source_inode plan)
     \<and> rp_target plan = m_entries (st_meta s) (d2, n2)"

text \<open>Nothing moves when the names are equal or belong to one inode, or when the content is not the
  expected one.\<close>

definition rename_noop ::
  "inode_id \<Rightarrow> bytes \<Rightarrow> inode_id \<Rightarrow> bytes \<Rightarrow> op_id \<Rightarrow> fs \<Rightarrow> rename_outcome option \<Rightarrow> fs \<Rightarrow> bool" where
  "rename_noop d1 n1 d2 n2 op s y t \<longleftrightarrow>
     st_meta t = st_meta s
     \<and> ((\<exists>a. y = Some (Mismatch a)) \<and> st_ledger t = st_ledger s
        \<or> ((d1, n1) = (d2, n2)
            \<or> (\<exists>x c c'. m_entries (st_meta s) (d1, n1) = Some (x, c) \<and> m_entries (st_meta s) (d2, n2) = Some (x, c')))
          \<and> st_ledger t = (if has_op_id op then record_entry \<lparr>dd_op_id = op, dd_result = DrRename\<rparr> (st_ledger s)
                            else st_ledger s))"

definition renamed ::
  "op_env \<Rightarrow> credentials \<Rightarrow> inode_id \<Rightarrow> bytes \<Rightarrow> inode_id \<Rightarrow> bytes \<Rightarrow> op_id \<Rightarrow> fs \<Rightarrow> fs \<Rightarrow> bool" where
  "renamed env creds d1 n1 d2 n2 op s t \<longleftrightarrow>
     (\<exists>x c i keep D1 D2. validate_filename n1 = Inr () \<and> validate_filename n2 = Inr ()
        \<and> m_inodes (st_meta s) d1 = Some (Directory D1) \<and> m_inodes (st_meta s) d2 = Some (Directory D2)
        \<and> rename_access creds (Directory D1) (if d1 = d2 then None else Some (Directory D2)) i = Inr ()
        \<and> m_entries (st_meta s) (d1, n1) = Some (x, c) \<and> m_inodes (st_meta s) x = Some i
        \<and> can_rename (ns_of (st_meta s)) d1 n1 d2 n2 x (skel_of i)
        \<and> (\<forall>y c'. m_entries (st_meta s) (d2, n2) = Some (y, c') \<longrightarrow> keep = should_defer_unlinked_inode env s y)
        \<and> ns_step env (ns_rename keep d1 n1 d2 n2) op DrRename s t)"

definition rename_effect ::
  "op_env \<Rightarrow> credentials \<Rightarrow> inode_id \<Rightarrow> bytes \<Rightarrow> inode_id \<Rightarrow> bytes \<Rightarrow> op_id \<Rightarrow> fs \<Rightarrow> rename_outcome option \<Rightarrow> fs \<Rightarrow> bool" where
  "rename_effect env creds d1 n1 d2 n2 op s y t \<longleftrightarrow>
     (rename_noop d1 n1 d2 n2 op s y t
      \<or> renamed env creds d1 n1 d2 n2 op s t \<and> (\<forall>a. y \<noteq> Some (Mismatch a)))
     \<and> (has_op_id op \<longrightarrow> y = None)"

lemma sbind_bump_Nil: "sbind (s_bump []) k = k ()"
  by (simp add: fun_eq_iff sbind_def s_bump_def smodify_def)

lemma record_rename_resultI:
  assumes eff: "\<And>t. st_meta t = st_meta s \<Longrightarrow>
      st_ledger t = (if has_op_id op then record_entry \<lparr>dd_op_id = op, dd_result = DrRename\<rparr> (st_ledger s)
        else st_ledger s) \<Longrightarrow> eff y t"
    and new: "dedup_get (st_ledger s) op = None \<or> (\<forall>res. ex res \<in> {None, Some y})"
  shows "holds (sbind (record_rename_result env op) (\<lambda>_. sret y)) (op_result env op ex eff s) s"
proof (cases "has_op_id op")
  case True
  show ?thesis
    unfolding record_rename_result_def if_P [OF True] sbind_assoc
  proof (rule holds_liftI, simp)
    fix t0
    assume t0: "new_transaction env = Inr t0"
    let ?tx = "set_dedup_result op DrRename t0"
    have "ledger_add (txn_entries ?tx) l = record_entry \<lparr>dd_op_id = op, dd_result = DrRename\<rparr> l" for l
      using True by (simp add: txn_entries_set [where op = op and res = DrRename])
    then show "holds (sbind (s_commit env ?tx NoSettlement) (\<lambda>_. sret y)) (op_result env op ex eff s) s"
      using new_transaction_Inr [OF t0] True
      by (intro commit_result_idI [where k = 0 and ks = "[]", unfolded sbind_bump_Nil] eff)
        (use new in \<open>auto simp: quiet_def dedup_get_def record_entry_def\<close>)
  qed
next
  case False
  then have "eff y s"
    by (intro eff) simp_all
  then show ?thesis
    using False by (auto simp: record_rename_result_def op_result_def dedup_get_def intro!: exI [of _ 0])
qed

lemma rename_same_inodeI:
  assumes same: "rp_target plan = Some (rp_source_id plan, c')" and valid: "plan_valid d1 n1 d2 n2 plan s"
    and ver: "verification = None \<or> \<not> has_op_id op" and new: "dedup_get (st_ledger s) op = None"
  shows "holds (rename_same_inode env hash creds op verification plan to_dir)
    (op_result env op ex (rename_effect env creds' d1 n1 d2 n2 op s) s) s"
proof -
  have noop: "rename_effect env creds' d1 n1 d2 n2 op s y t"
    if "st_meta t = st_meta s" "st_ledger t = (if has_op_id op
        then record_entry \<lparr>dd_op_id = op, dd_result = DrRename\<rparr> (st_ledger s) else st_ledger s)"
      "has_op_id op \<longrightarrow> y = None" for y t
    using that same valid unfolding rename_effect_def rename_noop_def plan_valid_def by auto
  have ok: "op_result env op ex (rename_effect env creds' d1 n1 d2 n2 op s) s (Inr y) s" if "\<not> has_op_id op" for y
    using noop [of s y] that unfolding op_result_def by (auto simp: new intro!: exI [of _ 0])
  show ?thesis
    unfolding rename_same_inode_def
  proof (rule holds_liftI, simp)
    show "holds (sbind (record_rename_result env op) (\<lambda>_. case verification of
          None \<Rightarrow> sret None
        | Some expected \<Rightarrow> sbind (slift (hash (rp_source_id plan))) (\<lambda>actual.
            sret (Some (if content_matches expected actual then Published actual else Mismatch actual)))))
      (op_result env op ex (rename_effect env creds' d1 n1 d2 n2 op s) s) s"
    proof (cases verification)
      case None
      then show ?thesis
        by (simp, intro record_rename_resultI noop) (simp_all add: new)
    next
      case (Some expected)
      then have "\<not> has_op_id op"
        using ver by simp
      then show ?thesis
        using Some ok by (auto simp: record_rename_result_def sbind_sret intro!: holds_liftI)
    qed
  qed
qed

lemma rename_access_live:
  "rename_access creds (Directory D) to_dir i = Inr u \<Longrightarrow> i_nlink (d_attrs D) \<noteq> 0"
  "rename_access creds from_dir (Some (Directory D')) i = Inr u \<Longrightarrow> i_nlink (d_attrs D') \<noteq> 0"
  by (auto simp: rename_access_def try_bind_def check_def live_or_other_def split: sum.splits if_splits)

lemma rename_targetI:
  assumes err: "\<And>e. Q (Inl e) s" and ne: "map_option fst (rp_target plan) \<noteq> Some (rp_source_id plan)"
    and valid: "plan_valid d1 n1 d2 n2 plan s"
    and ok: "\<And>tgt. target_known (st_meta s) d2 n2 (rp_source_id plan) (is_directory (rp_source_inode plan)) tgt \<Longrightarrow>
      holds (k tgt) Q s"
  shows "holds (sbind (rename_target env creds dir (rp_source_inode plan) (rp_target plan)) k) Q s"
proof (cases "rp_target plan")
  case None
  then show ?thesis
    using valid by (auto simp: rename_target_def plan_valid_def target_known_def intro!: ok)
next
  case (Some yc)
  obtain y c where yc: "yc = (y, c)"
    by (cases yc)
  show ?thesis
    unfolding rename_target_def Some yc option.case prod.case sbind_assoc s_inode_get_def
  proof (intro holds_readI holds_liftI err)
    fix i u
    assume i: "inode_get (oe_faults env) (st_meta s) y = Inr i"
      and "rename_target_ok creds dir (rp_source_inode plan) i = Inr u"
    then have "target_known (st_meta s) d2 n2 (rp_source_id plan) (is_directory (rp_source_inode plan)) (Some (y, c, i))"
      using inode_get_Inr [OF i] Some yc ne valid
      by (auto simp: target_known_def plan_valid_def rename_target_ok_def word_gt_0 split: if_splits)
    then show "holds (sbind (sret (Some (y, c, i))) k) Q s"
      unfolding sbind_sret by (rule ok)
  qed
qed

lemma rename_checkedI:
  fixes d1 d2 :: inode_id and s :: fs
  assumes inv: "fs_inv s" "roomy s" and valid: "plan_valid d1 n1 d2 n2 plan s"
    and d: "m_inodes (st_meta s) d1 = Some (Directory D1)" "m_inodes (st_meta s) d2 = Some (Directory D2)"
    and live: "i_nlink (d_attrs D2) \<noteq> 0"
    and anc: "is_directory (rp_source_inode plan) \<Longrightarrow> \<not> above (ns_of (st_meta s)) (rp_source_id plan) d2"
    and ver: "verification = None \<or> \<not> has_op_id op"
    and acc: "rename_access creds (Directory D1) (if d1 = d2 then None else Some (Directory D2)) (rp_source_inode plan) = Inr ()"
    and new: "dedup_get (st_ledger s) op = None"
  shows "holds (rename_checked env hash creds d1 n1 d2 n2 op verification plan (Directory D1)
      (if d1 = d2 then None else Some (Directory D2)))
    (op_result env op ex (rename_effect env creds d1 n1 d2 n2 op s) s) s"
proof (cases "map_option fst (rp_target plan) = Some (rp_source_id plan)")
  case True
  then obtain c' where "rp_target plan = Some (rp_source_id plan, c')"
    by auto
  from rename_same_inodeI [OF this valid ver new] show ?thesis
    using True by (simp add: rename_checked_def)
next
  case False
  have minv: "meta_inv (st_meta s)" and wrap: "cookie_of (st_meta s) d2 \<noteq> u64_max"
    using inv by (simp_all add: fs_inv_def roomy_def)
  have e: "m_entries (st_meta s) (d1, n1) = Some (rp_source_id plan, rp_source_cookie plan)"
    and x: "m_inodes (st_meta s) (rp_source_id plan) = Some (rp_source_inode plan)"
    using valid by (simp_all add: plan_valid_def)
  show ?thesis
    unfolding rename_checked_def if_not_P [OF False]
  proof (rule rename_targetI [OF _ False valid], simp, unfold holds_bind_simps, rule holds_liftI, simp)
    fix tgt verified
    assume tgt: "target_known (st_meta s) d2 n2 (rp_source_id plan) (is_directory (rp_source_inode plan)) tgt"
      and "rename_content hash verification plan = Inr verified"
    then have none: "has_op_id op \<Longrightarrow> verified = None"
      using ver by (auto simp: rename_content_def)
    let ?keep = "case tgt of Some (target_id, _) \<Rightarrow> should_defer_unlinked_inode env s target_id | None \<Rightarrow> False"
    have can: "can_rename (ns_of (st_meta s)) d1 n1 d2 n2 (rp_source_id plan) (skel_of (rp_source_inode plan))"
      by (rule rename_can [OF e x d(2) live anc tgt])
    have eff: "rename_effect env creds d1 n1 d2 n2 op s (map_option Published c) t"
      if "ns_step env (ns_rename ?keep d1 n1 d2 n2) op DrRename s t" and content: "has_op_id op \<Longrightarrow> c = None" for c t
      using that can e x d acc valid tgt content unfolding rename_effect_def renamed_def
      by (intro disjI2 conjI exI [of _ ?keep] exI)
        (auto simp: plan_valid_def target_known_def split: option.splits)
    have mis: "op_result env op ex (rename_effect env creds d1 n1 d2 n2 op s) s (Inr (Some (Mismatch a))) s"
      if "\<not> has_op_id op" for a
      using that unfolding op_result_def rename_effect_def rename_noop_def
      by (auto simp: new intro!: exI [of _ 0] exI [of _ "Some (Mismatch a)"])
    have pub: "holds (rename_publish env d1 n1 d2 n2 op plan (Directory D1)
        (if d1 = d2 then None else Some (Directory D2)) tgt ?keep (map_option snd verified))
      (op_result env op ex (rename_effect env creds d1 n1 d2 n2 op s) s) s"
      by (rule rename_publishI [OF minv e x d live anc wrap tgt]) (simp, rule new, rule eff, simp_all add: none)
    show "holds (if (case verified of Some (expected, actual) \<Rightarrow> \<not> content_matches expected actual | None \<Rightarrow> False)
        then sret (map_option (\<lambda>(_, actual). Mismatch actual) verified)
        else rename_publish env d1 n1 d2 n2 op plan (Directory D1) (if d1 = d2 then None else Some (Directory D2)) tgt
              ?keep (map_option snd verified))
      (op_result env op ex (rename_effect env creds d1 n1 d2 n2 op s) s) s"
      using pub mis none by (cases "has_op_id op")
        (auto simp only: holds_simps option.case option.map prod.case if_False simp_thms split: if_split option.splits)
  qed
qed

lemma rename_applyI:
  fixes d1 d2 :: inode_id and s :: fs
  assumes inv: "fs_inv s" "roomy s" and valid: "plan_valid d1 n1 d2 n2 plan s"
    and todir: "\<And>i. m_inodes (st_meta s) d2 = Some i \<Longrightarrow> is_directory i"
    and anc: "is_directory (rp_source_inode plan) \<Longrightarrow> \<not> above (ns_of (st_meta s)) (rp_source_id plan) d2"
    and ver: "verification = None \<or> \<not> has_op_id op" and new: "dedup_get (st_ledger s) op = None"
  shows "holds (rename_apply env hash auth d1 n1 d2 n2 op verification plan) (op_result env op ex
    (rename_effect env (credentials_from_auth_context auth) d1 n1 d2 n2 op s) s) s"
proof -
  have e: "m_entries (st_meta s) (d1, n1) = Some (rp_source_id plan, rp_source_cookie plan)"
    using valid by (simp_all add: plan_valid_def)
  have "live_dir (ns_of (st_meta s)) d1"
    by (rule ns_invD(3) [of _ d1 n1 "rp_source_id plan"]) (use inv e in \<open>simp_all add: fs_inv_def meta_inv_def\<close>)
  then obtain D1 where D1: "m_inodes (st_meta s) d1 = Some (Directory D1)" "i_nlink (d_attrs D1) \<noteq> 0"
    by (rule live_dirE)
  show ?thesis
  proof (cases "d1 = d2")
    case True
    then show ?thesis
      unfolding rename_apply_def s_inode_get_def Let_def
      using rename_checkedI [OF inv valid D1(1) _ _ anc ver _ new] D1
      by (auto intro!: holds_readI holds_liftI dest!: inode_get_Inr)
  next
    case False
    show ?thesis
      unfolding rename_apply_def s_inode_get_def Let_def sbind_assoc if_P [OF False] sbind_sret
    proof (rule holds_readI, simp, rule holds_readI, simp, rule holds_liftI, simp)
      fix from_dir to_dir u
      assume "inode_get (oe_faults env) (st_meta s) d1 = Inr from_dir"
        and t: "inode_get (oe_faults env) (st_meta s) d2 = Inr to_dir"
        and acc: "rename_access (credentials_from_auth_context auth) from_dir (Some to_dir) (rp_source_inode plan) = Inr u"
      then have f: "from_dir = Directory D1"
        using D1 by (auto dest: inode_get_Inr)
      obtain D2 where D2: "to_dir = Directory D2"
        using todir [OF inode_get_Inr [OF t]] by (cases to_dir) simp_all
      show "holds (rename_checked env hash (credentials_from_auth_context auth) d1 n1 d2 n2 op verification plan
          from_dir (Some to_dir)) (op_result env op ex (rename_effect env (credentials_from_auth_context auth) d1 n1 d2 n2 op s) s) s"
        using rename_checkedI [OF inv valid D1(1) _ _ anc ver _ new, of D2] False f D2 inode_get_Inr [OF t]
          rename_access_live(2) [of _ _ D2] acc
        by simp
    qed
  qed
qed

text \<open>Resolving ends with an answer, or with a plan that fits the unchanged state.\<close>

definition resolved ::
  "op_id \<Rightarrow> inode_id \<Rightarrow> bytes \<Rightarrow> inode_id \<Rightarrow> bytes \<Rightarrow> (rename_outcome option fs_result \<Rightarrow> fs \<Rightarrow> bool) \<Rightarrow> fs \<Rightarrow>
   rename_plan option fs_result \<Rightarrow> fs \<Rightarrow> bool" where
  "resolved op d1 n1 d2 n2 Q s r t =
     (case r of
        Inl e \<Rightarrow> Q (Inl e) t
      | Inr None \<Rightarrow> Q (Inr None) t
      | Inr (Some plan) \<Rightarrow> t = s \<and> plan_valid d1 n1 d2 n2 plan s \<and> dedup_get (st_ledger s) op = None)"

lemma optional_entry_Inr:
  assumes "faults_ok env" "optional_entry (get_entry_with_cookie (oe_faults env) m d n) = Inr e"
  shows "e = m_entries m (d, n)"
  using assms by (auto simp: optional_entry_def get_entry_with_cookie_def ok_or_def faults_ok_def
      split: sum.splits option.splits if_splits)

lemma rename_verifyI:
  assumes err: "\<And>e. Q (Inl e) s" and flt: "faults_ok env"
    and names: "validate_filename n1 = Inr ()" "validate_filename n2 = Inr ()"
    and new: "dedup_get (st_ledger s) op = None"
  shows "holds (rename_verify env d1 n1 d2 n2 replace verification x c target) (resolved op d1 n1 d2 n2 Q s) s"
  unfolding rename_verify_def s_get_entry_def s_inode_get_def
  using names err new
  by (intro holds_readI holds_pairI holds_liftI)
    (auto simp: resolved_def plan_valid_def get_entry_Inr check_def
      dest!: optional_entry_Inr [OF flt] inode_get_Inr split: if_splits)

lemma resolved_simps [simp]:
  "resolved op d1 n1 d2 n2 Q s (Inl e) t = Q (Inl e) t"
  "resolved op d1 n1 d2 n2 Q s (Inr None) t = Q (Inr None) t"
  by (simp_all add: resolved_def)

lemma replay_renameD:
  assumes "replay_dedup_result l op (\<lambda>r. map_option (\<lambda>_. None) (into_rename r)) = Inr (Some y)"
  shows "y = None" "Option.bind (dedup_get l op) (\<lambda>r. map_option (\<lambda>_. None) (into_rename r)) = Some None"
  using assms by (auto simp: replay_dedup_result_def split: option.splits)

lemma rename_resolveI:
  fixes eff :: "rename_outcome option \<Rightarrow> fs \<Rightarrow> bool"
  defines "ex \<equiv> \<lambda>r. map_option (\<lambda>_. None) (into_rename r)"
  assumes flt: "faults_ok env"
    and eff: "\<And>t. (d1, n1) = (d2, n2) \<Longrightarrow> st_meta t = st_meta s \<Longrightarrow>
      st_ledger t = (if has_op_id op then record_entry \<lparr>dd_op_id = op, dd_result = DrRename\<rparr> (st_ledger s)
        else st_ledger s) \<Longrightarrow> eff None t"
  shows "holds (rename_resolve env d1 n1 d2 n2 op replace verification)
    (resolved op d1 n1 d2 n2 (op_result env op ex eff s) s) s"
proof -
  let ?Q = "op_result env op ex eff s"
  let ?R = "resolved op d1 n1 d2 n2 ?Q s"
  let ?ex = "\<lambda>r. map_option (\<lambda>_. None) (into_rename r) :: rename_plan option option"
  have ex: "\<forall>res. ex res \<in> {None, Some None}"
    unfolding ex_def by (metis insertCI not_None_eq option.map)
  have rp: "?R (Inr y) s"
    if "replay_dedup_result l op ?ex = Inr (Some y)" "l = st_ledger (oe_pre env) \<or> l = st_ledger s" for y l
    using replay_renameD [OF that(1)] that(2) by (auto intro!: op_result_replayed simp: replayed_def ex_def)
  have pre: "holds (unless_replayed_pre env op ?ex k) ?R s" if "holds k ?R s" for k
    unfolding unless_replayed_pre_def using that rp by (intro holds_liftI) (auto split: option.split)
  have locked: "holds (unless_replayed op ?ex k) ?R s"
    if "dedup_get (st_ledger s) op = None \<Longrightarrow> holds k ?R s" for k
    unfolding unless_replayed_def using that rp
    by (intro holds_readI) (auto simp: replay_dedup_result_None split: option.split)
  have noop: "holds (sbind (record_rename_result env op) (\<lambda>_. sret None)) ?R s" if "d1 = d2 \<and> n1 = n2"
  proof -
    have "holds (sbind (record_rename_result env op) (\<lambda>_. sret None)) ?Q s"
      using that ex by (intro record_rename_resultI eff) simp_all
    then show ?thesis
      by (simp add: holds_bind cong: sum.case_cong)
  qed
  have look: "holds (rename_lookup env d1 n1 d2 n2 op replace verification) ?R s"
    if "validate_filename n1 = Inr ()" "validate_filename n2 = Inr ()"
    unfolding rename_lookup_def
    using that by (auto split: sum.split prod.split intro!: locked holds_liftI rename_verifyI flt)
  show ?thesis
    unfolding rename_resolve_def
    by (rule holds_liftI, simp, rule holds_liftI, simp, rule holds_liftI, simp, rule pre, rule holds_liftI, simp,
        rule holds_liftI, simp, split if_split) (use noop look in auto)
qed

lemma rename_result:
  fixes d1 d2 :: inode_id and s :: fs
  defines "ex \<equiv> \<lambda>r. map_option (\<lambda>_. None) (into_rename r)"
  assumes inv: "fs_inv s" "roomy s" and flt: "faults_ok env"
    and todir: "\<And>i. m_inodes (st_meta s) d2 = Some i \<Longrightarrow> is_directory i"
    and ver: "verification = None \<or> \<not> has_op_id op"
    and run: "rename_with_options env hash auth d1 n1 d2 n2 op replace verification s = Some (r, t)"
  shows "op_result env op ex (rename_effect env (credentials_from_auth_context auth) d1 n1 d2 n2 op s) s r t"
proof -
  let ?Q = "op_result env op ex (rename_effect env (credentials_from_auth_context auth) d1 n1 d2 n2 op s) s"
  obtain r0 s0 where r0: "rename_resolve env d1 n1 d2 n2 op replace verification s = (r0, s0)"
    by fastforce
  have "holds (rename_resolve env d1 n1 d2 n2 op replace verification) (resolved op d1 n1 d2 n2 ?Q s) s"
    unfolding ex_def by (rule rename_resolveI [OF flt]) (simp add: rename_effect_def rename_noop_def)
  from holdsD [OF this r0] have res: "resolved op d1 n1 d2 n2 ?Q s r0 s0" .
  show ?thesis
  proof (cases "\<exists>plan. r0 = Inr (Some plan)")
    case True
    then obtain plan where plan: "r0 = Inr (Some plan)" "s0 = s" "plan_valid d1 n1 d2 n2 plan s"
      and new: "dedup_get (st_ledger s) op = None"
      using res by (auto simp: resolved_def)
    define anc where "anc = (if is_directory (rp_source_inode plan)
      then is_ancestor_of (oe_faults env) (st_meta s) (rp_source_id plan) d2 else Some (Inr False))"
    have run': "(case anc of None \<Rightarrow> None | Some (Inl e) \<Rightarrow> Some (Inl e, s)
        | Some (Inr True) \<Rightarrow> Some (Inl InvalidArgument, s)
        | Some (Inr False) \<Rightarrow> Some (rename_apply env hash auth d1 n1 d2 n2 op verification plan s)) = Some (r, t)"
      using run r0 plan by (simp add: rename_with_options_def anc_def)
    show ?thesis
    proof (cases "anc = Some (Inr False)")
      case True
      then have "\<not> above (ns_of (st_meta s)) (rp_source_id plan) d2" if "is_directory (rp_source_inode plan)"
        using that is_ancestor_of_sound by (auto simp: anc_def)
      note ap = rename_applyI [OF inv plan(3) todir this ver new]
      show ?thesis
        by (rule holdsD [OF ap]) (use True run' in simp_all)
    next
      case False
      then show ?thesis
        using run' by (auto split: option.splits sum.splits bool.splits)
    qed
  next
    case False
    then show ?thesis
      using run r0 res by (auto simp: rename_with_options_def split: sum.splits option.splits)
  qed
qed

section \<open>The contract\<close>

text \<open>
  A rename keeps its promise when the destination it is given is a directory, the database reports
  no read error as a missing key, and a verified rename carries no operation identifier.
\<close>

definition rename_admits :: "inode_id \<Rightarrow> op_id \<Rightarrow> verified_expectation option \<Rightarrow> op_env \<Rightarrow> fs \<Rightarrow> bool" where
  "rename_admits d2 op verification env s \<longleftrightarrow>
     faults_ok env \<and> (\<forall>i. m_inodes (st_meta s) d2 = Some i \<longrightarrow> is_directory i)
     \<and> (verification = None \<or> \<not> has_op_id op)"

lemma renamed_effect_ok:
  assumes "renamed env creds d1 n1 d2 n2 op s t" and ans: "has_op_id op \<Longrightarrow> ans DrRename = Some y"
  shows "effect_ok env op ans s y t"
proof -
  obtain keep where k: "\<forall>y c'. m_entries (st_meta s) (d2, n2) = Some (y, c') \<longrightarrow> keep = should_defer_unlinked_inode env s y"
    and st: "ns_step env (ns_rename keep d1 n1 d2 n2) op DrRename s t"
    using assms(1) unfolding renamed_def by blast
  have "ns_ents (ns_of (st_meta s)) (d2, n2) = Some z \<Longrightarrow> keep = should_defer_unlinked_inode env s z" for z
    using k by (auto simp: ns_of_def)
  then show ?thesis
    using ans by (intro effect_ok_step [OF st] disjI1 [OF ns_rename_nodes(1)])
      (auto simp: should_defer_unlinked_inode_def word_gt_0 dest!: ns_rename_nodes(2))
qed

lemma record_entry_le: "l \<subseteq>\<^sub>m record_entry e l"
  by (auto simp: record_entry_def map_le_def)

interpretation rename_op: ns_operation
  "\<lambda>env s r t. rename_with_options env hash auth d1 n1 d2 n2 op replace verification s = Some (r, t)" op
  "\<lambda>r. map_option (\<lambda>_. None) (into_rename r)"
  "\<lambda>env. rename_effect env (credentials_from_auth_context auth) d1 n1 d2 n2 op" "rename_admits d2 op verification"
  for hash auth d1 n1 d2 n2 op replace verification
proof
  show "op_result env op (\<lambda>r. map_option (\<lambda>_. None) (into_rename r))
      (rename_effect env (credentials_from_auth_context auth) d1 n1 d2 n2 op s) s r t"
    if "fs_inv s" "roomy s" "rename_admits d2 op verification env s"
      "rename_with_options env hash auth d1 n1 d2 n2 op replace verification s = Some (r, t)" for env s r t
    using rename_result [OF that(1,2) _ _ _ that(4)] that(3) unfolding rename_admits_def by blast
  show "effect_ok env op (\<lambda>r. map_option (\<lambda>_. None) (into_rename r)) s y t"
    if "fs_inv s" "rename_effect env (credentials_from_auth_context auth) d1 n1 d2 n2 op s y t" for env s y t
    using that(2) effect_ok_same [OF that(1), of t env] record_entry_le
    by (auto simp: rename_effect_def rename_noop_def intro: renamed_effect_ok split: if_splits)
qed

section \<open>Properties\<close>


definition example_rename :: "(rename_outcome option fs_result \<times> fs) option" where
  "example_rename = rename_with_options (example_env\<lparr>oe_pre := example_tree\<rparr>) (\<lambda>_. Inl IoError) default_auth_context
     1 [0x66] 2 [0x67] example_op True None example_tree"

lemma example_rename_ok: "map_option (error_of \<circ> fst) example_rename = Some None"
  by code_simp


text \<open>
  C9. A rename returns. The walk towards the root that \<open>is_ancestor_of\<close> makes has no bound in the
  code; in a consistent state it ends, so the call answers whatever the two names are, unless the
  destination is a directory that has itself been removed.
\<close>

theorem rename_returns:
  assumes "fs_inv s" "faults_ok env"
    and "\<And>D. m_inodes (st_meta s) d2 = Some (Directory D) \<Longrightarrow> i_nlink (d_attrs D) \<noteq> 0"
  shows "\<exists>r t. rename_with_options env hash auth d1 n1 d2 n2 op replace verification s = Some (r, t)"
proof -
  obtain r0 s0 where r0: "rename_resolve env d1 n1 d2 n2 op replace verification s = (r0, s0)"
    by fastforce
  have "holds (rename_resolve env d1 n1 d2 n2 op replace verification)
      (resolved op d1 n1 d2 n2 (op_result env op (\<lambda>r. map_option (\<lambda>_. None) (into_rename r)) (\<lambda>_ _. True) s) s) s"
    by (rule rename_resolveI [OF assms(2)]) simp
  from holdsD [OF this r0] have same: "s0 = s" if "r0 = Inr (Some plan)" for plan
    using that by (simp add: resolved_def)
  have "meta_inv (st_meta s)"
    using assms(1) by (simp add: fs_inv_def)
  then have anc: "\<exists>r. is_ancestor_of (oe_faults env) (st_meta s) a d2 = Some r" for a
    by (rule is_ancestor_of_returns) (rule assms(3))
  show ?thesis
    unfolding rename_with_options_def r0 using same
    by (auto split: sum.split option.split bool.split) (metis anc option.distinct(1))
qed

theorem rename_returns_witness:
  "\<exists>r t. rename_with_options (example_env\<lparr>oe_pre := example_tree\<rparr>) (\<lambda>_. Inl IoError) default_auth_context
     0 [0x61] 2 [0x61] example_op True None example_tree = Some (r, t)"
  by (rule rename_returns [OF example_tree_inv(1)])
    (auto simp: faults_ok_def example_env_def example_tree_def tree_inode_def tree_attrs_def)

definition example_rename_into_file :: "(rename_outcome option fs_result \<times> fs) option" where
  "example_rename_into_file = rename_with_options (example_env\<lparr>oe_pre := example_tree\<rparr>) (\<lambda>_. Inl IoError)
     default_auth_context 0 [0x62] 3 [0x78] no_op_id True None example_tree"


end
