(* ===== verification/Handles.thy ===== *)
theory Handles
  imports Op_Remove
begin

text \<open>
  Reclaim of inodes that were unlinked while still in use (\<open>fs/handle.rs\<close>): the last close of a
  handle, or the start of the process, deletes an orphan that nothing refers to any more.
\<close>

definition reclaim_dead_inode ::
  "op_env \<Rightarrow> inode_id \<Rightarrow> inode \<Rightarrow> unit fsm" where
  "reclaim_dead_inode env ino i =
     sbind (slift (new_transaction env)) (\<lambda>t.
     sbind (stage_delete_inode env ino i t) (\<lambda>t.
     let t = orphan_remove ino (add_inode_count_delta ino (- 1) t) in
     sbind (s_commit env t
         (case i of File f \<Rightarrow> SettleQuota (Shrink (f_size f)) | _ \<Rightarrow> NoSettlement)) (\<lambda>_.
     s_bump (deleted_metrics i))))"

definition reclaim_stray_orphan :: "op_env \<Rightarrow> inode_id \<Rightarrow> unit fsm" where
  "reclaim_stray_orphan env ino =
     sbind (sread (\<lambda>s. orphan_contains (oe_faults env) (st_meta s) ino)) (\<lambda>present.
     if present then
       sbind (slift (new_transaction env)) (\<lambda>t. s_commit env (orphan_remove ino t) NoSettlement)
     else sret ())"

definition reclaim_orphan_inode :: "op_env \<Rightarrow> inode_id \<Rightarrow> unit fsm" where
  "reclaim_orphan_inode env ino =
     sbind (sread (\<lambda>s. Inr (inode_get (oe_faults env) (st_meta s) ino))) (\<lambda>r.
     case r of
       Inr i \<Rightarrow>
         if inode_nlink i = 0 then
           (if entry_count_of i \<noteq> 0 then sret () else reclaim_dead_inode env ino i)
         else reclaim_stray_orphan env ino
     | Inl e \<Rightarrow> if e = NotFound then reclaim_stray_orphan env ino else sfail e)"

text \<open>Failures are logged; the orphan row stays for a later attempt.\<close>

definition reclaim_if_unreferenced :: "op_env \<Rightarrow> inode_id \<Rightarrow> fs \<Rightarrow> fs" where
  "reclaim_if_unreferenced env ino s =
     (if fence_metadata env \<noteq> Inr () then s
      else if open_handle_count s ino > 0 then s
      else if oe_protected env ino then s
      else snd (reclaim_orphan_inode env ino s))"

definition drainer_step :: "op_env \<Rightarrow> fs \<Rightarrow> fs" where
  "drainer_step env s =
     (case st_reclaim s of
        [] \<Rightarrow> s
      | ino # rest \<Rightarrow> reclaim_if_unreferenced env ino (s\<lparr>st_reclaim := rest\<rparr>))"

definition drain_orphans :: "op_env \<Rightarrow> (inode_id \<Rightarrow> bool) \<Rightarrow> fs \<Rightarrow> fs" where
  "drain_orphans env unreadable s =
     fold (reclaim_if_unreferenced env)
       (filter (\<lambda>ino. \<not> unreadable ino) (sorted_list_of_set (m_orphans (st_meta s)))) s"

section \<open>Lemmas\<close>

definition reclaim_effect :: "op_env \<Rightarrow> inode_id \<Rightarrow> fs \<Rightarrow> unit \<Rightarrow> fs \<Rightarrow> bool" where
  "reclaim_effect env x s y t \<longleftrightarrow>
     (if x \<in> m_orphans (st_meta s) then ns_step env (ns_reclaim x) no_op_id DrApplied s t
      else st_meta t = st_meta s \<and> st_ledger t = st_ledger s)"

lemma orphan_iff:
  "ns_inv (ns_of m) \<Longrightarrow> x \<in> m_orphans m \<longleftrightarrow> (\<exists>i. m_inodes m x = Some i \<and> inode_nlink i = 0)"
  using ns_invD(8) [of "ns_of m"] by (auto simp: skel_of_links unat_eq_0)

lemma has_no_op_id [simp]: "\<not> has_op_id no_op_id"
  by (simp add: has_op_id_def no_op_id_def list_ex_iff)

lemma s_bump_unit: "s_bump ks = sbind (s_bump ks) (\<lambda>_. sret ())"
  by (simp add: s_bump_def smodify_def sbind_def sret_def fun_eq_iff)

lemma inode_get_NotFound:
  "faults_ok env \<Longrightarrow> inode_get (oe_faults env) m x = Inl NotFound \<Longrightarrow> m_inodes m x = None"
  by (auto simp: faults_ok_def inode_get_def ok_or_def split: option.splits)

lemma dead_count:
  assumes inv: "meta_inv m" and x: "m_inodes m x = Some i" "inode_nlink i = 0"
  shows "entry_count_of i = 0"
proof (cases i)
  case (Directory D)
  have "\<not> live_dir (ns_of m) x"
    using x skel_of_links [of i] by (auto simp: live_dir_def)
  then have "kids (ns_of m) x = {}"
    by (rule no_kids_dead [OF meta_invD(1) [OF inv]])
  then show ?thesis
    using dir_count [OF inv, of x D] x Directory by (simp add: entry_count_of_def unat_eq_0)
qed (simp_all add: entry_count_of_def)

lemma reclaim_applied:
  fixes env :: op_env and s t :: fs
  assumes inv: "meta_inv (st_meta s)" and x: "m_inodes (st_meta s) x = Some i" "inode_nlink i = 0"
    and ops: "list_all data_op ops" and tx: "tx_ops tx = ops @ delete_ops x i @ [DelOrphan x]" "tx_dedup_entry tx = None"
    and t: "st_meta t = apply_ops (tx_ops tx) (st_meta s)" "st_ledger t = ledger_add (txn_entries tx) (st_ledger s)"
  shows "ns_step env (ns_reclaim x) no_op_id DrApplied s t"
proof -
  have "ns_of (st_meta t) = ns_reclaim x (ns_of (st_meta s))" "meta_inv (st_meta t)"
    "emb_fresh (st_meta s) \<Longrightarrow> emb_fresh (st_meta t)"
    by (rule meta_reclaim [OF inv x]; simp add: t(1) tx(1) delete_ops_def data_ops_rows [OF ops])+
  then show ?thesis
    by (simp add: ns_step_def t(2) txn_entries_def tx(2) ledger_add_def)
qed

lemma reclaim_result:
  assumes inv: "fs_inv s" and flt: "faults_ok env"
  shows "holds (reclaim_orphan_inode env x) (op_result env no_op_id (\<lambda>_. None) (reclaim_effect env x s) s) s"
proof -
  have minv: "meta_inv (st_meta s)"
    using inv by (simp add: fs_inv_def)
  note orph = orphan_iff [OF meta_invD(1) [OF minv], of x]
  let ?Q = "op_result env no_op_id (\<lambda>_. None) (reclaim_effect env x s) s"
  have quiet: "?Q (Inr ()) s" if "x \<notin> m_orphans (st_meta s)"
    using that by (auto simp: op_result_def reclaim_effect_def dedup_get_def intro!: exI [of _ 0])
  have stray: "holds (reclaim_stray_orphan env x) ?Q s" if "x \<notin> m_orphans (st_meta s)"
    unfolding reclaim_stray_orphan_def
    using that quiet by (intro holds_readI) (auto simp: orphan_contains_def split: option.splits)
  have dead: "holds (reclaim_dead_inode env x i) ?Q s" if i: "m_inodes (st_meta s) x = Some i" "inode_nlink i = 0" for i
    unfolding reclaim_dead_inode_def Let_def
  proof (rule holds_liftI, simp, rule stage_delete_inodeI, simp)
    fix t0 t' :: txn and ops ks
    assume t0: "new_transaction env = Inr t0" and ops: "list_all data_op ops"
      and t': "tx_ops t' = tx_ops t0 @ ops @ delete_ops x i" "tx_dedup_entry t' = tx_dedup_entry t0"
    let ?tx = "orphan_remove x (add_inode_count_delta x (- 1) t')"
    have "tx_ops ?tx = ops @ delete_ops x i @ [DelOrphan x]" "tx_dedup_entry ?tx = None"
      using new_transaction_Inr [OF t0] t' by simp_all
    note ap = reclaim_applied [OF minv i ops this]
    have "holds (sbind (s_commit env ?tx st) (\<lambda>_. s_bump (deleted_metrics i))) ?Q (fold bump ks s)" for st
      using ap i orph
      by (subst s_bump_unit) (rule commit_resultI [where k = 0]; simp add: quiet_def reclaim_effect_def dedup_get_def)
    then show "holds (sbind (s_commit env ?tx (case i of File f \<Rightarrow> SettleQuota (Shrink (f_size f)) | _ \<Rightarrow> NoSettlement))
        (\<lambda>_. s_bump (deleted_metrics i))) ?Q (fold bump ks s)" .
  qed
  have count: "entry_count_of i = 0" if "m_inodes (st_meta s) x = Some i" "inode_nlink i = 0" for i
    using dead_count [OF minv that] .
  show ?thesis
    unfolding reclaim_orphan_inode_def
  proof (rule holds_readI)
    fix r
    assume "Inr (inode_get (oe_faults env) (st_meta s) x) = (Inr r :: (inode fs_result) fs_result)"
    then have r: "r = inode_get (oe_faults env) (st_meta s) x"
      by simp
    show "holds (case r of Inr i \<Rightarrow>
         if inode_nlink i = 0 then (if entry_count_of i \<noteq> 0 then sret () else reclaim_dead_inode env x i)
         else reclaim_stray_orphan env x
       | Inl e \<Rightarrow> if e = NotFound then reclaim_stray_orphan env x else sfail e) ?Q s"
    proof (cases r)
      case (Inl e)
      then show ?thesis
        using r inode_get_NotFound [OF flt, of "st_meta s" x] stray orph by auto
    next
      case (Inr i)
      then have "m_inodes (st_meta s) x = Some i"
        using r by (metis inode_get_Inr)
      then show ?thesis
        using Inr dead count stray orph by auto
    qed
  qed simp
qed

section \<open>The contract\<close>

interpretation reclaim_op: ns_operation "\<lambda>env s r t. reclaim_orphan_inode env x s = (r, t)" no_op_id "\<lambda>_. None"
  "\<lambda>env. reclaim_effect env x" "\<lambda>env s. faults_ok env \<and> open_handle_count s x = 0"
  for x
proof
  show "effect_ok env no_op_id (\<lambda>_. None) s y t"
    if "fs_inv s" "faults_ok env \<and> open_handle_count s x = 0" "reclaim_effect env x s y t" for env s y t
  proof (cases "x \<in> m_orphans (st_meta s)")
    case True
    then have "ns_step env (ns_reclaim x) no_op_id DrApplied s t"
      using that(3) by (simp add: reclaim_effect_def)
    then show ?thesis
      by (rule effect_ok_step) (use that(2) in \<open>auto simp: ns_reclaim_nodes\<close>)
  next
    case False
    then show ?thesis
      using that effect_ok_same [OF that(1), of t env] by (simp add: reclaim_effect_def)
  qed
qed (rule holdsD [OF reclaim_result], simp_all)

section \<open>Properties\<close>

text \<open>
  C11. Reclaim removes exactly the orphans. Run on any inode of a consistent state,
  \<open>reclaim_orphan_inode\<close> fails and changes nothing, or has deleted the inode when it has no link left
  and changed nothing when it has: a linked inode is never deleted, and an inode without a link is
  gone with its orphan row when the call succeeds.
\<close>

theorem reclaim_refines_ns_reclaim:
  assumes "fs_inv s" "faults_ok env" "reclaim_orphan_inode env x s = (r, t)"
  shows "op_result env no_op_id (\<lambda>_. None) (reclaim_effect env x s) s r t"
  by (rule holdsD [OF reclaim_result]) (rule assms)+

theorem reclaim_refines_ns_reclaim_witness:
  "let c = reclaim_orphan_inode example_env 3 example_tree
   in fs_inv example_tree \<and> fst c = Inr () \<and> m_inodes (st_meta (snd c)) 3 \<noteq> None
      \<and> op_result example_env no_op_id (\<lambda>_. None) (reclaim_effect example_env 3 example_tree) example_tree (fst c) (snd c)"
  unfolding Let_def
proof (intro conjI example_tree_inv)
  show "fst (reclaim_orphan_inode example_env 3 example_tree) = Inr ()"
    by code_simp
  show "m_inodes (st_meta (snd (reclaim_orphan_inode example_env 3 example_tree))) 3 \<noteq> None"
    by code_simp
  have "faults_ok example_env"
    by (simp add: faults_ok_def example_env_def)
  then show "op_result example_env no_op_id (\<lambda>_. None) (reclaim_effect example_env 3 example_tree) example_tree
      (fst (reclaim_orphan_inode example_env 3 example_tree)) (snd (reclaim_orphan_inode example_env 3 example_tree))"
    by (rule reclaim_refines_ns_reclaim [OF example_tree_inv(1)]) simp
qed

end
