(* ===== verification/Frame_Codec.thy ===== *)
theory Frame_Codec
  imports Prelude
begin

text \<open>
  The frame codec of \<open>frame_codec.rs\<close>: compress, then encrypt with associated data, and back.
  The cipher and the two compressors come from third-party crates and are fields of a record;
  \<open>codec_ok\<close> states what the code relies on from them. The random nonce of a seal is an
  argument.
\<close>

section \<open>Codec\<close>

datatype compression_config = Lz4 | Zstd int

datatype codec_error = Compress | Decompress | Encrypt | TooShort nat | Decrypt

record codec =
  cd_compression :: compression_config
  cd_encrypt :: "bytes \<Rightarrow> bytes \<Rightarrow> bytes \<Rightarrow> (bytes \<times> bytes) option"
  cd_decrypt :: "bytes \<Rightarrow> bytes \<Rightarrow> bytes \<Rightarrow> bytes option"
  cd_lz4_compress :: "bytes \<Rightarrow> bytes"
  cd_lz4_decompress :: "bytes \<Rightarrow> bytes option"
  cd_zstd_compress :: "int \<Rightarrow> bytes \<Rightarrow> bytes option"
  cd_zstd_decompress :: "bytes \<Rightarrow> nat \<Rightarrow> bytes option"

definition NONCE_SIZE :: nat where
  "NONCE_SIZE = 24"

definition TAG_SIZE :: nat where
  "TAG_SIZE = 16"

definition SEALED_FRAME_OVERHEAD :: nat where
  "SEALED_FRAME_OVERHEAD = NONCE_SIZE + TAG_SIZE"

definition ZSTD_MAGIC :: bytes where
  "ZSTD_MAGIC = [0x28, 0xB5, 0x2F, 0xFD]"

text \<open>A payload between compression and encryption is a type of its own.\<close>

datatype compressed = Compressed (compressed_bytes: bytes)

definition compressed_len :: "compressed \<Rightarrow> nat" where
  "compressed_len c = length (compressed_bytes c)"

definition sealed_len :: "compressed \<Rightarrow> nat" where
  "sealed_len c = length (compressed_bytes c) + SEALED_FRAME_OVERHEAD"

definition encode_is_cheap :: "codec \<Rightarrow> bool" where
  "encode_is_cheap c = (case cd_compression c of Lz4 \<Rightarrow> True | Zstd level \<Rightarrow> level \<le> 12)"

definition compress :: "codec \<Rightarrow> bytes \<Rightarrow> codec_error + compressed" where
  "compress c d =
     (case cd_compression c of
        Lz4 \<Rightarrow> Inr (Compressed (cd_lz4_compress c d))
      | Zstd level \<Rightarrow>
          try_bind (ok_or Compress (cd_zstd_compress c level d)) (\<lambda>z.
            Inr (Compressed (to_le_bytes (word_of_nat (length d) :: u32) @ z))))"

definition decompress :: "codec \<Rightarrow> bytes \<Rightarrow> codec_error + bytes" where
  "decompress c d =
     (if length d \<ge> 8 \<and> slice 4 8 d = ZSTD_MAGIC
      then ok_or Decompress (cd_zstd_decompress c (drop 4 d) (le_nat (take 4 d)))
      else ok_or Decompress (cd_lz4_decompress c d))"

definition seal_compressed :: "codec \<Rightarrow> bytes \<Rightarrow> compressed \<Rightarrow> bytes \<Rightarrow> codec_error + bytes" where
  "seal_compressed c nonce p aad =
     try_bind (ok_or Encrypt (cd_encrypt c nonce aad (compressed_bytes p))) (\<lambda>(ct, tag).
       Inr (nonce @ ct @ tag))"

definition seal :: "codec \<Rightarrow> bytes \<Rightarrow> bytes \<Rightarrow> bytes \<Rightarrow> codec_error + bytes" where
  "seal c nonce plain aad = try_bind (compress c plain) (\<lambda>p. seal_compressed c nonce p aad)"

definition open_compressed :: "codec \<Rightarrow> bytes \<Rightarrow> bytes \<Rightarrow> codec_error + compressed" where
  "open_compressed c frame aad =
     (if length frame < NONCE_SIZE + TAG_SIZE then Inl (TooShort (length frame))
      else
        try_bind (ok_or Decrypt (cd_decrypt c (take NONCE_SIZE frame) aad (drop NONCE_SIZE frame)))
          (\<lambda>d. Inr (Compressed d)))"

definition codec_open :: "codec \<Rightarrow> bytes \<Rightarrow> bytes \<Rightarrow> codec_error + bytes" where
  "codec_open c frame aad =
     try_bind (open_compressed c frame aad) (\<lambda>p. decompress c (compressed_bytes p))"

section \<open>What the third-party primitives promise\<close>

text \<open>
  Decryption inverts encryption under the same nonce and associated data; the cipher keeps the
  length and appends a 16-byte tag. Each decompressor inverts its compressor. A zstd frame starts
  with its magic number; a size-prefixed lz4 block never has that number behind the prefix.
\<close>

definition aead_ok :: "codec \<Rightarrow> bool" where
  "aead_ok c \<longleftrightarrow>
     (\<forall>n aad p ct tag. cd_encrypt c n aad p = Some (ct, tag) \<longrightarrow>
        length ct = length p \<and> length tag = TAG_SIZE \<and> cd_decrypt c n aad (ct @ tag) = Some p)"

definition lz4_ok :: "codec \<Rightarrow> bool" where
  "lz4_ok c \<longleftrightarrow>
     (\<forall>p. cd_lz4_decompress c (cd_lz4_compress c p) = Some p
          \<and> \<not> (8 \<le> length (cd_lz4_compress c p) \<and> slice 4 8 (cd_lz4_compress c p) = ZSTD_MAGIC))"

definition zstd_ok :: "codec \<Rightarrow> bool" where
  "zstd_ok c \<longleftrightarrow>
     (\<forall>l p z. cd_zstd_compress c l p = Some z \<longrightarrow>
        starts_with ZSTD_MAGIC z \<and> cd_zstd_decompress c z (length p) = Some p)"

definition codec_ok :: "codec \<Rightarrow> bool" where
  "codec_ok c \<longleftrightarrow> aead_ok c \<and> lz4_ok c \<and> zstd_ok c"

section \<open>Lemmas\<close>

lemma sealed_length:
  "aead_ok c \<Longrightarrow> length nonce = NONCE_SIZE \<Longrightarrow> seal_compressed c nonce p aad = Inr frame \<Longrightarrow>
   length frame = sealed_len p"
  by (auto simp: seal_compressed_def try_bind_Inr aead_ok_def sealed_len_def SEALED_FRAME_OVERHEAD_def)

lemma open_compressed_seal:
  "aead_ok c \<Longrightarrow> length nonce = NONCE_SIZE \<Longrightarrow> seal_compressed c nonce p aad = Inr frame \<Longrightarrow>
   open_compressed c frame aad = Inr p"
  by (auto simp: seal_compressed_def try_bind_Inr aead_ok_def open_compressed_def)

lemma decompress_compress:
  assumes "codec_ok c" "length d < 2 ^ 32" "compress c d = Inr p"
  shows "decompress c (compressed_bytes p) = Inr d"
proof (cases "cd_compression c")
  case Lz4
  then show ?thesis
    using assms by (auto simp: compress_def decompress_def codec_ok_def lz4_ok_def)
next
  case (Zstd level)
  then obtain z where z: "cd_zstd_compress c level d = Some z"
    and p: "p = Compressed (to_le_bytes (word_of_nat (length d) :: u32) @ z)"
    using assms(3) by (auto simp: compress_def try_bind_Inr)
  have ok: "starts_with ZSTD_MAGIC z" "cd_zstd_decompress c z (length d) = Some d"
    using assms(1) z by (auto simp: codec_ok_def zstd_ok_def)
  obtain r where r: "z = ZSTD_MAGIC @ r"
    using ok(1) by (auto simp: starts_with_iff)
  have "le_nat (to_le_bytes (word_of_nat (length d) :: u32)) = length d"
    using assms(2) le_word_bytes [of 4 "word_of_nat (length d) :: u32"] by (simp add: unat_of_nat)
  then show ?thesis
    using ok(2) r by (simp add: decompress_def p slice_def ZSTD_MAGIC_def)
qed

lemma codec_open_sealed:
  "codec_ok c \<Longrightarrow> length d < 2 ^ 32 \<Longrightarrow> length nonce = NONCE_SIZE \<Longrightarrow> compress c d = Inr p \<Longrightarrow>
   seal_compressed c nonce p aad = Inr frame \<Longrightarrow> codec_open c frame aad = Inr d"
  by (simp add: codec_open_def open_compressed_seal decompress_compress codec_ok_def)

lemma codec_open_seal:
  "codec_ok c \<Longrightarrow> length d < 2 ^ 32 \<Longrightarrow> length nonce = NONCE_SIZE \<Longrightarrow> seal c nonce d aad = Inr frame \<Longrightarrow>
   codec_open c frame aad = Inr d"
  by (auto simp: seal_def try_bind_Inr codec_open_sealed)

section \<open>A codec that keeps the promises\<close>

definition plain_codec :: "compression_config \<Rightarrow> codec" where
  "plain_codec cfg =
     \<lparr>cd_compression = cfg,
      cd_encrypt = (\<lambda>n aad p. Some (p, replicate 16 0)),
      cd_decrypt = (\<lambda>n aad x. Some (take (length x - 16) x)),
      cd_lz4_compress = (\<lambda>p. [0, 0, 0, 0, 0] @ p),
      cd_lz4_decompress = (\<lambda>x. Some (drop 5 x)),
      cd_zstd_compress = (\<lambda>l p. Some (ZSTD_MAGIC @ p)),
      cd_zstd_decompress = (\<lambda>x n. Some (drop 4 x))\<rparr>"

lemma plain_codec_ok: "codec_ok (plain_codec cfg)"
  by (simp add: codec_ok_def aead_ok_def lz4_ok_def zstd_ok_def plain_codec_def TAG_SIZE_def
      ZSTD_MAGIC_def slice_def starts_with_def)

end
