(* ===== verification/Segment_Format.thy ===== *)
theory Segment_Format
  imports Segment Frame_Codec
begin

text \<open>
  The segment object of \<open>segment.rs\<close>: length-prefixed sealed frames, a sealed directory and a
  64-byte footer. The width checks of the wire format, the associated data of frames and
  directory, the writer, the footer and directory readers, and the walk over a byte range of
  frames.

  \<open>data_env\<close> holds the codec, the CRC function, the nonces drawn by a batch and the answer
  of the allocator to a request (\<open>try_reserve_exact\<close>).
\<close>

section \<open>Errors and limits\<close>

datatype segment_error =
    TooSmall nat
  | BadMagic
  | BadVersion u32
  | CrcMismatch u32 u32
  | Malformed string
  | SegidMismatch segid segid
  | Codec codec_error

record data_env =
  dn_codec :: codec
  dn_crc :: "bytes \<Rightarrow> u32"
  dn_crc_append :: "u32 \<Rightarrow> bytes \<Rightarrow> u32"
  dn_nonce :: "nat \<Rightarrow> bytes"
  dn_alloc :: "nat \<Rightarrow> bool"

record segment_format_limits =
  lim_u32_max :: nat

definition WIRE :: segment_format_limits where
  "WIRE = \<lparr>lim_u32_max = 2 ^ 32 - 1\<rparr>"

definition FOOTER_LEN :: nat where
  "FOOTER_LEN = 64"

definition SEG_MAGIC :: bytes where
  "SEG_MAGIC = [0x5A, 0x53, 0x45, 0x47]"

definition SEG_VERSION :: u32 where
  "SEG_VERSION = 1"

definition DIR_ENTRY_LEN :: nat where
  "DIR_ENTRY_LEN = 28"

definition LEN_PREFIX :: nat where
  "LEN_PREFIX = 4"

definition F_CRC :: nat where
  "F_CRC = 56"

definition codec_result :: "codec_error + 'a \<Rightarrow> segment_error + 'a" where
  "codec_result r = (case r of Inl e \<Rightarrow> Inl (Codec e) | Inr x \<Rightarrow> Inr x)"

definition reserve_exact :: "data_env \<Rightarrow> nat \<Rightarrow> string \<Rightarrow> segment_error + unit" where
  "reserve_exact env n what = check (dn_alloc env n) (Malformed what)"

definition checked_wire_u32 :: "nat \<Rightarrow> segment_format_limits \<Rightarrow> string \<Rightarrow> segment_error + u32" where
  "checked_wire_u32 value limits field =
     (if value > lim_u32_max limits then Inl (Malformed field)
      else if value < 2 ^ 32 then Inr (word_of_nat value)
      else Inl (Malformed field))"

definition checked_frame_count :: "nat \<Rightarrow> nat \<Rightarrow> segment_format_limits \<Rightarrow> segment_error + u32" where
  "checked_frame_count current additional limits =
     try_bind (ok_or (Malformed ''segment frame count'') (usize_checked_add current additional))
       (\<lambda>total. checked_wire_u32 total limits ''segment frame count'')"

definition checked_segment_frame_count :: "nat \<Rightarrow> segment_format_limits \<Rightarrow> segment_error + u32" where
  "checked_segment_frame_count count limits = checked_frame_count 0 count limits"

definition checked_directory_plaintext_len :: "nat \<Rightarrow> segment_format_limits \<Rightarrow> segment_error + nat" where
  "checked_directory_plaintext_len entry_count limits =
     try_bind (ok_or (Malformed ''directory plaintext length'')
                 (usize_checked_mul entry_count DIR_ENTRY_LEN)) (\<lambda>plain_len.
     try_bind (checked_wire_u32 plain_len limits ''directory plaintext length'') (\<lambda>_.
       Inr plain_len))"

definition checked_stored_frame_len :: "u64 \<Rightarrow> segment_format_limits \<Rightarrow> segment_error + u32" where
  "checked_stored_frame_len stored_len limits =
     checked_wire_u32 (unat stored_len) limits ''stored frame length''"

definition checked_append_frame_index :: "nat \<Rightarrow> segment_format_limits \<Rightarrow> segment_error + u32" where
  "checked_append_frame_index current limits =
     try_bind (checked_frame_count current 1 limits) (\<lambda>_.
       checked_wire_u32 current limits ''frame index'')"

definition checked_frame_run_start :: "nat \<Rightarrow> nat \<Rightarrow> segment_format_limits \<Rightarrow> segment_error + u32" where
  "checked_frame_run_start current additional limits =
     try_bind (checked_frame_count current additional limits) (\<lambda>_.
       checked_wire_u32 current limits ''frame index'')"

definition checked_frame_index :: "u32 \<Rightarrow> nat \<Rightarrow> segment_format_limits \<Rightarrow> segment_error + u32" where
  "checked_frame_index first k limits =
     try_bind (checked_wire_u32 k limits ''frame index'') (\<lambda>k.
     try_bind (ok_or (Malformed ''frame index'') (checked_add first k)) (\<lambda>index.
       if unat index > lim_u32_max limits then Inl (Malformed ''frame index'') else Inr index))"

definition checked_frame_body_len :: "nat \<Rightarrow> segment_format_limits \<Rightarrow> segment_error + u32" where
  "checked_frame_body_len body_len limits =
     try_bind (checked_wire_u32 body_len limits ''stored frame length'') (\<lambda>body_len.
     try_bind (ok_or (Malformed ''stored frame length'')
                 (checked_add body_len (word_of_nat LEN_PREFIX))) (\<lambda>stored_len.
       if unat stored_len > lim_u32_max limits then Inl (Malformed ''stored frame length'')
       else Inr body_len))"

section \<open>Associated data\<close>

definition segid_to_le_bytes :: "segid \<Rightarrow> bytes" where
  "segid_to_le_bytes s = to_le_bytes (sg_epoch s) @ to_le_bytes (sg_counter s)"

definition frame_aad :: "segid \<Rightarrow> u32 \<Rightarrow> u64 \<Rightarrow> u64 \<Rightarrow> bytes" where
  "frame_aad s frame_index ino extent =
     [0x46] @ segid_to_le_bytes s @ to_le_bytes frame_index @ to_le_bytes ino @ to_le_bytes extent"

definition dir_aad :: "segid \<Rightarrow> u32 \<Rightarrow> bytes" where
  "dir_aad s k = [0x44] @ segid_to_le_bytes s @ to_le_bytes k"

section \<open>Writing a segment\<close>

record seg_dir_entry =
  de_byte_offset :: u64
  de_len :: u32
  de_inode :: u64
  de_extent :: u64

record segment_builder =
  sb_segid :: segid
  sb_buf :: bytes
  sb_dir :: "seg_dir_entry list"
  sb_limits :: segment_format_limits

definition builder_with_limits :: "segid \<Rightarrow> segment_format_limits \<Rightarrow> segment_builder" where
  "builder_with_limits s limits = \<lparr>sb_segid = s, sb_buf = [], sb_dir = [], sb_limits = limits\<rparr>"

definition builder_byte_len :: "segment_builder \<Rightarrow> u64" where
  "builder_byte_len b = word_of_nat (length (sb_buf b))"

definition try_append_sealed ::
  "data_env \<Rightarrow> u64 \<Rightarrow> u64 \<Rightarrow> bytes \<Rightarrow> segment_builder \<Rightarrow> segment_error + u32 \<times> segment_builder" where
  "try_append_sealed env ino extent sealed b =
     try_bind (checked_append_frame_index (length (sb_dir b)) (sb_limits b)) (\<lambda>frame_index.
     try_bind (ok_or (Malformed ''segment frame count'') (usize_checked_add (length (sb_dir b)) 1))
       (\<lambda>final_frame_count.
     try_bind (checked_directory_plaintext_len final_frame_count (sb_limits b)) (\<lambda>_.
     try_bind (checked_frame_body_len (length sealed) (sb_limits b)) (\<lambda>len.
     try_bind (ok_or (Malformed ''segment byte length'') (usize_checked_add LEN_PREFIX (length sealed)))
       (\<lambda>additional.
     try_bind (reserve_exact env additional ''segment frame allocation failed'') (\<lambda>_.
     try_bind (reserve_exact env 1 ''segment directory allocation failed'') (\<lambda>_.
       Inr (frame_index,
            b\<lparr>sb_buf := sb_buf b @ to_le_bytes len @ sealed,
              sb_dir := sb_dir b @ [\<lparr>de_byte_offset = word_of_nat (length (sb_buf b)), de_len = len,
                                     de_inode = ino, de_extent = extent\<rparr>]\<rparr>))))))))"

definition seal_compressed_frame ::
  "data_env \<Rightarrow> nat \<Rightarrow> segid \<Rightarrow> u32 \<Rightarrow> u64 \<Rightarrow> u64 \<Rightarrow> compressed \<Rightarrow> segment_error + bytes" where
  "seal_compressed_frame env draw s frame_index ino extent p =
     codec_result (seal_compressed (dn_codec env) (dn_nonce env draw) p (frame_aad s frame_index ino extent))"

definition open_compressed_frame ::
  "data_env \<Rightarrow> segid \<Rightarrow> u32 \<Rightarrow> u64 \<Rightarrow> u64 \<Rightarrow> bytes \<Rightarrow> segment_error + compressed" where
  "open_compressed_frame env s frame_index ino extent sealed =
     codec_result (open_compressed (dn_codec env) sealed (frame_aad s frame_index ino extent))"

definition dir_entry_bytes :: "seg_dir_entry \<Rightarrow> bytes" where
  "dir_entry_bytes e =
     to_le_bytes (de_byte_offset e) @ to_le_bytes (de_len e) @ to_le_bytes (de_inode e)
     @ to_le_bytes (de_extent e)"

definition seal_directory :: "data_env \<Rightarrow> segid \<Rightarrow> seg_dir_entry list \<Rightarrow> segment_error + bytes" where
  "seal_directory env s dir =
     try_bind (checked_wire_u32 (length dir) WIRE ''segment frame count'') (\<lambda>k.
     try_bind (checked_directory_plaintext_len (length dir) WIRE) (\<lambda>plain_len.
     try_bind (reserve_exact env plain_len ''segment directory allocation failed'') (\<lambda>_.
     let dir_plain = concat (map dir_entry_bytes dir) in
     try_bind (codec_result (seal (dn_codec env) (dn_nonce env 0) dir_plain (dir_aad s k))) (\<lambda>sealed.
     try_bind (checked_wire_u32 (length sealed) WIRE ''sealed directory length'') (\<lambda>_.
       Inr sealed)))))"

record prepared_segment_assembly =
  pa_k :: u32
  pa_dir_offset :: u64
  pa_dir_offset_usize :: nat
  pa_dir_len :: u32
  pa_total_len :: u64

definition prepare_segment_assembly ::
  "data_env \<Rightarrow> bytes \<Rightarrow> nat \<Rightarrow> bytes \<Rightarrow> segment_format_limits \<Rightarrow>
   segment_error + prepared_segment_assembly" where
  "prepare_segment_assembly env buf frame_count sealed_dir limits =
     try_bind (checked_wire_u32 frame_count limits ''segment frame count'') (\<lambda>k.
     try_bind (checked_wire_u32 (length sealed_dir) limits ''sealed directory length'') (\<lambda>dir_len.
     let dir_offset = length buf in
     try_bind (ok_or (Malformed ''segment total length'') (usize_checked_add (length sealed_dir) FOOTER_LEN))
       (\<lambda>additional.
     try_bind (ok_or (Malformed ''segment total length'') (usize_checked_add dir_offset additional))
       (\<lambda>total_len.
     try_bind (reserve_exact env additional ''segment metadata allocation failed'') (\<lambda>_.
       Inr \<lparr>pa_k = k, pa_dir_offset = word_of_nat dir_offset, pa_dir_offset_usize = dir_offset,
            pa_dir_len = dir_len, pa_total_len = word_of_nat total_len\<rparr>)))))"

text \<open>The footer with its CRC and reserved fields still zero.\<close>

definition footer_blank :: "segid \<Rightarrow> u64 \<Rightarrow> prepared_segment_assembly \<Rightarrow> bytes" where
  "footer_blank s sealed_seqno p =
     SEG_MAGIC @ to_le_bytes SEG_VERSION @ to_le_bytes (pa_k p) @ to_le_bytes (pa_dir_offset p)
     @ to_le_bytes (pa_dir_len p) @ to_le_bytes (sg_epoch s) @ to_le_bytes (sg_counter s)
     @ to_le_bytes sealed_seqno @ to_le_bytes (pa_total_len p) @ replicate 4 0 @ replicate 4 0"

definition assemble_prepared_segment ::
  "data_env \<Rightarrow> segid \<Rightarrow> bytes \<Rightarrow> bytes \<Rightarrow> u64 \<Rightarrow> prepared_segment_assembly \<Rightarrow> bytes" where
  "assemble_prepared_segment env s buf sealed_dir sealed_seqno p =
     (let buf = buf @ sealed_dir @ footer_blank s sealed_seqno p;
          crc_end = length buf - (FOOTER_LEN - F_CRC);
          crc = dn_crc env (slice (pa_dir_offset_usize p) crc_end buf);
          crc_pos = length buf - FOOTER_LEN + F_CRC
      in take crc_pos buf @ to_le_bytes crc @ drop (crc_pos + 4) buf)"

definition finalize_segment ::
  "data_env \<Rightarrow> segid \<Rightarrow> bytes \<Rightarrow> seg_dir_entry list \<Rightarrow> u64 \<Rightarrow> segment_error + bytes" where
  "finalize_segment env s buf dir sealed_seqno =
     try_bind (seal_directory env s dir) (\<lambda>sealed_dir.
     try_bind (prepare_segment_assembly env buf (length dir) sealed_dir WIRE) (\<lambda>p.
       Inr (assemble_prepared_segment env s buf sealed_dir sealed_seqno p)))"

definition builder_finish :: "data_env \<Rightarrow> u64 \<Rightarrow> segment_builder \<Rightarrow> segment_error + bytes" where
  "builder_finish env sealed_seqno b =
     finalize_segment env (sb_segid b) (sb_buf b) (sb_dir b) sealed_seqno"

section \<open>Reading the metadata of a segment\<close>

record footer_meta =
  fm_segid :: segid
  fm_k :: u32
  fm_dir_offset :: u64
  fm_dir_len :: u32
  fm_crc :: u32

definition parse_footer :: "bytes \<Rightarrow> u64 \<Rightarrow> segment_error + footer_meta" where
  "parse_footer footer object_size =
     (if length footer \<noteq> FOOTER_LEN then Inl (TooSmall (length footer))
      else if slice 0 4 footer \<noteq> SEG_MAGIC then Inl BadMagic
      else if rd_u32 footer 4 \<noteq> SEG_VERSION then Inl (BadVersion (rd_u32 footer 4))
      else
        let total_len = rd_u64 footer 48 in
        if total_len \<noteq> object_size then Inl (Malformed ''total_len does not match object size'')
        else if rd_u32 footer 60 \<noteq> 0 then Inl (Malformed ''reserved footer bytes nonzero'')
        else
          let dir_offset = rd_u64 footer 12;
              dir_len = rd_u32 footer 20;
              abut = Option.bind (checked_add dir_offset (ucast dir_len)) (\<lambda>e.
                       checked_add e (word_of_nat FOOTER_LEN))
          in
          if abut \<noteq> Some total_len then Inl (Malformed ''directory does not abut footer'')
          else Inr \<lparr>fm_segid = segid_new (rd_u64 footer 24) (rd_u64 footer 32), fm_k = rd_u32 footer 8,
                    fm_dir_offset = dir_offset, fm_dir_len = dir_len, fm_crc = rd_u32 footer F_CRC\<rparr>)"

definition parse_dir_entry :: "bytes \<Rightarrow> nat \<Rightarrow> seg_dir_entry" where
  "parse_dir_entry plain i =
     (let o' = i * DIR_ENTRY_LEN in
      \<lparr>de_byte_offset = rd_u64 plain o', de_len = rd_u32 plain (o' + 8),
       de_inode = rd_u64 plain (o' + 12), de_extent = rd_u64 plain (o' + 20)\<rparr>)"

definition parse_dir_entries :: "bytes \<Rightarrow> u32 \<Rightarrow> segment_error + seg_dir_entry list" where
  "parse_dir_entries plain k =
     (if length plain \<noteq> unat k * DIR_ENTRY_LEN then Inl (Malformed ''directory length mismatch'')
      else Inr (map (parse_dir_entry plain) [0..<unat k]))"

definition decode_directory ::
  "data_env \<Rightarrow> bytes \<Rightarrow> bytes \<Rightarrow> footer_meta \<Rightarrow> segment_error + seg_dir_entry list" where
  "decode_directory env dir_bytes footer m =
     (if length dir_bytes \<noteq> unat (fm_dir_len m) \<or> length footer \<noteq> FOOTER_LEN
      then Inl (Malformed ''directory/footer length mismatch'')
      else
        let computed = dn_crc_append env (dn_crc env dir_bytes) (take F_CRC footer) in
        if computed \<noteq> fm_crc m then Inl (CrcMismatch (fm_crc m) computed)
        else
          try_bind (codec_result (codec_open (dn_codec env) dir_bytes (dir_aad (fm_segid m) (fm_k m))))
            (\<lambda>plain. parse_dir_entries plain (fm_k m)))"

section \<open>Reading frames\<close>

type_synonym frame_span = "(nat \<times> nat) \<times> u32 \<times> u64 \<times> u64"

fun parse_spans_from ::
  "bytes \<Rightarrow> u32 \<Rightarrow> nat \<Rightarrow> nat \<Rightarrow> (u64 \<times> u64) list \<Rightarrow> segment_error + frame_span list" where
  "parse_spans_from region first_frame i pos [] = Inr []"
| "parse_spans_from region first_frame i pos ((ino, extent) # slots) =
     (if pos + LEN_PREFIX > length region then Inl (Malformed ''frame length prefix out of bounds'')
      else
        let len = unat (rd_u32 region pos);
            pos = pos + LEN_PREFIX
        in
        try_bind (ok_or (Malformed ''frame length overflow'') (usize_checked_add pos len)) (\<lambda>frame_end.
          if frame_end > length region then Inl (Malformed ''frame body out of bounds'')
          else
            try_bind (checked_frame_index first_frame i WIRE) (\<lambda>fi.
            try_bind (parse_spans_from region first_frame (i + 1) frame_end slots) (\<lambda>spans.
              Inr (((pos, frame_end), fi, ino, extent) # spans)))))"

definition parse_spans :: "bytes \<Rightarrow> u32 \<Rightarrow> (u64 \<times> u64) list \<Rightarrow> segment_error + frame_span list" where
  "parse_spans region first_frame slots = parse_spans_from region first_frame 0 0 slots"

definition read_frames_from_region ::
  "data_env \<Rightarrow> bytes \<Rightarrow> segid \<Rightarrow> u32 \<Rightarrow> (u64 \<times> u64) list \<Rightarrow> segment_error + bytes list" where
  "read_frames_from_region env region s first_frame slots =
     try_bind (parse_spans region first_frame slots) (\<lambda>spans.
       try_map (\<lambda>((a, b), fi, ino, extent).
         codec_result (codec_open (dn_codec env) (slice a b region) (frame_aad s fi ino extent))) spans)"

definition read_compressed_frames_from_region ::
  "data_env \<Rightarrow> bytes \<Rightarrow> segid \<Rightarrow> u32 \<Rightarrow> (u64 \<times> u64) list \<Rightarrow> segment_error + compressed list" where
  "read_compressed_frames_from_region env region s first_frame slots =
     try_bind (parse_spans region first_frame slots) (\<lambda>spans.
       try_map (\<lambda>((a, b), fi, ino, extent).
         open_compressed_frame env s fi ino extent (slice a b region)) spans)"

text \<open>Sealing a batch: frame \<open>i\<close> is bound to index \<open>first_frame + i\<close>. The choice between
  one core and several does not change the result.\<close>

definition seal_compressed_batch ::
  "data_env \<Rightarrow> segid \<Rightarrow> u32 \<Rightarrow> (u64 \<times> u64 \<times> compressed) list \<Rightarrow>
   segment_error + (u64 \<times> u64 \<times> bytes) list" where
  "seal_compressed_batch env s first_frame frames =
     try_map (\<lambda>(i, ino, extent, p).
       try_bind (checked_frame_index first_frame i WIRE) (\<lambda>frame_index.
       try_bind (seal_compressed_frame env i s frame_index ino extent p) (\<lambda>body.
         Inr (ino, extent, body)))) (enumerate 0 frames)"

section \<open>Width checks\<close>

lemma checked_wire [simp]:
  "checked_wire_u32 n WIRE f = Inr w \<longleftrightarrow> n < 2 ^ 32 \<and> w = word_of_nat n"
  by (auto simp: checked_wire_u32_def WIRE_def)

lemma checked_wire_ok: "n < 2 ^ 32 \<Longrightarrow> checked_wire_u32 n WIRE f = Inr (word_of_nat n)"
  by simp

lemma checked_frame_index_ok:
  "checked_frame_index first k WIRE = Inr w \<longleftrightarrow> unat first + k < 2 ^ 32 \<and> w = first + word_of_nat k"
proof -
  have "k < 2 ^ 32 \<Longrightarrow> unat (word_of_nat k :: u32) = k"
    by (simp add: unat_of_nat)
  then show ?thesis
    by (auto simp: checked_frame_index_def try_bind_Inr checked_add_Some WIRE_def unat_word_ariths
        checked_wire_u32_def split: if_splits)
qed

lemma checked_frame_body_len_ok:
  "checked_frame_body_len n WIRE = Inr w \<longleftrightarrow> n + 4 < 2 ^ 32 \<and> w = word_of_nat n"
proof -
  have "n < 2 ^ 32 \<Longrightarrow> unat (word_of_nat n :: u32) = n"
    by (simp add: unat_of_nat)
  then show ?thesis
    by (auto simp: checked_frame_body_len_def try_bind_Inr checked_add_Some LEN_PREFIX_def WIRE_def
        checked_wire_u32_def unat_word_ariths unat_of_nat split: if_splits)
qed

lemma checked_stored_frame_len_ok:
  "checked_stored_frame_len n WIRE = Inr w \<longleftrightarrow> unat n < 2 ^ 32 \<and> w = word_of_nat (unat n)"
  by (simp add: checked_stored_frame_len_def)

lemma checked_frame_run_start_ok:
  "checked_frame_run_start cur add WIRE = Inr w \<longleftrightarrow> cur + add < 2 ^ 32 \<and> w = word_of_nat cur"
  by (auto simp: checked_frame_run_start_def checked_frame_count_def try_bind_Inr usize_checked_add_def)

lemma checked_directory_ok:
  "checked_directory_plaintext_len n WIRE = Inr m \<longleftrightarrow> n * 28 < 2 ^ 32 \<and> m = n * 28"
  by (auto simp: checked_directory_plaintext_len_def try_bind_Inr usize_checked_mul_def DIR_ENTRY_LEN_def)

lemma codec_result_Inr [simp]: "codec_result r = Inr x \<longleftrightarrow> r = Inr x"
  by (cases r) (simp_all add: codec_result_def)

lemma reserve_exact_Inr [simp]: "reserve_exact env n w = Inr u \<longleftrightarrow> dn_alloc env n"
  by (simp add: reserve_exact_def)

section \<open>A walk over frames\<close>

text \<open>The stored form of a sealed body.\<close>

definition frame_bytes :: "bytes \<Rightarrow> bytes" where
  "frame_bytes body = to_le_bytes (word_of_nat (length body) :: u32) @ body"

lemma length_frame_bytes [simp]: "length (frame_bytes body) = length body + 4"
  by (simp add: frame_bytes_def)

lemma rd_u32_frame:
  "length body < 2 ^ 32 \<Longrightarrow> unat (rd_u32 (pre @ frame_bytes body @ post) (length pre)) = length body"
  using le_word_bytes [of 4 "word_of_nat (length body) :: u32"]
  by (simp add: rd_u32_def slice_def frame_bytes_def unat_of_nat)

lemma slice_frame:
  "slice (length pre + 4) (length pre + 4 + length body) (pre @ frame_bytes body @ post) = body"
  by (simp add: slice_def frame_bytes_def)

fun open_bodies ::
  "data_env \<Rightarrow> segid \<Rightarrow> u32 \<Rightarrow> nat \<Rightarrow> (u64 \<times> u64) list \<Rightarrow> bytes list \<Rightarrow> segment_error + bytes list" where
  "open_bodies env s first i ((ino, extent) # slots) (body # bodies) =
     try_bind (codec_result (codec_open (dn_codec env) body (frame_aad s (first + word_of_nat i) ino extent)))
       (\<lambda>p. try_bind (open_bodies env s first (i + 1) slots bodies) (\<lambda>ps. Inr (p # ps)))"
| "open_bodies env s first i slots bodies = Inr []"

lemma parse_spans_walk:
  assumes "length slots = length bodies" "\<forall>b \<in> set bodies. length b < 2 ^ 32"
    "unat first + i + length slots \<le> 2 ^ 32" "length region < 2 ^ 64"
    "region = pre @ concat (map frame_bytes bodies) @ post"
  shows "\<exists>spans. parse_spans_from region first i (length pre) slots = Inr spans
     \<and> try_map (\<lambda>((a, b), fi, ino, extent).
         codec_result (codec_open (dn_codec env) (slice a b region) (frame_aad s fi ino extent))) spans
       = open_bodies env s first i slots bodies"
  using assms
proof (induction slots arbitrary: bodies i pre)
  case (Cons slot slots)
  obtain ino extent where slot: "slot = (ino, extent)"
    by fastforce
  obtain b bs where bodies: "bodies = b # bs"
    using Cons.prems(1) by (cases bodies) auto
  let ?pre = "pre @ frame_bytes b"
  have region: "region = ?pre @ concat (map frame_bytes bs) @ post"
    using Cons.prems(5) bodies by simp
  obtain spans where spans: "parse_spans_from region first (i + 1) (length ?pre) slots = Inr spans"
    "try_map (\<lambda>((a, b), fi, ino, extent).
         codec_result (codec_open (dn_codec env) (slice a b region) (frame_aad s fi ino extent))) spans
       = open_bodies env s first (i + 1) slots bs"
    using Cons.IH [OF _ _ _ Cons.prems(4) region, of "i + 1"] Cons.prems bodies by auto
  have reg: "region = pre @ frame_bytes b @ (concat (map frame_bytes bs) @ post)"
    using region by simp
  have len: "unat (rd_u32 region (length pre)) = length b"
    unfolding reg using Cons.prems(2) bodies by (intro rd_u32_frame) simp
  have body: "slice (length pre + 4) (length pre + 4 + length b) region = b"
    unfolding reg by (rule slice_frame)
  have fits: "length pre + 4 + length b \<le> length region"
    using reg by simp
  have idx: "checked_frame_index first i WIRE = Inr (first + word_of_nat i)"
    using Cons.prems(3) by (simp add: checked_frame_index_ok)
  have "parse_spans_from region first i (length pre) (slot # slots)
    = Inr (((length pre + 4, length pre + 4 + length b), first + word_of_nat i, ino, extent) # spans)"
    using spans(1) fits Cons.prems(4) idx
    by (simp add: slot LEN_PREFIX_def len usize_checked_add_def Let_def ac_simps)
  then show ?case
    using spans(2) body by (simp add: slot bodies)
qed simp

lemma read_frames_concat:
  assumes "length slots = length bodies" "\<forall>b \<in> set bodies. length b < 2 ^ 32"
    "unat first + length slots \<le> 2 ^ 32" "length (concat (map frame_bytes bodies)) < 2 ^ 64"
  shows "read_frames_from_region env (concat (map frame_bytes bodies)) s first slots
    = open_bodies env s first 0 slots bodies"
  using parse_spans_walk [of slots bodies first 0 "concat (map frame_bytes bodies)" "[]" "[]" env s] assms
  by (auto simp: read_frames_from_region_def parse_spans_def)

lemma read_one_frame:
  assumes "length body < 2 ^ 32"
  shows "read_frames_from_region env (frame_bytes body) s first [(ino, extent)]
    = try_bind (codec_result (codec_open (dn_codec env) body (frame_aad s first ino extent))) (\<lambda>p. Inr [p])"
proof -
  have "unat first + 1 \<le> 2 ^ 32"
    using unat_u32_less [of first] by (simp del: unat_u32_less)
  then show ?thesis
    using read_frames_concat [of "[(ino, extent)]" "[body]" first env s] assms by simp
qed

section \<open>Directory and footer\<close>

lemma frame_aad_inject:
  "frame_aad s i ino e = frame_aad s' i' ino' e' \<longleftrightarrow> s = s' \<and> i = i' \<and> ino = ino' \<and> e = e'"
  by (auto simp: frame_aad_def segid_to_le_bytes_def)

lemma frame_aad_not_dir_aad: "frame_aad s i ino e \<noteq> dir_aad s' k"
  by (simp add: frame_aad_def dir_aad_def)

lemma length_dir_entry_bytes [simp]: "length (dir_entry_bytes e) = DIR_ENTRY_LEN"
  by (simp add: dir_entry_bytes_def DIR_ENTRY_LEN_def)

lemma length_dir_plain [simp]: "length (concat (map dir_entry_bytes dir)) = length dir * DIR_ENTRY_LEN"
  by (induction dir) simp_all

lemma rd_u64_at: "rd_u64 (pre @ to_le_bytes w @ post) (length pre) = w"
  by (simp add: rd_u64_def slice_def)

lemma rd_u32_at: "rd_u32 (pre @ to_le_bytes w @ post) (length pre) = w"
  by (simp add: rd_u32_def slice_def)

lemma parse_dir_entry_at:
  assumes "i < length dir"
  shows "parse_dir_entry (concat (map dir_entry_bytes dir)) i = dir ! i"
proof -
  let ?e = "dir ! i" and ?pre = "concat (map dir_entry_bytes (take i dir))"
    and ?post = "concat (map dir_entry_bytes (drop (Suc i) dir))"
  let ?o = "to_le_bytes (de_byte_offset ?e)" and ?l = "to_le_bytes (de_len ?e)"
    and ?n = "to_le_bytes (de_inode ?e)" and ?x = "to_le_bytes (de_extent ?e)"
  have "map dir_entry_bytes dir
      = map dir_entry_bytes (take i dir) @ dir_entry_bytes ?e # map dir_entry_bytes (drop (Suc i) dir)"
    using id_take_nth_drop [OF assms] by (metis list.simps(9) map_append)
  then have plain: "concat (map dir_entry_bytes dir) = ?pre @ ?o @ ?l @ ?n @ ?x @ ?post"
    by (simp add: dir_entry_bytes_def)
  have len: "length ?pre = i * DIR_ENTRY_LEN"
    using assms by (simp add: min_def)
  have "rd_u64 (concat (map dir_entry_bytes dir)) (i * DIR_ENTRY_LEN) = de_byte_offset ?e"
    unfolding plain len [symmetric] by (rule rd_u64_at)
  moreover have "rd_u32 (concat (map dir_entry_bytes dir)) (i * DIR_ENTRY_LEN + 8) = de_len ?e"
    using rd_u32_at [of "?pre @ ?o" "de_len ?e" "?n @ ?x @ ?post"] unfolding plain len [symmetric] by simp
  moreover have "rd_u64 (concat (map dir_entry_bytes dir)) (i * DIR_ENTRY_LEN + 12) = de_inode ?e"
    using rd_u64_at [of "?pre @ ?o @ ?l" "de_inode ?e" "?x @ ?post"] unfolding plain len [symmetric] by simp
  moreover have "rd_u64 (concat (map dir_entry_bytes dir)) (i * DIR_ENTRY_LEN + 20) = de_extent ?e"
    using rd_u64_at [of "?pre @ ?o @ ?l @ ?n" "de_extent ?e" "?post"]
    unfolding plain len [symmetric] by simp
  ultimately show ?thesis
    by (simp add: parse_dir_entry_def Let_def)
qed

lemma parse_dir_entries_inverse:
  assumes "length dir < 2 ^ 32"
  shows "parse_dir_entries (concat (map dir_entry_bytes dir)) (word_of_nat (length dir)) = Inr dir"
proof -
  have "unat (word_of_nat (length dir) :: u32) = length dir"
    using assms by (simp add: unat_of_nat)
  moreover have "map (parse_dir_entry (concat (map dir_entry_bytes dir))) [0..<length dir] = dir"
    by (rule nth_equalityI) (simp_all add: parse_dir_entry_at)
  ultimately show ?thesis
    by (simp add: parse_dir_entries_def)
qed

text \<open>The documented relation of the two CRC entry points, and 24-byte nonces.\<close>

definition env_ok :: "data_env \<Rightarrow> bool" where
  "env_ok env \<longleftrightarrow>
     codec_ok (dn_codec env) \<and> (\<forall>n. length (dn_nonce env n) = NONCE_SIZE)
     \<and> (\<forall>a b. dn_crc_append env (dn_crc env a) b = dn_crc env (a @ b))"

lemma seal_directory_opens:
  assumes "env_ok env" "seal_directory env s dir = Inr sealed"
  shows "length dir < 2 ^ 32 \<and> length sealed < 2 ^ 32
    \<and> codec_open (dn_codec env) sealed (dir_aad s (word_of_nat (length dir)))
      = Inr (concat (map dir_entry_bytes dir))"
proof -
  have "length (concat (map dir_entry_bytes dir)) < 2 ^ 32"
    using assms(2) by (auto simp: seal_directory_def try_bind_Inr checked_directory_ok DIR_ENTRY_LEN_def)
  then show ?thesis
    using assms codec_open_seal [of "dn_codec env" "concat (map dir_entry_bytes dir)" "dn_nonce env 0"]
    by (auto simp: seal_directory_def try_bind_Inr env_ok_def Let_def)
qed

lemma footer_blank_split:
  "footer_blank s q p = take F_CRC (footer_blank s q p) @ replicate 8 0"
  "length (footer_blank s q p) = FOOTER_LEN"
  by (simp_all add: footer_blank_def F_CRC_def FOOTER_LEN_def SEG_MAGIC_def numeral_eq_Suc)

text \<open>The layout of a finished object: frames, sealed directory, footer with its CRC.\<close>

lemma assembled_layout:
  fixes s q p
  assumes "prepare_segment_assembly env buf k sealed limits = Inr p"
  defines "foot \<equiv> take F_CRC (footer_blank s q p)"
  shows "assemble_prepared_segment env s buf sealed q p
    = buf @ sealed @ foot @ to_le_bytes (dn_crc env (sealed @ foot)) @ replicate 4 0"
proof -
  have off: "pa_dir_offset_usize p = length buf"
    using assms(1) by (auto simp: prepare_segment_assembly_def try_bind_Inr Let_def)
  have blank: "footer_blank s q p = foot @ replicate 8 0"
    unfolding foot_def by (rule footer_blank_split(1))
  have len: "length foot = 56"
    by (simp add: foot_def footer_blank_split(2) F_CRC_def FOOTER_LEN_def)
  have "replicate 8 (0 :: u8) = replicate 4 0 @ replicate 4 0"
    by (simp add: replicate_add [symmetric])
  then show ?thesis
    unfolding assemble_prepared_segment_def blank
    by (simp add: Let_def off len FOOTER_LEN_def F_CRC_def slice_def)
qed

lemma footer_fields:
  fixes s q p crc
  defines "footer \<equiv> take F_CRC (footer_blank s q p) @ to_le_bytes (crc :: u32) @ replicate 4 0"
  shows "length footer = FOOTER_LEN" "take F_CRC footer = take F_CRC (footer_blank s q p)"
    "slice 0 4 footer = SEG_MAGIC" "rd_u32 footer 4 = SEG_VERSION" "rd_u32 footer 8 = pa_k p"
    "rd_u64 footer 12 = pa_dir_offset p" "rd_u32 footer 20 = pa_dir_len p"
    "rd_u64 footer 24 = sg_epoch s" "rd_u64 footer 32 = sg_counter s"
    "rd_u64 footer 48 = pa_total_len p" "rd_u32 footer F_CRC = crc" "rd_u32 footer 60 = 0"
proof -
  show "length footer = FOOTER_LEN" "take F_CRC footer = take F_CRC (footer_blank s q p)"
    by (simp_all add: footer_def footer_blank_split(2) F_CRC_def FOOTER_LEN_def)
  have eq: "footer = SEG_MAGIC @ to_le_bytes SEG_VERSION @ to_le_bytes (pa_k p) @ to_le_bytes (pa_dir_offset p)
     @ to_le_bytes (pa_dir_len p) @ to_le_bytes (sg_epoch s) @ to_le_bytes (sg_counter s)
     @ to_le_bytes q @ to_le_bytes (pa_total_len p) @ to_le_bytes crc @ replicate 4 0"
    by (simp add: footer_def footer_blank_def F_CRC_def SEG_MAGIC_def)
  have four: "length SEG_MAGIC = 4"
    by (simp add: SEG_MAGIC_def)
  show "slice 0 4 footer = SEG_MAGIC" "rd_u32 footer 4 = SEG_VERSION" "rd_u32 footer 8 = pa_k p"
    "rd_u64 footer 12 = pa_dir_offset p" "rd_u32 footer 20 = pa_dir_len p"
    "rd_u64 footer 24 = sg_epoch s" "rd_u64 footer 32 = sg_counter s"
    "rd_u64 footer 48 = pa_total_len p" "rd_u32 footer F_CRC = crc"
    by (simp_all add: eq four rd_u64_def rd_u32_def slice_def F_CRC_def)
  show "rd_u32 footer 60 = 0"
    by (simp add: eq four rd_u32_def slice_def numeral_eq_Suc)
qed

lemma finished_segment:
  assumes env: "env_ok env" and fin: "finalize_segment env s buf dir q = Inr b"
  obtains sealed footer m where
    "b = buf @ sealed @ footer" "length footer = FOOTER_LEN"
    "parse_footer footer (word_of_nat (length b)) = Inr m" "fm_segid m = s"
    "unat (fm_dir_offset m) = length buf" "unat (fm_dir_len m) = length sealed"
    "decode_directory env sealed footer m = Inr dir" "length b < 2 ^ 64" "0 < length sealed"
proof -
  obtain sealed p where sealed: "seal_directory env s dir = Inr sealed"
    and p: "prepare_segment_assembly env buf (length dir) sealed WIRE = Inr p"
    and b: "b = assemble_prepared_segment env s buf sealed q p"
    using fin by (auto simp: finalize_segment_def try_bind_Inr)
  let ?foot = "take F_CRC (footer_blank s q p)"
  let ?crc = "dn_crc env (sealed @ ?foot)"
  define footer where "footer = ?foot @ to_le_bytes ?crc @ replicate 4 0"
  note fields = footer_fields [of s q p ?crc, folded footer_def]
  have lay: "b = buf @ sealed @ footer"
    unfolding b footer_def by (rule assembled_layout [OF p])
  note dir = seal_directory_opens [OF env sealed]
  have total: "length buf + (length sealed + FOOTER_LEN) < 2 ^ 64"
    and pv: "pa_k p = word_of_nat (length dir)" "pa_dir_offset p = word_of_nat (length buf)"
    "pa_dir_len p = word_of_nat (length sealed)"
    "pa_total_len p = word_of_nat (length buf + (length sealed + FOOTER_LEN))"
    using p by (auto simp: prepare_segment_assembly_def try_bind_Inr Let_def usize_checked_add_def
        split: if_splits)
  have size: "length b = length buf + (length sealed + FOOTER_LEN)"
    by (simp add: lay fields(1))
  have uoff: "unat (pa_dir_offset p) = length buf" and ulen: "unat (pa_dir_len p) = length sealed"
    using total dir by (simp_all add: pv unat_of_nat)
  have "(ucast (pa_dir_len p) :: u64) = word_of_nat (length sealed)"
    using ulen total by (simp add: word_unat_eq_iff unat_u64_of_nat)
  then have "Option.bind (checked_add (pa_dir_offset p) (ucast (pa_dir_len p)))
      (\<lambda>e. checked_add e (word_of_nat FOOTER_LEN)) = Some (pa_total_len p)"
    using total by (simp add: pv checked_add_of_nat add.assoc del: of_nat_add)
  then have meta: "parse_footer footer (word_of_nat (length b)) = Inr
      \<lparr>fm_segid = segid_new (sg_epoch s) (sg_counter s), fm_k = pa_k p, fm_dir_offset = pa_dir_offset p,
       fm_dir_len = pa_dir_len p, fm_crc = ?crc\<rparr>" (is "_ = Inr ?m")
    using pv(4) by (simp add: parse_footer_def fields size Let_def)
  have seg: "fm_segid ?m = s"
    by (simp add: segid_new_def)
  have "decode_directory env sealed footer ?m = Inr dir"
    using env dir parse_dir_entries_inverse [of dir]
    by (simp add: decode_directory_def fields ulen env_ok_def Let_def seg [simplified] pv(1)
        codec_result_def)
  moreover have "length (dn_nonce env 0) = 24"
    using env by (simp add: env_ok_def NONCE_SIZE_def)
  then have "0 < length sealed"
    using sealed by (auto simp: seal_directory_def try_bind_Inr seal_def seal_compressed_def Let_def)
  ultimately show ?thesis
    using that [OF lay fields(1) meta seg] uoff ulen total size by simp
qed

end
