(* ===== verification/Segment_Store.thy ===== *)
theory Segment_Store
  imports Segment_Format
begin

text \<open>
  The object-store side of segments (\<open>segment_store.rs\<close>): create-only publication with readback
  of an ambiguous outcome, ranged reads of frames and directories, packing of relocated frames
  and rebuilding a segment from shipped frames.

  The object store is a map from keys to contents. What it answers to a call is in the
  environment: a create can be acknowledged, fail with or without having stored the object, or
  store it, lose the answer and report a conflict on the retry; a read can fail.
\<close>

section \<open>The object store\<close>

type_synonym objects = "string \<rightharpoonup> bytes"

datatype put_answer = PutAcked | PutLost bool | PutReplayed

text \<open>A multipart upload: not supported, refused, opened by a backend that ignores the create-only
  request (with the outcome of the abort), or honoured (whether every part arrived, and the answer
  to the completion).\<close>

datatype multipart_answer =
    MpNotSupported
  | MpOpenError
  | MpUnacknowledged bool
  | MpAcknowledged bool put_answer

record store_env =
  sv_data :: data_env
  sv_put :: "string \<Rightarrow> put_answer"
  sv_multipart :: "string \<Rightarrow> multipart_answer"
  sv_get_ok :: "string \<Rightarrow> bool"

datatype segment_store_error =
    ObjectStore string
  | ObjectNotFound
  | SegmentErr segment_error

type_synonym 'a store_result = "segment_store_error + 'a"

definition segment_result :: "segment_error + 'a \<Rightarrow> 'a store_result" where
  "segment_result r = (case r of Inl e \<Rightarrow> Inl (SegmentErr e) | Inr x \<Rightarrow> Inr x)"

definition SEAL_PART_SIZE :: nat where
  "SEAL_PART_SIZE = 64 * 1024 * 1024"

record seg_store =
  ss_objects :: objects
  ss_epoch :: u64
  ss_counter :: u64

definition next_segid :: "seg_store \<Rightarrow> segid \<times> seg_store" where
  "next_segid st = (segid_new (ss_epoch st) (ss_counter st), st\<lparr>ss_counter := ss_counter st + 1\<rparr>)"

text \<open>A bounded range read: refused when it starts at or past the end, clamped to the end.\<close>

definition get_range :: "store_env \<Rightarrow> objects \<Rightarrow> string \<Rightarrow> u64 \<Rightarrow> u64 \<Rightarrow> bytes store_result" where
  "get_range env objs path a b =
     (if \<not> sv_get_ok env path then Inl (ObjectStore ''get'')
      else
        case objs path of
          None \<Rightarrow> Inl (ObjectStore ''not found'')
        | Some obj \<Rightarrow>
            if unat a \<ge> length obj \<or> b \<le> a then Inl (ObjectStore ''range'')
            else Inr (slice (unat a) (min (unat b) (length obj)) obj))"

section \<open>Publishing a segment\<close>

definition verify_existing_segment_bytes ::
  "store_env \<Rightarrow> string \<Rightarrow> bytes \<Rightarrow> objects \<Rightarrow> unit store_result" where
  "verify_existing_segment_bytes env path b objs =
     (if \<not> sv_get_ok env path then Inl (ObjectStore ''segment create conflicted and readback failed'')
      else
        case objs path of
          None \<Rightarrow> Inl (ObjectStore ''segment create conflicted and readback failed'')
        | Some obj \<Rightarrow>
            if length obj \<noteq> length b \<or> obj \<noteq> b
            then Inl (ObjectStore ''segment create conflicted with different existing contents'')
            else Inr ())"

text \<open>A create answered with an error is reconciled by reading the object back.\<close>

definition conditional_create ::
  "store_env \<Rightarrow> put_answer \<Rightarrow> string \<Rightarrow> bytes \<Rightarrow> objects \<Rightarrow> unit store_result \<times> objects" where
  "conditional_create env answer path b objs =
     (case objs path of
        Some _ \<Rightarrow> (verify_existing_segment_bytes env path b objs, objs)
      | None \<Rightarrow>
          (case answer of
             PutAcked \<Rightarrow> (Inr (), objs(path \<mapsto> b))
           | PutLost stored \<Rightarrow>
               let objs = (if stored then objs(path \<mapsto> b) else objs) in
               (case verify_existing_segment_bytes env path b objs of
                  Inr u \<Rightarrow> (Inr (), objs)
                | Inl _ \<Rightarrow> (Inl (ObjectStore ''put''), objs))
           | PutReplayed \<Rightarrow>
               let objs = objs(path \<mapsto> b) in (verify_existing_segment_bytes env path b objs, objs)))"

definition put_segment_create ::
  "store_env \<Rightarrow> string \<Rightarrow> bytes \<Rightarrow> objects \<Rightarrow> unit store_result \<times> objects" where
  "put_segment_create env path b objs = conditional_create env (sv_put env path) path b objs"

definition complete_segment_upload ::
  "store_env \<Rightarrow> bool \<Rightarrow> put_answer \<Rightarrow> string \<Rightarrow> bytes \<Rightarrow> objects \<Rightarrow> unit store_result \<times> objects" where
  "complete_segment_upload env parts_ok completion path b objs =
     (if \<not> parts_ok then (Inl (ObjectStore ''part''), objs)
      else conditional_create env completion path b objs)"

definition put_segment_multipart ::
  "store_env \<Rightarrow> string \<Rightarrow> bytes \<Rightarrow> objects \<Rightarrow> unit store_result \<times> objects" where
  "put_segment_multipart env path b objs =
     (case sv_multipart env path of
        MpNotSupported \<Rightarrow> put_segment_create env path b objs
      | MpOpenError \<Rightarrow> (Inl (ObjectStore ''multipart''), objs)
      | MpAcknowledged parts_ok completion \<Rightarrow> complete_segment_upload env parts_ok completion path b objs
      | MpUnacknowledged aborted \<Rightarrow>
          if aborted then put_segment_create env path b objs
          else (Inl (ObjectStore ''probe cleanup failed''), objs))"

definition put_segment :: "store_env \<Rightarrow> segid \<Rightarrow> bytes \<Rightarrow> objects \<Rightarrow> unit store_result \<times> objects" where
  "put_segment env s b objs =
     (let path = object_key s in
      if length b < SEAL_PART_SIZE then put_segment_create env path b objs
      else put_segment_multipart env path b objs)"

section \<open>Reading\<close>

definition read_run_region ::
  "store_env \<Rightarrow> objects \<Rightarrow> segid \<Rightarrow> u64 \<Rightarrow> u32 \<Rightarrow> bytes store_result" where
  "read_run_region env objs s byte_offset byte_len =
     get_range env objs (object_key s) byte_offset (byte_offset + ucast byte_len)"

definition read_run ::
  "store_env \<Rightarrow> objects \<Rightarrow> segid \<Rightarrow> u64 \<Rightarrow> u32 \<Rightarrow> u32 \<Rightarrow> (u64 \<times> u64) list \<Rightarrow> bytes list store_result" where
  "read_run env objs s byte_offset byte_len first_frame slots =
     try_bind (read_run_region env objs s byte_offset byte_len) (\<lambda>region.
       segment_result (read_frames_from_region (sv_data env) region s first_frame slots))"

definition read_extent ::
  "store_env \<Rightarrow> objects \<Rightarrow> frame_loc \<Rightarrow> u64 \<Rightarrow> u64 \<Rightarrow> bytes store_result" where
  "read_extent env objs loc ino extent =
     try_bind (read_run env objs (fl_segid loc) (fl_byte_offset loc) (fl_byte_len loc)
                 (fl_frame_index loc) [(ino, extent)]) (\<lambda>frames. Inr (last frames))"

definition read_compressed_run ::
  "store_env \<Rightarrow> objects \<Rightarrow> segid \<Rightarrow> u64 \<Rightarrow> u32 \<Rightarrow> u32 \<Rightarrow> (u64 \<times> u64) list \<Rightarrow>
   compressed list store_result" where
  "read_compressed_run env objs s byte_offset byte_len first_frame slots =
     try_bind (read_run_region env objs s byte_offset byte_len) (\<lambda>region.
       segment_result (read_compressed_frames_from_region (sv_data env) region s first_frame slots))"

definition fetch_footer_and_dir_bytes ::
  "store_env \<Rightarrow> objects \<Rightarrow> segid \<Rightarrow> (bytes \<times> footer_meta \<times> bytes) store_result" where
  "fetch_footer_and_dir_bytes env objs s =
     (let path = object_key s in
      if \<not> sv_get_ok env path then Inl (ObjectStore ''get'')
      else
        case objs path of
          None \<Rightarrow> Inl ObjectNotFound
        | Some obj \<Rightarrow>
            let footer = drop (length obj - FOOTER_LEN) obj in
            try_bind (segment_result (parse_footer footer (word_of_nat (length obj)))) (\<lambda>m.
              if fm_segid m \<noteq> s then Inl (SegmentErr (SegidMismatch s (fm_segid m)))
              else
                try_bind (get_range env objs path (fm_dir_offset m)
                            (fm_dir_offset m + ucast (fm_dir_len m))) (\<lambda>dir_bytes.
                  Inr (footer, m, dir_bytes))))"

definition read_directory :: "store_env \<Rightarrow> objects \<Rightarrow> segid \<Rightarrow> seg_dir_entry list store_result" where
  "read_directory env objs s =
     try_bind (fetch_footer_and_dir_bytes env objs s) (\<lambda>(footer, m, dir_bytes).
       segment_result (decode_directory (sv_data env) dir_bytes footer m))"

text \<open>Listing keeps the names that are canonical segment keys.\<close>

definition list_segments :: "objects \<Rightarrow> string list \<Rightarrow> segid list" where
  "list_segments objs names = List.map_filter from_object_key (filter (\<lambda>n. objs n \<noteq> None) names)"

definition delete_segment :: "store_env \<Rightarrow> segid \<Rightarrow> objects \<Rightarrow> unit store_result \<times> objects" where
  "delete_segment env s objs =
     (if sv_get_ok env (object_key s) then (Inr (), objs(object_key s := None))
      else (Inl (ObjectStore ''delete''), objs))"

section \<open>Packing relocated frames\<close>

fun append_all ::
  "data_env \<Rightarrow> segid \<Rightarrow> segment_format_limits \<Rightarrow> (u64 \<times> u64 \<times> bytes) list \<Rightarrow> segment_builder \<Rightarrow>
   segment_error + (u64 \<times> u64 \<times> frame_loc) list \<times> segment_builder" where
  "append_all env s limits [] b = Inr ([], b)"
| "append_all env s limits ((ino, extent, body) # rest) b =
     (let byte_offset = builder_byte_len b in
      try_bind (try_append_sealed env ino extent body b) (\<lambda>(frame_index, b).
      try_bind (checked_stored_frame_len (builder_byte_len b - byte_offset) limits) (\<lambda>byte_len.
      try_bind (append_all env s limits rest b) (\<lambda>(locs, b).
        Inr ((ino, extent, \<lparr>fl_segid = s, fl_frame_index = frame_index, fl_byte_offset = byte_offset,
                            fl_byte_len = byte_len\<rparr>) # locs, b)))))"

definition seal_compressed_with_limits ::
  "store_env \<Rightarrow> (u64 \<times> u64 \<times> compressed) list \<Rightarrow> segment_format_limits \<Rightarrow> seg_store \<Rightarrow>
   (u64 \<times> u64 \<times> frame_loc) list store_result \<times> seg_store" where
  "seal_compressed_with_limits env frames limits st =
     (let d = sv_data env;
          checks =
            try_bind (checked_segment_frame_count (length frames) limits) (\<lambda>_.
            try_bind (checked_directory_plaintext_len (length frames) limits) (\<lambda>_.
              try_map (\<lambda>(_, _, c). checked_frame_body_len (sealed_len c) limits) frames))
      in
      case checks of
        Inl e \<Rightarrow> (Inl (SegmentErr e), st)
      | Inr _ \<Rightarrow>
          let (s, st) = next_segid st;
              packed =
                try_bind (seal_compressed_batch d s 0 frames) (\<lambda>sealed.
                try_bind (reserve_exact d (length sealed) ''segment location allocation failed'') (\<lambda>_.
                try_bind (append_all d s limits sealed (builder_with_limits s limits)) (\<lambda>(locs, b).
                try_bind (builder_finish d (sg_counter s) b) (\<lambda>obj. Inr (locs, obj)))))
          in
          (case packed of
             Inl e \<Rightarrow> (Inl (SegmentErr e), st)
           | Inr (locs, obj) \<Rightarrow>
               (case put_segment env s obj (ss_objects st) of
                  (Inl e, objs) \<Rightarrow> (Inl e, st\<lparr>ss_objects := objs\<rparr>)
                | (Inr _, objs) \<Rightarrow> (Inr locs, st\<lparr>ss_objects := objs\<rparr>))))"

section \<open>Rebuilding a segment from shipped frames\<close>

record recon_frame =
  rf_frame_index :: u32
  rf_byte_offset :: u64
  rf_byte_len :: u32
  rf_inode :: u64
  rf_extent :: u64
  rf_bytes :: bytes

definition write_at :: "nat \<Rightarrow> bytes \<Rightarrow> bytes \<Rightarrow> bytes" where
  "write_at k b buf = take k buf @ b @ drop (k + length b) buf"

definition recon_entry_in :: "recon_frame \<Rightarrow> seg_dir_entry list \<Rightarrow> unit store_result" where
  "recon_entry_in f dir =
     try_bind (ok_or (ObjectStore ''shipped frame is shorter than its length prefix'')
                 (checked_sub (rf_byte_len f) (word_of_nat LEN_PREFIX))) (\<lambda>body_len.
       check (\<lparr>de_byte_offset = rf_byte_offset f, de_len = body_len, de_inode = rf_inode f,
               de_extent = rf_extent f\<rparr> \<in> set dir) (ObjectStore ''existing segment is missing replayed frame''))"

definition recon_bytes_match :: "store_env \<Rightarrow> objects \<Rightarrow> segid \<Rightarrow> recon_frame \<Rightarrow> unit store_result" where
  "recon_bytes_match env objs s f =
     try_bind (ok_or (ObjectStore ''shipped frame range overflows'')
                 (checked_add (rf_byte_offset f) (ucast (rf_byte_len f)))) (\<lambda>stop.
     try_bind (get_range env objs (object_key s) (rf_byte_offset f) stop) (\<lambda>existing.
       check (existing = rf_bytes f) (ObjectStore ''existing segment disagrees with replayed frame'')))"

definition verify_existing_recon_segment ::
  "store_env \<Rightarrow> objects \<Rightarrow> segid \<Rightarrow> recon_frame list \<Rightarrow> unit store_result" where
  "verify_existing_recon_segment env objs s frames =
     try_bind (fetch_footer_and_dir_bytes env objs s) (\<lambda>(footer, m, dir_bytes).
     try_bind (segment_result (decode_directory (sv_data env) dir_bytes footer m)) (\<lambda>dir.
     try_bind (try_map (\<lambda>f. recon_entry_in f dir) frames) (\<lambda>_.
     try_bind (try_map (recon_bytes_match env objs s) frames) (\<lambda>_. Inr ()))))"

fun recon_end :: "recon_frame list \<Rightarrow> u64 \<Rightarrow> u64 store_result" where
  "recon_end [] stop = Inr stop"
| "recon_end (f # fs) stop =
     try_bind (ok_or (ObjectStore ''shipped frame range overflows'')
                 (checked_add (rf_byte_offset f) (ucast (rf_byte_len f)))) (\<lambda>frame_end.
       recon_end fs (max stop frame_end))"

fun recon_copy :: "recon_frame list \<Rightarrow> bytes \<Rightarrow> bytes store_result" where
  "recon_copy [] buf = Inr buf"
| "recon_copy (f # fs) buf =
     (let start = unat (rf_byte_offset f);
          stop = start + unat (rf_byte_len f)
      in
      if unat (rf_byte_len f) < LEN_PREFIX \<or> stop > length buf \<or> length (rf_bytes f) \<noteq> unat (rf_byte_len f)
      then Inl (ObjectStore ''shipped frame layout mismatch'')
      else recon_copy fs (write_at start (rf_bytes f) buf))"

definition recon_dir :: "recon_frame list \<Rightarrow> seg_dir_entry list" where
  "recon_dir frames =
     map (\<lambda>f. \<lparr>de_byte_offset = rf_byte_offset f, de_len = rf_byte_len f - word_of_nat LEN_PREFIX,
               de_inode = rf_inode f, de_extent = rf_extent f\<rparr>) (sort_key rf_frame_index frames)"

definition materialize_segment_if_absent ::
  "store_env \<Rightarrow> segid \<Rightarrow> recon_frame list \<Rightarrow> objects \<Rightarrow> bool store_result \<times> objects" where
  "materialize_segment_if_absent env s frames objs =
     (if frames = [] then (Inr False, objs)
      else
        let built =
              try_bind (recon_end frames 0) (\<lambda>stop.
              try_bind (recon_copy frames (replicate (unat stop) 0)) (\<lambda>buf.
                segment_result (finalize_segment (sv_data env) s buf (recon_dir frames) (sg_counter s))))
        in
        case built of
          Inl e \<Rightarrow> (Inl e, objs)
        | Inr obj \<Rightarrow>
            (case objs (object_key s) of
               Some _ \<Rightarrow>
                 (case verify_existing_recon_segment env objs s frames of
                    Inl e \<Rightarrow> (Inl e, objs)
                  | Inr _ \<Rightarrow> (Inr False, objs))
             | None \<Rightarrow>
                 (case sv_put env (object_key s) of
                    PutAcked \<Rightarrow> (Inr True, objs(object_key s \<mapsto> obj))
                  | PutLost stored \<Rightarrow>
                      (Inl (ObjectStore ''put''), if stored then objs(object_key s \<mapsto> obj) else objs)
                  | PutReplayed \<Rightarrow>
                      let objs = objs(object_key s \<mapsto> obj) in
                      (case verify_existing_recon_segment env objs s frames of
                         Inl e \<Rightarrow> (Inl e, objs)
                       | Inr _ \<Rightarrow> (Inr False, objs)))))"

section \<open>Publication\<close>

lemma segment_result_Inr [simp]: "segment_result r = Inr x \<longleftrightarrow> r = Inr x"
  by (cases r) (simp_all add: segment_result_def)

lemma object_key_inject [simp]: "object_key s = object_key s' \<longleftrightarrow> s = s'"
  using from_object_key_object_key by (metis option.inject)

lemma conditional_create_cases:
  assumes "conditional_create env a path b objs = (r, objs')"
  shows "(objs' = objs \<or> objs path = None \<and> objs' = objs(path \<mapsto> b)) \<and> (r = Inr u \<longrightarrow> objs' path = Some b)"
  using assms
  by (auto simp: conditional_create_def verify_existing_segment_bytes_def Let_def
      split: option.splits put_answer.splits if_splits sum.splits)

lemma put_segment_cases:
  assumes "put_segment env s b objs = (r, objs')"
  shows "(objs' = objs \<or> objs (object_key s) = None \<and> objs' = objs(object_key s \<mapsto> b))
    \<and> (r = Inr () \<longrightarrow> objs' (object_key s) = Some b)"
proof -
  have "(\<exists>a. conditional_create env a (object_key s) b objs = (r, objs')) \<or> (\<exists>e. r = Inl e) \<and> objs' = objs"
    using assms
    by (auto simp: put_segment_def put_segment_multipart_def put_segment_create_def
        complete_segment_upload_def Let_def split: if_splits multipart_answer.splits)
  then show ?thesis
    using conditional_create_cases by blast
qed

section \<open>Where a frame is\<close>

text \<open>\<open>stored_frame env buf loc ino ext p\<close>: the bytes \<open>loc\<close> names inside \<open>buf\<close> are exactly one
  frame, and it opens to \<open>p\<close> under the identity of \<open>(ino, ext)\<close> at \<open>loc\<close>.\<close>

definition stored_frame :: "data_env \<Rightarrow> bytes \<Rightarrow> frame_loc \<Rightarrow> u64 \<Rightarrow> u64 \<Rightarrow> bytes \<Rightarrow> bool" where
  "stored_frame env buf loc ino ext p \<longleftrightarrow>
     (\<exists>pre body post. buf = pre @ frame_bytes body @ post \<and> length buf < 2 ^ 64
        \<and> length body + 4 < 2 ^ 32 \<and> unat (fl_frame_index loc) + 1 < 2 ^ 32
        \<and> length pre = unat (fl_byte_offset loc)
        \<and> unat (fl_byte_len loc) = length body + 4
        \<and> codec_open (dn_codec env) body (frame_aad (fl_segid loc) (fl_frame_index loc) ino ext) = Inr p)"

lemma stored_frame_append:
  "stored_frame env buf loc ino ext p \<Longrightarrow> length (buf @ ys) < 2 ^ 64 \<Longrightarrow>
   stored_frame env (buf @ ys) loc ino ext p"
  unfolding stored_frame_def by (metis append.assoc)

lemma stored_frame_unique:
  assumes "stored_frame env buf loc ino ext p" "stored_frame env buf loc ino ext q"
  shows "p = q"
  using assms by (auto simp: stored_frame_def frame_bytes_def append_eq_append_conv)

lemma stored_frame_slice:
  assumes "stored_frame env buf loc ino ext p"
  obtains body where
    "slice (unat (fl_byte_offset loc)) (unat (fl_byte_offset loc) + unat (fl_byte_len loc)) buf = frame_bytes body"
    "length body + 4 < 2 ^ 32" "unat (fl_byte_len loc) = length body + 4"
    "unat (fl_byte_offset loc) + unat (fl_byte_len loc) \<le> length buf" "length buf < 2 ^ 64"
    "unat (fl_frame_index loc) + 1 < 2 ^ 32"
    "codec_open (dn_codec env) body (frame_aad (fl_segid loc) (fl_frame_index loc) ino ext) = Inr p"
proof -
  obtain pre body post where *: "buf = pre @ frame_bytes body @ post" "length buf < 2 ^ 64"
    "length body + 4 < 2 ^ 32" "length pre = unat (fl_byte_offset loc)" "unat (fl_frame_index loc) + 1 < 2 ^ 32"
    "unat (fl_byte_len loc) = length body + 4"
    "codec_open (dn_codec env) body (frame_aad (fl_segid loc) (fl_frame_index loc) ino ext) = Inr p"
    using assms unfolding stored_frame_def by blast
  have "slice (unat (fl_byte_offset loc)) (unat (fl_byte_offset loc) + unat (fl_byte_len loc)) buf = frame_bytes body"
    by (simp add: *(1) *(6) *(4) [symmetric] slice_def)
  then show ?thesis
    using that * by auto
qed

lemma stored_frame_read:
  assumes "stored_frame env buf loc ino ext p"
  shows "read_frames_from_region env
      (slice (unat (fl_byte_offset loc)) (unat (fl_byte_offset loc) + unat (fl_byte_len loc)) buf)
      (fl_segid loc) (fl_frame_index loc) [(ino, ext)] = Inr [p]"
proof -
  obtain body where "slice (unat (fl_byte_offset loc)) (unat (fl_byte_offset loc) + unat (fl_byte_len loc)) buf
      = frame_bytes body" "length body + 4 < 2 ^ 32"
    "codec_open (dn_codec env) body (frame_aad (fl_segid loc) (fl_frame_index loc) ino ext) = Inr p"
    using assms by (rule stored_frame_slice)
  then show ?thesis
    by (simp add: read_one_frame codec_result_def)
qed

lemma get_range_slice:
  assumes "sv_get_ok env path" "objs path = Some obj" "length obj < 2 ^ 64"
    "unat a + unat (n :: u32) \<le> length obj" "0 < unat n"
  shows "get_range env objs path a (a + ucast n) = Inr (slice (unat a) (unat a + unat n) obj)"
proof -
  have "unat (a + ucast n) = unat a + unat n"
    using assms by (simp add: unat_word_ariths)
  then show ?thesis
    using assms by (simp add: get_range_def word_le_nat_alt)
qed

lemma read_extent_stored:
  assumes "stored_frame (sv_data env) obj loc ino ext p" "objs (object_key (fl_segid loc)) = Some obj"
    "sv_get_ok env (object_key (fl_segid loc))"
  shows "read_extent env objs loc ino ext = Inr p"
proof -
  let ?region = "slice (unat (fl_byte_offset loc)) (unat (fl_byte_offset loc) + unat (fl_byte_len loc)) obj"
  have "read_run_region env objs (fl_segid loc) (fl_byte_offset loc) (fl_byte_len loc) = Inr ?region"
    using assms(1)
    by (rule stored_frame_slice) (simp add: read_run_region_def get_range_slice [where objs = objs, OF assms(3) assms(2)])
  then show ?thesis
    using stored_frame_read [OF assms(1)] by (simp add: read_extent_def read_run_def segment_result_def)
qed

subsection \<open>Runs of adjacent frames\<close>

definition follows :: "frame_loc \<Rightarrow> frame_loc \<Rightarrow> bool" where
  "follows prev loc \<longleftrightarrow>
     fl_segid loc = fl_segid prev \<and> fl_frame_index loc = fl_frame_index prev + 1
     \<and> fl_byte_offset loc = fl_byte_offset prev + ucast (fl_byte_len prev)"

fun adjacent :: "frame_loc list \<Rightarrow> bool" where
  "adjacent (a # b # ls) \<longleftrightarrow> follows a b \<and> adjacent (b # ls)"
| "adjacent ls \<longleftrightarrow> True"

definition run_bytes :: "frame_loc list \<Rightarrow> nat" where
  "run_bytes ls = (\<Sum>l\<leftarrow>ls. unat (fl_byte_len l))"

lemma run_bytes_simps [simp]: "run_bytes [] = 0" "run_bytes (l # ls) = unat (fl_byte_len l) + run_bytes ls"
  by (simp_all add: run_bytes_def)

lemma run_region:
  fixes xs :: "(frame_loc \<times> (u64 \<times> u64) \<times> bytes) list"
  assumes "adjacent (loc # map fst xs)"
    "\<forall>(l, (ino, ext), q) \<in> set ((loc, slot, p) # xs). stored_frame env buf l ino ext q"
    "unat (fl_frame_index loc) = unat first + i"
  shows "\<exists>bodies. length bodies = Suc (length xs) \<and> (\<forall>b \<in> set bodies. length b + 4 < 2 ^ 32)
    \<and> slice (unat (fl_byte_offset loc)) (unat (fl_byte_offset loc) + run_bytes (loc # map fst xs)) buf
      = concat (map frame_bytes bodies)
    \<and> unat (fl_byte_offset loc) + run_bytes (loc # map fst xs) \<le> length buf
    \<and> unat first + i + Suc (length xs) < 2 ^ 32
    \<and> open_bodies env (fl_segid loc) first i (slot # map (\<lambda>x. fst (snd x)) xs) bodies = Inr (p # map (\<lambda>x. snd (snd x)) xs)"
  using assms
proof (induction xs arbitrary: loc slot p i)
  case Nil
  obtain ino ext where slot: "slot = (ino, ext)"
    by fastforce
  have st: "stored_frame env buf loc ino ext p"
    using Nil.prems(2) by (simp add: slot)
  have "fl_frame_index loc = first + word_of_nat i"
    using Nil.prems(3) by (simp add: word_unat_eq_iff unat_word_ariths unat_of_nat mod_add_right_eq) (metis add_lessD1 mod_less unat_u32_less)
  moreover obtain body where
    "slice (unat (fl_byte_offset loc)) (unat (fl_byte_offset loc) + unat (fl_byte_len loc)) buf = frame_bytes body"
    "length body + 4 < 2 ^ 32" "unat (fl_byte_offset loc) + unat (fl_byte_len loc) \<le> length buf"
    "unat (fl_frame_index loc) + 1 < 2 ^ 32"
    "codec_open (dn_codec env) body (frame_aad (fl_segid loc) (fl_frame_index loc) ino ext) = Inr p"
    using st by (rule stored_frame_slice)
  ultimately show ?case
    using Nil.prems(3) by (intro exI [of _ "[body]"]) (simp add: slot codec_result_def)
next
  case (Cons x xs)
  obtain l' slot' q where x: "x = (l', slot', q)"
    by (cases x) auto
  obtain ino ext where slot: "slot = (ino, ext)"
    by fastforce
  let ?off = "unat (fl_byte_offset loc)" and ?len = "unat (fl_byte_len loc)"
  obtain body where body: "slice ?off (?off + ?len) buf = frame_bytes body" "length body + 4 < 2 ^ 32"
    "?off + ?len \<le> length buf" "length buf < 2 ^ 64" "unat (fl_frame_index loc) + 1 < 2 ^ 32"
    "codec_open (dn_codec env) body (frame_aad (fl_segid loc) (fl_frame_index loc) ino ext) = Inr p"
    using Cons.prems(2) slot by (auto elim: stored_frame_slice)
  have fol: "follows loc l'" and adj: "adjacent (l' # map fst xs)"
    using Cons.prems(1) x by auto
  have off': "unat (fl_byte_offset l') = ?off + ?len"
    using fol body(3,4) by (simp add: follows_def unat_word_ariths)
  have idx': "unat (fl_frame_index l') = unat first + (i + 1)"
    using fol body(5) Cons.prems(3) by (simp add: follows_def unat_word_ariths)
  have sid: "fl_segid l' = fl_segid loc"
    using fol by (simp add: follows_def)
  obtain bodies where bodies: "length bodies = Suc (length xs)" "\<forall>b \<in> set bodies. length b + 4 < 2 ^ 32"
    "slice (?off + ?len) (?off + ?len + run_bytes (l' # map fst xs)) buf = concat (map frame_bytes bodies)"
    "?off + ?len + run_bytes (l' # map fst xs) \<le> length buf"
    "unat first + (i + 1) + Suc (length xs) < 2 ^ 32"
    "open_bodies env (fl_segid loc) first (i + 1) (slot' # map (\<lambda>x. fst (snd x)) xs) bodies = Inr (q # map (\<lambda>x. snd (snd x)) xs)"
    using Cons.IH [OF adj _ idx', of slot' q] Cons.prems(2) unfolding x off' sid by auto
  have index: "fl_frame_index loc = first + word_of_nat i"
    using Cons.prems(3) bodies(5) by (simp add: word_unat_eq_iff unat_word_ariths unat_of_nat)
  have "slice ?off (?off + ?len + run_bytes (l' # map fst xs)) buf = frame_bytes body @ concat (map frame_bytes bodies)"
    using slice_split [of ?off "?off + ?len" "?off + ?len + run_bytes (l' # map fst xs)" buf] body(1) bodies(3)
    by simp
  then have "slice ?off (?off + run_bytes (loc # map fst (x # xs))) buf = concat (map frame_bytes (body # bodies))"
    by (simp add: x add.assoc)
  moreover have "open_bodies env (fl_segid loc) first i (slot # map (\<lambda>x. fst (snd x)) (x # xs)) (body # bodies)
      = Inr (p # map (\<lambda>x. snd (snd x)) (x # xs))"
    using body(6) bodies(6) index by (simp add: slot x codec_result_def)
  ultimately show ?case
    using bodies(1,2,4,5) body(2) by (intro exI [of _ "body # bodies"]) (simp add: x)
qed

lemma run_read:
  fixes xs :: "(frame_loc \<times> (u64 \<times> u64) \<times> bytes) list"
  assumes "adjacent (loc # map fst xs)"
    "\<forall>(l, (ino, ext), q) \<in> set ((loc, slot, p) # xs). stored_frame env buf l ino ext q"
  shows "unat (fl_byte_offset loc) + run_bytes (loc # map fst xs) \<le> length buf"
    "read_frames_from_region env
       (slice (unat (fl_byte_offset loc)) (unat (fl_byte_offset loc) + run_bytes (loc # map fst xs)) buf)
       (fl_segid loc) (fl_frame_index loc) (slot # map (\<lambda>x. fst (snd x)) xs) = Inr (p # map (\<lambda>x. snd (snd x)) xs)"
proof -
  have buf: "length buf < 2 ^ 64"
    using assms(2) by (cases slot) (auto simp: stored_frame_def)
  obtain bodies where bodies: "length bodies = Suc (length xs)" "\<forall>b \<in> set bodies. length b + 4 < 2 ^ 32"
    "slice (unat (fl_byte_offset loc)) (unat (fl_byte_offset loc) + run_bytes (loc # map fst xs)) buf
      = concat (map frame_bytes bodies)"
    "unat (fl_byte_offset loc) + run_bytes (loc # map fst xs) \<le> length buf"
    "unat (fl_frame_index loc) + 0 + Suc (length xs) < 2 ^ 32"
    "open_bodies env (fl_segid loc) (fl_frame_index loc) 0 (slot # map (\<lambda>x. fst (snd x)) xs) bodies
      = Inr (p # map (\<lambda>x. snd (snd x)) xs)"
    using run_region [OF assms, of "fl_frame_index loc" 0] by auto
  show "unat (fl_byte_offset loc) + run_bytes (loc # map fst xs) \<le> length buf"
    by (rule bodies(4))
  have "length (concat (map frame_bytes bodies)) = run_bytes (loc # map fst xs)"
    using length_slice [OF bodies(4), of "unat (fl_byte_offset loc)"] unfolding bodies(3) by simp
  then have "length (concat (map frame_bytes bodies)) < 2 ^ 64"
    using bodies(4) buf by linarith
  moreover have "\<forall>b \<in> set bodies. length b < 2 ^ 32"
    using bodies(2) by fastforce
  ultimately show "read_frames_from_region env
       (slice (unat (fl_byte_offset loc)) (unat (fl_byte_offset loc) + run_bytes (loc # map fst xs)) buf)
       (fl_segid loc) (fl_frame_index loc) (slot # map (\<lambda>x. fst (snd x)) xs) = Inr (p # map (\<lambda>x. snd (snd x)) xs)"
    unfolding bodies(3) using bodies(1,5,6) by (subst read_frames_concat) simp_all
qed

section \<open>Finished segments\<close>

lemma sealed_frame_opens:
  assumes "env_ok env" "seal_compressed_frame env k s fi ino ext c = Inr body"
    "decompress (dn_codec env) (compressed_bytes c) = Inr d"
  shows "codec_open (dn_codec env) body (frame_aad s fi ino ext) = Inr d" "length body = sealed_len c"
  using assms open_compressed_seal [of "dn_codec env" "dn_nonce env k" c] sealed_length [of "dn_codec env" "dn_nonce env k" c]
  by (simp_all add: seal_compressed_frame_def codec_open_def env_ok_def codec_ok_def)

lemma sealed_batch_nth:
  assumes "seal_compressed_batch env s first frames = Inr sealed"
  shows "length sealed = length frames"
    "i < length frames \<Longrightarrow> frames ! i = (ino, ext, c) \<Longrightarrow>
     \<exists>body. sealed ! i = (ino, ext, body) \<and> unat first + i < 2 ^ 32
       \<and> seal_compressed_frame env i s (first + word_of_nat i) ino ext c = Inr body"
proof -
  have all: "list_all2 (\<lambda>x y. (case x of (i, ino, extent, p) \<Rightarrow>
       try_bind (checked_frame_index first i WIRE) (\<lambda>frame_index.
       try_bind (seal_compressed_frame env i s frame_index ino extent p) (\<lambda>body.
         Inr (ino, extent, body)))) = Inr y) (enumerate 0 frames) sealed"
    using assms by (simp add: seal_compressed_batch_def try_map_Inr)
  show "length sealed = length frames"
    using list_all2_lengthD [OF all] by simp
  show "\<exists>body. sealed ! i = (ino, ext, body) \<and> unat first + i < 2 ^ 32
       \<and> seal_compressed_frame env i s (first + word_of_nat i) ino ext c = Inr body"
    if "i < length frames" "frames ! i = (ino, ext, c)"
    using list_all2_nthD [OF all, of i] that
    by (auto simp: nth_enumerate_eq try_bind_Inr checked_frame_index_ok)
qed

lemma try_append_sealed_ok:
  assumes "try_append_sealed env ino ext body b = Inr (fi, b')" "sb_limits b = WIRE"
  shows "fi = word_of_nat (length (sb_dir b))" "length (sb_dir b) + 1 < 2 ^ 32" "length body + 4 < 2 ^ 32"
    "sb_buf b' = sb_buf b @ frame_bytes body" "length (sb_dir b') = Suc (length (sb_dir b))"
    "sb_limits b' = WIRE" "sb_segid b' = sb_segid b"
  using assms
  by (auto simp: try_append_sealed_def try_bind_Inr checked_frame_body_len_ok checked_append_frame_index_def
      checked_frame_count_def usize_checked_add_def frame_bytes_def split: if_splits)

lemma append_all_stored:
  assumes "append_all env s WIRE sealed b = Inr (locs, b')" "sb_limits b = WIRE" "length (sb_buf b') < 2 ^ 64"
  shows "(\<exists>post. sb_buf b' = sb_buf b @ post) \<and> sb_segid b' = sb_segid b \<and> length locs = length sealed
    \<and> (\<forall>i ino ext body p. i < length sealed \<longrightarrow> sealed ! i = (ino, ext, body) \<longrightarrow>
         codec_open (dn_codec env) body (frame_aad s (word_of_nat (length (sb_dir b) + i)) ino ext) = Inr p \<longrightarrow>
         (\<exists>loc. locs ! i = (ino, ext, loc) \<and> fl_segid loc = s \<and> stored_frame env (sb_buf b') loc ino ext p))"
  using assms
proof (induction sealed arbitrary: b locs)
  case (Cons x sealed)
  obtain ino ext body where x: "x = (ino, ext, body)"
    by (cases x) auto
  obtain fi b1 n locs' where app: "try_append_sealed env ino ext body b = Inr (fi, b1)"
    and n: "checked_stored_frame_len (builder_byte_len b1 - builder_byte_len b) WIRE = Inr n"
    and rest: "append_all env s WIRE sealed b1 = Inr (locs', b')"
    and locs: "locs = (ino, ext, \<lparr>fl_segid = s, fl_frame_index = fi, fl_byte_offset = builder_byte_len b,
                                  fl_byte_len = n\<rparr>) # locs'"
    using Cons.prems(1) by (auto simp: x try_bind_Inr Let_def)
  note step = try_append_sealed_ok [OF app Cons.prems(2)]
  note IH = Cons.IH [OF rest step(6) Cons.prems(3)]
  obtain post where post: "sb_buf b' = sb_buf b1 @ post"
    using IH by blast
  have small: "length (sb_buf b) + (length body + 4) < 2 ^ 64"
    using Cons.prems(3) post step(4) by simp
  have off: "unat (builder_byte_len b) = length (sb_buf b)"
    using small by (simp add: builder_byte_len_def unat_of_nat)
  have "builder_byte_len b1 - builder_byte_len b = word_of_nat (length body + 4)"
    by (simp add: builder_byte_len_def step(4))
  moreover have "unat (word_of_nat (length body + 4) :: u64) = length body + 4"
    using step(3) by (intro unat_u64_of_nat) simp
  ultimately have "n = word_of_nat (length body + 4)"
    using n by (simp add: checked_stored_frame_len_ok del: of_nat_add)
  then have n': "unat n = length body + 4"
    using unat_u32_of_nat [OF step(3)] by simp
  have head: "stored_frame env (sb_buf b') \<lparr>fl_segid = s, fl_frame_index = fi, fl_byte_offset = builder_byte_len b,
                                  fl_byte_len = n\<rparr> ino ext p"
    if "codec_open (dn_codec env) body (frame_aad s (word_of_nat (length (sb_dir b))) ino ext) = Inr p" for p
    unfolding stored_frame_def using that step(1,2,3) n' off post Cons.prems(3)
    by (intro exI [of _ "sb_buf b"] exI [of _ body] exI [of _ post]) (simp add: step(4) unat_of_nat)
  have "\<exists>loc. locs ! i = (ino', ext', loc) \<and> fl_segid loc = s \<and> stored_frame env (sb_buf b') loc ino' ext' p"
    if "i < length (x # sealed)" "(x # sealed) ! i = (ino', ext', body')"
      "codec_open (dn_codec env) body' (frame_aad s (word_of_nat (length (sb_dir b) + i)) ino' ext') = Inr p"
    for i ino' ext' body' p
  proof (cases i)
    case 0
    then show ?thesis
      using that head by (simp add: x locs)
  next
    case (Suc j)
    then show ?thesis
      using that IH step(5) by (simp add: locs)
  qed
  then show ?case
    using IH step(4,7) by (auto simp: locs)
qed simp

lemma finished_stored:
  assumes "env_ok env" "finalize_segment env s buf dir q = Inr obj" "stored_frame env buf loc ino ext p"
  shows "stored_frame env obj loc ino ext p"
proof -
  obtain sealed pa where "prepare_segment_assembly env buf (length dir) sealed WIRE = Inr pa"
    "obj = assemble_prepared_segment env s buf sealed q pa"
    using assms(2) by (auto simp: finalize_segment_def try_bind_Inr)
  moreover from this(1) have "length buf + (length sealed + FOOTER_LEN) < 2 ^ 64"
    by (auto simp: prepare_segment_assembly_def try_bind_Inr Let_def usize_checked_add_def split: if_splits)
  ultimately show ?thesis
    using assms(3)
    by (simp add: assembled_layout stored_frame_append footer_blank_split(2) FOOTER_LEN_def F_CRC_def)
qed

lemma finished_directory:
  assumes env: "env_ok (sv_data env)" and fin: "finalize_segment (sv_data env) s buf dir q = Inr obj"
    and obj: "objs (object_key s) = Some obj" "sv_get_ok env (object_key s)"
  shows "read_directory env objs s = Inr dir"
proof -
  obtain sealed footer m where lay: "obj = buf @ sealed @ footer" "length footer = FOOTER_LEN"
    and m: "parse_footer footer (word_of_nat (length obj)) = Inr m" "fm_segid m = s"
    "unat (fm_dir_offset m) = length buf" "unat (fm_dir_len m) = length sealed"
    and dec: "decode_directory (sv_data env) sealed footer m = Inr dir"
    and size: "length obj < 2 ^ 64" and some: "0 < length sealed"
    using finished_segment [OF env fin] by metis
  have foot: "drop (length obj - FOOTER_LEN) obj = footer"
    using lay by simp
  from some have "get_range env objs (object_key s) (fm_dir_offset m) (fm_dir_offset m + ucast (fm_dir_len m)) = Inr sealed"
    using get_range_slice [where objs = objs, OF obj(2,1) size, of "fm_dir_offset m" "fm_dir_len m"] m(3,4)
    by (simp add: lay slice_def)
  then show ?thesis
    using obj m dec by (simp add: read_directory_def fetch_footer_and_dir_bytes_def Let_def foot segment_result_def)
qed

section \<open>Rebuilt segments\<close>

lemma length_write_at [simp]: "k + length b \<le> length buf \<Longrightarrow> length (write_at k b buf) = length buf"
  by (simp add: write_at_def)

lemma slice_write_at_same: "k + length b \<le> length buf \<Longrightarrow> slice k (k + length b) (write_at k b buf) = b"
  by (simp add: write_at_def slice_def min_absorb1)

lemma slice_write_at_other:
  assumes "k + length b \<le> length buf" "a \<le> c" "c \<le> k \<or> k + length b \<le> a"
  shows "slice a c (write_at k b buf) = slice a c buf"
  using assms(3)
proof
  assume "c \<le> k"
  then have "take c (write_at k b buf) = take c buf"
    using assms(1) by (simp add: write_at_def)
  then show ?thesis
    by (simp add: slice_def drop_take [symmetric])
next
  assume "k + length b \<le> a"
  then have "drop a (write_at k b buf) = drop a buf"
    using assms(1) by (simp add: write_at_def)
  then show ?thesis
    by (simp add: slice_def)
qed

abbreviation rf_start :: "recon_frame \<Rightarrow> nat" where
  "rf_start f \<equiv> unat (rf_byte_offset f)"

abbreviation rf_stop :: "recon_frame \<Rightarrow> nat" where
  "rf_stop f \<equiv> unat (rf_byte_offset f) + unat (rf_byte_len f)"

definition apart :: "recon_frame \<Rightarrow> recon_frame \<Rightarrow> bool" where
  "apart f g \<longleftrightarrow> rf_stop f \<le> rf_start g \<or> rf_stop g \<le> rf_start f"

lemma recon_copy_other:
  assumes "recon_copy fs buf = Inr buf'" "a \<le> c" "\<forall>f \<in> set fs. c \<le> rf_start f \<or> rf_stop f \<le> a"
  shows "slice a c buf' = slice a c buf"
  using assms
  by (induction fs arbitrary: buf) (auto simp: Let_def slice_write_at_other split: if_splits)

lemma recon_copy_frames:
  assumes "recon_copy fs buf = Inr buf'" "sorted_wrt apart fs"
  shows "length buf' = length buf
    \<and> (\<forall>f \<in> set fs. slice (rf_start f) (rf_stop f) buf' = rf_bytes f \<and> length (rf_bytes f) = unat (rf_byte_len f)
         \<and> rf_stop f \<le> length buf \<and> 4 \<le> unat (rf_byte_len f))"
  using assms
proof (induction fs arbitrary: buf)
  case (Cons f fs)
  let ?buf = "write_at (rf_start f) (rf_bytes f) buf"
  have ok: "4 \<le> unat (rf_byte_len f)" "rf_stop f \<le> length buf" "length (rf_bytes f) = unat (rf_byte_len f)"
    and rest: "recon_copy fs ?buf = Inr buf'"
    using Cons.prems(1) by (auto simp: Let_def LEN_PREFIX_def split: if_splits)
  have len: "length ?buf = length buf"
    using ok by simp
  have "slice (rf_start f) (rf_stop f) buf' = slice (rf_start f) (rf_stop f) ?buf"
    using Cons.prems(2) by (intro recon_copy_other [OF rest]) (auto simp: apart_def)
  also have "\<dots> = rf_bytes f"
    using slice_write_at_same [of "rf_start f" "rf_bytes f" buf] ok by simp
  finally have f: "slice (rf_start f) (rf_stop f) buf' = rf_bytes f" .
  have "sorted_wrt apart fs"
    using Cons.prems(2) by simp
  note IH = Cons.IH [OF rest this, unfolded len]
  show ?case
    unfolding set_simps ball_simps using IH f ok by blast
qed simp

lemma recon_dir_entry:
  "f \<in> set frames \<Longrightarrow>
   \<lparr>de_byte_offset = rf_byte_offset f, de_len = rf_byte_len f - 4, de_inode = rf_inode f, de_extent = rf_extent f\<rparr>
     \<in> set (recon_dir frames)"
  by (auto simp: recon_dir_def LEN_PREFIX_def)

text \<open>What a replayed location needs from the object: its bytes and its directory entry.\<close>

definition frame_resolves :: "store_env \<Rightarrow> objects \<Rightarrow> segid \<Rightarrow> recon_frame \<Rightarrow> bool" where
  "frame_resolves env objs s f \<longleftrightarrow>
     (\<exists>obj dir. objs (object_key s) = Some obj \<and> slice (rf_start f) (rf_stop f) obj = rf_bytes f
        \<and> read_directory env objs s = Inr dir
        \<and> \<lparr>de_byte_offset = rf_byte_offset f, de_len = rf_byte_len f - 4, de_inode = rf_inode f,
            de_extent = rf_extent f\<rparr> \<in> set dir)"

lemma created_resolves:
  assumes env: "env_ok (sv_data env)" and fin: "finalize_segment (sv_data env) s buf (recon_dir frames) q = Inr obj"
    and copy: "recon_copy frames buf0 = Inr buf" "sorted_wrt apart frames"
    and obj: "objs (object_key s) = Some obj" "sv_get_ok env (object_key s)" and f: "f \<in> set frames"
  shows "frame_resolves env objs s f"
proof -
  obtain sealed footer where "obj = buf @ sealed @ footer"
    using finished_segment [OF env fin] by metis
  moreover have "slice (rf_start f) (rf_stop f) buf = rf_bytes f" "rf_stop f \<le> length buf"
    using recon_copy_frames [OF copy] f by auto
  ultimately have "slice (rf_start f) (rf_stop f) obj = rf_bytes f"
    by (simp add: slice_def)
  then show ?thesis
    using finished_directory [where objs = objs, OF env fin obj] obj(1) recon_dir_entry [OF f]
    by (auto simp: frame_resolves_def)
qed

lemma try_map_unit: "try_map g xs = Inr us \<Longrightarrow> x \<in> set xs \<Longrightarrow> \<exists>u. g x = Inr u"
  by (induction xs arbitrary: us) (auto simp: try_bind_Inr)

lemma verified_resolves:
  assumes ver: "verify_existing_recon_segment env objs s frames = Inr u" and f: "f \<in> set frames"
    and len: "length (rf_bytes f) = unat (rf_byte_len f)" "4 \<le> unat (rf_byte_len f)"
  shows "frame_resolves env objs s f"
proof -
  obtain footer m db dir us vs where
    fetch: "fetch_footer_and_dir_bytes env objs s = Inr (footer, m, db)"
    and dir: "decode_directory (sv_data env) db footer m = Inr dir"
    and ent: "try_map (\<lambda>f. recon_entry_in f dir) frames = Inr us"
    and byt: "try_map (recon_bytes_match env objs s) frames = Inr vs"
    using ver by (auto simp: verify_existing_recon_segment_def try_bind_Inr)
  have rd: "read_directory env objs s = Inr dir"
    by (simp add: read_directory_def fetch dir segment_result_def)
  obtain u1 u2 where "recon_entry_in f dir = Inr u1" and match: "recon_bytes_match env objs s f = Inr u2"
    using try_map_unit [OF ent f] try_map_unit [OF byt f] by blast
  then have entry: "\<lparr>de_byte_offset = rf_byte_offset f, de_len = rf_byte_len f - 4, de_inode = rf_inode f,
            de_extent = rf_extent f\<rparr> \<in> set dir"
    by (auto simp: recon_entry_in_def try_bind_Inr checked_sub_def LEN_PREFIX_def split: if_splits)
  obtain stop ex where stop: "checked_add (rf_byte_offset f) (ucast (rf_byte_len f)) = Some stop"
    and get: "get_range env objs (object_key s) (rf_byte_offset f) stop = Inr ex" and ex: "ex = rf_bytes f"
    using match by (auto simp: recon_bytes_match_def try_bind_Inr)
  have u: "unat stop = rf_stop f"
    using unat_checked_add [OF stop] by simp
  obtain obj where obj: "objs (object_key s) = Some obj"
    and sl: "slice (rf_start f) (min (rf_stop f) (length obj)) obj = rf_bytes f"
    using get ex u by (auto simp: get_range_def split: if_splits option.splits)
  have "rf_stop f \<le> length obj"
  proof (rule ccontr)
    assume "\<not> rf_stop f \<le> length obj"
    then have "length (slice (rf_start f) (min (rf_stop f) (length obj)) obj) < unat (rf_byte_len f)"
      using len(2) by (simp add: slice_def)
    then show False
      unfolding sl len(1) by simp
  qed
  then have "slice (rf_start f) (rf_stop f) obj = rf_bytes f"
    using sl by (simp only: min_absorb1)
  then show ?thesis
    unfolding frame_resolves_def using obj rd entry by (intro exI conjI)
qed

lemma materialize_resolves:
  assumes env: "env_ok (sv_data env)" and run: "materialize_segment_if_absent env s frames objs = (Inr created, objs')"
    and apart: "sorted_wrt apart frames" and get: "sv_get_ok env (object_key s)" and f: "f \<in> set frames"
  shows "frame_resolves env objs' s f \<and> (\<forall>k. objs k \<noteq> None \<longrightarrow> objs' k = objs k)"
proof -
  have ne: "frames \<noteq> []"
    using f by auto
  obtain stop buf obj where stop: "recon_end frames 0 = Inr stop"
    and copy: "recon_copy frames (replicate (unat stop) 0) = Inr buf"
    and fin: "finalize_segment (sv_data env) s buf (recon_dir frames) (sg_counter s) = Inr obj"
    using run ne by (auto simp: materialize_segment_if_absent_def Let_def try_bind_Inr split: sum.splits)
  have built: "try_bind (recon_end frames 0) (\<lambda>stop.
      try_bind (recon_copy frames (replicate (unat stop) 0)) (\<lambda>buf.
        segment_result (finalize_segment (sv_data env) s buf (recon_dir frames) (sg_counter s)))) = Inr obj"
    using stop copy fin by simp
  have out: "(case objs (object_key s) of
               Some _ \<Rightarrow>
                 (case verify_existing_recon_segment env objs s frames of
                    Inl e \<Rightarrow> (Inl e, objs)
                  | Inr _ \<Rightarrow> (Inr False, objs))
             | None \<Rightarrow>
                 (case sv_put env (object_key s) of
                    PutAcked \<Rightarrow> (Inr True, objs(object_key s \<mapsto> obj))
                  | PutLost stored \<Rightarrow>
                      (Inl (ObjectStore ''put''), if stored then objs(object_key s \<mapsto> obj) else objs)
                  | PutReplayed \<Rightarrow>
                      let objs = objs(object_key s \<mapsto> obj) in
                      (case verify_existing_recon_segment env objs s frames of
                         Inl e \<Rightarrow> (Inl e, objs)
                       | Inr _ \<Rightarrow> (Inr False, objs)))) = (Inr created, objs')"
    using run ne built unfolding materialize_segment_if_absent_def by simp
  note made = created_resolves [OF env fin copy apart _ get f]
  have lens: "length (rf_bytes f) = unat (rf_byte_len f)" "4 \<le> unat (rf_byte_len f)"
    using recon_copy_frames [OF copy apart] f by auto
  note found = verified_resolves [OF _ f lens]
  show ?thesis
    using out made [of objs'] found [of env objs s]
    by (auto simp: Let_def split: option.splits put_answer.splits sum.splits if_splits)
qed

lemma relocated_stored:
  assumes env: "env_ok (sv_data env)" and run: "seal_compressed_with_limits env frames WIRE st = (Inr locs, st')"
    and i: "i < length frames" "frames ! i = (ino, ext, c)"
    and d: "decompress (dn_codec (sv_data env)) (compressed_bytes c) = Inr d"
  shows "\<exists>loc obj. locs ! i = (ino, ext, loc) \<and> ss_objects st' (object_key (fl_segid loc)) = Some obj
    \<and> stored_frame (sv_data env) obj loc ino ext d"
proof -
  obtain s st1 where next_id: "next_segid st = (s, st1)"
    by fastforce
  obtain sealed b obj where sealed: "seal_compressed_batch (sv_data env) s 0 frames = Inr sealed"
    and app: "append_all (sv_data env) s WIRE sealed (builder_with_limits s WIRE) = Inr (locs, b)"
    and fin: "builder_finish (sv_data env) (sg_counter s) b = Inr obj"
    and put: "put_segment env s obj (ss_objects st1) = (Inr (), ss_objects st')"
    using run
    by (auto simp: seal_compressed_with_limits_def next_id Let_def try_bind_Inr split: sum.splits prod.splits)
  have size: "length (sb_buf b) < 2 ^ 64"
    using finished_segment [OF env fin [unfolded builder_finish_def]] by (metis length_append trans_less_add1 leD le_add1 not_le_imp_less order_le_less_trans)
  obtain body where body: "sealed ! i = (ino, ext, body)"
    and seal: "seal_compressed_frame (sv_data env) i s (word_of_nat i) ino ext c = Inr body"
    using sealed_batch_nth(2) [OF sealed i] by auto
  have lim: "sb_limits (builder_with_limits s WIRE) = WIRE"
    by (simp add: builder_with_limits_def)
  have opens: "codec_open (dn_codec (sv_data env)) body (frame_aad s (word_of_nat i) ino ext) = Inr d"
    using sealed_frame_opens(1) [OF env seal d] .
  obtain loc where loc: "locs ! i = (ino, ext, loc)" "fl_segid loc = s"
    "stored_frame (sv_data env) (sb_buf b) loc ino ext d"
    using append_all_stored [OF app lim size] body opens i(1) sealed_batch_nth(1) [OF sealed]
    by (simp add: builder_with_limits_def) blast
  have "sb_segid b = s"
    using append_all_stored [OF app lim size] by (simp add: builder_with_limits_def)
  then have "stored_frame (sv_data env) obj loc ino ext d"
    using finished_stored [OF env fin [unfolded builder_finish_def] loc(3)] by simp
  then show ?thesis
    using loc put_segment_cases [OF put] by auto
qed

section \<open>Properties\<close>

text \<open>
  C32. Publishing a segment never changes an object that exists, whatever the object store answers:
  the only possible change is that the segment's own key, absent before, now holds exactly the
  published bytes. When publishing reports success the key does hold those bytes, also when the
  first answer was lost and the outcome had to be read back.
\<close>

theorem put_segment_create_only:
  assumes "put_segment env s b objs = (r, objs')"
  shows "(objs' = objs \<or> objs (object_key s) = None \<and> objs' = objs(object_key s \<mapsto> b))
    \<and> (r = Inr () \<longrightarrow> objs' (object_key s) = Some b)"
  using put_segment_cases [OF assms] .

definition example_data_env :: data_env where
  "example_data_env = \<lparr>dn_codec = plain_codec Lz4, dn_crc = (\<lambda>b. word_of_nat (length b)),
     dn_crc_append = (\<lambda>c b. c + word_of_nat (length b)), dn_nonce = (\<lambda>_. replicate 24 0), dn_alloc = (\<lambda>_. True)\<rparr>"

definition example_store_env :: store_env where
  "example_store_env = \<lparr>sv_data = example_data_env, sv_put = (\<lambda>_. PutAcked), sv_multipart = (\<lambda>_. MpNotSupported),
     sv_get_ok = (\<lambda>_. True)\<rparr>"

lemma example_data_env_ok: "env_ok example_data_env"
  by (simp add: env_ok_def example_data_env_def plain_codec_ok NONCE_SIZE_def)

theorem put_segment_create_only_witness:
  "fst (put_segment example_store_env (segid_new 1 2) [7] Map.empty) = Inr ()
   \<and> snd (put_segment example_store_env (segid_new 1 2) [7] Map.empty) (object_key (segid_new 1 2)) = Some [7]"
proof -
  have ok: "fst (put_segment example_store_env (segid_new 1 2) [7] Map.empty) = Inr ()"
    by (simp add: put_segment_def put_segment_create_def conditional_create_def example_store_env_def
        verify_existing_segment_bytes_def SEAL_PART_SIZE_def Let_def)
  then show ?thesis
    using put_segment_create_only [of example_store_env "segid_new 1 2" "[7]" Map.empty, OF prod.collapse [symmetric]]
    by simp
qed

text \<open>
  C33. Takeover rebuilds segments that were shipped but not yet stored: after it reports success,
  whether it created the object or found one, every shipped frame is at the byte range its
  location names and is listed in the object's directory, and no existing object was changed. The
  shipped frames of one segment do not overlap.
\<close>

theorem materialized_frames_resolve:
  assumes "env_ok (sv_data env)" "sv_get_ok env (object_key s)" "sorted_wrt apart frames"
    "materialize_segment_if_absent env s frames objs = (Inr created, objs')" "f \<in> set frames"
  shows "frame_resolves env objs' s f \<and> (\<forall>k. objs k \<noteq> None \<longrightarrow> objs' k = objs k)"
  using materialize_resolves [OF assms(1,4,3,2,5)] .

definition example_recon :: recon_frame where
  "example_recon = \<lparr>rf_frame_index = 0, rf_byte_offset = 0, rf_byte_len = 5, rf_inode = 3, rf_extent = 0,
     rf_bytes = [1, 0, 0, 0, 9]\<rparr>"

lemmas wire_checks =
  checked_wire_u32_def WIRE_def checked_frame_count_def checked_segment_frame_count_def
  checked_directory_plaintext_len_def checked_stored_frame_len_def checked_append_frame_index_def
  checked_frame_index_def checked_frame_body_len_def usize_checked_add_def usize_checked_mul_def
  DIR_ENTRY_LEN_def LEN_PREFIX_def checked_add_def reserve_exact_def

lemma example_finalize:
  assumes "length buf < 1000" "length dir < 1000"
  shows "\<exists>obj. finalize_segment example_data_env s buf dir q = Inr obj"
proof -
  let ?n = "example_data_env" and ?plain = "concat (map dir_entry_bytes dir)"
  have "seal (dn_codec ?n) (dn_nonce ?n 0) ?plain aad = Inr (replicate 24 0 @ ([0, 0, 0, 0, 0] @ ?plain) @ replicate 16 0)"
    for aad
    by (simp add: seal_def compress_def seal_compressed_def example_data_env_def plain_codec_def)
  moreover have "reserve_exact ?n k w = Inr ()" for k w
    by (simp add: example_data_env_def)
  ultimately show ?thesis
    using assms unfolding finalize_segment_def seal_directory_def prepare_segment_assembly_def
    by (simp add: codec_result_def FOOTER_LEN_def Let_def wire_checks)
qed

theorem materialized_frames_resolve_witness:
  "frame_resolves example_store_env
     (snd (materialize_segment_if_absent example_store_env (segid_new 1 2) [example_recon] Map.empty))
     (segid_new 1 2) example_recon"
proof -
  let ?s = "segid_new 1 2" and ?d = "recon_dir [example_recon]"
  have "recon_end [example_recon] 0 = Inr 5"
    by (simp add: example_recon_def checked_add_def)
  moreover have "recon_copy [example_recon] (replicate (unat (5 :: u64)) 0) = Inr [1, 0, 0, 0, 9]"
    by (simp add: example_recon_def write_at_def LEN_PREFIX_def Let_def)
  moreover have "\<exists>obj. finalize_segment example_data_env ?s [1, 0, 0, 0, 9] ?d (sg_counter ?s) = Inr obj"
    by (rule example_finalize) (simp_all add: recon_dir_def)
  ultimately have ok: "fst (materialize_segment_if_absent example_store_env ?s [example_recon] Map.empty) = Inr True"
    by (auto simp: materialize_segment_if_absent_def example_store_env_def segment_result_def simp del: recon_end.simps recon_copy.simps)
  have run: "materialize_segment_if_absent example_store_env (segid_new 1 2) [example_recon] Map.empty
    = (Inr True, snd (materialize_segment_if_absent example_store_env (segid_new 1 2) [example_recon] Map.empty))"
    using ok by (metis prod.collapse)
  have "env_ok (sv_data example_store_env)" "sv_get_ok example_store_env (object_key (segid_new 1 2))"
    "sorted_wrt apart [example_recon]" "example_recon \<in> set [example_recon]"
    using example_data_env_ok by (simp_all add: example_store_env_def)
  then show ?thesis
    using materialized_frames_resolve [OF _ _ _ run] by blast
qed

text \<open>
  C34. Compaction moves compressed payloads into a new segment without decompressing them: every
  location it returns reads back, from the published object, as exactly the data the payload
  decompresses to, under the identity of the extent it belongs to.
\<close>

theorem relocated_frames_readable:
  assumes "env_ok (sv_data env)" "seal_compressed_with_limits env frames WIRE st = (Inr locs, st')"
    "i < length frames" "frames ! i = (ino, ext, c)"
    "decompress (dn_codec (sv_data env)) (compressed_bytes c) = Inr d"
    "\<And>path. sv_get_ok env path"
  shows "\<exists>loc. locs ! i = (ino, ext, loc) \<and> read_extent env (ss_objects st') loc ino ext = Inr d"
  using relocated_stored [OF assms(1-5)] read_extent_stored assms(6) by blast

definition example_payload :: compressed where
  "example_payload = Compressed (cd_lz4_compress (plain_codec Lz4) [4, 5])"

definition example_seg_store :: seg_store where
  "example_seg_store = \<lparr>ss_objects = Map.empty, ss_epoch = 1, ss_counter = 0\<rparr>"

definition example_relocation :: "(u64 \<times> u64 \<times> frame_loc) list store_result \<times> seg_store" where
  "example_relocation = seal_compressed_with_limits example_store_env [(3, 0, example_payload)] WIRE example_seg_store"

theorem relocated_frames_readable_witness:
  "\<exists>locs loc. fst example_relocation = Inr locs \<and> locs ! 0 = (3, 0, loc)
     \<and> read_extent example_store_env (ss_objects (snd example_relocation)) loc 3 0 = Inr [4, 5]"
proof -
  let ?s = "segid_new 1 0" and ?body = "replicate 24 0 @ [0, 0, 0, 0, 0, 4, 5] @ replicate 16 (0 :: u8)"
  have "seal_compressed_batch example_data_env ?s 0 [(3, 0, example_payload)] = Inr [(3, 0, ?body)]"
    by (simp add: seal_compressed_batch_def seal_compressed_frame_def seal_compressed_def wire_checks
        example_payload_def example_data_env_def plain_codec_def codec_result_def)
  moreover obtain b locs where "append_all example_data_env ?s WIRE [(3, 0, ?body)] (builder_with_limits ?s WIRE) = Inr (locs, b)"
    "length (sb_buf b) < 1000" "length (sb_dir b) < 1000"
    by (simp add: try_append_sealed_def builder_with_limits_def builder_byte_len_def wire_checks example_data_env_def)
  moreover obtain obj where "builder_finish example_data_env 0 b = Inr obj"
    using example_finalize calculation(3,4) unfolding builder_finish_def by blast
  moreover have "fst (put_segment example_store_env ?s obj Map.empty) = Inr ()"
    by (simp add: put_segment_def put_segment_multipart_def put_segment_create_def conditional_create_def
        example_store_env_def Let_def)
  moreover have "segid_new 1 0 = ?s" "sealed_len example_payload = 47" "sv_data example_store_env = example_data_env"
    "sg_counter ?s = 0" "reserve_exact example_data_env 1 w = Inr ()" for w
    by (simp_all add: sealed_len_def SEALED_FRAME_OVERHEAD_def NONCE_SIZE_def TAG_SIZE_def example_payload_def
        plain_codec_def example_store_env_def segid_new_def example_data_env_def)
  moreover have "checked_segment_frame_count 1 WIRE = Inr 1" "checked_directory_plaintext_len 1 WIRE = Inr 28"
    "checked_frame_body_len 47 WIRE = Inr 47"
    by (simp_all add: wire_checks)
  ultimately have "\<not> isl (fst example_relocation)"
    by (auto simp: example_relocation_def seal_compressed_with_limits_def example_seg_store_def next_segid_def Let_def
        reserve_exact_def simp del: append_all.simps split: prod.splits sum.splits)
  then obtain locs where locs: "fst example_relocation = Inr locs"
    by (cases "fst example_relocation") simp_all
  have run: "seal_compressed_with_limits example_store_env [(3, 0, example_payload)] WIRE example_seg_store
    = (Inr locs, snd example_relocation)"
    using locs unfolding example_relocation_def by (metis prod.collapse)
  have payload: "decompress (dn_codec (sv_data example_store_env)) (compressed_bytes example_payload) = Inr [4, 5]"
    by (simp add: decompress_def example_payload_def example_store_env_def example_data_env_def plain_codec_def)
  have "env_ok (sv_data example_store_env)" "sv_get_ok example_store_env path" for path
    using example_data_env_ok by (simp_all add: example_store_env_def)
  then show ?thesis
    using relocated_frames_readable [OF _ run _ _ payload, of 0 3 0] locs by auto
qed

end
