(* ===== verification/Extent_Store.thy ===== *)
theory Extent_Store
  imports Segment_Store Fs_State
begin

text \<open>
  The data plane (\<open>fs/store/extent\<close>). A file is a sequence of 32 KiB extents; an extent row names
  the frame that holds its bytes, and an absent row is a hole. Writes are read-modify-write over
  whole extents: frames are appended to an open segment in memory, rows are staged in the
  transaction, and the segment is published later, in the background or by the flush barrier.

  The state is the four append lanes, the finished segments whose publication is pending, the
  object store and three caches (last extent written, decoded frames, row lookups). The rows the
  store reads are the argument \<open>m\<close>. Operations on one inode are serialised by its lock and by
  the registry of queued writes, so they run one after the other here; the choice of the append
  lane, read faults, allocation and the answers of the object store come from the environment.
\<close>

section \<open>State\<close>

record open_segment =
  os_segid :: segid
  os_buf :: bytes
  os_dir :: "seg_dir_entry list"

datatype cached_location = Hole | Frame frame_loc

datatype tail_update = TailSet u64 bytes | TailClear | TailKeep

record xstore =
  xs_lanes :: "open_segment list"
  xs_sealing :: "(segid \<times> bytes) list"
  xs_store :: seg_store
  xs_tail :: "inode_id \<rightharpoonup> u64 \<times> bytes"
  xs_decoded :: "inode_id \<times> u64 \<times> frame_loc \<rightharpoonup> bytes"
  xs_locs :: "inode_id \<times> u64 \<rightharpoonup> cached_location"

record xenv =
  xe_store :: store_env
  xe_faults :: faults
  xe_scan_ok :: bool
  xe_authority :: "fs_error option"
  xe_lane_busy :: "nat \<Rightarrow> bool"
  xe_seal_threshold :: nat
  xe_max_inflight :: nat

abbreviation xe_data :: "xenv \<Rightarrow> data_env" where
  "xe_data env \<equiv> sv_data (xe_store env)"

definition OPEN_SEGMENT_LANES :: nat where
  "OPEN_SEGMENT_LANES = 4"

definition OLD_DEBIT_POINT_LOOKUPS_MAX :: nat where
  "OLD_DEBIT_POINT_LOOKUPS_MAX = 32"

definition ZERO_EXTENT :: bytes where
  "ZERO_EXTENT = replicate (unat EXTENT_SIZE) 0"

definition or_io :: "'e + 'a \<Rightarrow> 'a fs_result" where
  "or_io r = (case r of Inl _ \<Rightarrow> Inl IoError | Inr x \<Rightarrow> Inr x)"

primrec smap :: "('a \<Rightarrow> ('s, 'b) sm) \<Rightarrow> 'a list \<Rightarrow> ('s, 'b list) sm" where
  "smap f [] = sret []"
| "smap f (x # xs) = sbind (f x) (\<lambda>y. sbind (smap f xs) (\<lambda>ys. sret (y # ys)))"

definition open_lane :: "inode_id \<Rightarrow> nat" where
  "open_lane ino = unat ((ino XOR drop_bit 32 ino) AND 3)"

definition lock_append_lane :: "xenv \<Rightarrow> inode_id \<Rightarrow> nat" where
  "lock_append_lane env ino =
     (if \<not> xe_lane_busy env (open_lane ino) then open_lane ino
      else case find (\<lambda>i. \<not> xe_lane_busy env i) [0..<OPEN_SEGMENT_LANES] of
             Some i \<Rightarrow> i
           | None \<Rightarrow> open_lane ino)"

definition extent_span :: "u64 \<Rightarrow> u64 \<Rightarrow> (u64 \<times> u64) option" where
  "extent_span offset len =
     Option.bind (checked_add offset len) (\<lambda>end_offset.
       if len = 0 then None else Some (offset div EXTENT_SIZE, (end_offset - 1) div EXTENT_SIZE))"

section \<open>Caches\<close>

definition tail_set :: "inode_id \<Rightarrow> u64 \<Rightarrow> bytes \<Rightarrow> xstore \<Rightarrow> xstore" where
  "tail_set ino idx d x = x\<lparr>xs_tail := (xs_tail x)(ino \<mapsto> (idx, d))\<rparr>"

definition tail_invalidate :: "inode_id \<Rightarrow> xstore \<Rightarrow> xstore" where
  "tail_invalidate ino x = x\<lparr>xs_tail := (xs_tail x)(ino := None)\<rparr>"

fun apply_tail_update :: "inode_id \<Rightarrow> tail_update \<Rightarrow> xstore \<Rightarrow> xstore" where
  "apply_tail_update ino (TailSet idx d) x = tail_set ino idx d x"
| "apply_tail_update ino TailClear x = tail_invalidate ino x"
| "apply_tail_update ino TailKeep x = x"

definition decoded_insert :: "inode_id \<Rightarrow> u64 \<Rightarrow> frame_loc \<Rightarrow> bytes \<Rightarrow> xstore \<Rightarrow> xstore" where
  "decoded_insert ino idx loc d x = x\<lparr>xs_decoded := (xs_decoded x)((ino, idx, loc) \<mapsto> d)\<rparr>"

text \<open>Row lookups are invalidated before the rows change and published after a successful write.\<close>

definition location_of :: "frame_loc option \<Rightarrow> cached_location" where
  "location_of l = (case l of None \<Rightarrow> Hole | Some loc \<Rightarrow> Frame loc)"

definition invalidate_locations :: "txn \<Rightarrow> xstore \<Rightarrow> xstore" where
  "invalidate_locations t x =
     x\<lparr>xs_locs := fold (\<lambda>(k, _) c. c(k := None)) (tx_extent_updates t) (xs_locs x)\<rparr>"

definition publish_locations :: "txn \<Rightarrow> xstore \<Rightarrow> xstore" where
  "publish_locations t x =
     x\<lparr>xs_locs := fold (\<lambda>(k, v) c. c(k \<mapsto> location_of v)) (tx_extent_updates t) (xs_locs x)\<rparr>"

section \<open>Appending frames\<close>

record append_claim =
  rs_segid :: segid
  rs_first_frame :: u32
  rs_offsets :: "u64 list"
  rs_lens :: "u32 list"

fun claim_frames ::
  "inode_id \<Rightarrow> segment_format_limits \<Rightarrow> u64 \<Rightarrow> (u64 \<times> nat) list \<Rightarrow>
   segment_error + u64 list \<times> u32 list \<times> seg_dir_entry list \<times> u64" where
  "claim_frames ino limits k [] = Inr ([], [], [], k)"
| "claim_frames ino limits k ((extent, sealed) # frames) =
     try_bind (checked_frame_body_len sealed limits) (\<lambda>len.
     try_bind (ok_or (Malformed ''segment byte length'') (usize_checked_add LEN_PREFIX sealed)) (\<lambda>stored.
     try_bind (ok_or (Malformed ''segment byte length'') (checked_add k (word_of_nat stored))) (\<lambda>k'.
     try_bind (claim_frames ino limits k' frames) (\<lambda>(offsets, lens, entries, stop).
       Inr (k # offsets, len # lens,
            \<lparr>de_byte_offset = k, de_len = len, de_inode = ino, de_extent = extent\<rparr> # entries, stop)))))"

definition write_prefixes :: "(u64 \<times> u32) list \<Rightarrow> bytes \<Rightarrow> bytes" where
  "write_prefixes ps buf = fold (\<lambda>(k, len). write_at (unat k) (to_le_bytes len)) ps buf"

definition reservation_claim ::
  "data_env \<Rightarrow> open_segment \<Rightarrow> inode_id \<Rightarrow> (u64 \<times> nat) list \<Rightarrow> segment_format_limits \<Rightarrow>
   segment_error + append_claim \<times> open_segment" where
  "reservation_claim env os ino frames limits =
     try_bind (ok_or (Malformed ''segment frame count'')
                 (usize_checked_add (length (os_dir os)) (length frames))) (\<lambda>final_count.
     try_bind (checked_frame_run_start (length (os_dir os)) (length frames) limits) (\<lambda>first_frame.
     try_bind (checked_directory_plaintext_len final_count limits) (\<lambda>_.
     try_bind (reserve_exact env (length frames) ''frame offset allocation failed'') (\<lambda>_.
     try_bind (reserve_exact env (length frames) ''frame length allocation failed'') (\<lambda>_.
     try_bind (reserve_exact env (length frames) ''directory allocation failed'') (\<lambda>_.
     try_bind (claim_frames ino limits (word_of_nat (length (os_buf os))) frames)
       (\<lambda>(offsets, lens, entries, stop).
     try_bind (check (length (os_buf os) \<le> unat stop) (Malformed ''segment byte length'')) (\<lambda>_.
     let growth = unat stop - length (os_buf os) in
     try_bind (reserve_exact env (length entries) ''segment directory allocation failed'') (\<lambda>_.
     try_bind (reserve_exact env growth ''segment frame allocation failed'') (\<lambda>_.
       Inr (\<lparr>rs_segid = os_segid os, rs_first_frame = first_frame, rs_offsets = offsets, rs_lens = lens\<rparr>,
            os\<lparr>os_dir := os_dir os @ entries,
               os_buf := write_prefixes (zip offsets lens) (os_buf os @ replicate growth 0)\<rparr>)))))))))))"

fun fill_frames ::
  "segid \<Rightarrow> u32 \<Rightarrow> nat \<Rightarrow> (u64 \<times> u32) list \<Rightarrow> bytes list \<Rightarrow> bytes \<Rightarrow> frame_loc list fs_result \<times> bytes" where
  "fill_frames s first i ((k, len) # ps) (body # bodies) buf =
     (case checked_frame_index first i WIRE of
        Inl _ \<Rightarrow> (Inl IoError, buf)
      | Inr frame_index \<Rightarrow>
          if length body \<noteq> unat len then (Inl IoError, buf)
          else
            (case usize_checked_add (unat k) LEN_PREFIX of
               None \<Rightarrow> (Inl IoError, buf)
             | Some start \<Rightarrow>
                 let buf = write_at start body buf in
                 (case checked_stored_frame_len (word_of_nat LEN_PREFIX + ucast len) WIRE of
                    Inl _ \<Rightarrow> (Inl IoError, buf)
                  | Inr byte_len \<Rightarrow>
                      (case fill_frames s first (i + 1) ps bodies buf of
                         (Inl e, buf) \<Rightarrow> (Inl e, buf)
                       | (Inr locs, buf) \<Rightarrow>
                           (Inr (\<lparr>fl_segid = s, fl_frame_index = frame_index, fl_byte_offset = k,
                                  fl_byte_len = byte_len\<rparr> # locs), buf)))))"
| "fill_frames s first i ps bodies buf = (Inr [], buf)"

definition reservation_fill ::
  "data_env \<Rightarrow> append_claim \<Rightarrow> (u64 \<times> u64 \<times> bytes) list \<Rightarrow> open_segment \<Rightarrow>
   frame_loc list fs_result \<times> open_segment" where
  "reservation_fill env r sealed os =
     (if os_segid os \<noteq> rs_segid r \<or> length sealed \<noteq> length (rs_offsets r) then (Inl IoError, os)
      else if \<not> dn_alloc env (length sealed) then (Inl IoError, os)
      else
        let (result, buf) = fill_frames (rs_segid r) (rs_first_frame r) 0 (zip (rs_offsets r) (rs_lens r))
                              (map (\<lambda>(_, _, body). body) sealed) (os_buf os)
        in (result, os\<lparr>os_buf := buf\<rparr>))"

section \<open>Publishing segments\<close>

definition rotate_sealing_generation ::
  "xenv \<Rightarrow> nat \<Rightarrow> segment_format_limits \<Rightarrow> (xstore, (segid \<times> bytes) option) sm" where
  "rotate_sealing_generation env lane limits x =
     (let os = xs_lanes x ! lane; d = xe_data env in
      if os_dir os = [] then (Inr None, x)
      else
        let prepared =
              or_io (try_bind (checked_segment_frame_count (length (os_dir os)) limits) (\<lambda>_.
                     try_bind (seal_directory d (os_segid os) (os_dir os)) (\<lambda>sealed_dir.
                     try_bind (prepare_segment_assembly d (os_buf os) (length (os_dir os)) sealed_dir limits) (\<lambda>p.
                     try_bind (reserve_exact d (xe_seal_threshold env) ''replacement'') (\<lambda>_.
                       Inr (sealed_dir, p))))))
        in
        case prepared of
          Inl e \<Rightarrow> (Inl e, x)
        | Inr (sealed_dir, p) \<Rightarrow>
            let (s', st) = next_segid (xs_store x);
                obj = assemble_prepared_segment d (os_segid os) (os_buf os) sealed_dir
                        (sg_counter (os_segid os)) p
            in
            (Inr (Some (os_segid os, obj)),
             x\<lparr>xs_lanes := (xs_lanes x)[lane := \<lparr>os_segid = s', os_buf = [], os_dir = []\<rparr>],
               xs_store := st,
               xs_sealing := (os_segid os, obj) # xs_sealing x\<rparr>))"

text \<open>Publish one pending segment: dropped from memory when the object is stored, kept otherwise.\<close>

definition publish_generation :: "xenv \<Rightarrow> segid \<Rightarrow> bytes \<Rightarrow> xstore \<Rightarrow> bool \<times> xstore" where
  "publish_generation env s b x =
     (let (r, objs) = put_segment (xe_store env) s b (ss_objects (xs_store x));
          x = x\<lparr>xs_store := (xs_store x)\<lparr>ss_objects := objs\<rparr>\<rparr>
      in
      case r of
        Inr _ \<Rightarrow> (True, x\<lparr>xs_sealing := filter (\<lambda>(k, _). k \<noteq> s) (xs_sealing x)\<rparr>)
      | Inl _ \<Rightarrow> (False, x))"

fun publish_all :: "xenv \<Rightarrow> (segid \<times> bytes) list \<Rightarrow> xstore \<Rightarrow> bool \<times> xstore" where
  "publish_all env [] x = (True, x)"
| "publish_all env ((s, b) # gens) x =
     (let (ok, x) = publish_generation env s b x;
          (oks, x) = publish_all env gens x
      in (ok \<and> oks, x))"

definition publish_pending_seals :: "xenv \<Rightarrow> (xstore, unit) sm" where
  "publish_pending_seals env x =
     (let (ok, x) = publish_all env (xs_sealing x) x in (if ok then Inr () else Inl IoError, x))"

definition dirty_lanes :: "xstore \<Rightarrow> nat list" where
  "dirty_lanes x = filter (\<lambda>i. os_dir (xs_lanes x ! i) \<noteq> []) [0..<length (xs_lanes x)]"

text \<open>Rotation of the dirty lanes while the residency budget lasts, then one upload at a time; a
  finished upload frees the budget for the next lane.\<close>

function seal_lanes ::
  "xenv \<Rightarrow> nat list \<Rightarrow> (segid \<times> bytes) list \<Rightarrow> bool \<Rightarrow> xstore \<Rightarrow> bool \<times> nat list \<times> xstore" where
  "seal_lanes env lanes uploads failed x =
     (case lanes of
        lane # rest \<Rightarrow>
          if length (xs_sealing x) < xe_max_inflight env then
            (case rotate_sealing_generation env lane WIRE x of
               (Inr (Some (s, b)), x) \<Rightarrow> seal_lanes env rest (uploads @ [(s, b)]) failed x
             | (Inr None, x) \<Rightarrow> seal_lanes env rest uploads failed x
             | (Inl _, x) \<Rightarrow> seal_lanes env rest uploads True x)
          else
            (case uploads of
               [] \<Rightarrow> (failed, lanes, x)
             | (s, b) # others \<Rightarrow>
                 let (ok, x) = publish_generation env s b x in
                 seal_lanes env lanes others (failed \<or> \<not> ok) x)
      | [] \<Rightarrow>
          (case uploads of
             [] \<Rightarrow> (failed, [], x)
           | (s, b) # others \<Rightarrow>
               let (ok, x) = publish_generation env s b x in
               seal_lanes env [] others (failed \<or> \<not> ok) x))"
  by pat_completeness auto
termination
  by (relation "measure (\<lambda>(env, lanes, uploads, failed, x). 2 * length lanes + length uploads)") auto

declare seal_lanes.simps [simp del]

text \<open>The durability barrier: publish what is pending before each lane is frozen, then finish and
  publish every lane that has frames.\<close>

definition seal_open :: "xenv \<Rightarrow> (xstore, unit) sm" where
  "seal_open env =
     sbind (smap (\<lambda>_. publish_pending_seals env) [0..<OPEN_SEGMENT_LANES + 1]) (\<lambda>_ x.
       let (failed, left, x) = seal_lanes env (dirty_lanes x) [] False x in
       (if failed \<or> left \<noteq> [] then Inl IoError else Inr (), x))"

definition spawn_seal :: "xenv \<Rightarrow> nat \<Rightarrow> xstore \<Rightarrow> xstore" where
  "spawn_seal env lane x = snd (rotate_sealing_generation env lane WIRE x)"

text \<open>The background task of a finished segment; a flush may have published it meanwhile.\<close>

definition seal_task :: "xenv \<Rightarrow> segid \<Rightarrow> xstore \<Rightarrow> xstore" where
  "seal_task env s x =
     (case map_of (xs_sealing x) s of
        None \<Rightarrow> x
      | Some b \<Rightarrow> snd (publish_generation env s b x))"

section \<open>Reading frames\<close>

definition load_extent_location :: "xenv \<Rightarrow> meta \<Rightarrow> inode_id \<Rightarrow> u64 \<Rightarrow> cached_location fs_result" where
  "load_extent_location env m ino idx =
     (case xe_faults env (ExtentKey ino idx) of
        Some _ \<Rightarrow> Inl IoError
      | None \<Rightarrow> Inr (location_of (m_extents m (ino, idx))))"

definition check_authority :: "xenv \<Rightarrow> unit fs_result" where
  "check_authority env = (case xe_authority env of None \<Rightarrow> Inr () | Some e \<Rightarrow> Inl e)"

text \<open>The read-through lookup of one row, and of a range of rows with one scan.\<close>

definition locate :: "xenv \<Rightarrow> meta \<Rightarrow> inode_id \<Rightarrow> u64 \<Rightarrow> (xstore, cached_location) sm" where
  "locate env m ino idx =
     sbind (slift (check_authority env)) (\<lambda>_ x.
       case xs_locs x (ino, idx) of
         Some l \<Rightarrow> (Inr l, x)
       | None \<Rightarrow>
           (case load_extent_location env m ino idx of
              Inl e \<Rightarrow> (Inl e, x)
            | Inr l \<Rightarrow> (Inr l, x\<lparr>xs_locs := (xs_locs x)((ino, idx) \<mapsto> l)\<rparr>)))"

definition locate_all :: "xenv \<Rightarrow> meta \<Rightarrow> inode_id \<Rightarrow> u64 list \<Rightarrow> (xstore, cached_location list) sm" where
  "locate_all env m ino idxs =
     sbind (slift (check_authority env)) (\<lambda>_ x.
       if (\<forall>i \<in> set idxs. xs_locs x (ino, i) \<noteq> None)
       then (Inr (map (\<lambda>i. the (xs_locs x (ino, i))) idxs), x)
       else if \<not> xe_scan_ok env then (Inl IoError, x)
       else
         let loaded = map (\<lambda>i. location_of (m_extents m (ino, i))) idxs in
         (Inr loaded,
          x\<lparr>xs_locs := fold (\<lambda>(i, l) c. if xs_locs x (ino, i) = None then c((ino, i) \<mapsto> l) else c)
                        (zip idxs loaded) (xs_locs x)\<rparr>))"

definition frame_bounds :: "bytes \<Rightarrow> u64 \<Rightarrow> u32 \<Rightarrow> bytes fs_result" where
  "frame_bounds buf byte_offset byte_len =
     (if unat byte_offset + unat byte_len \<le> length buf
      then Inr (slice (unat byte_offset) (unat byte_offset + unat byte_len) buf)
      else Inl IoError)"

definition ram_bytes :: "xstore \<Rightarrow> segid \<Rightarrow> bytes option" where
  "ram_bytes x s =
     (case find (\<lambda>os. os_segid os = s) (xs_lanes x) of
        Some os \<Rightarrow> Some (os_buf os)
      | None \<Rightarrow> map_of (xs_sealing x) s)"

definition read_frames_in_ram ::
  "xenv \<Rightarrow> xstore \<Rightarrow> segid \<Rightarrow> u64 \<Rightarrow> u32 \<Rightarrow> u32 \<Rightarrow> (u64 \<times> u64) list \<Rightarrow> bytes list option fs_result" where
  "read_frames_in_ram env x s byte_offset byte_len first_frame slots =
     (case ram_bytes x s of
        None \<Rightarrow> Inr None
      | Some buf \<Rightarrow>
          try_bind (frame_bounds buf byte_offset byte_len) (\<lambda>encoded.
          try_bind (or_io (read_frames_from_region (xe_data env) encoded s first_frame slots)) (\<lambda>frames.
            Inr (Some frames))))"

definition validate_extent_frame :: "bytes \<Rightarrow> unit fs_result" where
  "validate_extent_frame d = check (length d = unat EXTENT_SIZE) IoError"

definition fetch_frame :: "xenv \<Rightarrow> inode_id \<Rightarrow> u64 \<Rightarrow> frame_loc \<Rightarrow> (xstore, bytes store_result) sm" where
  "fetch_frame env ino idx loc =
     sbind (sread (\<lambda>x. read_frames_in_ram env x (fl_segid loc) (fl_byte_offset loc) (fl_byte_len loc)
                         (fl_frame_index loc) [(ino, idx)])) (\<lambda>ram.
     sbind (sread (\<lambda>x. Inr (case ram of
                         Some frames \<Rightarrow> Inr (last frames)
                       | None \<Rightarrow> read_extent (xe_store env) (ss_objects (xs_store x)) loc ino idx)))
       (\<lambda>r. case r of
              Inl e \<Rightarrow> sret (Inl e)
            | Inr d \<Rightarrow>
                sbind (slift (validate_extent_frame d)) (\<lambda>_.
                sbind (smodify (decoded_insert ino idx loc d)) (\<lambda>_. sret (Inr d)))))"

definition reresolve :: "xenv \<Rightarrow> meta \<Rightarrow> inode_id \<Rightarrow> u64 \<Rightarrow> frame_loc option fs_result" where
  "reresolve env m ino idx =
     (case xe_faults env (ExtentKey ino idx) of Some _ \<Rightarrow> Inl IoError | None \<Rightarrow> Inr (m_extents m (ino, idx)))"

definition extent_get :: "xenv \<Rightarrow> meta \<Rightarrow> inode_id \<Rightarrow> u64 \<Rightarrow> (xstore, bytes option) sm" where
  "extent_get env m ino idx =
     sbind (locate env m ino idx) (\<lambda>location.
       case location of
         Hole \<Rightarrow> sret None
       | Frame loc \<Rightarrow>
           sbind (sread (\<lambda>x. Inr (xs_decoded x (ino, idx, loc)))) (\<lambda>cached.
             case cached of
               Some d \<Rightarrow> sret (Some d)
             | None \<Rightarrow>
                 sbind (fetch_frame env ino idx loc) (\<lambda>r.
                   case r of
                     Inr d \<Rightarrow> sret (Some d)
                   | Inl _ \<Rightarrow>
                       sbind (slift (reresolve env m ino idx)) (\<lambda>again.
                         case again of
                           None \<Rightarrow> sret None
                         | Some new_loc \<Rightarrow>
                             if fl_segid new_loc \<noteq> fl_segid loc then
                               sbind (fetch_frame env ino idx new_loc) (\<lambda>r.
                                 case r of Inr d \<Rightarrow> sret (Some d) | Inl _ \<Rightarrow> sfail IoError)
                             else sfail IoError))))"

section \<open>Reading a range\<close>

text \<open>Maximal runs of extents whose frames are adjacent in one segment.\<close>

fun take_run ::
  "frame_loc \<Rightarrow> (u64 \<times> cached_location) list \<Rightarrow> (u64 \<times> frame_loc) list \<times> (u64 \<times> cached_location) list" where
  "take_run prev ((k, Frame loc) # xs) =
     (if follows prev loc then let (run, rest) = take_run loc xs in ((k, loc) # run, rest)
      else ([], (k, Frame loc) # xs))"
| "take_run prev xs = ([], xs)"

datatype piece = HolePiece u64 | RunPiece "(u64 \<times> frame_loc) list"

lemma length_take_run: "length (snd (take_run prev xs)) \<le> length xs"
  by (induction prev xs rule: take_run.induct) (auto split: prod.split)

function plan_pieces :: "(u64 \<times> cached_location) list \<Rightarrow> piece list" where
  "plan_pieces [] = []"
| "plan_pieces ((k, Hole) # xs) = HolePiece k # plan_pieces xs"
| "plan_pieces ((k, Frame loc) # xs) =
     RunPiece ((k, loc) # fst (take_run loc xs)) # plan_pieces (snd (take_run loc xs))"
  by pat_completeness auto
termination
  by (relation "measure length") (auto simp: length_take_run le_imp_less_Suc)

datatype planned = Ready "bytes list" | OnStore

definition run_slots :: "inode_id \<Rightarrow> (u64 \<times> frame_loc) list \<Rightarrow> (u64 \<times> u64) list" where
  "run_slots ino run = map (\<lambda>(k, _). (ino, k)) run"

definition run_total :: "(u64 \<times> frame_loc) list \<Rightarrow> u32" where
  "run_total run = word_of_nat (run_bytes (map snd run))"

definition classify_run :: "xenv \<Rightarrow> xstore \<Rightarrow> inode_id \<Rightarrow> (u64 \<times> frame_loc) list \<Rightarrow> planned fs_result" where
  "classify_run env x ino run =
     (if (\<forall>(k, loc) \<in> set run. xs_decoded x (ino, k, loc) \<noteq> None)
      then Inr (Ready (map (\<lambda>(k, loc). the (xs_decoded x (ino, k, loc))) run))
      else
        let first = snd (hd run) in
        try_bind (read_frames_in_ram env x (fl_segid first) (fl_byte_offset first) (run_total run)
                    (fl_frame_index first) (run_slots ino run)) (\<lambda>frames.
          Inr (case frames of Some fs \<Rightarrow> Ready fs | None \<Rightarrow> OnStore)))"

definition classify :: "xenv \<Rightarrow> xstore \<Rightarrow> inode_id \<Rightarrow> piece \<Rightarrow> (piece \<times> planned) fs_result" where
  "classify env x ino p =
     (case p of
        HolePiece k \<Rightarrow> Inr (p, Ready [ZERO_EXTENT])
      | RunPiece run \<Rightarrow> try_bind (classify_run env x ino run) (\<lambda>pl. Inr (p, pl)))"

definition fetch_on_store_run ::
  "xenv \<Rightarrow> meta \<Rightarrow> inode_id \<Rightarrow> (u64 \<times> frame_loc) list \<Rightarrow> (xstore, bytes list) sm" where
  "fetch_on_store_run env m ino run =
     (let first = snd (hd run) in
      sbind (sread (\<lambda>x. Inr (read_run (xe_store env) (ss_objects (xs_store x)) (fl_segid first)
                               (fl_byte_offset first) (run_total run) (fl_frame_index first)
                               (run_slots ino run)))) (\<lambda>r.
        case r of
          Inr frames \<Rightarrow> sret frames
        | Inl _ \<Rightarrow>
            smap (\<lambda>(k, _). sbind (extent_get env m ino k) (\<lambda>d.
              sret (case d of Some d \<Rightarrow> d | None \<Rightarrow> ZERO_EXTENT))) run))"

definition fetch_piece :: "xenv \<Rightarrow> meta \<Rightarrow> inode_id \<Rightarrow> piece \<times> planned \<Rightarrow> (xstore, piece \<times> bytes list) sm" where
  "fetch_piece env m ino pp =
     (case pp of
        (p, Ready frames) \<Rightarrow> sret (p, frames)
      | (RunPiece run, OnStore) \<Rightarrow> sbind (fetch_on_store_run env m ino run) (\<lambda>frames. sret (RunPiece run, frames))
      | (p, OnStore) \<Rightarrow> sret (p, []))"

text \<open>The part of extent \<open>c\<close> that the range covers.\<close>

definition slice_bounds :: "u64 \<Rightarrow> u64 \<Rightarrow> u64 \<Rightarrow> nat \<times> nat" where
  "slice_bounds offset stop c =
     (if c = offset div EXTENT_SIZE then unat (offset mod EXTENT_SIZE) else 0,
      if c = (stop - 1) div EXTENT_SIZE then unat ((stop - 1) mod EXTENT_SIZE) + 1 else unat EXTENT_SIZE)"

definition cut :: "u64 \<Rightarrow> u64 \<Rightarrow> u64 \<Rightarrow> bytes \<Rightarrow> bytes" where
  "cut offset stop c d = (let (a, b) = slice_bounds offset stop c in slice a b d)"

definition emit_piece :: "inode_id \<Rightarrow> u64 \<Rightarrow> u64 \<Rightarrow> piece \<times> bytes list \<Rightarrow> (xstore, bytes) sm" where
  "emit_piece ino offset stop pf =
     (case pf of
        (HolePiece k, _) \<Rightarrow> sret (cut offset stop k ZERO_EXTENT)
      | (RunPiece run, frames) \<Rightarrow>
          sbind (smap (\<lambda>((k, loc), d).
              sbind (slift (validate_extent_frame d)) (\<lambda>_.
              sbind (smodify (decoded_insert ino k loc d)) (\<lambda>_.
                sret (cut offset stop k d)))) (zip run frames)) (\<lambda>parts. sret (concat parts)))"

definition extent_indices :: "u64 \<Rightarrow> u64 \<Rightarrow> u64 list" where
  "extent_indices a b = map word_of_nat [unat a..<Suc (unat b)]"

definition read_range :: "xenv \<Rightarrow> meta \<Rightarrow> inode_id \<Rightarrow> u64 \<Rightarrow> u64 \<Rightarrow> (xstore, bytes) sm" where
  "read_range env m ino offset len =
     (if len = 0 then sret []
      else
        let stop = offset + len;
            start_extent = offset div EXTENT_SIZE;
            end_extent = (stop - 1) div EXTENT_SIZE;
            start_offset = unat (offset mod EXTENT_SIZE)
        in
        if start_extent = end_extent then
          sbind (extent_get env m ino start_extent) (\<lambda>d.
            sret (slice start_offset (start_offset + unat len) (case d of Some d \<Rightarrow> d | None \<Rightarrow> ZERO_EXTENT)))
        else
          let idxs = extent_indices start_extent end_extent in
          sbind (locate_all env m ino idxs) (\<lambda>locations.
          sbind (sread (\<lambda>x. try_map (classify env x ino) (plan_pieces (zip idxs locations)))) (\<lambda>planned.
          sbind (smap (fetch_piece env m ino) planned) (\<lambda>fetched.
          sbind (smap (emit_piece ino offset stop) fetched) (\<lambda>parts.
            sret (concat parts))))))"

section \<open>Staging edits\<close>

type_synonym edit = "u64 \<times> bytes option"

text \<open>The frames an edit supersedes, found by point lookups or, for a wide set, by one scan.\<close>

definition old_debit :: "xenv \<Rightarrow> meta \<Rightarrow> xstore \<Rightarrow> inode_id \<Rightarrow> u64 \<Rightarrow> (segid \<times> u32) list fs_result" where
  "old_debit env m x ino idx =
     (case check_authority env of
        Inl _ \<Rightarrow> Inl IoError
      | Inr _ \<Rightarrow>
          let debit = (\<lambda>l. case l of Hole \<Rightarrow> [] | Frame loc \<Rightarrow> [(fl_segid loc, fl_byte_len loc)]) in
          (case xs_locs x (ino, idx) of
             Some l \<Rightarrow> Inr (debit l)
           | None \<Rightarrow> try_bind (load_extent_location env m ino idx) (\<lambda>l. Inr (debit l))))"

definition old_debits ::
  "xenv \<Rightarrow> meta \<Rightarrow> inode_id \<Rightarrow> edit list \<Rightarrow> u64 \<Rightarrow> xstore \<Rightarrow> (segid \<times> u32) list fs_result" where
  "old_debits env m ino edits old_extent_end x =
     (case map fst edits of
        [] \<Rightarrow> Inr []
      | e # es \<Rightarrow>
          let lo = fold min es e; hi = fold max es e in
          if lo < old_extent_end then
            let scan_end = min (saturating_add hi 1) old_extent_end;
                edited = filter (\<lambda>e. e < scan_end) (e # es)
            in
            if length edited \<le> OLD_DEBIT_POINT_LOOKUPS_MAX then
              try_bind (try_map (old_debit env m x ino) edited) (\<lambda>found. Inr (concat found))
            else if \<not> xe_scan_ok env then Inl IoError
            else
              Inr (concat (map (\<lambda>k. let idx = word_of_nat k in
                     if idx \<in> set edited
                     then (case m_extents m (ino, idx) of
                             None \<Rightarrow> [] | Some loc \<Rightarrow> [(fl_segid loc, fl_byte_len loc)])
                     else []) [unat lo..<unat scan_end]))
          else Inr [])"

definition edit_payloads :: "edit list \<Rightarrow> bytes list" where
  "edit_payloads edits = List.map_filter snd edits"

definition edit_frames :: "edit list \<Rightarrow> u64 list" where
  "edit_frames edits = map fst (filter (\<lambda>(_, d). d \<noteq> None) edits)"

fun stage_rows :: "inode_id \<Rightarrow> edit list \<Rightarrow> frame_loc list \<Rightarrow> txn \<Rightarrow> txn" where
  "stage_rows ino [] locs t = t"
| "stage_rows ino ((idx, None) # edits) locs t = stage_rows ino edits locs (extent_delete ino idx t)"
| "stage_rows ino ((idx, Some d) # edits) (loc # locs) t =
     stage_rows ino edits locs
       (seg_delta (fl_segid loc) (uint (fl_byte_len loc)) (uint (fl_byte_len loc))
         (update_cached_extent_location ino idx (Some loc) (put_op (PutExtent ino idx loc) t)))"
| "stage_rows ino ((idx, Some d) # edits) [] t = t"

definition cache_frames :: "inode_id \<Rightarrow> u64 list \<Rightarrow> frame_loc list \<Rightarrow> bytes list \<Rightarrow> xstore \<Rightarrow> xstore" where
  "cache_frames ino idxs locs ds x =
     fold (\<lambda>((idx, loc), d). decoded_insert ino idx loc d) (zip (zip idxs locs) ds) x"

definition stage_debits :: "(segid \<times> u32) list \<Rightarrow> txn \<Rightarrow> txn" where
  "stage_debits debits t = fold (\<lambda>(s, len). seg_delta s (- uint len) 0) debits t"

text \<open>Claim, seal and fill the frames of one batch in a lane; whether the lane is now full.\<close>

definition append_frames ::
  "xenv \<Rightarrow> nat \<Rightarrow> inode_id \<Rightarrow> u64 list \<Rightarrow> compressed list \<Rightarrow> (xstore, frame_loc list \<times> bool) sm" where
  "append_frames env lane ino idxs payloads x =
     (if payloads = [] then (Inr ([], False), x)
      else
        let d = xe_data env; os = xs_lanes x ! lane in
        case reservation_claim d os ino (zip idxs (map sealed_len payloads)) WIRE of
          Inl _ \<Rightarrow> (Inl IoError, x)
        | Inr (r, os) \<Rightarrow>
            let rotate = (length (os_buf os) \<ge> xe_seal_threshold env);
                x = x\<lparr>xs_lanes := (xs_lanes x)[lane := os]\<rparr>
            in
            (case seal_compressed_batch d (rs_segid r) (rs_first_frame r)
                    (map (\<lambda>(idx, p). (ino, idx, p)) (zip idxs payloads)) of
               Inl _ \<Rightarrow> (Inl IoError, x)
             | Inr sealed \<Rightarrow>
                 (case reservation_fill d r sealed os of
                    (Inl e, os) \<Rightarrow> (Inl e, x\<lparr>xs_lanes := (xs_lanes x)[lane := os]\<rparr>)
                  | (Inr locs, os) \<Rightarrow>
                      (Inr (locs, rotate), x\<lparr>xs_lanes := (xs_lanes x)[lane := os]\<rparr>))))"

definition stage_edits ::
  "xenv \<Rightarrow> meta \<Rightarrow> inode_id \<Rightarrow> edit list \<Rightarrow> u64 \<Rightarrow> txn \<Rightarrow> (xstore, txn) sm" where
  "stage_edits env m ino edits old_extent_end t =
     (let lane = lock_append_lane env ino in
      sbind (sread (old_debits env m ino edits old_extent_end)) (\<lambda>debits.
      sbind (slift (or_io (try_map (compress (dn_codec (xe_data env))) (edit_payloads edits)))) (\<lambda>payloads.
      sbind (append_frames env lane ino (edit_frames edits) payloads) (\<lambda>(locs, rotate).
      sbind (smodify (cache_frames ino (edit_frames edits) locs (edit_payloads edits))) (\<lambda>_.
      sbind (smodify (if rotate then spawn_seal env lane else id)) (\<lambda>_.
        sret (stage_debits debits (stage_rows ino edits locs t))))))))"

section \<open>Writing\<close>

definition extent_edit :: "u64 \<Rightarrow> bytes \<Rightarrow> edit" where
  "extent_edit idx d = (idx, if d = ZERO_EXTENT then None else Some d)"

text \<open>The part of extent \<open>idx\<close> that \<open>[offset, stop)\<close> covers, in 64-bit arithmetic.\<close>

definition write_window :: "u64 \<Rightarrow> u64 \<Rightarrow> u64 \<Rightarrow> nat \<times> nat" where
  "write_window offset stop idx =
     (let extent_start = idx * EXTENT_SIZE; extent_end = extent_start + EXTENT_SIZE in
      (if offset > extent_start then unat (offset - extent_start) else 0,
       if stop < extent_end then unat (stop - extent_start) else unat EXTENT_SIZE))"

definition covers_extent :: "u64 \<Rightarrow> u64 \<Rightarrow> u64 \<Rightarrow> bool" where
  "covers_extent offset stop idx \<longleftrightarrow>
     offset \<le> idx * EXTENT_SIZE \<and> stop \<ge> idx * EXTENT_SIZE + EXTENT_SIZE"

definition existing_extent ::
  "xenv \<Rightarrow> meta \<Rightarrow> inode_id \<Rightarrow> u64 \<Rightarrow> u64 \<Rightarrow> u64 \<Rightarrow> (u64 \<times> bytes) option \<Rightarrow> u64 \<Rightarrow> (xstore, bytes) sm" where
  "existing_extent env m ino offset stop old_size cached idx =
     (if covers_extent offset stop idx \<or> idx * EXTENT_SIZE \<ge> old_size then sret ZERO_EXTENT
      else
        case cached of
          Some (ci, d) \<Rightarrow>
            if ci = idx then sret d
            else sbind (extent_get env m ino idx) (\<lambda>d. sret (case d of Some d \<Rightarrow> d | None \<Rightarrow> ZERO_EXTENT))
        | None \<Rightarrow>
            sbind (extent_get env m ino idx) (\<lambda>d. sret (case d of Some d \<Rightarrow> d | None \<Rightarrow> ZERO_EXTENT)))"

fun write_edits :: "u64 \<Rightarrow> u64 \<Rightarrow> bytes \<Rightarrow> nat \<Rightarrow> (u64 \<times> bytes) list \<Rightarrow> edit list" where
  "write_edits offset stop d k [] = []"
| "write_edits offset stop d k ((idx, existing) # rest) =
     (let (a, b) = write_window offset stop idx;
          len = b - a;
          part = slice k (k + len) d;
          extent = (if a = 0 \<and> b = unat EXTENT_SIZE then part else write_at a part existing)
      in extent_edit idx extent # write_edits offset stop d (k + len) rest)"

definition extent_write ::
  "xenv \<Rightarrow> meta \<Rightarrow> inode_id \<Rightarrow> u64 \<Rightarrow> bytes \<Rightarrow> u64 \<Rightarrow> txn \<Rightarrow> (xstore, tail_update \<times> txn) sm" where
  "extent_write env m ino offset d old_size t =
     (if d = [] then sret (TailKeep, t)
      else
        sbind (slift (ok_or InvalidArgument (checked_add offset (word_of_nat (length d))))) (\<lambda>stop.
        let start_extent = offset div EXTENT_SIZE;
            end_extent = (stop - 1) div EXTENT_SIZE;
            idxs = extent_indices start_extent end_extent
        in
        sbind (sread (\<lambda>x. Inr (xs_tail x ino))) (\<lambda>cached.
        sbind (smap (existing_extent env m ino offset stop old_size cached) idxs) (\<lambda>existing.
        let cache_tail = (stop \<ge> old_size \<and> stop mod EXTENT_SIZE \<noteq> 0);
            edits = write_edits offset stop d 0 (zip idxs existing)
        in
        sbind (stage_edits env m ino edits (div_ceil old_size EXTENT_SIZE) t) (\<lambda>t.
          sret (case (if cache_tail then snd (last edits) else None) of
                  Some d \<Rightarrow> TailSet end_extent d
                | None \<Rightarrow> TailClear, t))))))"

definition extent_delete_range :: "xenv \<Rightarrow> meta \<Rightarrow> inode_id \<Rightarrow> u64 \<Rightarrow> u64 \<Rightarrow> txn \<Rightarrow> (xstore, txn) sm" where
  "extent_delete_range env m ino start stop t =
     sbind (smodify (tail_invalidate ino)) (\<lambda>_. slift (delete_range (xe_scan_ok env) m ino start stop t))"

definition extent_truncate ::
  "xenv \<Rightarrow> meta \<Rightarrow> inode_id \<Rightarrow> u64 \<Rightarrow> u64 \<Rightarrow> txn \<Rightarrow> (xstore, txn) sm" where
  "extent_truncate env m ino old_size new_size t =
     (if new_size \<ge> old_size then sret t
      else
        let old_extents = div_ceil old_size EXTENT_SIZE; new_extents = div_ceil new_size EXTENT_SIZE in
        sbind (extent_delete_range env m ino new_extents old_extents t) (\<lambda>t.
          let clear_from = unat (new_size mod EXTENT_SIZE) in
          if new_size > 0 \<and> clear_from > 0 then
            sbind (extent_get env m ino (new_extents - 1)) (\<lambda>existing.
              let d = (case existing of Some d \<Rightarrow> d | None \<Rightarrow> ZERO_EXTENT);
                  d = take clear_from d @ replicate (length d - clear_from) 0
              in stage_edits env m ino [extent_edit (new_extents - 1) d] old_extents t)
          else sret t))"

fun zero_edits ::
  "xenv \<Rightarrow> meta \<Rightarrow> inode_id \<Rightarrow> u64 \<Rightarrow> u64 \<Rightarrow> u64 \<Rightarrow> u64 list \<Rightarrow> (xstore, edit list) sm" where
  "zero_edits env m ino offset stop file_size [] = sret []"
| "zero_edits env m ino offset stop file_size (idx # idxs) =
     (if idx * EXTENT_SIZE \<ge> file_size then zero_edits env m ino offset stop file_size idxs
      else if covers_extent offset stop idx then
        sbind (zero_edits env m ino offset stop file_size idxs) (\<lambda>edits. sret ((idx, None) # edits))
      else
        sbind (extent_get env m ino idx) (\<lambda>existing.
          case existing of
            None \<Rightarrow> zero_edits env m ino offset stop file_size idxs
          | Some d \<Rightarrow>
              let (a, b) = write_window offset stop idx;
                  d = write_at a (replicate (b - a) 0) d
              in
              sbind (zero_edits env m ino offset stop file_size idxs) (\<lambda>edits.
                sret (extent_edit idx d # edits))))"

definition extent_zero_range ::
  "xenv \<Rightarrow> meta \<Rightarrow> inode_id \<Rightarrow> u64 \<Rightarrow> u64 \<Rightarrow> u64 \<Rightarrow> txn \<Rightarrow> (xstore, txn) sm" where
  "extent_zero_range env m ino offset len file_size t =
     (if len = 0 then sret t
      else
        sbind (slift (ok_or InvalidArgument (checked_add offset len))) (\<lambda>stop.
        sbind (smodify (tail_invalidate ino)) (\<lambda>_.
        sbind (zero_edits env m ino offset stop file_size
                 (extent_indices (offset div EXTENT_SIZE) ((stop - 1) div EXTENT_SIZE))) (\<lambda>edits.
          stage_edits env m ino edits (div_ceil file_size EXTENT_SIZE) t))))"

section \<open>Read-ahead\<close>

definition READ_AHEAD_WINDOW_BYTES :: u64 where
  "READ_AHEAD_WINDOW_BYTES = 8 * 1024 * 1024"

definition READ_AHEAD_CHUNK_BYTES :: u64 where
  "READ_AHEAD_CHUNK_BYTES = 1024 * 1024"

definition READ_AHEAD_MIN_SEQ :: u32 where
  "READ_AHEAD_MIN_SEQ = 2"

definition plan_read_ahead ::
  "u64 \<times> u64 \<times> u32 \<Rightarrow> u64 \<Rightarrow> u64 \<Rightarrow> (u64 \<times> u64 \<times> u32) \<times> (u64 \<times> u64) option" where
  "plan_read_ahead st offset len =
     (let (last_end, prefetched_to, sq) = st;
          read_end = offset + len
      in
      if read_end \<le> last_end \<and> saturating_sub last_end offset \<le> READ_AHEAD_WINDOW_BYTES
      then ((last_end, prefetched_to, sq), None)
      else if offset \<noteq> last_end then ((read_end, read_end, 1), None)
      else
        let sq = saturating_add sq 1 in
        if sq < READ_AHEAD_MIN_SEQ then ((read_end, read_end, sq), None)
        else
          let ahead = saturating_sub prefetched_to read_end in
          if ahead \<ge> READ_AHEAD_WINDOW_BYTES div 2 then ((read_end, prefetched_to, sq), None)
          else
            let target = read_end + READ_AHEAD_WINDOW_BYTES;
                start = max prefetched_to read_end
            in ((read_end, target, sq), Some (start, target)))"

text \<open>The ranges admitted under the global credit bound, and the prefix they cover.\<close>

function admit_ranges :: "nat \<Rightarrow> u64 \<Rightarrow> u64 \<Rightarrow> (u64 \<times> u64) list \<times> u64" where
  "admit_ranges permits start stop =
     (if start < stop then
        (case permits of
           0 \<Rightarrow> ([], start)
         | Suc n \<Rightarrow>
             let k = min (start + READ_AHEAD_CHUNK_BYTES) stop;
                 (ranges, to) = admit_ranges n k stop
             in ((start, k) # ranges, to))
      else ([], start))"
  by pat_completeness auto
termination
  by (relation "measure (\<lambda>(permits, start, stop). permits)") auto

definition split_extent_read_budget :: "nat \<Rightarrow> nat \<times> nat" where
  "split_extent_read_budget budget =
     (let locations = min (budget div 8) (128 * 1024 * 1024) in (budget - locations, locations))"

end
