(* ===== verification/Extent_Append.thy ===== *)
theory Extent_Append
  imports Extent_Store
begin

text \<open>
  Claiming and filling frames in an open segment. A claim extends the buffer with zeroed frames
  that already carry their length; filling writes the sealed bodies into the claimed ranges and
  nowhere else. Together they append exactly the sealed frames, and every returned location names
  its frame. Every segment only ever grows, so a location stays valid.
\<close>

section \<open>Layout of a claim\<close>

definition blank_frame :: "u32 \<Rightarrow> bytes" where
  "blank_frame len = to_le_bytes len @ replicate (unat len) 0"

lemma length_blank_frame [simp]: "length (blank_frame len) = unat len + 4"
  by (simp add: blank_frame_def)

lemma unat_u32_step:
  assumes "checked_frame_body_len n WIRE = Inr len"
  shows "unat len = n" "n + 4 < 2 ^ 32"
  using assms by (auto simp: checked_frame_body_len_ok unat_of_nat)

lemma claim_frames_Cons:
  assumes "claim_frames ino WIRE k ((e, n) # frames) = Inr (offs, lens, ents, stop)"
  obtains len offs' lens' ents' k' where
    "offs = k # offs'" "lens = len # lens'" "unat len = n" "n + 4 < 2 ^ 32" "unat k' = unat k + (n + 4)"
    "claim_frames ino WIRE k' frames = Inr (offs', lens', ents', stop)" "length ents = Suc (length ents')"
proof -
  obtain len k' offs' lens' ents' where step: "checked_frame_body_len n WIRE = Inr len"
    and k': "checked_add k (word_of_nat (n + 4)) = Some k'"
    and rest: "claim_frames ino WIRE k' frames = Inr (offs', lens', ents', stop)"
    and eqs: "offs = k # offs'" "lens = len # lens'" "length ents = Suc (length ents')"
    using assms by (auto simp: try_bind_Inr usize_checked_add_def LEN_PREFIX_def add.commute split: if_splits)
  note n = unat_u32_step [OF step]
  have "unat k' = unat k + (n + 4)"
    using unat_checked_add [OF k'] n(2) unat_u64_of_nat [of "n + 4"] by simp
  then show ?thesis
    using that eqs n rest by blast
qed

lemma claim_frames_lengths:
  "claim_frames ino WIRE k frames = Inr (offs, lens, ents, stop) \<Longrightarrow>
   length offs = length frames \<and> length lens = length frames \<and> length ents = length frames
   \<and> unat stop = unat k + length (concat (map blank_frame lens)) \<and> map unat lens = map snd frames"
proof (induction frames arbitrary: k offs lens ents)
  case (Cons f frames)
  obtain e n where f: "f = (e, n)"
    by fastforce
  show ?case
    using Cons.prems [unfolded f] by (rule claim_frames_Cons) (use Cons.IH in \<open>fastforce simp: f\<close>)
qed simp

lemma write_prefixes_blank:
  "claim_frames ino WIRE k frames = Inr (offs, lens, ents, stop) \<Longrightarrow> length pre = unat k \<Longrightarrow>
   write_prefixes (zip offs lens) (pre @ replicate (unat stop - unat k) 0) = pre @ concat (map blank_frame lens)"
proof (induction frames arbitrary: k offs lens ents pre)
  case Nil
  then show ?case
    by (simp add: write_prefixes_def)
next
  case (Cons f frames)
  obtain e n where f: "f = (e, n)"
    by fastforce
  obtain len offs' lens' ents' k' where eqs: "offs = k # offs'" "lens = len # lens'" "unat len = n"
    "unat k' = unat k + (n + 4)" and rest: "claim_frames ino WIRE k' frames = Inr (offs', lens', ents', stop)"
    using Cons.prems(1) [unfolded f] by (rule claim_frames_Cons)
  have stop: "unat k' \<le> unat stop"
    using claim_frames_lengths [OF rest] by simp
  have "unat stop - unat k = 4 + (n + (unat stop - unat k'))"
    using eqs(4) stop by simp
  then have "replicate (unat stop - unat k) (0 :: u8)
      = replicate 4 0 @ replicate n 0 @ replicate (unat stop - unat k') 0"
    by (simp add: replicate_add)
  then have "write_at (unat k) (to_le_bytes len) (pre @ replicate (unat stop - unat k) 0)
      = (pre @ blank_frame len) @ replicate (unat stop - unat k') 0"
    using Cons.prems(2) eqs(3) by (simp add: write_at_def blank_frame_def)
  moreover have "length (pre @ blank_frame len) = unat k'"
    using Cons.prems(2) eqs by simp
  ultimately show ?case
    using Cons.IH [OF rest, of "pre @ blank_frame len"] by (simp add: write_prefixes_def eqs)
qed

section \<open>Filling\<close>

lemma write_at_blank:
  "length body = unat len \<Longrightarrow> length pre = k \<Longrightarrow>
   write_at (k + 4) body (pre @ blank_frame len @ post) = pre @ frame_bytes body @ post"
proof -
  assume len: "length body = unat len" and k: "length pre = k"
  have "word_of_nat (length body) = len"
    by (simp add: len)
  then show ?thesis
    using k by (simp add: write_at_def blank_frame_def frame_bytes_def len)
qed

lemma fill_frames_ok:
  assumes "claim_frames ino WIRE k frames = Inr (offs, lens, ents, stop)" "length pre = unat k"
    "length bodies = length frames"
    "fill_frames s first i (zip offs lens) bodies (pre @ concat (map blank_frame lens) @ post) = (Inr locs, buf)"
    "length buf < 2 ^ 64"
  shows "buf = pre @ concat (map frame_bytes bodies) @ post \<and> length locs = length frames
    \<and> (\<forall>j ino' ext p. j < length frames \<longrightarrow> unat first + (i + j) + 1 < 2 ^ 32 \<longrightarrow>
         codec_open (dn_codec env) (bodies ! j) (frame_aad s (first + word_of_nat (i + j)) ino' ext) = Inr p \<longrightarrow>
         fl_segid (locs ! j) = s \<and> unat (fl_byte_len (locs ! j)) = snd (frames ! j) + 4
         \<and> stored_frame env buf (locs ! j) ino' ext p)"
  using assms
proof (induction frames arbitrary: k offs lens ents pre bodies i locs)
  case (Cons f frames)
  obtain e n where f: "f = (e, n)"
    by fastforce
  obtain len offs' lens' ents' k' where eqs: "offs = k # offs'" "lens = len # lens'" "unat len = n" "n + 4 < 2 ^ 32"
    "unat k' = unat k + (n + 4)" and rest: "claim_frames ino WIRE k' frames = Inr (offs', lens', ents', stop)"
    using Cons.prems(1) [unfolded f] by (rule claim_frames_Cons)
  obtain body bs where bodies: "bodies = body # bs"
    using Cons.prems(3) by (cases bodies) auto
  obtain fi bl locs' where fi: "checked_frame_index first i WIRE = Inr fi" and len: "length body = unat len"
    and bl: "checked_stored_frame_len (word_of_nat LEN_PREFIX + ucast len) WIRE = Inr bl"
    and fill: "fill_frames s first (i + 1) (zip offs' lens') bs
      (write_at (unat k + 4) body (pre @ concat (map blank_frame lens) @ post)) = (Inr locs', buf)"
    and locs: "locs = \<lparr>fl_segid = s, fl_frame_index = fi, fl_byte_offset = k, fl_byte_len = bl\<rparr> # locs'"
    using Cons.prems(4) unfolding eqs(1,2) bodies
    by (auto simp: Let_def usize_checked_add_def LEN_PREFIX_def split: sum.splits if_splits prod.splits)
  have buf1: "write_at (unat k + 4) body (pre @ concat (map blank_frame lens) @ post)
      = (pre @ frame_bytes body) @ concat (map blank_frame lens') @ post"
    using write_at_blank [OF len Cons.prems(2)] by (simp add: eqs)
  have pre': "length (pre @ frame_bytes body) = unat k'"
    using Cons.prems(2) eqs len by simp
  have bs: "length bs = length frames"
    using Cons.prems(3) bodies by simp
  note IH = Cons.IH [OF rest pre' bs fill [unfolded buf1] Cons.prems(5)]
  then have buf: "buf = pre @ concat (map frame_bytes bodies) @ post"
    by (simp add: bodies)
  have "(word_of_nat LEN_PREFIX + ucast len :: u64) = word_of_nat (n + 4)"
    using eqs(3,4) by (simp add: LEN_PREFIX_def word_unat_eq_iff unat_word_ariths unat_of_nat)
  moreover have "unat (word_of_nat (n + 4) :: u64) = n + 4"
    using eqs(4) by (intro unat_u64_of_nat) simp
  ultimately have "bl = word_of_nat (n + 4)"
    using bl by (simp only: checked_stored_frame_len_ok)
  then have ubl: "unat bl = length body + 4"
    using unat_u32_of_nat [OF eqs(4)] eqs(3) len by simp
  have head: "stored_frame env buf \<lparr>fl_segid = s, fl_frame_index = fi, fl_byte_offset = k, fl_byte_len = bl\<rparr> ino' ext p"
    if "unat first + i + 1 < 2 ^ 32"
      "codec_open (dn_codec env) body (frame_aad s (first + word_of_nat i) ino' ext) = Inr p" for ino' ext p
  proof -
    have "fi = first + word_of_nat i" "unat fi = unat first + i"
      using fi that(1) by (simp_all add: checked_frame_index_ok unat_word_ariths unat_of_nat)
    then show ?thesis
      unfolding stored_frame_def using that Cons.prems(2,5) ubl eqs(3,4) len
      by (intro exI [of _ pre] exI [of _ body] exI [of _ "concat (map frame_bytes bs) @ post"])
        (simp add: buf bodies)
  qed
  have "fl_segid (locs ! j) = s \<and> unat (fl_byte_len (locs ! j)) = snd ((f # frames) ! j) + 4
      \<and> stored_frame env buf (locs ! j) ino' ext p"
    if "j < length (f # frames)" "unat first + (i + j) + 1 < 2 ^ 32"
      "codec_open (dn_codec env) (bodies ! j) (frame_aad s (first + word_of_nat (i + j)) ino' ext) = Inr p"
    for j ino' ext p
  proof (cases j)
    case 0
    then show ?thesis
      using that head ubl len eqs(3) by (simp add: locs bodies f)
  next
    case (Suc h)
    then have j: "h < length frames" "unat first + (i + 1 + h) + 1 < 2 ^ 32" "i + j = i + 1 + h"
      using that by simp_all
    have "codec_open (dn_codec env) (bs ! h) (frame_aad s (first + word_of_nat (i + 1 + h)) ino' ext) = Inr p"
      using that(3) unfolding j(3) by (simp add: Suc bodies)
    then show ?thesis
      using IH [THEN conjunct2, THEN conjunct2, rule_format, OF j(1,2)] by (simp add: Suc locs)
  qed
  then show ?case
    using IH buf by (simp add: locs)
qed simp

lemma fill_frames_length:
  assumes "claim_frames ino WIRE k frames = Inr (offs, lens, ents, stop)" "length pre = unat k"
    "length bodies = length frames"
    "fill_frames s first i (zip offs lens) bodies (pre @ concat (map blank_frame lens)) = (r, buf)"
  shows "\<exists>ys. buf = pre @ ys \<and> length ys = length (concat (map blank_frame lens))"
  using assms
proof (induction frames arbitrary: k offs lens ents pre bodies i r)
  case (Cons f frames)
  obtain e n where f: "f = (e, n)"
    by fastforce
  obtain len offs' lens' ents' k' where eqs: "offs = k # offs'" "lens = len # lens'" "unat len = n"
    "unat k' = unat k + (n + 4)" and rest: "claim_frames ino WIRE k' frames = Inr (offs', lens', ents', stop)"
    using Cons.prems(1) [unfolded f] by (rule claim_frames_Cons)
  obtain body bs where bodies: "bodies = body # bs"
    using Cons.prems(3) by (cases bodies) auto
  let ?buf = "pre @ concat (map blank_frame lens)"
  consider "buf = ?buf" | (wrote) r' where "length body = unat len"
      "fill_frames s first (i + 1) (zip offs' lens') bs (write_at (unat k + 4) body ?buf) = (r', buf)"
    | (last) "length body = unat len" "buf = write_at (unat k + 4) body ?buf"
    using Cons.prems(4) unfolding eqs(1,2) bodies
    by (auto simp: Let_def usize_checked_add_def LEN_PREFIX_def split: sum.splits if_splits prod.splits)
  then show ?case
  proof cases
    case wrote
    have "write_at (unat k + 4) body ?buf = (pre @ frame_bytes body) @ concat (map blank_frame lens')"
      using write_at_blank [OF wrote(1) Cons.prems(2), of "concat (map blank_frame lens')"] by (simp add: eqs)
    moreover have "length (pre @ frame_bytes body) = unat k'" "length bs = length frames"
      using Cons.prems(2,3) eqs wrote(1) bodies by simp_all
    ultimately obtain ys where "buf = (pre @ frame_bytes body) @ ys" "length ys = length (concat (map blank_frame lens'))"
      using Cons.IH [OF rest, of "pre @ frame_bytes body" bs] wrote(2) by metis
    then show ?thesis
      using wrote(1) by (intro exI [of _ "frame_bytes body @ ys"]) (simp add: eqs)
  next
    case last
    then show ?thesis
      using write_at_blank [OF last(1) Cons.prems(2), of "concat (map blank_frame lens')"]
      by (intro exI [of _ "frame_bytes body @ concat (map blank_frame lens')"]) (simp add: eqs)
  qed (auto simp: eqs)
qed simp

section \<open>One batch\<close>

lemma reservation_claim_ok:
  assumes "reservation_claim env os ino frames WIRE = Inr (r, os1)" "length (os_buf os) < 2 ^ 64"
  obtains lens ents stop where
    "claim_frames ino WIRE (word_of_nat (length (os_buf os))) frames = Inr (rs_offsets r, lens, ents, stop)"
    "rs_lens r = lens" "rs_segid r = os_segid os" "os_segid os1 = os_segid os"
    "os_buf os1 = os_buf os @ concat (map blank_frame lens)" "length (os_buf os1) < 2 ^ 64"
    "unat (rs_first_frame r) + length frames < 2 ^ 32" "length (os_dir os1) = length (os_dir os) + length frames"
proof -
  obtain first offs lens ents stop where
    first: "checked_frame_run_start (length (os_dir os)) (length frames) WIRE = Inr first"
    and claim: "claim_frames ino WIRE (word_of_nat (length (os_buf os))) frames = Inr (offs, lens, ents, stop)"
    and r: "r = \<lparr>rs_segid = os_segid os, rs_first_frame = first, rs_offsets = offs, rs_lens = lens\<rparr>"
    and os1: "os1 = os\<lparr>os_dir := os_dir os @ ents,
      os_buf := write_prefixes (zip offs lens) (os_buf os @ replicate (unat stop - length (os_buf os)) 0)\<rparr>"
    using assms(1) by (auto simp: reservation_claim_def try_bind_Inr Let_def)
  have k: "unat (word_of_nat (length (os_buf os)) :: u64) = length (os_buf os)"
    using assms(2) by (rule unat_u64_of_nat)
  have buf: "os_buf os1 = os_buf os @ concat (map blank_frame lens)"
    using write_prefixes_blank [OF claim, of "os_buf os"] by (simp add: k os1)
  have "length (os_buf os1) = unat stop"
    using claim_frames_lengths [OF claim] buf k by simp
  then have "length (os_buf os1) < 2 ^ 64"
    using unsigned_less [of stop] by simp
  moreover have "unat first + length frames < 2 ^ 32"
    using first by (auto simp: checked_frame_run_start_ok unat_of_nat)
  ultimately show ?thesis
    using that claim buf claim_frames_lengths [OF claim] by (simp add: r os1)
qed

text \<open>Where the frames of a batch end up: \<open>locs\<close> name them in \<open>buf\<close>, in order.\<close>

definition frames_at ::
  "data_env \<Rightarrow> segid \<Rightarrow> bytes \<Rightarrow> inode_id \<Rightarrow> u64 list \<Rightarrow> compressed list \<Rightarrow> frame_loc list \<Rightarrow> bool" where
  "frames_at env s buf ino idxs payloads locs \<longleftrightarrow>
     length locs = length payloads
     \<and> (\<forall>j p. j < length payloads \<longrightarrow> decompress (dn_codec env) (compressed_bytes (payloads ! j)) = Inr p \<longrightarrow>
          fl_segid (locs ! j) = s \<and> unat (fl_byte_len (locs ! j)) = sealed_len (payloads ! j) + 4
          \<and> stored_frame env buf (locs ! j) ino (idxs ! j) p)"

lemma fill_result:
  assumes "reservation_fill env r sealed os1 = (r2, os2)" "os_segid os1 = rs_segid r"
  shows "(os2 = os1 \<and> r2 = Inl IoError)
    \<or> (\<exists>buf. fill_frames (rs_segid r) (rs_first_frame r) 0 (zip (rs_offsets r) (rs_lens r))
           (map (\<lambda>(_, _, body). body) sealed) (os_buf os1) = (r2, buf) \<and> os2 = os1\<lparr>os_buf := buf\<rparr>)"
  using assms by (auto simp: reservation_fill_def Let_def split: if_splits prod.splits)

lemma claim_fill:
  assumes env: "env_ok env" and small: "length (os_buf os) < 2 ^ 64" and lens: "length idxs = length payloads"
    and claim: "reservation_claim env os ino (zip idxs (map sealed_len payloads)) WIRE = Inr (r, os1)"
    and sealed: "seal_compressed_batch env (rs_segid r) (rs_first_frame r)
      (map (\<lambda>(idx, p). (ino, idx, p)) (zip idxs payloads)) = Inr sealed"
    and fill: "reservation_fill env r sealed os1 = (r2, os2)"
  shows "\<exists>ys. os_segid os2 = os_segid os \<and> os_buf os2 = os_buf os @ ys \<and> length (os_buf os @ ys) < 2 ^ 64
    \<and> length (os_dir os2) = length (os_dir os) + length payloads
    \<and> (\<forall>locs. r2 = Inr locs \<longrightarrow> frames_at env (os_segid os) (os_buf os @ ys) ino idxs payloads locs)"
proof -
  let ?frames = "zip idxs (map sealed_len payloads)" and ?bodies = "map (\<lambda>(_, _, body). body) sealed"
  obtain ls ents stop where cl: "claim_frames ino WIRE (word_of_nat (length (os_buf os))) ?frames = Inr (rs_offsets r, ls, ents, stop)"
    and r: "rs_lens r = ls" "rs_segid r = os_segid os" and os1: "os_segid os1 = os_segid os"
    "os_buf os1 = os_buf os @ concat (map blank_frame ls)" "length (os_buf os1) < 2 ^ 64"
    and first: "unat (rs_first_frame r) + length ?frames < 2 ^ 32"
    and dir: "length (os_dir os1) = length (os_dir os) + length ?frames"
    using claim small by (rule reservation_claim_ok)
  have k: "length (os_buf os) = unat (word_of_nat (length (os_buf os)) :: u64)"
    using small by (simp add: unat_u64_of_nat)
  have n: "length ?bodies = length ?frames"
    using sealed_batch_nth(1) [OF sealed] lens by simp
  from fill_result [OF fill] os1(1) r(2) consider "os2 = os1" "r2 = Inl IoError"
    | (filled) buf where "os2 = os1\<lparr>os_buf := buf\<rparr>"
      "fill_frames (rs_segid r) (rs_first_frame r) 0 (zip (rs_offsets r) ls) ?bodies
         (os_buf os @ concat (map blank_frame ls)) = (r2, buf)"
    unfolding r(1) os1(2) by auto
  then show ?thesis
  proof cases
    case filled
    obtain ys where ys: "buf = os_buf os @ ys" "length ys = length (concat (map blank_frame ls))"
      using fill_frames_length [OF cl k n filled(2)] by blast
    have size: "length buf < 2 ^ 64"
      using ys os1(2,3) by simp
    have "frames_at env (os_segid os) buf ino idxs payloads locs" if "r2 = Inr locs" for locs
    proof -
      have "fill_frames (rs_segid r) (rs_first_frame r) 0 (zip (rs_offsets r) ls) ?bodies
         (os_buf os @ concat (map blank_frame ls) @ []) = (Inr locs, buf)"
        using filled(2) that by simp
      note ok = fill_frames_ok [OF cl k n this size, of env]
      have "fl_segid (locs ! j) = os_segid os \<and> unat (fl_byte_len (locs ! j)) = sealed_len (payloads ! j) + 4
          \<and> stored_frame env buf (locs ! j) ino (idxs ! j) p"
        if j: "j < length payloads" and p: "decompress (dn_codec env) (compressed_bytes (payloads ! j)) = Inr p" for j p
      proof -
        have "map (\<lambda>(idx, p). (ino, idx, p)) (zip idxs payloads) ! j = (ino, idxs ! j, payloads ! j)"
          "j < length (map (\<lambda>(idx, p). (ino, idx, p)) (zip idxs payloads))"
          using j lens by simp_all
        then obtain body where body: "sealed ! j = (ino, idxs ! j, body)"
          "seal_compressed_frame env j (rs_segid r) (rs_first_frame r + word_of_nat j) ino (idxs ! j) (payloads ! j) = Inr body"
          using sealed_batch_nth(2) [OF sealed] by blast
        have j': "j < length ?frames" "unat (rs_first_frame r) + (0 + j) + 1 < 2 ^ 32"
          and "?bodies ! j = body"
          using body(1) j n lens first by simp_all
        then have "codec_open (dn_codec env) (?bodies ! j)
            (frame_aad (rs_segid r) (rs_first_frame r + word_of_nat (0 + j)) ino (idxs ! j)) = Inr p"
          using sealed_frame_opens(1) [OF env body(2) p] by simp
        then show ?thesis
          using ok [THEN conjunct2, THEN conjunct2, rule_format, OF j'] r(2) j lens by simp
      qed
      then show ?thesis
        using ok lens by (simp add: frames_at_def)
    qed
    then show ?thesis
      using ys(1) size os1(1) filled(1) dir lens by auto
  qed (use os1 dir lens in auto)
qed

definition lane_appended :: "nat \<Rightarrow> bytes \<Rightarrow> xstore \<Rightarrow> xstore \<Rightarrow> bool" where
  "lane_appended lane ys x x' \<longleftrightarrow>
     (\<exists>os. x' = x\<lparr>xs_lanes := (xs_lanes x)[lane := os]\<rparr> \<and> os_segid os = os_segid (xs_lanes x ! lane)
        \<and> os_buf os = os_buf (xs_lanes x ! lane) @ ys \<and> length (os_buf (xs_lanes x ! lane) @ ys) < 2 ^ 64
        \<and> (os_dir os = [] \<longrightarrow> os_dir (xs_lanes x ! lane) = [] \<and> ys = []))"

lemma append_frames_spec:
  assumes env: "env_ok (xe_data env)" and lane: "lane < length (xs_lanes x)"
    and small: "length (os_buf (xs_lanes x ! lane)) < 2 ^ 64" and lens: "length idxs = length payloads"
    and run: "append_frames env lane ino idxs payloads x = (r, x')"
  shows "\<exists>ys. lane_appended lane ys x x' \<and>
    (\<forall>locs rot. r = Inr (locs, rot) \<longrightarrow>
       frames_at (xe_data env) (os_segid (xs_lanes x ! lane)) (os_buf (xs_lanes x ! lane) @ ys) ino idxs payloads locs)"
proof -
  let ?d = "xe_data env" and ?os = "xs_lanes x ! lane"
  let ?frames = "zip idxs (map sealed_len payloads)" and ?batch = "map (\<lambda>(idx, p). (ino, idx, p)) (zip idxs payloads)"
  have same: "lane_appended lane [] x x"
    unfolding lane_appended_def using lane small by (intro exI [of _ ?os]) simp
  consider (none) "payloads = []" | (refused) e where "payloads \<noteq> []" "reservation_claim ?d ?os ino ?frames WIRE = Inl e"
    | (failed) e r' os1 where "payloads \<noteq> []" "reservation_claim ?d ?os ino ?frames WIRE = Inr (r', os1)"
      "seal_compressed_batch ?d (rs_segid r') (rs_first_frame r') ?batch = Inl e"
    | (sealed) sealed r' os1 where "payloads \<noteq> []" "reservation_claim ?d ?os ino ?frames WIRE = Inr (r', os1)"
      "seal_compressed_batch ?d (rs_segid r') (rs_first_frame r') ?batch = Inr sealed"
    by (metis old.sum.exhaust surj_pair)
  then show ?thesis
  proof cases
    case none
    then have "r = Inr ([], False)" "x' = x"
      using run by (auto simp: append_frames_def)
    then show ?thesis
      using same none by (auto simp: frames_at_def)
  next
    case refused
    then have "r = Inl IoError" "x' = x"
      using run by (auto simp: append_frames_def Let_def)
    then show ?thesis
      using same by auto
  next
    case failed
    then have "r = Inl IoError" "x' = x\<lparr>xs_lanes := (xs_lanes x)[lane := os1]\<rparr>"
      using run by (auto simp: append_frames_def Let_def)
    moreover obtain ls where "os_segid os1 = os_segid ?os" "os_buf os1 = os_buf ?os @ concat (map blank_frame ls)"
      "length (os_buf os1) < 2 ^ 64" "length (os_dir os1) = length (os_dir ?os) + length ?frames"
      using failed(2) small by (rule reservation_claim_ok)
    moreover from this(4) have "os_dir os1 \<noteq> []"
      using failed(1) lens by auto
    ultimately have "lane_appended lane (concat (map blank_frame ls)) x x'"
      unfolding lane_appended_def by (intro exI [of _ os1]) simp
    then show ?thesis
      using \<open>r = Inl IoError\<close> by auto
  next
    case sealed
    obtain r2 os2 where fill: "reservation_fill ?d r' sealed os1 = (r2, os2)"
      by fastforce
    have out: "x' = x\<lparr>xs_lanes := (xs_lanes x)[lane := os2]\<rparr>" "r = Inr (locs, rot) \<Longrightarrow> r2 = Inr locs" for locs rot
      using run sealed fill by (auto simp: append_frames_def Let_def split: sum.splits)
    obtain ys where ys: "os_segid os2 = os_segid ?os" "os_buf os2 = os_buf ?os @ ys" "length (os_buf ?os @ ys) < 2 ^ 64"
      "length (os_dir os2) = length (os_dir ?os) + length payloads"
      "\<forall>locs. r2 = Inr locs \<longrightarrow> frames_at ?d (os_segid ?os) (os_buf ?os @ ys) ino idxs payloads locs"
      using claim_fill [OF env small lens sealed(2,3) fill] by blast
    have "os_dir os2 \<noteq> []"
      using ys(4) sealed(1) by auto
    then show ?thesis
      using ys out unfolding lane_appended_def by blast
  qed
qed

end
