(* ===== verification/Extent_Inv.thy ===== *)
theory Extent_Inv
  imports Extent_Append
begin

text \<open>
  The invariant of the data plane. \<open>xinv env m F x\<close> says that the rows \<open>m\<close> and the store \<open>x\<close>
  together hold the file contents \<open>F\<close> (a byte for every offset of every inode): an extent without
  a row is zero, and a row names a frame that opens to the extent's bytes. The caches agree with
  what they cache, and segment identifiers are never reused. Publishing segments keeps \<open>F\<close>.
\<close>

section \<open>Segments only grow\<close>

definition segment_bytes :: "xstore \<Rightarrow> segid \<Rightarrow> bytes option" where
  "segment_bytes x s =
     (case ram_bytes x s of Some b \<Rightarrow> Some b | None \<Rightarrow> ss_objects (xs_store x) (object_key s))"

definition frame_in :: "data_env \<Rightarrow> xstore \<Rightarrow> frame_loc \<Rightarrow> inode_id \<Rightarrow> u64 \<Rightarrow> bytes \<Rightarrow> bool" where
  "frame_in d x loc ino idx p \<longleftrightarrow>
     (\<exists>buf. segment_bytes x (fl_segid loc) = Some buf \<and> stored_frame d buf loc ino idx p)"

definition grows :: "xstore \<Rightarrow> xstore \<Rightarrow> bool" where
  "grows x x' \<longleftrightarrow>
     (\<forall>s b. segment_bytes x s = Some b \<longrightarrow> length b < 2 ^ 64 \<longrightarrow>
        (\<exists>ys. segment_bytes x' s = Some (b @ ys) \<and> length (b @ ys) < 2 ^ 64))"

lemma grows_refl: "segment_bytes x' = segment_bytes x \<Longrightarrow> grows x x'"
  unfolding grows_def by (metis append_Nil2)

lemma grows_trans: "grows x y \<Longrightarrow> grows y z \<Longrightarrow> grows x z"
  unfolding grows_def by (metis append.assoc)

lemma frame_in_grows: "grows x x' \<Longrightarrow> frame_in d x loc ino idx p \<Longrightarrow> frame_in d x' loc ino idx p"
  unfolding grows_def frame_in_def
  by (metis stored_frame_append stored_frame_def)

lemma frame_in_unique: "frame_in d x loc ino idx p \<Longrightarrow> frame_in d x loc ino idx q \<Longrightarrow> p = q"
  by (auto simp: frame_in_def stored_frame_unique)

definition same_caches :: "xstore \<Rightarrow> xstore \<Rightarrow> bool" where
  "same_caches x x' \<longleftrightarrow> xs_tail x' = xs_tail x \<and> xs_decoded x' = xs_decoded x \<and> xs_locs x' = xs_locs x"

lemma same_caches_trans: "same_caches x y \<Longrightarrow> same_caches y z \<Longrightarrow> same_caches x z"
  by (simp add: same_caches_def)

section \<open>Segment identifiers\<close>

definition known_segid :: "xstore \<Rightarrow> segid \<Rightarrow> bool" where
  "known_segid x s \<longleftrightarrow>
     s \<in> os_segid ` set (xs_lanes x) \<or> s \<in> fst ` set (xs_sealing x)
     \<or> ss_objects (xs_store x) (object_key s) \<noteq> None"

definition segids_ok :: "xstore \<Rightarrow> bool" where
  "segids_ok x \<longleftrightarrow>
     length (xs_lanes x) = OPEN_SEGMENT_LANES
     \<and> distinct (map os_segid (xs_lanes x) @ map fst (xs_sealing x))
     \<and> (\<forall>os \<in> set (xs_lanes x). length (os_buf os) < 2 ^ 64 \<and> (os_dir os = [] \<longrightarrow> os_buf os = [])
          \<and> ss_objects (xs_store x) (object_key (os_segid os)) = None)
     \<and> (\<forall>(s, b) \<in> set (xs_sealing x). ss_objects (xs_store x) (object_key s) \<in> {None, Some b})
     \<and> (\<forall>s. known_segid x s \<longrightarrow> sg_epoch s = ss_epoch (xs_store x) \<longrightarrow> sg_counter s < ss_counter (xs_store x))"

definition segid_room :: "nat \<Rightarrow> xstore \<Rightarrow> bool" where
  "segid_room n x \<longleftrightarrow> unat (ss_counter (xs_store x)) + n < 2 ^ 64"

lemma segids_ok_caches [simp]:
  "segids_ok (x\<lparr>xs_tail := a\<rparr>) = segids_ok x" "segids_ok (x\<lparr>xs_decoded := b\<rparr>) = segids_ok x"
  "segids_ok (x\<lparr>xs_locs := c\<rparr>) = segids_ok x"
  by (simp_all add: segids_ok_def known_segid_def)

lemma segment_bytes_same:
  assumes "xs_lanes x' = xs_lanes x" "xs_sealing x' = xs_sealing x" "ss_objects (xs_store x') = ss_objects (xs_store x)"
  shows "segment_bytes x' = segment_bytes x"
  unfolding segment_bytes_def ram_bytes_def assms by simp

lemma segment_bytes_caches [simp]:
  "segment_bytes (x\<lparr>xs_tail := a\<rparr>) = segment_bytes x" "segment_bytes (x\<lparr>xs_decoded := b\<rparr>) = segment_bytes x"
  "segment_bytes (x\<lparr>xs_locs := c\<rparr>) = segment_bytes x"
  by (rule segment_bytes_same; simp)+

lemma find_lane:
  assumes "distinct (map os_segid lanes)" "os \<in> set lanes"
  shows "find (\<lambda>o'. os_segid o' = os_segid os) lanes = Some os"
  using assms by (induction lanes) auto

lemma find_lane_None: "find (\<lambda>os. os_segid os = s) lanes = None \<longleftrightarrow> s \<notin> os_segid ` set lanes"
  by (auto simp: find_None_iff)

lemma segment_bytes_lane:
  assumes "segids_ok x" "os \<in> set (xs_lanes x)"
  shows "segment_bytes x (os_segid os) = Some (os_buf os)"
  using assms find_lane [of "xs_lanes x" os] by (simp add: segment_bytes_def ram_bytes_def segids_ok_def)

lemma segment_bytes_other:
  assumes "s \<notin> os_segid ` set (xs_lanes x)"
  shows "segment_bytes x s = (case map_of (xs_sealing x) s of Some b \<Rightarrow> Some b | None \<Rightarrow> ss_objects (xs_store x) (object_key s))"
  using assms find_lane_None [of s "xs_lanes x"] by (simp add: segment_bytes_def ram_bytes_def)

subsection \<open>Appending to a lane\<close>

lemma lane_segids:
  assumes "lane < length (xs_lanes x)" "os_segid os = os_segid (xs_lanes x ! lane)"
  shows "map os_segid ((xs_lanes x)[lane := os]) = map os_segid (xs_lanes x)"
  using assms by (metis list_update_id map_update)

lemma lane_appended_ok:
  assumes ok: "segids_ok x" and lane: "lane < length (xs_lanes x)" and app: "lane_appended lane ys x x'"
  shows "segids_ok x'" "grows x x'" "segment_bytes x' (os_segid (xs_lanes x ! lane)) = Some (os_buf (xs_lanes x ! lane) @ ys)"
proof -
  obtain os where x': "x' = x\<lparr>xs_lanes := (xs_lanes x)[lane := os]\<rparr>" and seg: "os_segid os = os_segid (xs_lanes x ! lane)"
    and buf: "os_buf os = os_buf (xs_lanes x ! lane) @ ys" "length (os_buf (xs_lanes x ! lane) @ ys) < 2 ^ 64"
      "os_dir os = [] \<longrightarrow> os_dir (xs_lanes x ! lane) = [] \<and> ys = []"
    using app unfolding lane_appended_def by blast
  have ids: "map os_segid (xs_lanes x') = map os_segid (xs_lanes x)"
    using lane_segids [OF lane seg] by (simp add: x')
  then have idset: "os_segid ` set (xs_lanes x') = os_segid ` set (xs_lanes x)"
    by (metis list.set_map)
  have known: "known_segid x' = known_segid x"
    unfolding known_segid_def idset by (simp add: x' fun_eq_iff)
  have len: "length (xs_lanes x') = length (xs_lanes x)"
    using ids map_eq_imp_length_eq by blast
  have in': "os \<in> set (xs_lanes x')"
    using lane by (simp add: x' set_update_memI)
  have old: "xs_lanes x ! lane \<in> set (xs_lanes x)"
    using lane by simp
  have "length (os_buf o') < 2 ^ 64 \<and> (os_dir o' = [] \<longrightarrow> os_buf o' = []) \<and> ss_objects (xs_store x) (object_key (os_segid o')) = None"
    if o': "o' \<in> set (xs_lanes x')" for o'
  proof -
    consider "o' = os" | "o' \<in> set (xs_lanes x)"
      using subsetD [OF set_update_subset_insert, of o' "xs_lanes x" lane os] o' by (auto simp add: x')
    then show ?thesis
      using ok old buf by cases (auto simp: segids_ok_def seg)
  qed
  then show ok': "segids_ok x'"
    using ok ids len known unfolding segids_ok_def by (simp add: x')
  show at: "segment_bytes x' (os_segid (xs_lanes x ! lane)) = Some (os_buf (xs_lanes x ! lane) @ ys)"
    using segment_bytes_lane [OF ok' in'] by (simp add: seg buf)
  have "\<exists>zs. segment_bytes x' s = Some (b @ zs) \<and> length (b @ zs) < 2 ^ 64"
    if b: "segment_bytes x s = Some b" "length b < 2 ^ 64" for s b
  proof (cases "s \<in> os_segid ` set (xs_lanes x)")
    case True
    then obtain o' where o': "o' \<in> set (xs_lanes x)" "s = os_segid o'"
      by blast
    then have o'b: "b = os_buf o'"
      using b segment_bytes_lane [OF ok o'(1)] by simp
    show ?thesis
    proof (cases "s = os_segid (xs_lanes x ! lane)")
      case True
      then have "b = os_buf (xs_lanes x ! lane)"
        using b segment_bytes_lane [OF ok old] by simp
      then show ?thesis
        using at True buf(2) by blast
    next
      case False
      then have "o' \<in> set (xs_lanes x')"
        using o' lane seg by (auto simp: x' in_set_conv_nth) (metis length_list_update nth_list_update_neq)
      then show ?thesis
        using segment_bytes_lane [OF ok'] o' o'b b(2) by (intro exI [of _ "[]"]) simp
    qed
  next
    case False
    have st: "xs_sealing x' = xs_sealing x" "xs_store x' = xs_store x"
      by (simp_all add: x')
    have "segment_bytes x' s = segment_bytes x s"
      using segment_bytes_other [OF False] segment_bytes_other [of s x'] False unfolding idset st by simp
    then show ?thesis
      using b by (intro exI [of _ "[]"]) simp
  qed
  then show "grows x x'"
    unfolding grows_def by blast
qed

subsection \<open>Rotating a lane\<close>

lemma distinct_rotate:
  assumes "distinct (ids @ rest)" "k < length ids" "s \<notin> set ids" "s \<notin> set rest"
  shows "distinct (ids[k := s] @ ids ! k # rest)"
proof -
  have "set (ids[k := s]) = insert s (set ids - {ids ! k})"
    using assms by (simp add: set_update_distinct)
  moreover have "ids ! k \<notin> set rest"
    using assms nth_mem by fastforce
  ultimately show ?thesis
    using assms by (auto simp: distinct_list_update)
qed

lemma rotate_cases:
  assumes "rotate_sealing_generation env lane WIRE x = (r, x')"
  shows "x' = x \<and> (r = Inr None \<longrightarrow> os_dir (xs_lanes x ! lane) = []) \<and> (\<forall>g. r \<noteq> Inr (Some g))
    \<or> (\<exists>obj sealed p. r = Inr (Some (os_segid (xs_lanes x ! lane), obj))
        \<and> prepare_segment_assembly (xe_data env) (os_buf (xs_lanes x ! lane)) (length (os_dir (xs_lanes x ! lane))) sealed WIRE = Inr p
        \<and> obj = assemble_prepared_segment (xe_data env) (os_segid (xs_lanes x ! lane)) (os_buf (xs_lanes x ! lane)) sealed
                  (sg_counter (os_segid (xs_lanes x ! lane))) p
        \<and> x' = x\<lparr>xs_lanes := (xs_lanes x)[lane := \<lparr>os_segid = segid_new (ss_epoch (xs_store x)) (ss_counter (xs_store x)),
                                                 os_buf = [], os_dir = []\<rparr>],
                xs_store := (xs_store x)\<lparr>ss_counter := ss_counter (xs_store x) + 1\<rparr>,
                xs_sealing := (os_segid (xs_lanes x ! lane), obj) # xs_sealing x\<rparr>)"
  using assms
  by (auto simp: rotate_sealing_generation_def Let_def next_segid_def or_io_def try_bind_Inr
      split: if_splits sum.splits prod.splits)

lemma assembled_extends:
  assumes "prepare_segment_assembly d buf n sealed WIRE = Inr p"
  shows "\<exists>ys. assemble_prepared_segment d s buf sealed q p = buf @ ys \<and> length (buf @ ys) < 2 ^ 64"
proof -
  have "length buf + (length sealed + FOOTER_LEN) < 2 ^ 64"
    using assms by (auto simp: prepare_segment_assembly_def try_bind_Inr Let_def usize_checked_add_def split: if_splits)
  then show ?thesis
    by (simp add: assembled_layout [OF assms] footer_blank_split(2) FOOTER_LEN_def F_CRC_def)
qed

lemma fresh_segid:
  assumes "segids_ok x"
  shows "\<not> known_segid x (segid_new (ss_epoch (xs_store x)) (ss_counter (xs_store x)))"
  using assms by (auto simp: segids_ok_def segid_new_def)

lemma rotated_ok:
  assumes ok: "segids_ok x" and room: "segid_room 1 x" and lane: "lane < length (xs_lanes x)"
    and s: "s = segid_new (ss_epoch (xs_store x)) (ss_counter (xs_store x))"
    and x': "x' = x\<lparr>xs_lanes := (xs_lanes x)[lane := \<lparr>os_segid = s, os_buf = [], os_dir = []\<rparr>],
                xs_store := (xs_store x)\<lparr>ss_counter := ss_counter (xs_store x) + 1\<rparr>,
                xs_sealing := (os_segid (xs_lanes x ! lane), obj) # xs_sealing x\<rparr>"
  shows "segids_ok x'"
proof -
  let ?ids = "map os_segid (xs_lanes x)" and ?os = "xs_lanes x ! lane"
  have fresh: "\<not> known_segid x s"
    using fresh_segid [OF ok] by (simp add: s)
  have ids: "map os_segid (xs_lanes x') = ?ids[lane := s]"
    by (simp add: x' map_update)
  have "distinct (?ids[lane := s] @ ?ids ! lane # map fst (xs_sealing x))"
    by (rule distinct_rotate) (use ok fresh lane in \<open>auto simp: segids_ok_def known_segid_def image_iff\<close>)
  then have dist: "distinct (map os_segid (xs_lanes x') @ map fst (xs_sealing x'))"
    using lane by (simp add: ids) (simp add: x')
  have old: "?os \<in> set (xs_lanes x)"
    using lane by simp
  have lanes: "os = \<lparr>os_segid = s, os_buf = [], os_dir = []\<rparr> \<or> os \<in> set (xs_lanes x)" if "os \<in> set (xs_lanes x')" for os
    using subsetD [OF set_update_subset_insert, of os "xs_lanes x" lane] that by (auto simp: x')
  have lanes': "length (os_buf os) < 2 ^ 64 \<and> (os_dir os = [] \<longrightarrow> os_buf os = [])
      \<and> ss_objects (xs_store x) (object_key (os_segid os)) = None" if "os \<in> set (xs_lanes x')" for os
    using lanes [OF that] ok fresh by (auto simp: segids_ok_def known_segid_def)
  have known: "known_segid x k \<or> k = s" if "known_segid x' k" for k
    using that lanes old by (force simp: known_segid_def x')
  have less: "c < ss_counter (xs_store x) + 1" if "c \<le> ss_counter (xs_store x)" for c
    using that room by (auto simp: segid_room_def word_less_nat_alt word_le_nat_alt unat_word_ariths)
  have counters: "sg_counter k < ss_counter (xs_store x) + 1"
    if "known_segid x' k" "sg_epoch k = ss_epoch (xs_store x)" for k
    using known [OF that(1)] that(2) ok less by (auto simp: segids_ok_def s segid_new_def)
  show ?thesis
    using ok dist lanes' counters old by (auto simp: segids_ok_def x')
qed

lemma rotated_grows:
  assumes ok: "segids_ok x" and ok': "segids_ok x'" and lane: "lane < length (xs_lanes x)"
    and s: "s = segid_new (ss_epoch (xs_store x)) (ss_counter (xs_store x))"
    and x': "x' = x\<lparr>xs_lanes := (xs_lanes x)[lane := \<lparr>os_segid = s, os_buf = [], os_dir = []\<rparr>],
                xs_store := (xs_store x)\<lparr>ss_counter := ss_counter (xs_store x) + 1\<rparr>,
                xs_sealing := (os_segid (xs_lanes x ! lane), os_buf (xs_lanes x ! lane) @ ys) # xs_sealing x\<rparr>"
    and small: "length (os_buf (xs_lanes x ! lane) @ ys) < 2 ^ 64"
  shows "grows x x'"
  unfolding grows_def
proof (intro allI impI)
  fix k b
  assume b: "segment_bytes x k = Some b" "length b < 2 ^ 64"
  let ?os = "xs_lanes x ! lane"
  have old: "?os \<in> set (xs_lanes x)"
    using lane by simp
  have fresh: "k \<noteq> s"
    using fresh_segid [OF ok] b(1) unfolding s [symmetric]
    by (auto simp: known_segid_def segment_bytes_other split: option.splits dest!: map_of_SomeD) force
  have stays: "os \<in> set (xs_lanes x')" if "os \<in> set (xs_lanes x)" "os \<noteq> ?os" for os
  proof -
    obtain i where "i < length (xs_lanes x)" "os = xs_lanes x ! i"
      using \<open>os \<in> set (xs_lanes x)\<close> by (auto simp: in_set_conv_nth)
    then have "i < length (xs_lanes x')" "xs_lanes x' ! i = os"
      using \<open>os \<noteq> ?os\<close> by (cases "i = lane"; simp add: x')+
    then show ?thesis
      using nth_mem by blast
  qed
  consider "k = os_segid ?os" | os where "os \<in> set (xs_lanes x')" "os \<in> set (xs_lanes x)" "k = os_segid os"
    | "k \<notin> os_segid ` set (xs_lanes x)" "k \<noteq> os_segid ?os"
    using stays old by fastforce
  then show "\<exists>ys. segment_bytes x' k = Some (b @ ys) \<and> length (b @ ys) < 2 ^ 64"
  proof cases
    case 1
    then have "b = os_buf ?os"
      using b segment_bytes_lane [OF ok old] by simp
    moreover have "k \<notin> os_segid ` set (xs_lanes x')"
      using ok' 1 by (auto simp: segids_ok_def x')
    ultimately show ?thesis
      using small by (auto simp: segment_bytes_other x' 1)
  next
    case 2
    then show ?thesis
      using segment_bytes_lane [OF ok] segment_bytes_lane [OF ok'] b by (intro exI [of _ "[]"]) simp
  next
    case 3
    moreover have "k \<notin> os_segid ` set (xs_lanes x')"
      using 3 fresh subsetD [OF set_update_subset_insert, of _ "xs_lanes x" lane] by (fastforce simp: x')
    ultimately show ?thesis
      using b 3 by (intro exI [of _ "[]"]) (simp add: segment_bytes_other, simp add: x' cong: option.case_cong)
  qed
qed

lemma rotate_ok:
  assumes ok: "segids_ok x" and room: "segid_room 1 x" and lane: "lane < length (xs_lanes x)"
    and run: "rotate_sealing_generation env lane WIRE x = (r, x')"
  shows "segids_ok x' \<and> grows x x' \<and> same_caches x x'
    \<and> unat (ss_counter (xs_store x')) \<le> unat (ss_counter (xs_store x)) + 1"
  using rotate_cases [OF run]
proof (elim disjE exE conjE)
  assume "x' = x"
  then show ?thesis
    using ok by (simp add: grows_refl same_caches_def)
next
  fix obj sealed p
  assume prep: "prepare_segment_assembly (xe_data env) (os_buf (xs_lanes x ! lane)) (length (os_dir (xs_lanes x ! lane))) sealed WIRE = Inr p"
    and obj: "obj = assemble_prepared_segment (xe_data env) (os_segid (xs_lanes x ! lane)) (os_buf (xs_lanes x ! lane)) sealed
                  (sg_counter (os_segid (xs_lanes x ! lane))) p"
    and x': "x' = x\<lparr>xs_lanes := (xs_lanes x)[lane := \<lparr>os_segid = segid_new (ss_epoch (xs_store x)) (ss_counter (xs_store x)),
                                                 os_buf = [], os_dir = []\<rparr>],
                xs_store := (xs_store x)\<lparr>ss_counter := ss_counter (xs_store x) + 1\<rparr>,
                xs_sealing := (os_segid (xs_lanes x ! lane), obj) # xs_sealing x\<rparr>"
  obtain ys where ys: "obj = os_buf (xs_lanes x ! lane) @ ys" "length (os_buf (xs_lanes x ! lane) @ ys) < 2 ^ 64"
    using assembled_extends [OF prep] obj by metis
  have ok': "segids_ok x'"
    using rotated_ok [OF ok room lane refl x'] .
  have "grows x x'"
    using rotated_grows [OF ok ok' lane refl x' [unfolded ys(1)] ys(2)] .
  moreover have "unat (ss_counter (xs_store x')) \<le> unat (ss_counter (xs_store x)) + 1"
    using room by (simp add: x' segid_room_def unat_word_ariths)
  moreover have "same_caches x x'"
    by (simp add: x' same_caches_def)
  ultimately show ?thesis
    using ok' by blast
qed

subsection \<open>Publishing segments\<close>

lemma publish_generation_cases:
  assumes "publish_generation env s b x = (ok, x')"
  shows "\<exists>objs. (objs = ss_objects (xs_store x)
      \<or> ss_objects (xs_store x) (object_key s) = None \<and> objs = (ss_objects (xs_store x))(object_key s \<mapsto> b))
    \<and> (ok \<longrightarrow> objs (object_key s) = Some b)
    \<and> x' = x\<lparr>xs_store := (xs_store x)\<lparr>ss_objects := objs\<rparr>,
            xs_sealing := if ok then filter (\<lambda>(k, _). k \<noteq> s) (xs_sealing x) else xs_sealing x\<rparr>"
proof -
  obtain r objs where put: "put_segment (xe_store env) s b (ss_objects (xs_store x)) = (r, objs)"
    by fastforce
  have "x' = x\<lparr>xs_store := (xs_store x)\<lparr>ss_objects := objs\<rparr>,
            xs_sealing := if ok then filter (\<lambda>(k, _). k \<noteq> s) (xs_sealing x) else xs_sealing x\<rparr> \<and> (ok \<longrightarrow> r = Inr ())"
    using assms by (cases r) (auto simp: publish_generation_def put Let_def)
  then show ?thesis
    using put_segment_cases [OF put] by blast
qed

definition same_segments :: "xstore \<Rightarrow> xstore \<Rightarrow> bool" where
  "same_segments x x' \<longleftrightarrow>
     segment_bytes x' = segment_bytes x \<and> xs_lanes x' = xs_lanes x
     \<and> ss_epoch (xs_store x') = ss_epoch (xs_store x) \<and> ss_counter (xs_store x') = ss_counter (xs_store x)
     \<and> same_caches x x'"

lemma map_of_filter_key: "map_of (filter (\<lambda>(k, _). k \<noteq> s) xs) k = (if k = s then None else map_of xs k)"
  by (induction xs) auto

lemma publish_generation_ok:
  assumes ok: "segids_ok x" and sb: "(s, b) \<in> set (xs_sealing x)"
    and run: "publish_generation env s b x = (fin, x')"
  shows "segids_ok x'" "same_segments x x'"
    "xs_sealing x' = (if fin then filter (\<lambda>(k, _). k \<noteq> s) (xs_sealing x) else xs_sealing x)"
proof -
  obtain objs where objs: "objs = ss_objects (xs_store x)
      \<or> ss_objects (xs_store x) (object_key s) = None \<and> objs = (ss_objects (xs_store x))(object_key s \<mapsto> b)"
    and has: "fin \<longrightarrow> objs (object_key s) = Some b"
    and x': "x' = x\<lparr>xs_store := (xs_store x)\<lparr>ss_objects := objs\<rparr>,
            xs_sealing := if fin then filter (\<lambda>(k, _). k \<noteq> s) (xs_sealing x) else xs_sealing x\<rparr>"
    using publish_generation_cases [OF run] by blast
  have dist: "distinct (map fst (xs_sealing x))" "s \<notin> os_segid ` set (xs_lanes x)"
    using ok imageI [OF sb, of fst] by (auto simp: segids_ok_def)
  have only: "b' = b" if "(s, b') \<in> set (xs_sealing x)" for b'
    using sb that dist(1) by (metis eq_key_imp_eq_value)
  have "known_segid x k" if "known_segid x' k" for k
    using that objs sb by (force simp: known_segid_def x' split: if_splits)
  moreover have "distinct (map os_segid (xs_lanes x') @ map fst (xs_sealing x'))"
    using ok by (auto simp: segids_ok_def x' distinct_map_filter)
  moreover have "objs (object_key k) \<in> {None, Some c}" if "(k, c) \<in> set (xs_sealing x)" for k c
  proof -
    have "ss_objects (xs_store x) (object_key k) \<in> {None, Some c}"
      using that ok by (auto simp: segids_ok_def)
    then show ?thesis
      using objs only that by (cases "k = s") auto
  qed
  moreover have "objs (object_key (os_segid os)) = None" if "os \<in> set (xs_lanes x)" for os
    using that ok objs dist(2) by (auto simp: segids_ok_def)
  ultimately show "segids_ok x'"
    using ok by (auto simp: segids_ok_def x')
  have "segment_bytes x' k = segment_bytes x k" for k
  proof (cases "k \<in> os_segid ` set (xs_lanes x)")
    case True
    then have "find (\<lambda>os. os_segid os = k) (xs_lanes x) \<noteq> None"
      by (simp add: find_lane_None)
    then show ?thesis
      by (auto simp: segment_bytes_def ram_bytes_def x')
  next
    case False
    have "map_of (xs_sealing x) s = Some b"
      using sb dist(1) by simp
    then show ?thesis
      using False objs has by (auto simp: segment_bytes_other x' map_of_filter_key split: option.split)
  qed
  then show "same_segments x x'"
    by (auto simp: same_segments_def same_caches_def x')
  show "xs_sealing x' = (if fin then filter (\<lambda>(k, _). k \<noteq> s) (xs_sealing x) else xs_sealing x)"
    by (simp add: x')
qed

lemma same_segments_refl [simp]: "same_segments x x"
  by (simp add: same_segments_def same_caches_def)

lemma same_segments_trans: "same_segments x y \<Longrightarrow> same_segments y z \<Longrightarrow> same_segments x z"
  by (simp add: same_segments_def same_caches_def)

lemma same_segments_grows: "same_segments x x' \<Longrightarrow> grows x x'"
  by (simp add: same_segments_def grows_refl)

lemma publish_all_ok:
  assumes "publish_all env gens x = (fin, x')" "segids_ok x" "set gens \<subseteq> set (xs_sealing x)" "distinct (map fst gens)"
  shows "segids_ok x' \<and> same_segments x x' \<and> set (xs_sealing x') \<subseteq> set (xs_sealing x)
    \<and> (fin \<longrightarrow> set (xs_sealing x') = set (xs_sealing x) - set gens)"
  using assms
proof (induction gens arbitrary: x fin)
  case (Cons g gens)
  obtain s b where g: "g = (s, b)"
    by fastforce
  obtain ok1 x1 where one: "publish_generation env s b x = (ok1, x1)"
    by fastforce
  obtain ok2 where rest: "publish_all env gens x1 = (ok2, x')" and fin: "fin = (ok1 \<and> ok2)"
    using Cons.prems(1) by (auto simp: g one split: prod.splits)
  have sb: "(s, b) \<in> set (xs_sealing x)"
    using Cons.prems(3) by (simp add: g)
  note step = publish_generation_ok [OF Cons.prems(2) sb one]
  have dist: "distinct (map fst (xs_sealing x))"
    using Cons.prems(2) by (simp add: segids_ok_def)
  have key: "k = s \<longleftrightarrow> (k, c) = (s, b)" if "(k, c) \<in> set (xs_sealing x)" for k c
    using that sb dist by (metis Pair_inject eq_key_imp_eq_value)
  have left: "set (xs_sealing x1) = (if ok1 then set (xs_sealing x) - {(s, b)} else set (xs_sealing x))"
    using step(3) key by auto
  have "set gens \<subseteq> set (xs_sealing x1)"
    using Cons.prems(3,4) left by (force simp: g)
  then have "segids_ok x' \<and> same_segments x1 x' \<and> set (xs_sealing x') \<subseteq> set (xs_sealing x1)
    \<and> (ok2 \<longrightarrow> set (xs_sealing x') = set (xs_sealing x1) - set gens)"
    using Cons.IH [OF rest step(1)] Cons.prems(4) by simp
  then show ?case
    using step(2) left fin same_segments_trans by (auto simp: g split: if_splits)
qed simp

lemma publish_pending_ok:
  assumes "publish_pending_seals env x = (r, x')" "segids_ok x"
  shows "segids_ok x' \<and> same_segments x x' \<and> (r = Inr () \<longrightarrow> xs_sealing x' = [])"
proof -
  obtain ok where run: "publish_all env (xs_sealing x) x = (ok, x')" and r: "r = Inr () \<longrightarrow> ok"
    using assms(1) by (auto simp: publish_pending_seals_def split: prod.splits if_splits)
  show ?thesis
    using publish_all_ok [OF run assms(2)] r assms(2) by (simp add: segids_ok_def)
qed

lemma publish_repeated:
  assumes "smap (\<lambda>_. publish_pending_seals env) xs x = (r, x')" "segids_ok x"
  shows "segids_ok x' \<and> same_segments x x' \<and> (xs \<noteq> [] \<longrightarrow> r \<in> range Inr \<longrightarrow> xs_sealing x' = [])"
  using assms
proof (induction xs arbitrary: x r)
  case (Cons a xs)
  obtain r1 x1 where one: "publish_pending_seals env x = (r1, x1)"
    by fastforce
  note step = publish_pending_ok [OF one Cons.prems(2)]
  show ?case
  proof (cases r1)
    case (Inl e)
    then show ?thesis
      using Cons.prems(1) step by (auto simp: sbind_def one)
  next
    case (Inr u)
    obtain r2 where rest: "smap (\<lambda>_. publish_pending_seals env) xs x1 = (r2, x')" and r: "r \<in> range Inr \<longrightarrow> r2 \<in> range Inr"
      using Cons.prems(1) Inr by (auto simp: sbind_def sret_def one split: prod.splits sum.splits)
    show ?thesis
    proof (cases xs)
      case Nil
      then show ?thesis
        using rest step Inr by (auto simp: sret_def)
    next
      case (Cons b ys)
      then show ?thesis
        using Cons.IH [OF rest] step r same_segments_trans by blast
    qed
  qed
qed (simp add: sret_def)

subsection \<open>The flush\<close>

definition sealing_tracked :: "(segid \<times> bytes) list \<Rightarrow> bool \<Rightarrow> xstore \<Rightarrow> bool" where
  "sealing_tracked uploads failed x \<longleftrightarrow>
     set uploads \<subseteq> set (xs_sealing x) \<and> distinct (map fst uploads)
     \<and> (\<not> failed \<longrightarrow> set (xs_sealing x) \<subseteq> set uploads)"

lemma sealing_tracked_publish:
  assumes "segids_ok x" "sealing_tracked ((s, b) # others) failed x" "publish_generation env s b x = (ok, x')"
  shows "segids_ok x' \<and> same_segments x x' \<and> sealing_tracked others (failed \<or> \<not> ok) x'"
proof -
  have sb: "(s, b) \<in> set (xs_sealing x)"
    using assms(2) by (simp add: sealing_tracked_def)
  have dist: "distinct (map fst (xs_sealing x))"
    using assms(1) by (simp add: segids_ok_def)
  have key: "k = s \<longleftrightarrow> (k, c) = (s, b)" if "(k, c) \<in> set (xs_sealing x)" for k c
    using that sb dist by (metis Pair_inject eq_key_imp_eq_value)
  have "set (xs_sealing x') = (if ok then set (xs_sealing x) - {(s, b)} else set (xs_sealing x))"
    using publish_generation_ok(3) [OF assms(1) sb assms(3)] key by auto
  moreover have "(s, b) \<notin> set others"
    using assms(2) by (force simp: sealing_tracked_def)
  ultimately have "sealing_tracked others (failed \<or> \<not> ok) x'"
    using assms(2) by (auto simp: sealing_tracked_def)
  then show ?thesis
    using publish_generation_ok(1,2) [OF assms(1) sb assms(3)] by blast
qed

lemma sealing_tracked_rotate:
  assumes "segids_ok x" "sealing_tracked uploads failed x" "lane < length (xs_lanes x)"
    "rotate_sealing_generation env lane WIRE x = (Inr (Some (s, b)), x')" 
  shows "sealing_tracked (uploads @ [(s, b)]) failed x'" "os_dir (xs_lanes x' ! lane) = []"
    "\<forall>i. i \<noteq> lane \<longrightarrow> xs_lanes x' ! i = xs_lanes x ! i"
proof -
  have x': "xs_sealing x' = (s, b) # xs_sealing x" "s = os_segid (xs_lanes x ! lane)"
    "os_dir (xs_lanes x' ! lane) = []" "\<forall>i. i \<noteq> lane \<longrightarrow> xs_lanes x' ! i = xs_lanes x ! i"
    using rotate_cases [OF assms(4)] assms(3) by auto
  have "s \<in> os_segid ` set (xs_lanes x)"
    using x'(2) assms(3) by simp
  then have "s \<notin> fst ` set (xs_sealing x)"
    using assms(1) by (auto simp: segids_ok_def)
  then show "sealing_tracked (uploads @ [(s, b)]) failed x'"
    using assms(2) x'(1) by (auto simp: sealing_tracked_def)
  show "os_dir (xs_lanes x' ! lane) = []" "\<forall>i. i \<noteq> lane \<longrightarrow> xs_lanes x' ! i = xs_lanes x ! i"
    using x' by simp_all
qed

definition seal_post :: "nat list \<Rightarrow> bool \<Rightarrow> xstore \<Rightarrow> bool \<times> nat list \<times> xstore \<Rightarrow> bool" where
  "seal_post lanes failed x = (\<lambda>(f, left, x').
     segids_ok x' \<and> grows x x' \<and> same_caches x x'
     \<and> unat (ss_counter (xs_store x')) \<le> unat (ss_counter (xs_store x)) + length lanes
     \<and> (\<not> f \<and> left = [] \<longrightarrow> \<not> failed \<and> xs_sealing x' = []
         \<and> (\<forall>i. i \<in> set lanes \<or> os_dir (xs_lanes x ! i) = [] \<longrightarrow> os_dir (xs_lanes x' ! i) = [])))"

lemma seal_post_after_publish:
  assumes "same_segments x x1" "seal_post lanes (failed \<or> \<not> ok) x1 out"
  shows "seal_post lanes failed x out"
  using assms grows_trans [OF same_segments_grows [OF assms(1)]] same_caches_trans
  by (auto simp: seal_post_def same_segments_def split: prod.splits)

lemma seal_post_after_rotate:
  assumes "grows x x1" "same_caches x x1" "unat (ss_counter (xs_store x1)) \<le> unat (ss_counter (xs_store x)) + 1"
    and lane: "failed1 \<or> os_dir (xs_lanes x1 ! lane) = []" "\<forall>i. i \<noteq> lane \<longrightarrow> xs_lanes x1 ! i = xs_lanes x ! i"
    and post: "seal_post rest failed1 x1 out" and failed1: "failed \<longrightarrow> failed1"
  shows "seal_post (lane # rest) failed x out"
proof -
  obtain f left x' where out: "out = (f, left, x')"
    by (cases out)
  have "os_dir (xs_lanes x' ! i) = []"
    if "\<not> f \<and> left = []" "i \<in> set (lane # rest) \<or> os_dir (xs_lanes x ! i) = []" for i
    using that lane post unfolding seal_post_def out by (cases "i = lane") auto
  then show ?thesis
    using assms(1-3) post failed1 grows_trans same_caches_trans unfolding seal_post_def out by fastforce
qed

lemma segid_room_less: "segid_room n x \<Longrightarrow> m \<le> n \<Longrightarrow> segid_room m x"
  by (simp add: segid_room_def)

lemma segid_room_step:
  "segid_room (Suc n) x \<Longrightarrow> unat (ss_counter (xs_store x')) \<le> unat (ss_counter (xs_store x)) + 1 \<Longrightarrow> segid_room n x'"
  by (simp add: segid_room_def)

lemma segid_room_same: "same_segments x x' \<Longrightarrow> segid_room n x' = segid_room n x"
  by (simp add: segid_room_def same_segments_def)

lemma seal_lanes_ok:
  assumes "segids_ok x" "segid_room (length lanes) x" "set lanes \<subseteq> {..<OPEN_SEGMENT_LANES}"
    "sealing_tracked uploads failed x"
  shows "seal_post lanes failed x (seal_lanes env lanes uploads failed x)"
  using assms
proof (induction "2 * length lanes + length uploads" arbitrary: lanes uploads failed x rule: less_induct)
  case less
  have upload: "seal_post lanes failed x (seal_lanes env lanes others (failed \<or> \<not> ok) x1)"
    if up: "uploads = (s, b) # others" and run: "publish_generation env s b x = (ok, x1)" for s b others ok x1
  proof -
    have x1: "segids_ok x1" "same_segments x x1" "sealing_tracked others (failed \<or> \<not> ok) x1"
      using sealing_tracked_publish [OF less.prems(1) less.prems(4) [unfolded up] run] by simp_all
    have "seal_post lanes (failed \<or> \<not> ok) x1 (seal_lanes env lanes others (failed \<or> \<not> ok) x1)"
      by (rule less.hyps) (use up x1 less.prems(2,3) segid_room_same in auto)
    then show ?thesis
      by (rule seal_post_after_publish [OF x1(2)])
  qed
  have stop: "seal_post lanes failed x (failed, lanes, x)" if "uploads = []"
    using that less.prems(1,4) by (auto simp: seal_post_def grows_refl same_caches_def sealing_tracked_def)
  show ?case
  proof (cases "lanes \<noteq> [] \<and> length (xs_sealing x) < xe_max_inflight env")
    case False
    have "seal_lanes env lanes uploads failed x =
        (case uploads of [] \<Rightarrow> (failed, lanes, x)
         | (s, b) # others \<Rightarrow> let (ok, x) = publish_generation env s b x in seal_lanes env lanes others (failed \<or> \<not> ok) x)"
      using False by (subst seal_lanes.simps) (auto split: list.split)
    then show ?thesis
      using upload stop by (auto split: list.split prod.split)
  next
    case True
    then obtain lane rest where lanes: "lanes = lane # rest"
      by (cases lanes) auto
    obtain r x1 where run: "rotate_sealing_generation env lane WIRE x = (r, x1)"
      by fastforce
    have lane: "lane < length (xs_lanes x)"
      using less.prems(1,3) by (simp add: segids_ok_def lanes)
    have x1: "segids_ok x1" "grows x x1" "same_caches x x1"
      "unat (ss_counter (xs_store x1)) \<le> unat (ss_counter (xs_store x)) + 1"
      using rotate_ok [OF less.prems(1) _ lane run] less.prems(2) by (simp_all add: lanes segid_room_def)
    have room: "segid_room (length rest) x1"
      using segid_room_step [OF _ x1(4)] less.prems(2) by (simp add: lanes)
    have rest: "seal_post rest failed1 x1 (seal_lanes env rest uploads1 failed1 x1)"
      if "sealing_tracked uploads1 failed1 x1" "length uploads1 \<le> Suc (length uploads)" for uploads1 failed1
      by (rule less.hyps) (use that x1(1) room less.prems(3) lanes in auto)
    have next_lane: "seal_post lanes failed x (seal_lanes env rest uploads1 failed1 x1)"
      if "sealing_tracked uploads1 failed1 x1" "length uploads1 \<le> Suc (length uploads)" "failed \<longrightarrow> failed1"
        "failed1 \<or> os_dir (xs_lanes x1 ! lane) = []" "\<forall>i. i \<noteq> lane \<longrightarrow> xs_lanes x1 ! i = xs_lanes x ! i" for uploads1 failed1
      unfolding lanes by (rule seal_post_after_rotate [OF x1(2-4) that(4,5) rest [OF that(1,2)] that(3)])
    have step: "seal_lanes env lanes uploads failed x =
        (case r of Inl _ \<Rightarrow> seal_lanes env rest uploads True x1
         | Inr None \<Rightarrow> seal_lanes env rest uploads failed x1
         | Inr (Some g) \<Rightarrow> seal_lanes env rest (uploads @ [g]) failed x1)"
      using True run by (subst seal_lanes.simps) (auto simp: lanes split: sum.split option.split)
    show ?thesis
    proof (cases "\<exists>s b. r = Inr (Some (s, b))")
      case True
      then obtain s b where r: "r = Inr (Some (s, b))"
        by blast
      show ?thesis
        using next_lane [of "uploads @ [(s, b)]" failed] sealing_tracked_rotate [OF less.prems(1,4) lane run [unfolded r]]
        by (simp add: step r)
    next
      case False
      then have same: "x1 = x" "r = Inr None \<longrightarrow> os_dir (xs_lanes x ! lane) = []"
        using rotate_cases [OF run] by auto
      have "sealing_tracked uploads True x"
        using less.prems(4) by (simp add: sealing_tracked_def)
      then show ?thesis
        using next_lane [of uploads True] next_lane [of uploads failed] less.prems(4) same False
        unfolding step by (auto split: sum.split option.split)
    qed
  qed
qed

text \<open>Nothing is left in memory only: no segment waits for publication and no lane has frames.\<close>

definition all_published :: "xstore \<Rightarrow> bool" where
  "all_published x \<longleftrightarrow> xs_sealing x = [] \<and> (\<forall>os \<in> set (xs_lanes x). os_dir os = [])"

lemma seal_open_ok:
  assumes run: "seal_open env x = (r, x')" and ok: "segids_ok x" and room: "segid_room OPEN_SEGMENT_LANES x"
  shows "segids_ok x' \<and> grows x x' \<and> same_caches x x' \<and> (r = Inr () \<longrightarrow> all_published x')"
proof -
  obtain r1 x1 where first: "smap (\<lambda>_. publish_pending_seals env) [0..<OPEN_SEGMENT_LANES + 1] x = (r1, x1)"
    by fastforce
  have x1: "segids_ok x1" "same_segments x x1" "r1 \<in> range Inr \<Longrightarrow> xs_sealing x1 = []"
    using publish_repeated [OF first ok] by auto
  show ?thesis
  proof (cases r1)
    case (Inl e)
    then show ?thesis
      using run x1 same_segments_grows [OF x1(2)] unfolding seal_open_def sbind_def first
      by (auto simp: same_segments_def)
  next
    case (Inr u)
    obtain f left x2 where lanes: "seal_lanes env (dirty_lanes x1) [] False x1 = (f, left, x2)"
      by (cases "seal_lanes env (dirty_lanes x1) [] False x1")
    have r: "r = (if f \<or> left \<noteq> [] then Inl IoError else Inr ())" "x' = x2"
      using run unfolding seal_open_def sbind_def first by (simp_all add: Inr lanes)
    have len: "length (xs_lanes x1) = OPEN_SEGMENT_LANES"
      using x1(1) by (simp add: segids_ok_def)
    have "length (dirty_lanes x1) \<le> OPEN_SEGMENT_LANES"
      using length_filter_le [of _ "[0..<length (xs_lanes x1)]"] by (simp add: dirty_lanes_def len)
    then have room1: "segid_room (length (dirty_lanes x1)) x1"
      using room segid_room_same [OF x1(2)] segid_room_less by blast
    have tracked: "sealing_tracked [] False x1"
      using x1(3) Inr by (auto simp: sealing_tracked_def)
    have post: "seal_post (dirty_lanes x1) False x1 (f, left, x')"
      using seal_lanes_ok [OF x1(1) room1 _ tracked, of env] lanes len by (auto simp: dirty_lanes_def r)
    have "os_dir (xs_lanes x' ! i) = []" if "i < OPEN_SEGMENT_LANES" "r = Inr ()" for i
      using post that r(1) unfolding seal_post_def
      by (cases "os_dir (xs_lanes x1 ! i) = []") (auto simp: dirty_lanes_def len split: if_splits)
    moreover have "segids_ok x'"
      using post by (simp add: seal_post_def)
    ultimately have "r = Inr () \<longrightarrow> all_published x'"
      using post r(1) by (auto simp: all_published_def seal_post_def segids_ok_def in_set_conv_nth split: if_splits)
    then show ?thesis
      using post grows_trans [OF same_segments_grows [OF x1(2)]] same_caches_trans x1(2)
      by (auto simp: seal_post_def same_segments_def)
  qed
qed

text \<open>After a crash only the object store is left.\<close>

lemma frame_bytes_nonempty [simp]: "frame_bytes body \<noteq> []"
  using length_frame_bytes [of body] by force

lemma published_frame:
  assumes ok: "segids_ok x" and pub: "all_published x" and "frame_in d x loc ino idx p"
  shows "\<exists>obj. ss_objects (xs_store x) (object_key (fl_segid loc)) = Some obj \<and> stored_frame d obj loc ino idx p"
proof -
  obtain buf where buf: "segment_bytes x (fl_segid loc) = Some buf" "stored_frame d buf loc ino idx p"
    using assms(3) by (auto simp: frame_in_def)
  show ?thesis
  proof (cases "fl_segid loc \<in> os_segid ` set (xs_lanes x)")
    case True
    then obtain os where os: "os \<in> set (xs_lanes x)" "fl_segid loc = os_segid os"
      by blast
    then have "buf = []"
      using buf(1) segment_bytes_lane [OF ok os(1)] pub ok by (auto simp: all_published_def segids_ok_def)
    then show ?thesis
      using buf(2) by (auto simp: stored_frame_def)
  next
    case False
    then show ?thesis
      using buf pub by (auto simp: segment_bytes_other all_published_def)
  qed
qed

end
