(* ===== verification/Extent_Read.thy ===== *)
theory Extent_Read
  imports Extent_Inv
begin

text \<open>
  Reading through the extent store. \<open>xinv env m F x\<close> says that the rows \<open>m\<close> and the store \<open>x\<close>
  together hold the file contents \<open>F\<close>, a byte for every offset of every inode. Under it a read of
  one extent, and a read of a range with its coalesced runs, returns the bytes of \<open>F\<close>; reading only
  fills caches.
\<close>

section \<open>File contents\<close>

type_synonym contents = "inode_id \<Rightarrow> nat \<Rightarrow> u8"

definition extent_of :: "(nat \<Rightarrow> u8) \<Rightarrow> u64 \<Rightarrow> bytes" where
  "extent_of f idx = map f [unat idx * 32768..<unat idx * 32768 + 32768]"

definition set_extent :: "(nat \<Rightarrow> u8) \<Rightarrow> u64 \<Rightarrow> bytes \<Rightarrow> nat \<Rightarrow> u8" where
  "set_extent f idx d = (\<lambda>i. if i div 32768 = unat idx then d ! (i mod 32768) else f i)"

lemma unat_EXTENT_SIZE [simp]: "unat EXTENT_SIZE = 32768"
  by (simp add: EXTENT_SIZE_def)

lemma length_extent_of [simp]: "length (extent_of f idx) = 32768"
  by (simp add: extent_of_def)

lemma length_ZERO_EXTENT [simp]: "length ZERO_EXTENT = 32768"
  by (simp add: ZERO_EXTENT_def)

lemma nth_extent_of: "i < 32768 \<Longrightarrow> extent_of f idx ! i = f (unat idx * 32768 + i)"
  by (simp add: extent_of_def)

lemma extent_of_eqI:
  "length d = 32768 \<Longrightarrow> (\<And>i. i < 32768 \<Longrightarrow> d ! i = f (unat idx * 32768 + i)) \<Longrightarrow> extent_of f idx = d"
  by (simp add: list_eq_iff_nth_eq nth_extent_of)

lemma extent_of_set_extent:
  assumes "length d = 32768"
  shows "extent_of (set_extent f idx d) idx' = (if idx' = idx then d else extent_of f idx')"
proof -
  have "(unat idx' * 32768 + i) div 32768 = unat idx' \<and> (unat idx' * 32768 + i) mod 32768 = i" if "i < 32768" for i
    using that by auto
  then show ?thesis
    by (intro extent_of_eqI) (auto simp: assms set_extent_def nth_extent_of word_unat_eq_iff)
qed

lemma extent_of_byte: "f i = extent_of f (word_of_nat (i div 32768)) ! (i mod 32768)" if "i < 2 ^ 64"
proof -
  have "unat (word_of_nat (i div 32768) :: u64) = i div 32768"
    using that by (intro unat_u64_of_nat) simp
  then show ?thesis
    by (simp add: nth_extent_of)
qed

lemma slice_extent_of:
  assumes "a \<le> b" "b \<le> 32768"
  shows "slice a b (extent_of f idx) = map f [unat idx * 32768 + a..<unat idx * 32768 + b]"
  using assms by (simp add: extent_of_def slice_def drop_map take_map)

section \<open>The invariant\<close>

definition row_holds :: "data_env \<Rightarrow> xstore \<Rightarrow> (inode_id \<times> u64 \<Rightarrow> frame_loc option) \<Rightarrow> contents \<Rightarrow> bool" where
  "row_holds d x rows F \<longleftrightarrow>
     (\<forall>ino idx. case rows (ino, idx) of
        None \<Rightarrow> extent_of (F ino) idx = ZERO_EXTENT
      | Some loc \<Rightarrow> frame_in d x loc ino idx (extent_of (F ino) idx) \<and> unat (fl_byte_len loc) \<le> 65536)"

definition xinv :: "xenv \<Rightarrow> meta \<Rightarrow> contents \<Rightarrow> xstore \<Rightarrow> bool" where
  "xinv env m F x \<longleftrightarrow>
     segids_ok x \<and> row_holds (xe_data env) x (m_extents m) F
     \<and> (\<forall>ino idx loc p. xs_decoded x (ino, idx, loc) = Some p \<longrightarrow>
          frame_in (xe_data env) x loc ino idx p \<and> length p = 32768)
     \<and> (\<forall>k l. xs_locs x k = Some l \<longrightarrow> l = location_of (m_extents m k))
     \<and> (\<forall>ino idx p. xs_tail x ino = Some (idx, p) \<longrightarrow> p = extent_of (F ino) idx)"

text \<open>Only the two read caches change.\<close>

definition only_caches :: "xstore \<Rightarrow> xstore \<Rightarrow> bool" where
  "only_caches x x' \<longleftrightarrow>
     xs_lanes x' = xs_lanes x \<and> xs_sealing x' = xs_sealing x \<and> xs_store x' = xs_store x \<and> xs_tail x' = xs_tail x"

lemma only_caches_refl [simp]: "only_caches x x"
  by (simp add: only_caches_def)

lemma only_caches_trans: "only_caches x y \<Longrightarrow> only_caches y z \<Longrightarrow> only_caches x z"
  by (auto simp: only_caches_def)

lemma only_caches_same:
  assumes "only_caches x x'"
  shows "segment_bytes x' = segment_bytes x" "xs_tail x' = xs_tail x" "xs_store x' = xs_store x"
    "xs_lanes x' = xs_lanes x" "xs_sealing x' = xs_sealing x" "segids_ok x' = segids_ok x"
  using assms segment_bytes_same [of x' x]
  by (auto simp: only_caches_def segids_ok_def known_segid_def)

text \<open>What a healthy environment answers: no fault, no lost authority, every object readable.\<close>

definition healthy :: "xenv \<Rightarrow> bool" where
  "healthy env \<longleftrightarrow>
     xe_authority env = None \<and> (\<forall>k. xe_faults env k = None) \<and> xe_scan_ok env
     \<and> (\<forall>path. sv_get_ok (xe_store env) path)"

text \<open>The contract of a reader: it keeps the invariant, touches only the caches, answers \<open>v\<close> when it
  answers, and does answer when the environment is healthy.\<close>

definition reads :: "xenv \<Rightarrow> meta \<Rightarrow> contents \<Rightarrow> (xstore, 'a) sm \<Rightarrow> ('a \<Rightarrow> bool) \<Rightarrow> xstore \<Rightarrow> bool" where
  "reads env m F c P x \<longleftrightarrow>
     holds c (\<lambda>r x'. xinv env m F x' \<and> only_caches x x' \<and> (\<forall>v. r = Inr v \<longrightarrow> P v)
       \<and> (healthy env \<longrightarrow> r \<in> range Inr)) x"

lemma readsI:
  "holds c (\<lambda>r x'. xinv env m F x' \<and> only_caches x x' \<and> (\<forall>v. r = Inr v \<longrightarrow> P v)
       \<and> (healthy env \<longrightarrow> r \<in> range Inr)) x \<Longrightarrow> reads env m F c P x"
  by (simp add: reads_def)

lemma reads_bind:
  assumes "reads env m F c P x"
    "\<And>v x'. P v \<Longrightarrow> only_caches x x' \<Longrightarrow> xinv env m F x' \<Longrightarrow> reads env m F (k v) Q x'"
  shows "reads env m F (sbind c k) Q x"
proof (cases "c x")
  case (Pair r x1)
  have c: "xinv env m F x1" "only_caches x x1" "\<And>v. r = Inr v \<Longrightarrow> P v" "healthy env \<Longrightarrow> r \<in> range Inr"
    using assms(1) by (auto simp: reads_def holds_def Pair)
  show ?thesis
  proof (cases r)
    case (Inl e)
    then show ?thesis
      using c by (auto simp: reads_def holds_def sbind_def Pair)
  next
    case (Inr v)
    then have "reads env m F (k v) Q x1"
      using assms(2) c by simp
    then show ?thesis
      using only_caches_trans [OF c(2)] by (auto simp: reads_def holds_def sbind_def Pair Inr)
  qed
qed

lemma reads_sret [simp]: "xinv env m F x \<Longrightarrow> reads env m F (sret v) P x = P v"
  by (simp add: reads_def)

lemma reads_slift: "xinv env m F x \<Longrightarrow> (\<And>v. r = Inr v \<Longrightarrow> P v) \<Longrightarrow> (healthy env \<Longrightarrow> r \<in> range Inr)
   \<Longrightarrow> reads env m F (slift r) P x"
  by (simp add: reads_def)

lemma reads_sread: "xinv env m F x \<Longrightarrow> (\<And>v. g x = Inr v \<Longrightarrow> P v) \<Longrightarrow> (healthy env \<Longrightarrow> g x \<in> range Inr)
   \<Longrightarrow> reads env m F (sread g) P x"
  by (simp add: reads_def)

lemma reads_mono: "reads env m F c P x \<Longrightarrow> (\<And>v. P v \<Longrightarrow> Q v) \<Longrightarrow> reads env m F c Q x"
  unfolding reads_def by (erule holds_mono) blast

lemma reads_smap:
  assumes "xinv env m F x"
    "\<And>a x'. a \<in> set as \<Longrightarrow> only_caches x x' \<Longrightarrow> xinv env m F x' \<Longrightarrow> reads env m F (f a) (\<lambda>v. v = g a) x'"
  shows "reads env m F (smap f as) (\<lambda>vs. vs = map g as) x"
  using assms
proof (induction as arbitrary: x)
  case (Cons a as)
  show ?case
    unfolding smap.simps
  proof (rule reads_bind [where P = "\<lambda>v. v = g a"])
    show "reads env m F (f a) (\<lambda>v. v = g a) x"
      using Cons.prems by simp
    fix v x1
    assume v: "v = g a" and x1: "only_caches x x1" "xinv env m F x1"
    have IH: "reads env m F (smap f as) (\<lambda>vs. vs = map g as) x1"
      by (rule Cons.IH [OF x1(2)]) (use Cons.prems(2) x1(1) only_caches_trans in \<open>metis list.set_intros(2)\<close>)
    show "reads env m F (sbind (smap f as) (\<lambda>ys. sret (v # ys))) (\<lambda>vs. vs = map g (a # as)) x1"
      by (rule reads_bind [OF IH]) (simp add: v)
  qed
qed simp

section \<open>One extent\<close>

lemma row_holds_same: "segment_bytes x' = segment_bytes x \<Longrightarrow> row_holds d x' rows F = row_holds d x rows F"
  by (simp add: row_holds_def frame_in_def cong: option.case_cong)

lemma xinv_caches:
  assumes "xinv env m F x" "only_caches x x'"
    "\<And>ino idx loc p. xs_decoded x' (ino, idx, loc) = Some p \<Longrightarrow>
       xs_decoded x (ino, idx, loc) = Some p \<or> frame_in (xe_data env) x loc ino idx p \<and> length p = 32768"
    "\<And>k l. xs_locs x' k = Some l \<Longrightarrow> xs_locs x k = Some l \<or> l = location_of (m_extents m k)"
  shows "xinv env m F x'"
proof -
  have same: "frame_in d x' = frame_in d x" for d
    using only_caches_same(1) [OF assms(2)] by (simp add: frame_in_def fun_eq_iff)
  have "frame_in (xe_data env) x loc ino idx p \<and> length p = 32768" if "xs_decoded x' (ino, idx, loc) = Some p" for ino idx loc p
    using assms(3) [OF that] assms(1) by (auto simp: xinv_def)
  moreover have "l = location_of (m_extents m k)" if "xs_locs x' k = Some l" for k l
    using assms(4) [OF that] assms(1) by (cases k) (auto simp: xinv_def)
  ultimately show ?thesis
    using assms(1) only_caches_same [OF assms(2)] row_holds_same [of x' x]
    unfolding xinv_def same by simp
qed

lemma xinv_extent:
  assumes "xinv env m F x"
  shows "case m_extents m (ino, idx) of
      None \<Rightarrow> extent_of (F ino) idx = ZERO_EXTENT
    | Some loc \<Rightarrow> frame_in (xe_data env) x loc ino idx (extent_of (F ino) idx) \<and> unat (fl_byte_len loc) \<le> 65536"
  using assms unfolding xinv_def row_holds_def by blast

lemma xinv_row:
  assumes "xinv env m F x" "m_extents m (ino, idx) = Some loc"
  shows "frame_in (xe_data env) x loc ino idx (extent_of (F ino) idx)" "unat (fl_byte_len loc) \<le> 65536"
  using xinv_extent [OF assms(1), of ino idx] assms(2) by simp_all

lemma xinv_hole: "xinv env m F x \<Longrightarrow> m_extents m (ino, idx) = None \<Longrightarrow> extent_of (F ino) idx = ZERO_EXTENT"
  using xinv_extent [of env m F x ino idx] by simp

lemma xinv_decoded:
  assumes "xinv env m F x" "m_extents m (ino, idx) = Some loc" "xs_decoded x (ino, idx, loc) = Some p"
  shows "p = extent_of (F ino) idx"
proof -
  have "frame_in (xe_data env) x loc ino idx p"
    using assms(1,3) by (simp add: xinv_def)
  then show ?thesis
    using frame_in_unique [OF xinv_row(1) [OF assms(1,2)]] by simp
qed

lemma check_authority_healthy [simp]: "healthy env \<Longrightarrow> check_authority env = Inr ()"
  by (simp add: healthy_def check_authority_def)

lemma load_healthy [simp]: "healthy env \<Longrightarrow> load_extent_location env m ino idx = Inr (location_of (m_extents m (ino, idx)))"
  by (simp add: healthy_def load_extent_location_def)

lemma load_Inr: "load_extent_location env m ino idx = Inr l \<Longrightarrow> l = location_of (m_extents m (ino, idx))"
  by (simp add: load_extent_location_def split: option.splits)

lemma locate_reads:
  assumes inv: "xinv env m F x"
  shows "reads env m F (locate env m ino idx) (\<lambda>l. l = location_of (m_extents m (ino, idx))) x"
  unfolding locate_def
proof (rule reads_bind [where P = "\<lambda>_. True"], rule reads_slift)
  fix x1
  assume x1: "only_caches x x1" "xinv env m F x1"
  show "reads env m F (\<lambda>x. case xs_locs x (ino, idx) of
         Some l \<Rightarrow> (Inr l, x)
       | None \<Rightarrow>
           (case load_extent_location env m ino idx of
              Inl e \<Rightarrow> (Inl e, x)
            | Inr l \<Rightarrow> (Inr l, x\<lparr>xs_locs := (xs_locs x)((ino, idx) \<mapsto> l)\<rparr>)))
      (\<lambda>l. l = location_of (m_extents m (ino, idx))) x1"
  proof (cases "xs_locs x1 (ino, idx)")
    case None
    show ?thesis
    proof (cases "load_extent_location env m ino idx")
      case (Inr l)
      have "xinv env m F (x1\<lparr>xs_locs := (xs_locs x1)((ino, idx) \<mapsto> l)\<rparr>)"
        by (rule xinv_caches [OF x1(2)]) (auto simp: only_caches_def load_Inr [OF Inr] split: if_splits)
      then show ?thesis
        using None Inr load_Inr [OF Inr] by (simp add: reads_def holds_def only_caches_def)
    qed (use None x1 in \<open>auto simp: reads_def holds_def\<close>)
  qed (use x1 in \<open>auto simp: reads_def holds_def xinv_def\<close>)
qed (use inv in auto)

lemma xinv_decoded_insert:
  assumes "xinv env m F x" "frame_in (xe_data env) x loc ino idx p" "length p = 32768"
  shows "xinv env m F (decoded_insert ino idx loc p x)" "only_caches x (decoded_insert ino idx loc p x)"
proof -
  show "only_caches x (decoded_insert ino idx loc p x)"
    by (simp add: only_caches_def decoded_insert_def)
  then show "xinv env m F (decoded_insert ino idx loc p x)"
    by (rule xinv_caches [OF assms(1)]) (auto simp: decoded_insert_def assms split: if_splits)
qed

lemma read_one_in_ram:
  assumes "frame_in (xe_data env) x loc ino idx p"
  shows "read_frames_in_ram env x (fl_segid loc) (fl_byte_offset loc) (fl_byte_len loc) (fl_frame_index loc) [(ino, idx)]
    = Inr (case ram_bytes x (fl_segid loc) of None \<Rightarrow> None | Some _ \<Rightarrow> Some [p])"
proof (cases "ram_bytes x (fl_segid loc)")
  case (Some buf)
  then have st: "stored_frame (xe_data env) buf loc ino idx p"
    using assms by (simp add: frame_in_def segment_bytes_def)
  then show ?thesis
    using Some stored_frame_read [OF st]
    by (rule_tac stored_frame_slice [OF st]) (simp add: read_frames_in_ram_def frame_bounds_def or_io_def)
qed (simp add: read_frames_in_ram_def)

lemma read_one_on_store:
  assumes "frame_in (xe_data env) x loc ino idx p" "ram_bytes x (fl_segid loc) = None"
    "sv_get_ok (xe_store env) (object_key (fl_segid loc))"
  shows "read_extent (xe_store env) (ss_objects (xs_store x)) loc ino idx = Inr p"
  using assms read_extent_stored [of "xe_store env" _ loc ino idx p "ss_objects (xs_store x)"]
  by (auto simp: frame_in_def segment_bytes_def)

lemma read_extent_get_ok:
  assumes "read_extent env objs loc ino ext = Inr p"
  shows "sv_get_ok env (object_key (fl_segid loc))"
  using assms
  by (auto simp: read_extent_def read_run_def read_run_region_def get_range_def try_bind_Inr segment_result_def
      split: if_splits sum.splits option.splits)

lemma fetch_frame_reads:
  assumes inv: "xinv env m F x" and row: "m_extents m (ino, idx) = Some loc"
  shows "reads env m F (fetch_frame env ino idx loc)
    (\<lambda>r. (\<forall>p. r = Inr p \<longrightarrow> p = extent_of (F ino) idx) \<and> (healthy env \<longrightarrow> r \<in> range Inr)) x"
proof -
  let ?p = "extent_of (F ino) idx"
  note fr = xinv_row(1) [OF inv row]
  have keep: "xinv env m F (decoded_insert ino idx loc ?p x)" "only_caches x (decoded_insert ino idx loc ?p x)"
    using xinv_decoded_insert [OF inv fr] by simp_all
  show ?thesis
  proof (cases "ram_bytes x (fl_segid loc)")
    case (Some buf)
    then show ?thesis
      using keep by (simp add: reads_def fetch_frame_def holds_bind read_one_in_ram [OF fr] validate_extent_frame_def check_def)
  next
    case None
    show ?thesis
    proof (cases "read_extent (xe_store env) (ss_objects (xs_store x)) loc ino idx")
      case (Inl e)
      then have "\<not> healthy env"
        using read_one_on_store [OF fr None] by (auto simp: healthy_def)
      then show ?thesis
        using inv by (simp add: reads_def fetch_frame_def holds_bind read_one_in_ram [OF fr] None Inl)
    next
      case (Inr p)
      then have "p = ?p"
        using read_one_on_store [OF fr None read_extent_get_ok [OF Inr]] by simp
      then show ?thesis
        using keep Inr by (simp add: reads_def fetch_frame_def holds_bind read_one_in_ram [OF fr] None
            validate_extent_frame_def check_def)
    qed
  qed
qed

lemma fetch_retry_reads:
  assumes inv: "xinv env m F x" and row: "m_extents m (ino, idx) = Some loc"
  shows "reads env m F (sbind (fetch_frame env ino idx loc) (\<lambda>r. case r of
      Inr d \<Rightarrow> sret (Some d)
    | Inl _ \<Rightarrow> sbind (slift (reresolve env m ino idx)) (\<lambda>again. case again of
        None \<Rightarrow> sret None
      | Some new_loc \<Rightarrow>
          if fl_segid new_loc \<noteq> fl_segid loc then
            sbind (fetch_frame env ino idx new_loc) (\<lambda>r. case r of Inr d \<Rightarrow> sret (Some d) | Inl _ \<Rightarrow> sfail IoError)
          else sfail IoError))) (\<lambda>d. d = Some (extent_of (F ino) idx)) x"
proof (rule reads_bind [OF fetch_frame_reads [OF inv row]], goal_cases)
  case (1 r x3)
  then show ?case
    by (cases r) (auto simp: reads_def holds_bind reresolve_def row split: option.split sum.split)
qed

lemma extent_get_reads:
  assumes inv: "xinv env m F x"
  shows "reads env m F (extent_get env m ino idx)
    (\<lambda>d. d = (if m_extents m (ino, idx) = None then None else Some (extent_of (F ino) idx))) x"
  unfolding extent_get_def
proof (rule reads_bind [OF locate_reads [OF inv]], goal_cases)
  case (1 l x1)
  show ?case
  proof (cases "m_extents m (ino, idx)")
    case None
    then show ?thesis
      using 1 by (simp add: location_of_def)
  next
    case (Some loc)
    have known: "reads env m F (sread (\<lambda>x. Inr (xs_decoded x (ino, idx, loc)))) (\<lambda>c. c = xs_decoded x1 (ino, idx, loc)) x1"
      by (rule reads_sread) (use 1 in auto)
    have hit: "d = extent_of (F ino) idx" if "xs_decoded x1 (ino, idx, loc) = Some d" for d
      using xinv_decoded [OF 1(3) Some that] .
    show ?thesis
      unfolding 1(1) Some location_of_def option.case cached_location.case
      by (rule reads_bind [OF known], use hit fetch_retry_reads [OF _ Some] in \<open>simp split: option.split\<close>)
  qed
qed

lemma extent_or_zero_reads:
  assumes inv: "xinv env m F x"
  shows "reads env m F (sbind (extent_get env m ino idx) (\<lambda>d. sret (case d of Some d \<Rightarrow> d | None \<Rightarrow> ZERO_EXTENT)))
    (\<lambda>d. d = extent_of (F ino) idx) x"
  by (rule reads_bind [OF extent_get_reads [OF inv]])
    (use inv xinv_hole in \<open>auto split: option.split if_splits\<close>)

section \<open>Planning a range\<close>

fun piece_rows :: "piece \<Rightarrow> (u64 \<times> cached_location) list" where
  "piece_rows (HolePiece k) = [(k, Hole)]"
| "piece_rows (RunPiece run) = map (\<lambda>(k, l). (k, Frame l)) run"

lemma take_run_split:
  "take_run prev xs = (run, rest) \<Longrightarrow> xs = map (\<lambda>(k, l). (k, Frame l)) run @ rest \<and> adjacent (prev # map snd run)"
  by (induction prev xs arbitrary: run rule: take_run.induct) (auto split: if_splits prod.splits)

lemma plan_pieces_rows: "concat (map piece_rows (plan_pieces xs)) = xs"
proof (induction xs rule: plan_pieces.induct)
  case (3 k loc xs)
  then show ?case
    using take_run_split [of loc xs "fst (take_run loc xs)" "snd (take_run loc xs)"] by simp
qed auto

lemma plan_pieces_runs: "RunPiece run \<in> set (plan_pieces xs) \<Longrightarrow> run \<noteq> [] \<and> adjacent (map snd run)"
proof (induction xs rule: plan_pieces.induct)
  case (3 k loc xs)
  then show ?case
    using take_run_split [of loc xs "fst (take_run loc xs)" "snd (take_run loc xs)"] by auto
qed auto

definition rows_of :: "meta \<Rightarrow> inode_id \<Rightarrow> u64 list \<Rightarrow> (u64 \<times> cached_location) list" where
  "rows_of m ino idxs = map (\<lambda>i. (i, location_of (m_extents m (ino, i)))) idxs"

definition run_ok :: "meta \<Rightarrow> inode_id \<Rightarrow> (u64 \<times> frame_loc) list \<Rightarrow> bool" where
  "run_ok m ino run \<longleftrightarrow>
     run \<noteq> [] \<and> adjacent (map snd run) \<and> (\<forall>(k, l) \<in> set run. m_extents m (ino, k) = Some l)
     \<and> run_bytes (map snd run) < 2 ^ 32"

fun piece_ok :: "meta \<Rightarrow> inode_id \<Rightarrow> piece \<Rightarrow> bool" where
  "piece_ok m ino (HolePiece k) = (m_extents m (ino, k) = None)"
| "piece_ok m ino (RunPiece run) = run_ok m ino run"

lemma run_bytes_bound: "\<forall>l \<in> set ls. unat (fl_byte_len l) \<le> 65536 \<Longrightarrow> run_bytes ls \<le> length ls * 65536"
  by (induction ls) auto

lemma plan_pieces_ok:
  assumes inv: "xinv env m F x" and few: "length idxs < 65536" and p: "p \<in> set (plan_pieces (rows_of m ino idxs))"
  shows "piece_ok m ino p"
proof -
  have rows: "set (piece_rows p) \<subseteq> set (rows_of m ino idxs)"
    using p arg_cong [OF plan_pieces_rows [of "rows_of m ino idxs"], of set] by auto
  have len: "length (piece_rows p) \<le> length idxs"
  proof -
    have "length (piece_rows p) \<le> length (concat (map piece_rows (plan_pieces (rows_of m ino idxs))))"
      using split_list [OF p] by auto
    then show ?thesis
      by (simp add: plan_pieces_rows rows_of_def)
  qed
  show ?thesis
  proof (cases p)
    case (HolePiece k)
    then show ?thesis
      using rows by (auto simp: rows_of_def location_of_def split: option.splits)
  next
    case (RunPiece run)
    have row: "m_extents m (ino, k) = Some l" if "(k, l) \<in> set run" for k l
    proof -
      have "(k, Frame l) \<in> set (rows_of m ino idxs)"
        using rows that by (force simp: RunPiece)
      then show ?thesis
        by (auto simp: rows_of_def location_of_def split: option.splits)
    qed
    have "run_bytes (map snd run) \<le> length (map snd run) * 65536"
      by (rule run_bytes_bound) (use xinv_row(2) [OF inv row] in auto)
    also have "\<dots> < 2 ^ 32"
      using few len by (simp add: RunPiece)
    finally show ?thesis
      using plan_pieces_runs [of run] p row by (auto simp: RunPiece run_ok_def)
  qed
qed

section \<open>Fetching runs\<close>

definition run_frames :: "contents \<Rightarrow> inode_id \<Rightarrow> (u64 \<times> frame_loc) list \<Rightarrow> bytes list" where
  "run_frames F ino run = map (\<lambda>(k, _). extent_of (F ino) k) run"

lemma adjacent_segid: "adjacent ls \<Longrightarrow> l \<in> set ls \<Longrightarrow> fl_segid l = fl_segid (hd ls)"
proof (induction ls rule: adjacent.induct)
  case (1 a b ls)
  show ?case
  proof (cases "l = a")
    case False
    then have "fl_segid l = fl_segid b"
      using "1.IH" "1.prems" by simp
    moreover have "fl_segid b = fl_segid a"
      using "1.prems"(1) by (simp add: follows_def)
    ultimately show ?thesis
      by simp
  qed simp
qed auto

lemma run_stored:
  assumes inv: "xinv env m F x" and run: "run_ok m ino run"
  obtains buf where "segment_bytes x (fl_segid (snd (hd run))) = Some buf"
    "\<forall>(k, l) \<in> set run. stored_frame (xe_data env) buf l ino k (extent_of (F ino) k)"
proof -
  have fr: "frame_in (xe_data env) x l ino k (extent_of (F ino) k)" "fl_segid l = fl_segid (snd (hd run))"
    if "(k, l) \<in> set run" for k l
  proof -
    have row: "m_extents m (ino, k) = Some l" "l \<in> set (map snd run)" "run \<noteq> []"
      using that run by (force simp: run_ok_def)+
    show "frame_in (xe_data env) x l ino k (extent_of (F ino) k)"
      by (rule xinv_row(1) [OF inv row(1)])
    show "fl_segid l = fl_segid (snd (hd run))"
      using adjacent_segid [OF _ row(2)] run row(3) by (simp add: run_ok_def hd_map)
  qed
  have "hd run \<in> set run"
    using run by (simp add: run_ok_def)
  then obtain buf where buf: "segment_bytes x (fl_segid (snd (hd run))) = Some buf"
    using fr [of "fst (hd run)" "snd (hd run)"] by (auto simp: frame_in_def)
  have "stored_frame (xe_data env) buf l ino k (extent_of (F ino) k)" if "(k, l) \<in> set run" for k l
    using fr [OF that] buf by (simp add: frame_in_def)
  then show ?thesis
    using that buf by blast
qed

lemma run_region_reads:
  assumes run: "run_ok m ino run"
    and st: "\<forall>(k, l) \<in> set run. stored_frame d buf l ino k (extent_of (F ino) k)"
  shows "unat (fl_byte_offset (snd (hd run))) + unat (run_total run) \<le> length buf" "0 < unat (run_total run)"
    "length buf < 2 ^ 64"
    "read_frames_from_region d
       (slice (unat (fl_byte_offset (snd (hd run)))) (unat (fl_byte_offset (snd (hd run))) + unat (run_total run)) buf)
       (fl_segid (snd (hd run))) (fl_frame_index (snd (hd run))) (run_slots ino run) = Inr (run_frames F ino run)"
proof -
  obtain k l rest where r: "run = (k, l) # rest"
    using run by (cases run) (auto simp: run_ok_def)
  let ?xs = "map (\<lambda>(k, l). (l, (ino, k), extent_of (F ino) k)) rest"
  have total: "unat (run_total run) = run_bytes (map snd run)"
    using run by (simp add: run_total_def run_ok_def unat_u32_of_nat)
  have locs: "map fst ?xs = map snd rest"
    by (simp add: comp_def case_prod_unfold)
  have parts: "map (\<lambda>x. fst (snd x)) ?xs = map (\<lambda>(k, _). (ino, k)) rest"
    "map (\<lambda>x. snd (snd x)) ?xs = map (\<lambda>(k, _). extent_of (F ino) k) rest"
    by (simp_all add: comp_def case_prod_unfold)
  have adj: "adjacent (l # map fst ?xs)"
    unfolding locs using run by (simp add: r run_ok_def)
  have all: "\<forall>(l, (ino, ext), q) \<in> set ((l, (ino, k), extent_of (F ino) k) # ?xs). stored_frame d buf l ino ext q"
    using st by (auto simp: r)
  show "unat (fl_byte_offset (snd (hd run))) + unat (run_total run) \<le> length buf"
    using run_read(1) [OF adj all] by (simp only: locs total) (simp add: r)
  have "stored_frame d buf l ino k (extent_of (F ino) k)"
    using st by (simp add: r)
  then have "length buf < 2 ^ 64" "0 < unat (fl_byte_len l)"
    by (auto simp: stored_frame_def)
  then show "length buf < 2 ^ 64" "0 < unat (run_total run)"
    using total by (simp_all add: r)
  show "read_frames_from_region d
       (slice (unat (fl_byte_offset (snd (hd run)))) (unat (fl_byte_offset (snd (hd run))) + unat (run_total run)) buf)
       (fl_segid (snd (hd run))) (fl_frame_index (snd (hd run))) (run_slots ino run) = Inr (run_frames F ino run)"
    using run_read(2) [OF adj all] unfolding locs parts total by (simp add: r run_slots_def run_frames_def)
qed

end
