(* ===== verification/Extent_Range.thy ===== *)
theory Extent_Range
  imports Extent_Read
begin

text \<open>
  Reading a range of a file: the rows are looked up together, adjacent frames are fetched in one
  request, and the pieces are cut to the range. The result is the file's bytes.
\<close>

section \<open>Locating and fetching\<close>

lemma fold_locs:
  "fold (\<lambda>(i, l) c. if old (ino, i) = None then c((ino, i) \<mapsto> l) else c) (zip is (map g is)) c k = Some l \<Longrightarrow>
   c k = Some l \<or> (\<exists>i \<in> set is. k = (ino, i) \<and> l = g i)"
proof (induction "is" arbitrary: c)
  case (Cons i "is")
  then show ?case
    by (fastforce split: if_splits)
qed simp

lemma locate_all_reads:
  assumes inv: "xinv env m F x"
  shows "reads env m F (locate_all env m ino idxs) (\<lambda>ls. ls = map (\<lambda>i. location_of (m_extents m (ino, i))) idxs) x"
  unfolding locate_all_def
proof (rule reads_bind [where P = "\<lambda>_. True"], rule reads_slift)
  fix x1
  assume x1: "only_caches x x1" "xinv env m F x1"
  let ?g = "\<lambda>i. location_of (m_extents m (ino, i))"
  have known: "map (\<lambda>i. the (xs_locs x1 (ino, i))) idxs = map ?g idxs" if "\<forall>i \<in> set idxs. xs_locs x1 (ino, i) \<noteq> None"
    using that x1(2) by (fastforce simp: xinv_def)
  let ?x = "x1\<lparr>xs_locs := fold (\<lambda>(i, l) c. if xs_locs x1 (ino, i) = None then c((ino, i) \<mapsto> l) else c)
                        (zip idxs (map ?g idxs)) (xs_locs x1)\<rparr>"
  have "xinv env m F ?x"
    by (rule xinv_caches [OF x1(2)]) (auto simp: only_caches_def dest: fold_locs)
  then show "reads env m F (\<lambda>x. if (\<forall>i \<in> set idxs. xs_locs x (ino, i) \<noteq> None)
       then (Inr (map (\<lambda>i. the (xs_locs x (ino, i))) idxs), x)
       else if \<not> xe_scan_ok env then (Inl IoError, x)
       else let loaded = map ?g idxs in (Inr loaded,
          x\<lparr>xs_locs := fold (\<lambda>(i, l) c. if xs_locs x (ino, i) = None then c((ino, i) \<mapsto> l) else c)
                        (zip idxs loaded) (xs_locs x)\<rparr>)) (\<lambda>ls. ls = map ?g idxs) x1"
    using x1(2) known unfolding reads_def holds_def
    by (cases "\<forall>i \<in> set idxs. xs_locs x1 (ino, i) \<noteq> None") (simp_all add: only_caches_def healthy_def Let_def)
qed (use inv in auto)

lemma run_in_ram:
  assumes inv: "xinv env m F x" and run: "run_ok m ino run"
  shows "read_frames_in_ram env x (fl_segid (snd (hd run))) (fl_byte_offset (snd (hd run))) (run_total run)
      (fl_frame_index (snd (hd run))) (run_slots ino run)
    = Inr (case ram_bytes x (fl_segid (snd (hd run))) of None \<Rightarrow> None | Some _ \<Rightarrow> Some (run_frames F ino run))"
proof (cases "ram_bytes x (fl_segid (snd (hd run)))")
  case (Some buf)
  obtain buf' where buf': "segment_bytes x (fl_segid (snd (hd run))) = Some buf'"
    "\<forall>(k, l) \<in> set run. stored_frame (xe_data env) buf' l ino k (extent_of (F ino) k)"
    using inv run by (rule run_stored)
  have "buf' = buf"
    using buf'(1) Some by (simp add: segment_bytes_def)
  then show ?thesis
    using run_region_reads [where F = F, OF run buf'(2)] Some
    by (simp add: read_frames_in_ram_def frame_bounds_def or_io_def)
qed (simp add: read_frames_in_ram_def)

lemma run_on_store:
  assumes inv: "xinv env m F x" and run: "run_ok m ino run"
    and none: "ram_bytes x (fl_segid (snd (hd run))) = None"
    and ok: "sv_get_ok (xe_store env) (object_key (fl_segid (snd (hd run))))"
  shows "read_run (xe_store env) (ss_objects (xs_store x)) (fl_segid (snd (hd run))) (fl_byte_offset (snd (hd run)))
      (run_total run) (fl_frame_index (snd (hd run))) (run_slots ino run) = Inr (run_frames F ino run)"
proof -
  obtain buf where buf: "segment_bytes x (fl_segid (snd (hd run))) = Some buf"
    "\<forall>(k, l) \<in> set run. stored_frame (xe_data env) buf l ino k (extent_of (F ino) k)"
    using inv run by (rule run_stored)
  have obj: "ss_objects (xs_store x) (object_key (fl_segid (snd (hd run)))) = Some buf"
    using buf(1) none by (simp add: segment_bytes_def)
  note region = run_region_reads [where F = F, OF run buf(2)]
  show ?thesis
    using region get_range_slice [where objs = "ss_objects (xs_store x)", OF ok obj region(3,1,2)]
    by (simp add: read_run_def read_run_region_def segment_result_def)
qed

lemma read_run_get_ok:
  assumes "read_run env objs s off n first slots = Inr ps"
  shows "sv_get_ok env (object_key s)"
  using assms
  by (auto simp: read_run_def read_run_region_def get_range_def try_bind_Inr segment_result_def
      split: if_splits sum.splits option.splits)

lemma fetch_on_store_run_reads:
  assumes inv: "xinv env m F x" and run: "run_ok m ino run"
    and none: "ram_bytes x (fl_segid (snd (hd run))) = None"
  shows "reads env m F (fetch_on_store_run env m ino run) (\<lambda>fs. fs = run_frames F ino run) x"
proof (cases "read_run (xe_store env) (ss_objects (xs_store x)) (fl_segid (snd (hd run))) (fl_byte_offset (snd (hd run)))
      (run_total run) (fl_frame_index (snd (hd run))) (run_slots ino run)")
  case (Inr fs)
  then have "fs = run_frames F ino run"
    using run_on_store [OF inv run none read_run_get_ok [OF Inr]] by simp
  then show ?thesis
    using inv Inr by (simp add: fetch_on_store_run_def Let_def reads_def)
next
  case (Inl e)
  have "reads env m F (smap (\<lambda>p. case p of (k, _) \<Rightarrow> sbind (extent_get env m ino k) (\<lambda>d.
              sret (case d of Some d \<Rightarrow> d | None \<Rightarrow> ZERO_EXTENT))) run)
      (\<lambda>fs. fs = map (\<lambda>(k, _). extent_of (F ino) k) run) x"
    by (rule reads_smap [OF inv]) (auto intro: extent_or_zero_reads)
  then show ?thesis
    using Inl by (simp add: fetch_on_store_run_def Let_def reads_def run_frames_def)
qed

text \<open>The frames of a piece, and a piece planned as the code plans it.\<close>

fun piece_frames :: "contents \<Rightarrow> inode_id \<Rightarrow> piece \<Rightarrow> bytes list" where
  "piece_frames F ino (HolePiece k) = [ZERO_EXTENT]"
| "piece_frames F ino (RunPiece run) = run_frames F ino run"

fun planned_ok :: "contents \<Rightarrow> inode_id \<Rightarrow> xstore \<Rightarrow> piece \<times> planned \<Rightarrow> bool" where
  "planned_ok F ino x (p, Ready fs) = (fs = piece_frames F ino p)"
| "planned_ok F ino x (RunPiece run, OnStore) = (ram_bytes x (fl_segid (snd (hd run))) = None)"
| "planned_ok F ino x (HolePiece k, OnStore) = False"

lemma classify_ok:
  assumes inv: "xinv env m F x" and p: "piece_ok m ino p"
  shows "\<exists>pl. classify env x ino p = Inr (p, pl) \<and> planned_ok F ino x (p, pl)"
proof (cases p)
  case (RunPiece run)
  then have run: "run_ok m ino run"
    using p by simp
  have decoded: "map (\<lambda>(k, loc). the (xs_decoded x (ino, k, loc))) run = run_frames F ino run"
    if all: "\<forall>(k, loc) \<in> set run. xs_decoded x (ino, k, loc) \<noteq> None"
    unfolding run_frames_def
  proof (rule map_cong [OF refl], clarify)
    fix k l
    assume kl: "(k, l) \<in> set run"
    then obtain d where d: "xs_decoded x (ino, k, l) = Some d"
      using all by auto
    have "m_extents m (ino, k) = Some l"
      using run kl by (auto simp: run_ok_def)
    then show "the (xs_decoded x (ino, k, l)) = extent_of (F ino) k"
      using xinv_decoded [OF inv _ d] d by simp
  qed
  show ?thesis
    using decoded run_in_ram [OF inv run]
    by (auto simp: classify_def classify_run_def RunPiece split: option.split)
qed (simp add: classify_def)

lemma fetch_piece_reads:
  assumes inv: "xinv env m F x" and p: "piece_ok m ino p" and pl: "planned_ok F ino x (p, pl)"
  shows "reads env m F (fetch_piece env m ino (p, pl)) (\<lambda>r. r = (p, piece_frames F ino p)) x"
proof (cases pl)
  case OnStore
  then obtain run where run: "p = RunPiece run" "run_ok m ino run" "ram_bytes x (fl_segid (snd (hd run))) = None"
    using p pl by (cases p) auto
  show ?thesis
    unfolding fetch_piece_def run OnStore prod.case planned.case piece.case
    by (rule reads_bind [OF fetch_on_store_run_reads [OF inv run(2,3)]]) simp
qed (use inv pl in \<open>cases p; simp add: fetch_piece_def\<close>)

lemma ram_bytes_caches: "only_caches x x' \<Longrightarrow> ram_bytes x' s = ram_bytes x s"
  by (simp add: only_caches_def ram_bytes_def cong: option.case_cong)

lemma planned_ok_caches: "only_caches x x' \<Longrightarrow> planned_ok F ino x' pp = planned_ok F ino x pp"
  by (cases "(F, ino, x, pp)" rule: planned_ok.cases) (auto simp: ram_bytes_caches)

section \<open>Cutting the pieces\<close>

fun piece_idxs :: "piece \<Rightarrow> u64 list" where
  "piece_idxs (HolePiece k) = [k]"
| "piece_idxs (RunPiece run) = map fst run"

lemma concat_piece_idxs: "concat (map piece_idxs (plan_pieces (rows_of m ino idxs))) = idxs"
proof -
  have rows: "piece_idxs p = map fst (piece_rows p)" for p
    by (cases p) (auto simp: comp_def case_prod_unfold)
  have "concat (map piece_idxs ps) = map fst (concat (map piece_rows ps))" for ps
    by (induction ps) (simp_all add: rows)
  then show ?thesis
    by (simp add: plan_pieces_rows rows_of_def comp_def)
qed

definition cuts :: "contents \<Rightarrow> inode_id \<Rightarrow> u64 \<Rightarrow> u64 \<Rightarrow> u64 list \<Rightarrow> bytes" where
  "cuts F ino offset stop idxs = concat (map (\<lambda>k. cut offset stop k (extent_of (F ino) k)) idxs)"

lemma emit_piece_reads:
  assumes inv: "xinv env m F x" and p: "piece_ok m ino p"
  shows "reads env m F (emit_piece ino offset stop (p, piece_frames F ino p))
    (\<lambda>b. b = cuts F ino offset stop (piece_idxs p)) x"
proof (cases p)
  case (HolePiece k)
  then show ?thesis
    using inv p xinv_hole [OF inv] by (simp add: emit_piece_def cuts_def)
next
  case (RunPiece run)
  let ?zs = "zip run (run_frames F ino run)"
  let ?f = "\<lambda>((k, loc), d). sbind (slift (validate_extent_frame d)) (\<lambda>_.
              sbind (smodify (decoded_insert ino k loc d)) (\<lambda>_. sret (cut offset stop k d)))"
  have zs: "?zs = map (\<lambda>(k, l). ((k, l), extent_of (F ino) k)) run"
    by (simp add: run_frames_def zip_map2 case_prod_unfold zip_same_conv_map comp_def)
  let ?g = "\<lambda>((k, loc :: frame_loc), d). cut offset stop k d"
  have parts: "reads env m F (smap ?f ?zs) (\<lambda>vs. vs = map ?g ?zs) x"
  proof (rule reads_smap [OF inv])
    fix z x1
    assume z: "z \<in> set ?zs" and x1: "xinv env m F x1"
    obtain k l where kl: "z = ((k, l), extent_of (F ino) k)" "(k, l) \<in> set run"
      using z unfolding zs by auto
    then have "m_extents m (ino, k) = Some l"
      using p by (auto simp: RunPiece run_ok_def)
    then show "reads env m F (?f z) (\<lambda>v. v = ?g z) x1"
      using xinv_decoded_insert [OF x1 xinv_row(1) [OF x1]]
      by (simp add: kl reads_def validate_extent_frame_def check_def holds_bind)
  qed
  show ?thesis
    unfolding emit_piece_def RunPiece prod.case piece.case piece_frames.simps
    by (rule reads_bind [OF parts]) (simp add: cuts_def zs comp_def case_prod_unfold)
qed

section \<open>The bytes of a range\<close>

lemma windows_concat:
  fixes f :: "nat \<Rightarrow> u8"
  assumes "o1 div 32768 \<le> c"
  shows "concat (map (\<lambda>k. map f [max o1 (k * 32768)..<min e (k * 32768 + 32768)]) [o1 div 32768..<c])
    = map f [o1..<min e (c * 32768)]"
  using assms
proof (induction c rule: dec_induct)
  case base
  have "o1 div 32768 * 32768 \<le> o1"
    by simp
  then have "min e (o1 div 32768 * 32768) \<le> o1"
    by linarith
  then show ?case
    by simp
next
  case (step c)
  have "map f [o1..<min e (c * 32768)] @ map f [max o1 (c * 32768)..<min e (c * 32768 + 32768)]
      = map f [o1..<min e (c * 32768 + 32768)]"
  proof (cases "o1 \<le> c * 32768 \<and> c * 32768 < e")
    case True
    then show ?thesis
      using upt_add_eq_append [of o1 "c * 32768" "min e (c * 32768 + 32768) - c * 32768"]
      by (simp add: max_def min_def flip: map_append)
  next
    case False
    then have "[o1..<min e (c * 32768)] = [] \<and> max o1 (c * 32768) = o1
        \<or> min e (c * 32768) = e \<and> min e (c * 32768 + 32768) = e \<and> [max o1 (c * 32768)..<e] = []"
      by auto
    then show ?thesis
      by auto
  qed
  then show ?case
    using step by (simp add: add.commute)
qed

lemma unat_extent_index [simp]: "unat (w div EXTENT_SIZE) = unat w div 32768" "unat (w mod EXTENT_SIZE) = unat w mod 32768"
  by (simp_all add: unat_div unat_mod)

lemma cut_window:
  assumes stop: "unat stop = e" "0 < e" and k: "unat offset div 32768 \<le> k" "k \<le> (e - 1) div 32768" "k < 2 ^ 64"
  shows "cut offset stop (word_of_nat k) (extent_of f (word_of_nat k))
    = map f [max (unat offset) (k * 32768)..<min e (k * 32768 + 32768)]"
proof -
  let ?o = "unat offset"
  have w: "unat (word_of_nat k :: u64) = k"
    using k(3) by (rule unat_u64_of_nat)
  have pred: "unat (stop - 1) = e - 1"
    using stop by (simp add: unat_sub_if' word_le_nat_alt)
  have eqs: "(word_of_nat k :: u64) = offset div EXTENT_SIZE \<longleftrightarrow> k = ?o div 32768"
    "(word_of_nat k :: u64) = (stop - 1) div EXTENT_SIZE \<longleftrightarrow> k = (e - 1) div 32768"
    using w by (auto simp: word_unat_eq_iff pred)
  define a where "a = (if k = ?o div 32768 then ?o mod 32768 else 0)"
  define b where "b = (if k = (e - 1) div 32768 then (e - 1) mod 32768 + 1 else 32768)"
  have bounds: "slice_bounds offset stop (word_of_nat k) = (a, b)"
    by (simp add: slice_bounds_def eqs pred a_def b_def)
  have a: "k * 32768 + a = max ?o (k * 32768)"
  proof (cases "k = ?o div 32768")
    case False
    then have "?o < k * 32768"
      using k(1) by (simp add: div_less_iff_less_mult)
    then show ?thesis
      using False by (simp add: a_def)
  qed (simp add: a_def)
  have b: "k * 32768 + b = min e (k * 32768 + 32768)" "b \<le> 32768"
  proof -
    have "k * 32768 + 32768 \<le> e" if "k \<noteq> (e - 1) div 32768"
    proof -
      have "Suc k \<le> (e - 1) div 32768"
        using that k(2) by simp
      then show ?thesis
        using stop(2) by (simp add: less_eq_div_iff_mult_less_eq)
    qed
    moreover have "k * 32768 + ((e - 1) mod 32768 + 1) = e" if "k = (e - 1) div 32768"
      using stop(2) that by (simp add: Suc_leI)
    moreover have "(e - 1) mod 32768 < 32768"
      by simp
    ultimately show "k * 32768 + b = min e (k * 32768 + 32768)" "b \<le> 32768"
      by (auto simp: b_def)
  qed
  show ?thesis
  proof (cases "a \<le> b")
    case True
    then show ?thesis
      using slice_extent_of [OF True b(2), of f "word_of_nat k"] by (simp add: cut_def bounds w a b)
  next
    case False
    then show ?thesis
      using a b by (auto simp: cut_def bounds slice_def)
  qed
qed

lemma cuts_range:
  assumes "len \<noteq> 0" "unat offset + unat len < 2 ^ 64"
  shows "cuts F ino offset (offset + len) (extent_indices (offset div EXTENT_SIZE) ((offset + len - 1) div EXTENT_SIZE))
    = map (F ino) [unat offset..<unat offset + unat len]"
proof -
  let ?o = "unat offset" and ?e = "unat offset + unat len"
  have e: "unat (offset + len) = ?e" "0 < ?e"
    using assms by (simp_all add: unat_word_ariths unat_gt_0)
  have pred: "unat (offset + len - 1) = ?e - 1"
    using e by (simp add: unat_sub_if' word_le_nat_alt Suc_le_eq)
  have "cuts F ino offset (offset + len) (extent_indices (offset div EXTENT_SIZE) ((offset + len - 1) div EXTENT_SIZE))
      = concat (map (\<lambda>k. cut offset (offset + len) (word_of_nat k) (extent_of (F ino) (word_of_nat k)))
          [?o div 32768..<Suc ((?e - 1) div 32768)])"
    by (simp add: cuts_def extent_indices_def pred comp_def)
  also have "\<dots> = concat (map (\<lambda>k. map (F ino) [max ?o (k * 32768)..<min ?e (k * 32768 + 32768)])
          [?o div 32768..<Suc ((?e - 1) div 32768)])"
    by (intro arg_cong [where f = concat] map_cong refl cut_window) (use e assms in auto)
  also have "\<dots> = map (F ino) [?o..<min ?e (Suc ((?e - 1) div 32768) * 32768)]"
    by (rule windows_concat) (use assms in \<open>auto intro!: le_SucI div_le_mono simp: unat_gt_0\<close>)
  also have "min ?e (Suc ((?e - 1) div 32768) * 32768) = ?e"
    using dividend_less_div_times [of 32768 "?e - 1"] by (simp add: min_def)
  finally show ?thesis .
qed

lemma read_pieces_reads:
  assumes inv: "xinv env m F x" and few: "length idxs < 65536"
    and locs: "locations = map (\<lambda>i. location_of (m_extents m (ino, i))) idxs"
  shows "reads env m F
      (sbind (sread (\<lambda>x. try_map (classify env x ino) (plan_pieces (zip idxs locations)))) (\<lambda>planned.
       sbind (smap (fetch_piece env m ino) planned) (\<lambda>fetched.
       sbind (smap (emit_piece ino offset stop) fetched) (\<lambda>parts. sret (concat parts)))))
      (\<lambda>b. b = cuts F ino offset stop idxs) x"
proof -
  let ?ps = "plan_pieces (rows_of m ino idxs)"
  have rows: "zip idxs locations = rows_of m ino idxs"
    by (simp add: locs rows_of_def zip_map2 zip_same_conv_map)
  have ok: "piece_ok m ino p" if "p \<in> set ?ps" for p
    using plan_pieces_ok [OF inv few that] .
  define pl where "pl = (\<lambda>p. SOME pl. classify env x ino p = Inr (p, pl) \<and> planned_ok F ino x (p, pl))"
  have pl: "classify env x ino p = Inr (p, pl p)" "planned_ok F ino x (p, pl p)" if "p \<in> set ?ps" for p
    using someI_ex [OF classify_ok [OF inv ok [OF that]]] by (simp_all add: pl_def)
  have planned: "reads env m F (sread (\<lambda>x. try_map (classify env x ino) (plan_pieces (zip idxs locations))))
      (\<lambda>zs. zs = map (\<lambda>p. (p, pl p)) ?ps) x"
    by (rule reads_sread [OF inv]) (simp_all add: rows try_map_all [where g = "\<lambda>p. (p, pl p)"] pl)
  have later: "planned_ok F ino x2 (p, pl p)" if "only_caches x x2" "p \<in> set ?ps" for x2 p
    using planned_ok_caches [OF that(1)] pl(2) [OF that(2)] by simp
  have fetched: "reads env m F (smap (fetch_piece env m ino) (map (\<lambda>p. (p, pl p)) ?ps))
      (\<lambda>zs. zs = map (\<lambda>pp. (fst pp, piece_frames F ino (fst pp))) (map (\<lambda>p. (p, pl p)) ?ps)) x1"
    if x1: "only_caches x x1" "xinv env m F x1" for x1
    by (rule reads_smap [OF x1(2)])
      (use ok later only_caches_trans [OF x1(1)] in \<open>auto intro!: fetch_piece_reads\<close>)
  have emitted: "reads env m F (smap (emit_piece ino offset stop) (map (\<lambda>p. (p, piece_frames F ino p)) ?ps))
      (\<lambda>zs. zs = map (\<lambda>pf. cuts F ino offset stop (piece_idxs (fst pf))) (map (\<lambda>p. (p, piece_frames F ino p)) ?ps)) x1"
    if x1: "xinv env m F x1" for x1
    by (rule reads_smap [OF x1]) (use ok in \<open>auto intro!: emit_piece_reads\<close>)
  have "concat (map (\<lambda>p. cuts F ino offset stop (piece_idxs p)) ps) = cuts F ino offset stop (concat (map piece_idxs ps))" for ps
    by (induction ps) (simp_all add: cuts_def)
  then have all: "concat (map (\<lambda>p. cuts F ino offset stop (piece_idxs p)) ?ps) = cuts F ino offset stop idxs"
    by (simp add: concat_piece_idxs)
  show ?thesis
    by (rule reads_bind [OF planned], simp, rule reads_bind [OF fetched], assumption, assumption, simp add: comp_def,
        rule reads_bind [OF emitted], assumption) (simp add: comp_def all)
qed

lemma read_range_reads:
  assumes inv: "xinv env m F x" and fits: "unat offset + unat len < 2 ^ 64" and few: "unat len \<le> 2 ^ 30"
  shows "reads env m F (read_range env m ino offset len)
    (\<lambda>b. b = map (F ino) [unat offset..<unat offset + unat len]) x"
proof (cases "len = 0")
  case True
  then show ?thesis
    using inv by (simp add: read_range_def)
next
  case False
  let ?s = "offset div EXTENT_SIZE" and ?t = "(offset + len - 1) div EXTENT_SIZE"
  have e: "unat (offset + len - 1) = unat offset + unat len - 1"
    using fits False by (simp add: unat_sub_if' unat_word_ariths word_le_nat_alt unat_gt_0 Suc_le_eq)
  show ?thesis
  proof (cases "?s = ?t")
    case True
    then have "unat offset div 32768 = (unat offset + unat len - 1) div 32768"
      by (metis e unat_extent_index(1))
    then have "unat offset + unat len - 1 < unat offset div 32768 * 32768 + 32768"
      using dividend_less_div_times [of 32768 "unat offset + unat len - 1"] by simp
    then have b: "unat offset mod 32768 + unat len \<le> 32768"
      using div_mult_mod_eq [of "unat offset" 32768] by linarith
    have bytes: "slice (unat offset mod 32768) (unat offset mod 32768 + unat len) (extent_of (F ino) ?s)
        = map (F ino) [unat offset..<unat offset + unat len]"
      using b by (simp add: slice_extent_of add.assoc [symmetric])
    have "reads env m F (sbind (extent_get env m ino ?s) (\<lambda>d. sret (slice (unat offset mod 32768)
        (unat offset mod 32768 + unat len) (case d of Some d \<Rightarrow> d | None \<Rightarrow> ZERO_EXTENT))))
        (\<lambda>b. b = map (F ino) [unat offset..<unat offset + unat len]) x"
      by (rule reads_bind [OF extent_get_reads [OF inv]])
        (use bytes xinv_hole [OF inv, of ino ?s] in \<open>auto split: if_splits\<close>)
    then show ?thesis
      using \<open>len \<noteq> 0\<close> True by (simp add: read_range_def Let_def)
  next
    case ne: False
    have few': "length (extent_indices ?s ?t) < 65536"
      using few by (auto simp: extent_indices_def e)
    have "reads env m F (sbind (locate_all env m ino (extent_indices ?s ?t)) (\<lambda>locations.
       sbind (sread (\<lambda>x. try_map (classify env x ino) (plan_pieces (zip (extent_indices ?s ?t) locations)))) (\<lambda>planned.
       sbind (smap (fetch_piece env m ino) planned) (\<lambda>fetched.
       sbind (smap (emit_piece ino offset (offset + len)) fetched) (\<lambda>parts. sret (concat parts))))))
       (\<lambda>b. b = cuts F ino offset (offset + len) (extent_indices ?s ?t)) x"
      by (rule reads_bind [OF locate_all_reads [OF inv]], rule read_pieces_reads [OF _ few'])
    then show ?thesis
      using False ne cuts_range [OF False fits] by (simp add: read_range_def Let_def)
  qed
qed

end
