(* ===== verification/Extent_Edit.thy ===== *)
theory Extent_Edit
  imports Extent_Range
begin

text \<open>
  Staging edits of a file: the new frames are appended to a lane and the rows that name them are put
  into the transaction. \<open>pending\<close> says which contents the transaction will give the file system when
  it commits; until then the old contents stay readable, and a failure changes nothing.
\<close>

section \<open>Staged rows\<close>

definition staged_rows :: "meta \<Rightarrow> txn \<Rightarrow> inode_id \<times> u64 \<Rightarrow> frame_loc option" where
  "staged_rows m t = m_extents (apply_ops (tx_ops t) m)"

definition staged_locs :: "txn \<Rightarrow> (inode_id \<times> u64) \<rightharpoonup> frame_loc option" where
  "staged_locs t = fold (\<lambda>(k, v) c. c(k \<mapsto> v)) (tx_extent_updates t) Map.empty"

definition pending :: "data_env \<Rightarrow> meta \<Rightarrow> xstore \<Rightarrow> txn \<Rightarrow> contents \<Rightarrow> bool" where
  "pending d m x t G \<longleftrightarrow>
     row_holds d x (staged_rows m t) G
     \<and> (\<forall>k. staged_rows m t k = (case staged_locs t k of Some v \<Rightarrow> v | None \<Rightarrow> m_extents m k))"

lemma staged_rows_simps [simp]:
  "staged_rows m (put_op (PutExtent ino idx loc) t) = (staged_rows m t)((ino, idx) \<mapsto> loc)"
  "staged_rows m (put_op (DelExtent ino idx) t) = (staged_rows m t)((ino, idx) := None)"
  "staged_rows m (update_cached_extent_location ino idx v t) = staged_rows m t"
  "staged_rows m (seg_delta s a b t) = staged_rows m t"
  by (simp_all add: staged_rows_def put_op_def apply_ops_def update_cached_extent_location_def seg_delta_def
      add_seg_delta_def)

lemma staged_locs_simps [simp]:
  "staged_locs (update_cached_extent_location ino idx v t) = (staged_locs t)((ino, idx) \<mapsto> v)"
  "staged_locs (put_op p t) = staged_locs t"
  "staged_locs (seg_delta s a b t) = staged_locs t"
  by (simp_all add: staged_locs_def update_cached_extent_location_def put_op_def seg_delta_def add_seg_delta_def)

lemma pending_seg_delta [simp]: "pending d m x (seg_delta s a b t) G = pending d m x t G"
  by (simp add: pending_def)

lemma row_holds_set:
  assumes "row_holds d x rows G" "length p = 32768"
    "case v of None \<Rightarrow> p = ZERO_EXTENT | Some loc \<Rightarrow> frame_in d x loc ino idx p \<and> unat (fl_byte_len loc) \<le> 65536"
  shows "row_holds d x (rows((ino, idx) := v)) (G(ino := set_extent (G ino) idx p))"
  unfolding row_holds_def
proof (intro allI)
  fix i k
  have row: "case rows (i, k) of None \<Rightarrow> extent_of (G i) k = ZERO_EXTENT
      | Some loc \<Rightarrow> frame_in d x loc i k (extent_of (G i) k) \<and> unat (fl_byte_len loc) \<le> 65536"
    using assms(1) unfolding row_holds_def by blast
  have e: "extent_of ((G(ino := set_extent (G ino) idx p)) i) k
      = (if (i, k) = (ino, idx) then p else extent_of (G i) k)"
    by (simp add: extent_of_set_extent [OF assms(2)])
  show "case (rows((ino, idx) := v)) (i, k) of
      None \<Rightarrow> extent_of ((G(ino := set_extent (G ino) idx p)) i) k = ZERO_EXTENT
    | Some loc \<Rightarrow> frame_in d x loc i k (extent_of ((G(ino := set_extent (G ino) idx p)) i) k) \<and> unat (fl_byte_len loc) \<le> 65536"
    unfolding e using row assms(3) by (cases "(i, k) = (ino, idx)") (auto split: option.splits)
qed

lemma pending_put:
  assumes "pending d m x t G" "frame_in d x loc ino idx p" "unat (fl_byte_len loc) \<le> 65536" "length p = 32768"
  shows "pending d m x (update_cached_extent_location ino idx (Some loc) (put_op (PutExtent ino idx loc) t))
    (G(ino := set_extent (G ino) idx p))"
  using assms row_holds_set [where v = "Some loc" and rows = "staged_rows m t"] by (simp add: pending_def)

lemma pending_delete:
  assumes "pending d m x t G"
  shows "pending d m x (extent_delete ino idx t) (G(ino := set_extent (G ino) idx ZERO_EXTENT))"
  using assms row_holds_set [where v = None and p = ZERO_EXTENT and rows = "staged_rows m t"]
  by (simp add: pending_def extent_delete_def)

lemma pending_debits: "pending d m x (stage_debits debits t) G = pending d m x t G"
proof -
  have "pending d m x (fold (\<lambda>(s, len). seg_delta s (- uint len) 0) debits t) G = pending d m x t G"
  proof (induction debits arbitrary: t)
    case (Cons e debits)
    obtain s len where "e = (s, len)"
      by (cases e)
    then show ?case
      by (simp add: Cons.IH)
  qed simp
  then show ?thesis
    by (simp add: stage_debits_def)
qed

text \<open>The contents after a list of edits.\<close>

definition apply_edits :: "(nat \<Rightarrow> u8) \<Rightarrow> edit list \<Rightarrow> nat \<Rightarrow> u8" where
  "apply_edits f edits = fold (\<lambda>(idx, e) f. set_extent f idx (case e of Some d \<Rightarrow> d | None \<Rightarrow> ZERO_EXTENT)) edits f"

lemma apply_edits_None:
  "(G(ino := set_extent (G ino) idx ZERO_EXTENT))(ino := apply_edits ((G(ino := set_extent (G ino) idx ZERO_EXTENT)) ino) edits)
   = G(ino := apply_edits (G ino) ((idx, None) # edits))"
  by (simp add: apply_edits_def)

lemma apply_edits_Some:
  "(G(ino := set_extent (G ino) idx p))(ino := apply_edits ((G(ino := set_extent (G ino) idx p)) ino) edits)
   = G(ino := apply_edits (G ino) ((idx, Some p) # edits))"
  by (simp add: apply_edits_def)

definition frames_ready :: "data_env \<Rightarrow> xstore \<Rightarrow> inode_id \<Rightarrow> u64 list \<Rightarrow> frame_loc list \<Rightarrow> bytes list \<Rightarrow> bool" where
  "frames_ready d x ino idxs locs ps \<longleftrightarrow>
     length locs = length ps \<and> length idxs = length ps
     \<and> (\<forall>j < length ps. frame_in d x (locs ! j) ino (idxs ! j) (ps ! j) \<and> length (ps ! j) = 32768
          \<and> unat (fl_byte_len (locs ! j)) \<le> 65536)"

lemma frames_ready_Cons [simp]:
  "frames_ready d x ino (i # idxs) locs (p # ps) \<longleftrightarrow>
     (\<exists>l ls. locs = l # ls \<and> frame_in d x l ino i p \<and> length p = 32768 \<and> unat (fl_byte_len l) \<le> 65536
        \<and> frames_ready d x ino idxs ls ps)"
  by (cases locs) (auto simp: frames_ready_def All_less_Suc2)

lemma stage_rows_pending:
  assumes "pending d m x t G" "frames_ready d x ino (edit_frames edits) locs (edit_payloads edits)"
  shows "pending d m x (stage_rows ino edits locs t) (G(ino := apply_edits (G ino) edits))"
  using assms
proof (induction ino edits locs t arbitrary: G rule: stage_rows.induct)
  case (2 ino idx edits locs t)
  have "frames_ready d x ino (edit_frames edits) locs (edit_payloads edits)"
    using "2.prems"(2) by (simp add: edit_frames_def edit_payloads_def)
  from "2.IH" [OF pending_delete [OF "2.prems"(1), of ino idx] this] show ?case
    by (simp only: stage_rows.simps apply_edits_None)
next
  case (3 ino idx p edits loc locs t)
  have ready: "frames_ready d x ino (edit_frames edits) locs (edit_payloads edits)"
    "frame_in d x loc ino idx p" "unat (fl_byte_len loc) \<le> 65536" "length p = 32768"
    using "3.prems"(2) by (simp_all add: edit_frames_def edit_payloads_def)
  have "pending d m x (seg_delta (fl_segid loc) (uint (fl_byte_len loc)) (uint (fl_byte_len loc))
         (update_cached_extent_location ino idx (Some loc) (put_op (PutExtent ino idx loc) t)))
       (G(ino := set_extent (G ino) idx p))"
    using pending_put [OF "3.prems"(1) ready(2-4)] by simp
  from "3.IH" [OF this ready(1)] show ?case
    by (simp only: stage_rows.simps apply_edits_Some)
next
  case (4 ino idx p edits t)
  then show ?case
    by (simp add: edit_frames_def edit_payloads_def)
qed (simp add: apply_edits_def)

section \<open>Keeping the contents\<close>

text \<open>What the store relies on: the laws of the codec, and that a compressed extent never grows past
  64 KiB, so that a run of a bounded read stays below the 32-bit length of a request.\<close>

definition xenv_ok :: "xenv \<Rightarrow> bool" where
  "xenv_ok env \<longleftrightarrow>
     env_ok (xe_data env)
     \<and> (\<forall>p c. length p = 32768 \<longrightarrow> compress (dn_codec (xe_data env)) p = Inr c \<longrightarrow> sealed_len c + 4 \<le> 65536)"

lemma row_holds_grows:
  assumes "grows x x'" "row_holds d x rows F"
  shows "row_holds d x' rows F"
  unfolding row_holds_def
proof (intro allI)
  fix ino idx
  show "case rows (ino, idx) of None \<Rightarrow> extent_of (F ino) idx = ZERO_EXTENT
      | Some loc \<Rightarrow> frame_in d x' loc ino idx (extent_of (F ino) idx) \<and> unat (fl_byte_len loc) \<le> 65536"
    using assms(2) [unfolded row_holds_def, rule_format, of ino idx] frame_in_grows [OF assms(1)]
    by (cases "rows (ino, idx)") auto
qed

lemma pending_grows: "grows x x' \<Longrightarrow> pending d m x t G \<Longrightarrow> pending d m x' t G"
  using row_holds_grows by (auto simp: pending_def)

lemma xinv_grows:
  assumes "xinv env m F x" "grows x x'" "segids_ok x'" "same_caches x x'"
  shows "xinv env m F x'"
proof -
  have "frame_in (xe_data env) x' loc ino idx p \<and> length p = 32768" if "xs_decoded x' (ino, idx, loc) = Some p" for ino idx loc p
    using that assms(1,4) frame_in_grows [OF assms(2)] by (auto simp: xinv_def same_caches_def)
  then show ?thesis
    using assms(1,3,4) row_holds_grows [OF assms(2)] unfolding xinv_def same_caches_def by auto
qed

text \<open>The contract of an operation that stages edits: the committed contents stay readable, segments
  only grow, at most \<open>n\<close> segment identifiers are used, and the last-extent cache may lose entries.\<close>

definition stages :: "xenv \<Rightarrow> meta \<Rightarrow> contents \<Rightarrow> nat \<Rightarrow> (xstore, 'a) sm \<Rightarrow> ('a \<Rightarrow> xstore \<Rightarrow> bool) \<Rightarrow> xstore \<Rightarrow> bool" where
  "stages env m F n c Q x \<longleftrightarrow>
     holds c (\<lambda>r x'. xinv env m F x' \<and> grows x x'
       \<and> unat (ss_counter (xs_store x')) \<le> unat (ss_counter (xs_store x)) + n
       \<and> (\<forall>ino. xs_tail x' ino = xs_tail x ino \<or> xs_tail x' ino = None)
       \<and> (\<forall>v. r = Inr v \<longrightarrow> Q v x')) x"

lemma stages_bind:
  assumes "stages env m F a c P x"
    "\<And>v x'. P v x' \<Longrightarrow> xinv env m F x' \<Longrightarrow> grows x x' \<Longrightarrow>
       unat (ss_counter (xs_store x')) \<le> unat (ss_counter (xs_store x)) + a \<Longrightarrow>
       (\<forall>ino. xs_tail x' ino = xs_tail x ino \<or> xs_tail x' ino = None) \<Longrightarrow> stages env m F b (k v) Q x'"
    "a + b \<le> n"
  shows "stages env m F n (sbind c k) Q x"
proof (cases "c x")
  case (Pair r x1)
  have c: "xinv env m F x1" "grows x x1" "unat (ss_counter (xs_store x1)) \<le> unat (ss_counter (xs_store x)) + a"
    "\<forall>ino. xs_tail x1 ino = xs_tail x ino \<or> xs_tail x1 ino = None" "\<And>v. r = Inr v \<Longrightarrow> P v x1"
    using assms(1) by (auto simp: stages_def holds_def Pair)
  show ?thesis
  proof (cases r)
    case (Inl e)
    then show ?thesis
      using c assms(3) by (auto simp: stages_def holds_def sbind_def Pair)
  next
    case (Inr v)
    then have k: "stages env m F b (k v) Q x1"
      using assms(2) c by simp
    obtain r2 x2 where x2: "k v x1 = (r2, x2)"
      by fastforce
    have "\<forall>ino. xs_tail x2 ino = xs_tail x1 ino \<or> xs_tail x2 ino = None"
      using k by (simp add: stages_def holds_def x2)
    then have "xs_tail x2 ino = xs_tail x ino \<or> xs_tail x2 ino = None" for ino
      using spec [OF c(4), of ino] by (auto dest: spec [of _ ino])
    then show ?thesis
      using k c(2,3) assms(3) grows_trans [OF c(2)] by (auto simp: stages_def holds_def sbind_def Pair Inr x2)
  qed
qed

lemma only_caches_grows: "only_caches x x' \<Longrightarrow> grows x x'"
  by (rule grows_refl) (rule only_caches_same(1))

lemma reads_stages:
  assumes "reads env m F c P x"
  shows "stages env m F 0 c (\<lambda>v _. P v) x"
  using assms unfolding reads_def stages_def
  by (rule holds_mono) (auto simp: only_caches_grows only_caches_same(2,3))

lemma stages_sret: "xinv env m F x \<Longrightarrow> Q v x \<Longrightarrow> stages env m F n (sret v) Q x"
  by (simp add: stages_def grows_refl)

lemma stages_slift: "xinv env m F x \<Longrightarrow> (\<And>v. r = Inr v \<Longrightarrow> Q v x) \<Longrightarrow> stages env m F n (slift r) Q x"
  by (simp add: stages_def grows_refl)

lemma stages_sread: "xinv env m F x \<Longrightarrow> (\<And>v. g x = Inr v \<Longrightarrow> Q v x) \<Longrightarrow> stages env m F n (sread g) Q x"
  by (simp add: stages_def grows_refl)

lemma stages_mono: "stages env m F n c P x \<Longrightarrow> (\<And>v x'. P v x' \<Longrightarrow> Q v x') \<Longrightarrow> n \<le> n' \<Longrightarrow> stages env m F n' c Q x"
  unfolding stages_def by (erule holds_mono) auto

section \<open>Staging a batch of edits\<close>

lemma edits_lengths: "length (edit_frames edits) = length (edit_payloads edits)"
  by (induction edits) (auto simp: edit_frames_def edit_payloads_def map_filter_simps split: option.split)

lemma compressed_payload:
  assumes "xenv_ok env" "try_map (compress (dn_codec (xe_data env))) ps = Inr cs" "j < length ps" "length (ps ! j) = 32768"
  shows "length cs = length ps" "decompress (dn_codec (xe_data env)) (compressed_bytes (cs ! j)) = Inr (ps ! j)"
    "sealed_len (cs ! j) + 4 \<le> 65536"
proof -
  have all: "list_all2 (\<lambda>p c. compress (dn_codec (xe_data env)) p = Inr c) ps cs"
    using assms(2) by (simp add: try_map_Inr)
  then show "length cs = length ps"
    by (simp add: list_all2_lengthD)
  have c: "compress (dn_codec (xe_data env)) (ps ! j) = Inr (cs ! j)"
    using list_all2_nthD [OF all assms(3)] .
  show "decompress (dn_codec (xe_data env)) (compressed_bytes (cs ! j)) = Inr (ps ! j)"
    using decompress_compress [OF _ _ c] assms(1,4) by (simp add: xenv_ok_def env_ok_def)
  show "sealed_len (cs ! j) + 4 \<le> 65536"
    using assms(1,4) c unfolding xenv_ok_def by blast
qed

lemma lane_ok: "lock_append_lane env ino < OPEN_SEGMENT_LANES"
proof -
  have "unat ((ino XOR drop_bit 32 ino) AND 3) \<le> unat (3 :: u64)"
    by (metis and.commute word_and_le1 word_le_nat_alt)
  then have "open_lane ino < OPEN_SEGMENT_LANES"
    by (simp add: open_lane_def OPEN_SEGMENT_LANES_def)
  then show ?thesis
    by (auto simp: lock_append_lane_def find_Some_iff split: option.split)
qed

lemma append_stages:
  assumes inv: "xinv env m F x" and env: "xenv_ok env" and pay: "\<forall>p \<in> set ps. length p = 32768"
    and comp: "try_map (compress (dn_codec (xe_data env))) ps = Inr cs" and lens: "length idxs = length ps"
    and lane: "lane < OPEN_SEGMENT_LANES"
  shows "stages env m F 0 (append_frames env lane ino idxs cs) (\<lambda>(locs, _) x'. frames_ready (xe_data env) x' ino idxs locs ps) x"
proof -
  obtain r x1 where run: "append_frames env lane ino idxs cs x = (r, x1)"
    by fastforce
  have ok: "segids_ok x" "lane < length (xs_lanes x)"
    using inv lane by (simp_all add: xinv_def segids_ok_def)
  have small: "length (os_buf (xs_lanes x ! lane)) < 2 ^ 64"
    using ok by (simp add: segids_ok_def)
  have cs: "length cs = length ps"
    using comp by (auto simp: try_map_Inr dest: list_all2_lengthD)
  obtain ys where app: "lane_appended lane ys x x1"
    and at: "\<And>locs rot. r = Inr (locs, rot) \<Longrightarrow>
       frames_at (xe_data env) (os_segid (xs_lanes x ! lane)) (os_buf (xs_lanes x ! lane) @ ys) ino idxs cs locs"
    using append_frames_spec [OF _ ok(2) small _ run] env cs lens by (auto simp: xenv_ok_def)
  note lane_ok = lane_appended_ok [OF ok app]
  have same: "same_caches x x1" "ss_counter (xs_store x1) = ss_counter (xs_store x)" "xs_tail x1 = xs_tail x"
    using app by (auto simp: lane_appended_def same_caches_def)
  have "frames_ready (xe_data env) x1 ino idxs locs ps" if r: "r = Inr (locs, rot)" for locs rot
    unfolding frames_ready_def
  proof (intro conjI allI impI)
    show "length locs = length ps" "length idxs = length ps"
      using at [OF r] cs lens by (simp_all add: frames_at_def)
    fix j
    assume j: "j < length ps"
    show p: "length (ps ! j) = 32768"
      using pay j by simp
    note c = compressed_payload [OF env comp j p]
    have "fl_segid (locs ! j) = os_segid (xs_lanes x ! lane)" "unat (fl_byte_len (locs ! j)) = sealed_len (cs ! j) + 4"
      "stored_frame (xe_data env) (os_buf (xs_lanes x ! lane) @ ys) (locs ! j) ino (idxs ! j) (ps ! j)"
      using at [OF r, unfolded frames_at_def, THEN conjunct2, rule_format, OF _ c(2)] j cs by simp_all
    then show "frame_in (xe_data env) x1 (locs ! j) ino (idxs ! j) (ps ! j)" "unat (fl_byte_len (locs ! j)) \<le> 65536"
      using lane_ok(3) c(3) by (simp_all add: frame_in_def)
  qed
  then show ?thesis
    using xinv_grows [OF inv lane_ok(2,1) same(1)] lane_ok(2) same(2,3)
    by (auto simp: stages_def holds_def run)
qed

lemma cache_frames_ok:
  assumes "xinv env m F x" "frames_ready (xe_data env) x ino idxs locs ps"
  shows "xinv env m F (cache_frames ino idxs locs ps x)" "only_caches x (cache_frames ino idxs locs ps x)"
proof -
  have "xinv env m F (cache_frames ino idxs locs ps x) \<and> only_caches x (cache_frames ino idxs locs ps x)"
    using assms
  proof (induction ps arbitrary: idxs locs x)
    case Nil
    then show ?case
      by (simp add: cache_frames_def)
  next
    case (Cons p ps)
    obtain i js where i: "idxs = i # js"
      using Cons.prems(2) by (cases idxs) (auto simp: frames_ready_def)
    obtain l ls where l: "locs = l # ls" "frame_in (xe_data env) x l ino i p" "length p = 32768"
      "frames_ready (xe_data env) x ino js ls ps"
      using Cons.prems(2) by (auto simp: i)
    let ?x = "decoded_insert ino i l p x"
    have x: "xinv env m F ?x" "only_caches x ?x"
      using xinv_decoded_insert [OF Cons.prems(1) l(2,3)] by simp_all
    have "frames_ready (xe_data env) ?x ino js ls ps"
      using l(4) only_caches_same(1) [OF x(2)] by (simp add: frames_ready_def frame_in_def)
    from Cons.IH [OF x(1) this] show ?case
      using only_caches_trans [OF x(2)] by (simp add: cache_frames_def i l(1))
  qed
  then show "xinv env m F (cache_frames ino idxs locs ps x)" "only_caches x (cache_frames ino idxs locs ps x)"
    by simp_all
qed

lemma stages_caches:
  assumes "xinv env m F x" "xinv env m F (f x)" "only_caches x (f x)"
  shows "stages env m F 0 (smodify f) (\<lambda>_ x'. x' = f x) x"
  using assms by (simp add: stages_def only_caches_grows only_caches_same(2,3))

lemma spawn_seal_stages:
  assumes "xinv env m F x" "segid_room 1 x" "lane < OPEN_SEGMENT_LANES"
  shows "stages env m F 1 (smodify (if rot then spawn_seal env lane else id)) (\<lambda>_ _. True) x"
proof (cases rot)
  case True
  have ok: "segids_ok x" "lane < length (xs_lanes x)"
    using assms(1,3) by (simp_all add: xinv_def segids_ok_def)
  obtain r x1 where run: "rotate_sealing_generation env lane WIRE x = (r, x1)"
    by fastforce
  have "segids_ok x1 \<and> grows x x1 \<and> same_caches x x1
      \<and> unat (ss_counter (xs_store x1)) \<le> unat (ss_counter (xs_store x)) + 1"
    using rotate_ok [OF ok(1) assms(2) ok(2) run] .
  moreover from this have "xinv env m F x1"
    using xinv_grows [OF assms(1)] by blast
  ultimately show ?thesis
    using True by (simp add: stages_def spawn_seal_def run same_caches_def)
qed (use assms in \<open>simp add: stages_def grows_refl\<close>)

lemma pending_caches: "only_caches x x' \<Longrightarrow> pending d m x t G \<Longrightarrow> pending d m x' t G"
  by (rule pending_grows [OF only_caches_grows])

lemma frames_ready_grows: "grows x x' \<Longrightarrow> frames_ready d x ino idxs locs ps \<Longrightarrow> frames_ready d x' ino idxs locs ps"
  using frame_in_grows by (auto simp: frames_ready_def)

lemma append_and_stage:
  assumes inv: "xinv env m F x" and env: "xenv_ok env" and pay: "\<forall>p \<in> set (edit_payloads edits). length p = 32768"
    and comp: "try_map (compress (dn_codec (xe_data env))) (edit_payloads edits) = Inr cs"
    and pend: "pending (xe_data env) m x t G" and room: "segid_room 1 x" and lane: "lane < OPEN_SEGMENT_LANES"
  shows "stages env m F 1
      (sbind (append_frames env lane ino (edit_frames edits) cs) (\<lambda>(locs, rot).
       sbind (smodify (cache_frames ino (edit_frames edits) locs (edit_payloads edits))) (\<lambda>_.
       sbind (smodify (if rot then spawn_seal env lane else id)) (\<lambda>_.
         sret (stage_debits debits (stage_rows ino edits locs t))))))
      (\<lambda>t' x'. pending (xe_data env) m x' t' (G(ino := apply_edits (G ino) edits))) x"
proof (rule stages_bind [OF append_stages [OF inv env pay comp edits_lengths lane], where b = 1], goal_cases)
  case (1 v x1)
  obtain locs rot where v: "v = (locs, rot)"
    by fastforce
  have ready: "frames_ready (xe_data env) x1 ino (edit_frames edits) locs (edit_payloads edits)"
    and x1: "xinv env m F x1" "grows x x1" and room1: "segid_room 1 x1"
    using 1 room by (simp_all add: v segid_room_def)
  note cached = cache_frames_ok [OF x1(1) ready]
  let ?x = "cache_frames ino (edit_frames edits) locs (edit_payloads edits) x1"
  have room2: "segid_room 1 ?x"
    using room1 only_caches_same(3) [OF cached(2)] by (simp add: segid_room_def)
  have "stages env m F 1
      (sbind (smodify (cache_frames ino (edit_frames edits) locs (edit_payloads edits))) (\<lambda>_.
       sbind (smodify (if rot then spawn_seal env lane else id)) (\<lambda>_.
         sret (stage_debits debits (stage_rows ino edits locs t)))))
      (\<lambda>t' x'. pending (xe_data env) m x' t' (G(ino := apply_edits (G ino) edits))) x1"
  proof (rule stages_bind [OF stages_caches [where f = "cache_frames ino (edit_frames edits) locs (edit_payloads edits)",
          OF x1(1) cached], where b = 1], goal_cases)
    case (1 _ x2)
    have seal: "stages env m F 1 (smodify (if rot then spawn_seal env lane else id)) (\<lambda>_ _. True) x2"
      using 1 room2 lane by (intro spawn_seal_stages) simp_all
    have x2: "grows x1 x2"
      using 1 by simp
    show ?case
    proof (rule stages_bind [OF seal, where b = 0], goal_cases)
      case (1 _ x3)
      have "grows x1 x3"
        using grows_trans [OF x2 1(3)] .
      then have "pending (xe_data env) m x3 (stage_rows ino edits locs t) (G(ino := apply_edits (G ino) edits))"
        using pend pending_grows [OF grows_trans [OF x1(2)]] frames_ready_grows ready by (blast intro: stage_rows_pending)
      then show ?case
        using 1 by (intro stages_sret) (simp_all add: pending_debits)
    qed simp
  qed simp
  then show ?case
    by (simp add: v)
qed simp

lemma stage_edits_stages:
  assumes inv: "xinv env m F x" and env: "xenv_ok env" and pay: "\<forall>p \<in> set (edit_payloads edits). length p = 32768"
    and pend: "pending (xe_data env) m x t G" and room: "segid_room 1 x"
  shows "stages env m F 1 (stage_edits env m ino edits stop t)
    (\<lambda>t' x'. pending (xe_data env) m x' t' (G(ino := apply_edits (G ino) edits))) x"
proof -
  have debits: "stages env m F 0 (sread (old_debits env m ino edits stop)) (\<lambda>_ x'. x' = x) x"
    by (rule stages_sread [OF inv]) simp
  have comp: "stages env m F 0 (slift (or_io (try_map (compress (dn_codec (xe_data env))) (edit_payloads edits))))
      (\<lambda>cs x'. x' = x \<and> try_map (compress (dn_codec (xe_data env))) (edit_payloads edits) = Inr cs) x"
    by (rule stages_slift [OF inv]) (auto simp: or_io_def split: sum.splits)
  show ?thesis
    unfolding stage_edits_def Let_def
  proof (rule stages_bind [OF debits, where b = 1], goal_cases)
    case (1 d _)
    show ?case
      unfolding 1(1)
    proof (rule stages_bind [OF comp, where b = 1], goal_cases)
      case (1 cs x1)
      then show ?case
        using append_and_stage [OF inv env pay _ pend room lane_ok, where debits = d and cs = cs] by simp
    qed simp
  qed simp
qed

end
