(* ===== verification/Extent_Write.thy ===== *)
theory Extent_Write
  imports Extent_Edit
begin

text \<open>
  Writing, truncating and zeroing a file. Each operation stages the new contents of the file as the
  reference operations \<open>overwrite\<close>, \<open>cut_off\<close> and \<open>overwrite\<close> with zeros give them; committing the
  transaction makes them the contents, and reading returns them.
\<close>

section \<open>Committing\<close>

lemma fold_updates:
  "fold (\<lambda>(k, v) c. c(k \<mapsto> g v)) us c k
   = (case fold (\<lambda>(k, v) c. c(k \<mapsto> v)) us Map.empty k of Some v \<Rightarrow> Some (g v) | None \<Rightarrow> c k)"
  by (induction us rule: rev_induct) auto

lemma fold_invalidate: "fold (\<lambda>(k, _) c. c(k := None)) us c k \<in> {c k, None}"
  by (induction us rule: rev_induct) (auto split: if_splits)

definition settle_tails :: "(inode_id \<times> tail_update) list \<Rightarrow> xstore \<Rightarrow> xstore" where
  "settle_tails us x = fold (\<lambda>(ino, u). apply_tail_update ino u) us x"

definition commit_extents :: "txn \<Rightarrow> (inode_id \<times> tail_update) list \<Rightarrow> xstore \<Rightarrow> xstore" where
  "commit_extents t us x = settle_tails us (publish_locations t (invalidate_locations t x))"

lemma apply_tail_parts:
  "segment_bytes (apply_tail_update ino u x) = segment_bytes x" "segids_ok (apply_tail_update ino u x) = segids_ok x"
  "xs_decoded (apply_tail_update ino u x) = xs_decoded x" "xs_locs (apply_tail_update ino u x) = xs_locs x"
  by (cases u; simp add: tail_set_def tail_invalidate_def)+

lemma apply_tail_cong:
  "xs_tail x = xs_tail y \<Longrightarrow> xs_tail (apply_tail_update ino u x) = xs_tail (apply_tail_update ino u y)"
  by (cases u) (simp_all add: tail_set_def tail_invalidate_def)

lemma settle_tails_parts:
  "segment_bytes (settle_tails us x) = segment_bytes x" "segids_ok (settle_tails us x) = segids_ok x"
  "xs_decoded (settle_tails us x) = xs_decoded x" "xs_locs (settle_tails us x) = xs_locs x"
  unfolding settle_tails_def by (induction us arbitrary: x) (simp_all add: apply_tail_parts split_beta)

lemma settle_tails_cong: "xs_tail x = xs_tail y \<Longrightarrow> xs_tail (settle_tails us x) = xs_tail (settle_tails us y)"
  unfolding settle_tails_def
proof (induction us arbitrary: x y)
  case (Cons p us)
  obtain ino u where p: "p = (ino, u)"
    by fastforce
  show ?case
    unfolding p fold.simps comp_def prod.case by (rule Cons.IH [OF apply_tail_cong [OF Cons.prems]])
qed simp

lemma commit_extents_parts:
  "segment_bytes (commit_extents t us x) = segment_bytes x" "segids_ok (commit_extents t us x) = segids_ok x"
  "xs_decoded (commit_extents t us x) = xs_decoded x"
  "xs_tail (commit_extents t us x) = xs_tail (settle_tails us x)"
  unfolding commit_extents_def settle_tails_parts
  by (simp_all add: publish_locations_def invalidate_locations_def, rule settle_tails_cong, simp)

lemma commit_extents_locs:
  "xs_locs (commit_extents t us x) k =
    (case staged_locs t k of Some v \<Rightarrow> Some (location_of v) | None \<Rightarrow> xs_locs (invalidate_locations t x) k)"
  by (simp add: commit_extents_def settle_tails_parts publish_locations_def staged_locs_def fold_updates [where g = location_of])

lemma commit_contents:
  assumes inv: "xinv env m F x" and pend: "pending (xe_data env) m x t G"
    and tails: "\<And>i idx p. xs_tail (settle_tails us x) i = Some (idx, p) \<Longrightarrow> p = extent_of (G i) idx"
  shows "xinv env (apply_ops (tx_ops t) m) G (commit_extents t us x)"
proof -
  let ?x = "commit_extents t us x"
  have rows: "m_extents (apply_ops (tx_ops t) m) = staged_rows m t"
    by (simp add: staged_rows_def)
  have same: "frame_in d ?x = frame_in d x" for d
    by (simp add: frame_in_def commit_extents_parts fun_eq_iff)
  have row: "staged_rows m t k = (case staged_locs t k of Some v \<Rightarrow> v | None \<Rightarrow> m_extents m k)" for k
    using pend unfolding pending_def by blast
  have locs: "l = location_of (staged_rows m t k)" if l: "xs_locs ?x k = Some l" for k l
  proof (cases "staged_locs t k")
    case None
    then have "xs_locs (invalidate_locations t x) k = Some l"
      using l by (simp add: commit_extents_locs)
    then have "xs_locs x k = Some l"
      using fold_invalidate [of "tx_extent_updates t" "xs_locs x" k] by (auto simp: invalidate_locations_def)
    then have "l = location_of (m_extents m k)"
      using inv by (cases k) (simp add: xinv_def)
    then show ?thesis
      using row None by simp
  next
    case (Some v)
    then show ?thesis
      using row l by (simp add: commit_extents_locs)
  qed
  have "row_holds (xe_data env) ?x (staged_rows m t) G"
    using pend row_holds_same [of ?x x] by (simp add: pending_def commit_extents_parts)
  then show ?thesis
    using inv locs tails unfolding xinv_def rows same commit_extents_parts by simp
qed

lemma pending_new: "xinv env m F x \<Longrightarrow> tx_ops t = [] \<Longrightarrow> tx_extent_updates t = [] \<Longrightarrow> pending (xe_data env) m x t F"
  by (simp add: pending_def staged_rows_def staged_locs_def apply_ops_def xinv_def)

section \<open>Reference operations\<close>

definition overwrite :: "(nat \<Rightarrow> u8) \<Rightarrow> nat \<Rightarrow> bytes \<Rightarrow> nat \<Rightarrow> u8" where
  "overwrite f start d = (\<lambda>i. if start \<le> i \<and> i < start + length d then d ! (i - start) else f i)"

definition cut_off :: "(nat \<Rightarrow> u8) \<Rightarrow> nat \<Rightarrow> nat \<Rightarrow> u8" where
  "cut_off f n = (\<lambda>i. if n \<le> i then 0 else f i)"

lemma nth_map_upt: "b \<le> length d \<Longrightarrow> slice a b d = map (\<lambda>i. d ! i) [a..<b]"
  by (rule nth_equalityI) (auto simp: slice_def)

lemma write_at_extent:
  assumes "unat idx * 32768 \<le> a" "a \<le> b" "b \<le> unat idx * 32768 + 32768"
    and same: "\<And>i. unat idx * 32768 \<le> i \<Longrightarrow> i < a \<or> b \<le> i \<Longrightarrow> i < unat idx * 32768 + 32768 \<Longrightarrow> g i = f i"
  shows "write_at (a - unat idx * 32768) (map g [a..<b]) (extent_of f idx) = extent_of g idx"
proof -
  let ?k = "unat idx * 32768"
  have "write_at (a - ?k) (map g [a..<b]) (extent_of f idx) = map f [?k..<a] @ map g [a..<b] @ map f [b..<?k + 32768]"
    using assms(1-3) by (simp add: write_at_def extent_of_def take_map drop_map)
  also have "\<dots> = map g [?k..<a] @ map g [a..<b] @ map g [b..<?k + 32768]"
    using assms(1-3) same by auto
  also have "\<dots> = map g [?k..<?k + 32768]"
    using assms(1-3) upt_add_eq_append [of ?k a "b - a"] upt_add_eq_append [of ?k b "?k + 32768 - b"]
    by (simp flip: map_append)
  finally show ?thesis
    by (simp add: extent_of_def)
qed

lemma apply_extent_edits:
  "apply_edits f (map (\<lambda>idx. extent_edit idx (extent_of g idx)) idxs) i
   = (if i div 32768 \<in> unat ` set idxs then g i else f i)"
proof (induction idxs arbitrary: f)
  case (Cons idx idxs)
  have one: "(case snd (extent_edit idx (extent_of g idx)) of Some d \<Rightarrow> d | None \<Rightarrow> ZERO_EXTENT) = extent_of g idx"
    by (simp add: extent_edit_def)
  have byte: "extent_of g idx ! (i mod 32768) = g i" if "i div 32768 = unat idx"
    using that div_mult_mod_eq [of i 32768] by (simp add: nth_extent_of)
  have "apply_edits f (map (\<lambda>idx. extent_edit idx (extent_of g idx)) (idx # idxs)) i
      = apply_edits (set_extent f idx (extent_of g idx)) (map (\<lambda>idx. extent_edit idx (extent_of g idx)) idxs) i"
    using one by (simp add: apply_edits_def case_prod_unfold extent_edit_def)
  then show ?case
    using byte by (auto simp: Cons.IH set_extent_def)
qed (simp add: apply_edits_def)

section \<open>Windows\<close>

lemma write_window_nat:
  assumes "k * 32768 + 32768 < 2 ^ 64" and le: "k * 32768 \<le> unat stop"
  shows "write_window offset stop (word_of_nat k)
    = (max (unat offset) (k * 32768) - k * 32768, min (unat stop - k * 32768) 32768)"
proof -
  have k: "unat (word_of_nat k * EXTENT_SIZE) = k * 32768" "unat (word_of_nat k * EXTENT_SIZE + EXTENT_SIZE) = k * 32768 + 32768"
    using assms(1) by (simp_all add: unat_word_ariths unat_u64_of_nat)
  have "unat (offset - word_of_nat k * EXTENT_SIZE) = unat offset - k * 32768" if "word_of_nat k * EXTENT_SIZE < offset"
    using that k(1) by (simp add: unat_sub word_less_nat_alt word_le_nat_alt)
  moreover have "unat (stop - word_of_nat k * EXTENT_SIZE) = unat stop - k * 32768"
    using le k(1) by (simp add: unat_sub word_le_nat_alt)
  ultimately show ?thesis
    using k by (auto simp: write_window_def Let_def word_less_nat_alt)
qed

lemma covers_extent_nat:
  assumes "k * 32768 + 32768 < 2 ^ 64"
  shows "covers_extent offset stop (word_of_nat k) \<longleftrightarrow> unat offset \<le> k * 32768 \<and> k * 32768 + 32768 \<le> unat stop"
  using assms by (simp add: covers_extent_def word_le_nat_alt unat_word_ariths unat_u64_of_nat)

lemma last_extent_fits:
  fixes k e :: nat
  assumes "k \<le> (e - 1) div 32768" "0 < e" "e \<le> 2 ^ 64 - 32768"
  shows "k * 32768 + 32768 < 2 ^ 64" "k * 32768 < e"
proof -
  have "k * 32768 \<le> (e - 1) div 32768 * 32768"
    using assms(1) by simp
  also have "\<dots> \<le> e - 1"
    by simp
  finally show "k * 32768 + 32768 < 2 ^ 64" "k * 32768 < e"
    using assms(2,3) by simp_all
qed

section \<open>Writing\<close>

lemma write_edits_overwrite:
  fixes d :: bytes and ex :: "u64 \<Rightarrow> bytes"
  assumes e: "unat stop = unat offset + length d" "unat stop \<le> 2 ^ 64 - 32768" "0 < unat stop"
    and c: "c \<le> Suc ((unat stop - 1) div 32768)" and k: "unat offset div 32768 \<le> k"
    and old: "\<And>j. j < c \<Longrightarrow> \<not> (unat offset \<le> j * 32768 \<and> j * 32768 + 32768 \<le> unat stop) \<Longrightarrow> ex (word_of_nat j) = extent_of f (word_of_nat j)"
    and g: "g = overwrite f (unat offset) d"
  shows "write_edits offset stop d (max (unat offset) (k * 32768) - unat offset)
      (map (\<lambda>j. (word_of_nat j, ex (word_of_nat j))) [k..<c])
    = map (\<lambda>idx. extent_edit idx (extent_of g idx)) (map word_of_nat [k..<c])"
  using k
proof (induction "c - k" arbitrary: k)
  case (Suc n)
  let ?o = "unat offset" and ?e = "unat stop" and ?w = "word_of_nat k :: u64"
  have kc: "k < c" "k \<le> (?e - 1) div 32768"
    using Suc.hyps(2) c by simp_all
  have fits: "k * 32768 + 32768 < 2 ^ 64" "k * 32768 < ?e"
    using last_extent_fits [OF kc(2) e(3,2)] by simp_all
  have w: "unat ?w = k"
    using fits(1) by (intro unat_u64_of_nat) simp
  have o: "?o < k * 32768 + 32768"
    using dividend_less_div_times [of 32768 ?o] mult_le_mono1 [OF Suc.prems, of 32768] by simp
  define a where "a = max ?o (k * 32768)"
  define b where "b = min ?e (k * 32768 + 32768)"
  have ab: "k * 32768 \<le> a" "a \<le> b" "b \<le> k * 32768 + 32768" "?o \<le> a" "b \<le> ?o + length d"
    using o fits(2) e(1) by (auto simp: a_def b_def)
  have win: "write_window offset stop ?w = (a - k * 32768, b - k * 32768)"
    using write_window_nat [OF fits(1)] fits(2) by (auto simp: a_def b_def min_def)
  have "slice (a - ?o) (b - ?o) d = map (\<lambda>i. d ! (i - ?o)) [a..<b]"
    using ab by (subst nth_map_upt) (auto intro!: nth_equalityI)
  then have part: "slice (a - ?o) (b - ?o) d = map g [a..<b]"
    using ab by (auto simp: g overwrite_def intro!: map_cong)
  have extent: "(if a - k * 32768 = 0 \<and> b - k * 32768 = 32768 then map g [a..<b]
      else write_at (a - k * 32768) (map g [a..<b]) (ex ?w)) = extent_of g ?w"
  proof (cases "a = k * 32768 \<and> b = k * 32768 + 32768")
    case True
    then show ?thesis
      by (simp add: extent_of_def w)
  next
    case False
    then have "ex ?w = extent_of f ?w"
      by (intro old kc(1)) (auto simp: a_def b_def)
    moreover have "g i = f i" if "i < a \<or> b \<le> i" "k * 32768 \<le> i" "i < k * 32768 + 32768" for i
      using that by (auto simp: g overwrite_def a_def b_def e(1))
    then have "write_at (a - k * 32768) (map g [a..<b]) (extent_of f ?w) = extent_of g ?w"
      using write_at_extent [of ?w a b g f] ab by (simp add: w)
    ultimately show ?thesis
      using False ab by auto
  qed
  have rest: "write_edits offset stop d (b - ?o) (map (\<lambda>j. (word_of_nat j, ex (word_of_nat j))) [Suc k..<c])
      = map (\<lambda>idx. extent_edit idx (extent_of g idx)) (map word_of_nat [Suc k..<c])"
  proof (cases "Suc k < c")
    case True
    then have "Suc k * 32768 < ?e"
      using last_extent_fits(2) [OF _ e(3,2), of "Suc k"] c by simp
    then have "b - ?o = max ?o (Suc k * 32768) - ?o"
      using o by (simp add: b_def max_def)
    then show ?thesis
      using Suc.hyps(1) [of "Suc k"] Suc.hyps(2) Suc.prems by simp
  qed simp
  have sum: "a - ?o + (b - a) = b - ?o" "b - k * 32768 - (a - k * 32768) = b - a"
    using ab by simp_all
  show ?case
    unfolding upt_conv_Cons [OF kc(1)] list.map a_def [symmetric]
    by (simp only: write_edits.simps win Let_def prod.case sum part unat_EXTENT_SIZE extent rest list.map)
qed simp

definition eof_clean :: "(nat \<Rightarrow> u8) \<Rightarrow> u64 \<Rightarrow> bool" where
  "eof_clean f n \<longleftrightarrow> (\<forall>i. unat n \<le> i \<longrightarrow> f i = 0)"

lemma beyond_eof_zero:
  assumes "eof_clean f n" "unat n \<le> unat idx * 32768"
  shows "extent_of f idx = ZERO_EXTENT"
  using assms by (intro extent_of_eqI) (auto simp: eof_clean_def ZERO_EXTENT_def)

lemma existing_extent_reads:
  assumes inv: "xinv env m F x" and cached: "\<And>ci d. cached = Some (ci, d) \<Longrightarrow> d = extent_of (F ino) ci"
  shows "reads env m F (existing_extent env m ino offset stop old_size cached idx)
    (\<lambda>v. v = (if covers_extent offset stop idx \<or> idx * EXTENT_SIZE \<ge> old_size then ZERO_EXTENT else extent_of (F ino) idx)) x"
  using inv cached extent_or_zero_reads [OF inv]
  by (auto simp: existing_extent_def split: option.split)

text \<open>What a write hands to the last-extent cache is what it staged.\<close>

fun tail_ok :: "(nat \<Rightarrow> u8) \<Rightarrow> bool \<Rightarrow> tail_update \<Rightarrow> bool" where
  "tail_ok f kept (TailSet idx d) = (d = extent_of f idx)"
| "tail_ok f kept TailClear = True"
| "tail_ok f kept TailKeep = kept"

lemma range_extents:
  assumes "0 < unat stop"
  shows "unat ` set (extent_indices (offset div EXTENT_SIZE) ((stop - 1) div EXTENT_SIZE))
    = {unat offset div 32768..(unat stop - 1) div 32768}"
proof -
  have pred: "unat (stop - 1) = unat stop - 1"
    using assms by (simp add: unat_sub_if' word_le_nat_alt Suc_le_eq)
  have less: "(unat stop - 1) div 32768 < 2 ^ 64"
    by (rule le_less_trans [OF div_le_dividend]) (simp add: less_imp_diff_less)
  have "unat (word_of_nat j :: u64) = j" if "j \<le> (unat stop - 1) div 32768" for j
    using that less by (intro unat_u64_of_nat) simp
  then show ?thesis
    by (force simp: extent_indices_def pred)
qed

lemma overwrite_range_edits:
  assumes e: "unat stop = unat offset + length d" "d \<noteq> []"
    and idxs: "idxs = extent_indices (offset div EXTENT_SIZE) ((stop - 1) div EXTENT_SIZE)"
  shows "apply_edits f (map (\<lambda>idx. extent_edit idx (extent_of (overwrite f (unat offset) d) idx)) idxs)
    = overwrite f (unat offset) d"
proof
  fix i
  have "unat ` set idxs = {unat offset div 32768..(unat stop - 1) div 32768}"
    using e unfolding idxs by (intro range_extents) simp
  moreover have "i div 32768 \<in> {unat offset div 32768..(unat stop - 1) div 32768}"
    if "unat offset \<le> i" "i < unat offset + length d"
    using that e by (auto intro!: div_le_mono)
  ultimately show "apply_edits f (map (\<lambda>idx. extent_edit idx (extent_of (overwrite f (unat offset) d) idx)) idxs) i
      = overwrite f (unat offset) d i"
    unfolding apply_extent_edits by (auto simp: overwrite_def)
qed

lemma extent_edit_payloads: "\<forall>p \<in> set (edit_payloads (map (\<lambda>idx. extent_edit idx (extent_of g idx)) idxs)). length p = 32768"
  by (induction idxs) (auto simp: edit_payloads_def extent_edit_def map_filter_simps)

lemma last_extent_index:
  assumes "unat offset < unat stop"
  shows "last (extent_indices (offset div EXTENT_SIZE) ((stop - 1) div EXTENT_SIZE)) = (stop - 1) div EXTENT_SIZE"
    "extent_indices (offset div EXTENT_SIZE) ((stop - 1) div EXTENT_SIZE) \<noteq> []"
proof -
  have "unat (stop - 1) = unat stop - 1"
    using assms by (simp add: unat_sub_if' word_le_nat_alt Suc_le_eq)
  then have "unat (offset div EXTENT_SIZE) \<le> unat ((stop - 1) div EXTENT_SIZE)"
    using assms by (simp add: div_le_mono)
  then show "last (extent_indices (offset div EXTENT_SIZE) ((stop - 1) div EXTENT_SIZE)) = (stop - 1) div EXTENT_SIZE"
    "extent_indices (offset div EXTENT_SIZE) ((stop - 1) div EXTENT_SIZE) \<noteq> []"
    by (simp_all add: extent_indices_def last_map del: unat_extent_index)
qed

lemma write_full_edits:
  fixes d :: bytes
  assumes e: "unat stop = unat offset + length d" "unat stop \<le> 2 ^ 64 - 32768" "0 < unat stop"
    and eof: "eof_clean (F ino) old_size"
  defines "idxs \<equiv> extent_indices (offset div EXTENT_SIZE) ((stop - 1) div EXTENT_SIZE)"
  shows "write_edits offset stop d 0 (zip idxs
      (map (\<lambda>idx. if covers_extent offset stop idx \<or> idx * EXTENT_SIZE \<ge> old_size then ZERO_EXTENT else extent_of (F ino) idx) idxs))
    = map (\<lambda>idx. extent_edit idx (extent_of (overwrite (F ino) (unat offset) d) idx)) idxs"
proof -
  let ?ex = "\<lambda>idx. if covers_extent offset stop idx \<or> idx * EXTENT_SIZE \<ge> old_size then ZERO_EXTENT else extent_of (F ino) idx"
  let ?c = "Suc ((unat stop - 1) div 32768)"
  have pred: "unat (stop - 1) = unat stop - 1"
    using e(3) by (simp add: unat_sub_if' word_le_nat_alt Suc_le_eq)
  have idxs: "idxs = map word_of_nat [unat offset div 32768..<?c]"
    by (simp add: idxs_def extent_indices_def pred)
  have old: "?ex (word_of_nat j) = extent_of (F ino) (word_of_nat j)"
    if j: "j < ?c" and open_end: "\<not> (unat offset \<le> j * 32768 \<and> j * 32768 + 32768 \<le> unat stop)" for j
  proof -
    have fits: "j * 32768 + 32768 < 2 ^ 64"
      using last_extent_fits(1) [OF _ e(3,2), of j] j by simp
    have w: "unat (word_of_nat j :: u64) = j"
      using fits by (intro unat_u64_of_nat) simp
    have "extent_of (F ino) (word_of_nat j) = ZERO_EXTENT" if "word_of_nat j * EXTENT_SIZE \<ge> old_size"
      using that beyond_eof_zero [OF eof, of "word_of_nat j"] fits
      by (simp add: word_le_nat_alt unat_word_ariths w)
    then show ?thesis
      using open_end by (auto simp: covers_extent_nat [OF fits])
  qed
  have "zip idxs (map ?ex idxs) = map (\<lambda>j. (word_of_nat j, ?ex (word_of_nat j))) [unat offset div 32768..<?c]"
    by (simp add: idxs zip_map_map zip_same_conv_map)
  moreover have "max (unat offset) (unat offset div 32768 * 32768) - unat offset = 0"
    by simp
  ultimately show ?thesis
    using write_edits_overwrite [where ex = ?ex and f = "F ino", OF e le_refl le_refl old refl] idxs by simp
qed

lemma extent_write_code:
  assumes "d \<noteq> []" "checked_add offset (word_of_nat (length d)) = Some stop"
  shows "extent_write env m ino offset d old_size t =
      (let idxs = extent_indices (offset div EXTENT_SIZE) ((stop - 1) div EXTENT_SIZE) in
       sbind (sread (\<lambda>x. Inr (xs_tail x ino))) (\<lambda>cached.
       sbind (smap (existing_extent env m ino offset stop old_size cached) idxs) (\<lambda>existing.
       sbind (stage_edits env m ino (write_edits offset stop d 0 (zip idxs existing)) (div_ceil old_size EXTENT_SIZE) t) (\<lambda>t.
         sret (case (if stop \<ge> old_size \<and> stop mod EXTENT_SIZE \<noteq> 0
                     then snd (last (write_edits offset stop d 0 (zip idxs existing))) else None) of
                 Some p \<Rightarrow> TailSet ((stop - 1) div EXTENT_SIZE) p | None \<Rightarrow> TailClear, t)))))"
  by (simp add: extent_write_def assms ok_or_def sbind_slift Let_def)

lemma extent_write_stages:
  assumes inv: "xinv env m F x" and env: "xenv_ok env" and pend: "pending (xe_data env) m x t G" and same: "G ino = F ino"
    and eof: "eof_clean (F ino) old_size" and fits: "unat offset + length d \<le> 2 ^ 64 - 32768" and room: "segid_room 1 x"
  shows "stages env m F 1 (extent_write env m ino offset d old_size t)
    (\<lambda>(u, t') x'. pending (xe_data env) m x' t' (G(ino := overwrite (F ino) (unat offset) d))
       \<and> tail_ok (overwrite (F ino) (unat offset) d) (d = []) u) x"
proof (cases "d = []")
  case True
  then have "overwrite (F ino) (unat offset) d = F ino"
    by (auto simp: overwrite_def fun_eq_iff)
  then show ?thesis
    using True inv pend same by (auto simp: extent_write_def fun_upd_idem intro!: stages_sret)
next
  case False
  define stop where "stop = offset + word_of_nat (length d)"
  let ?g = "overwrite (F ino) (unat offset) d"
  let ?idxs = "extent_indices (offset div EXTENT_SIZE) ((stop - 1) div EXTENT_SIZE)"
  let ?ex = "\<lambda>idx. if covers_extent offset stop idx \<or> idx * EXTENT_SIZE \<ge> old_size then ZERO_EXTENT else extent_of (F ino) idx"
  have len: "unat (word_of_nat (length d) :: u64) = length d"
    using fits by (intro unat_u64_of_nat) simp
  have e: "unat stop = unat offset + length d" "unat stop \<le> 2 ^ 64 - 32768" "0 < unat stop"
    using fits False by (simp_all add: stop_def unat_word_ariths len)
  have add: "checked_add offset (word_of_nat (length d)) = Some stop"
    using fits by (simp add: checked_add_def stop_def len)
  have pred: "unat (stop - 1) = unat stop - 1"
    using e(3) by (simp add: unat_sub_if' word_le_nat_alt Suc_le_eq)
  have edits: "write_edits offset stop d 0 (zip ?idxs (map ?ex ?idxs)) = map (\<lambda>idx. extent_edit idx (extent_of ?g idx)) ?idxs"
    using write_full_edits [where F = F and ino = ino, OF e eof] .
  have last: "last ?idxs = (stop - 1) div EXTENT_SIZE" "?idxs \<noteq> []"
    using last_extent_index [of offset stop] e False by simp_all
  let ?edits = "map (\<lambda>idx. extent_edit idx (extent_of ?g idx)) ?idxs"
  have existing: "stages env m F 0 (smap (existing_extent env m ino offset stop old_size (xs_tail x ino)) ?idxs)
      (\<lambda>vs _. vs = map ?ex ?idxs) x"
    by (rule reads_stages, rule reads_smap [OF inv], rule existing_extent_reads)
      (use inv in \<open>auto simp: xinv_def\<close>)
  have tail: "tail_ok ?g False (case (if c then snd (last ?edits) else None) of
      Some p \<Rightarrow> TailSet ((stop - 1) div EXTENT_SIZE) p | None \<Rightarrow> TailClear)" for c
    using last by (simp add: last_map extent_edit_def)
  note code = extent_write_code [OF False add]
  have staged: "stages env m F 1 (stage_edits env m ino ?edits (div_ceil old_size EXTENT_SIZE) t)
      (\<lambda>t' x'. pending (xe_data env) m x' t' (G(ino := ?g))) x1"
    if x1: "xinv env m F x1" "grows x x1" "segid_room 1 x1" for x1
    using stage_edits_stages [where edits = ?edits and ino = ino and stop = "div_ceil old_size EXTENT_SIZE",
        OF x1(1) env extent_edit_payloads pending_grows [OF x1(2) pend] x1(3)]
    unfolding same overwrite_range_edits [OF e(1) False refl] .
  show ?thesis
    unfolding code Let_def
  proof (rule stages_bind [OF stages_sread [OF inv, where n = 0 and Q = "\<lambda>c x'. c = xs_tail x ino \<and> x' = x"], where b = 1], goal_cases)
    case (2 cached x1)
    show ?case
      unfolding 2(1) [THEN conjunct1] 2(1) [THEN conjunct2]
    proof (rule stages_bind [OF existing, where b = 1], goal_cases)
      case (1 vs x2)
      have x2: "segid_room 1 x2"
        using 1(4) room by (simp add: segid_room_def)
      show ?case
        unfolding 1(1) edits
        by (rule stages_bind [OF staged [OF 1(2,3) x2], where b = 0], rule stages_sret)
          (use tail [of "stop \<ge> old_size \<and> stop mod EXTENT_SIZE \<noteq> 0"] False in simp_all)
    qed simp
  qed simp_all
qed

end
