(* ===== verification/Extent_Trim.thy ===== *)
theory Extent_Trim
  imports Extent_Write
begin

text \<open>Truncating a file and zeroing a part of it.\<close>

section \<open>Deleting whole extents\<close>

definition zero_extents :: "(nat \<Rightarrow> u8) \<Rightarrow> nat \<Rightarrow> nat \<Rightarrow> nat \<Rightarrow> u8" where
  "zero_extents f a b = (\<lambda>i. if a \<le> i div 32768 \<and> i div 32768 < b then 0 else f i)"

lemma set_extent_zero: "set_extent f idx ZERO_EXTENT = (\<lambda>i. if i div 32768 = unat idx then 0 else f i)"
  by (auto simp: set_extent_def ZERO_EXTENT_def)

lemma staged_rows_delete [simp]:
  "staged_rows m (extent_delete ino idx t) = (staged_rows m t)((ino, idx) := None)"
  by (simp add: extent_delete_def)

lemma zero_extent_bytes:
  assumes "extent_of f idx = ZERO_EXTENT" "i div 32768 = unat idx"
  shows "f i = 0"
proof -
  have "f i = extent_of f idx ! (i mod 32768)"
    using assms(2) div_mult_mod_eq [of i 32768] by (simp add: nth_extent_of)
  then show ?thesis
    by (simp add: assms(1) ZERO_EXTENT_def)
qed

lemma pending_hole:
  assumes "pending d m x t G" "staged_rows m t (ino, idx) = None"
  shows "extent_of (G ino) idx = ZERO_EXTENT"
proof -
  have "case staged_rows m t (ino, idx) of None \<Rightarrow> extent_of (G ino) idx = ZERO_EXTENT
      | Some loc \<Rightarrow> frame_in d x loc ino idx (extent_of (G ino) idx) \<and> unat (fl_byte_len loc) \<le> 65536"
    using assms(1) unfolding pending_def row_holds_def by blast
  then show ?thesis
    using assms(2) by simp
qed

lemma delete_rows_pending:
  assumes pend: "pending d m x t G" and same: "\<And>idx. staged_rows m t (ino, idx) = m_extents m (ino, idx)"
    and c: "a \<le> c" "c < 2 ^ 64"
  shows "pending d m x (fold (delete_extent_row m ino) [a..<c] t) (G(ino := zero_extents (G ino) a c))
    \<and> (\<forall>idx. c \<le> unat idx \<longrightarrow> staged_rows m (fold (delete_extent_row m ino) [a..<c] t) (ino, idx) = m_extents m (ino, idx))"
  using c
proof (induction c rule: dec_induct)
  case base
  have "zero_extents (G ino) a a = G ino"
    by (auto simp: zero_extents_def fun_eq_iff)
  then show ?case
    using pend same by (simp add: fun_upd_idem)
next
  case (step c)
  let ?t = "fold (delete_extent_row m ino) [a..<c] t" and ?w = "word_of_nat c :: u64"
  let ?G = "G(ino := zero_extents (G ino) a c)"
  have IH: "pending d m x ?t ?G" "\<And>idx. c \<le> unat idx \<Longrightarrow> staged_rows m ?t (ino, idx) = m_extents m (ino, idx)"
    using step.IH [OF Suc_lessD [OF step.prems]] by blast+
  have w: "unat ?w = c"
    using step.prems by (intro unat_u64_of_nat) simp
  have grow: "set_extent (zero_extents (G ino) a c) ?w ZERO_EXTENT = zero_extents (G ino) a (Suc c)"
    using step(1) by (auto simp: set_extent_zero zero_extents_def w)
  have next_row: "fold (delete_extent_row m ino) [a..<Suc c] t = delete_extent_row m ino c ?t"
    using step(1) by simp
  have "pending d m x (delete_extent_row m ino c ?t) (G(ino := zero_extents (G ino) a (Suc c)))
    \<and> (\<forall>idx. Suc c \<le> unat idx \<longrightarrow> staged_rows m (delete_extent_row m ino c ?t) (ino, idx) = m_extents m (ino, idx))"
  proof (cases "m_extents m (ino, ?w)")
    case None
    then have "extent_of (zero_extents (G ino) a c) ?w = ZERO_EXTENT"
      using pending_hole [OF IH(1), of ino ?w] IH(2) [of ?w] w by simp
    then have "zero_extents (G ino) a c = zero_extents (G ino) a (Suc c)"
      using zero_extent_bytes [of "zero_extents (G ino) a c" ?w] w by (auto simp: grow [symmetric] set_extent_zero)
    then show ?thesis
      using IH None by (simp add: delete_extent_row_def)
  next
    case (Some loc)
    have "pending d m x (extent_delete ino ?w (seg_delta (fl_segid loc) (- uint (fl_byte_len loc)) 0 ?t))
        (?G(ino := set_extent (?G ino) ?w ZERO_EXTENT))"
      using IH(1) by (intro pending_delete) simp
    moreover have "?G(ino := set_extent (?G ino) ?w ZERO_EXTENT) = G(ino := zero_extents (G ino) a (Suc c))"
      using grow by simp
    ultimately show ?thesis
      using IH(2) w by (auto simp: delete_extent_row_def Some)
  qed
  then show ?case
    unfolding next_row .
qed

lemma tail_invalidate_stages:
  assumes "xinv env m F x"
  shows "stages env m F 0 (smodify (tail_invalidate ino)) (\<lambda>_ x'. x' = tail_invalidate ino x) x"
proof -
  have "xinv env m F (tail_invalidate ino x)"
    using assms row_holds_same [of "tail_invalidate ino x" x]
    by (auto simp: xinv_def tail_invalidate_def frame_in_def)
  then show ?thesis
    by (simp add: stages_def tail_invalidate_def grows_refl)
qed

lemma delete_range_stages:
  assumes inv: "xinv env m F x" and pend: "pending (xe_data env) m x t G"
    and same: "\<And>idx. staged_rows m t (ino, idx) = m_extents m (ino, idx)"
  shows "stages env m F 0 (extent_delete_range env m ino start stop t)
    (\<lambda>t' x'. pending (xe_data env) m x' t' (G(ino := zero_extents (G ino) (unat start) (unat stop))) \<and> xs_tail x' ino = None) x"
  unfolding extent_delete_range_def
proof (rule stages_bind [OF tail_invalidate_stages [OF inv], where b = 0], goal_cases)
  case (1 u x1)
  have p1: "pending (xe_data env) m x1 t G"
    using pending_grows [OF 1(3) pend] .
  show ?case
  proof (rule stages_slift [OF 1(2)])
    fix t'
    assume t': "delete_range (xe_scan_ok env) m ino start stop t = Inr t'"
    have tail: "xs_tail x1 ino = None"
      using 1(1) by (simp add: tail_invalidate_def)
    show "pending (xe_data env) m x1 t' (G(ino := zero_extents (G ino) (unat start) (unat stop))) \<and> xs_tail x1 ino = None"
    proof (cases "start \<ge> stop")
      case True
      then have "zero_extents (G ino) (unat start) (unat stop) = G ino"
        by (auto simp: zero_extents_def word_le_nat_alt fun_eq_iff)
      then show ?thesis
        using True t' p1 tail by (simp add: delete_range_def)
    next
      case False
      then show ?thesis
        using t' tail delete_rows_pending [OF p1 same, of "unat start" "unat stop"] unat_u64_less [of stop]
        by (auto simp: delete_range_def word_le_nat_alt split: if_splits)
    qed
  qed
qed simp

section \<open>Truncating\<close>

lemma beyond_last_extent:
  assumes "(n + 32767) div 32768 \<le> (i :: nat) div 32768"
  shows "n \<le> i"
proof -
  have "n + 32767 < 32768 + (n + 32767) div 32768 * 32768"
    by (rule dividend_less_div_times) simp
  also have "\<dots> \<le> 32768 + i div 32768 * 32768"
    using assms by simp
  also have "\<dots> \<le> 32768 + i"
    by simp
  finally show ?thesis
    by simp
qed

lemma ceil_extents: "(n + 32767) div 32768 = n div 32768 + (if n mod 32768 > 0 then 1 else (0 :: nat))"
proof -
  have "n + 32767 = n mod 32768 + 32767 + n div 32768 * 32768"
    using div_mult_mod_eq [of n 32768] by linarith
  then have "(n + 32767) div 32768 = (n mod 32768 + 32767 + n div 32768 * 32768) div 32768"
    by (rule arg_cong)
  also have "\<dots> = n div 32768 + (n mod 32768 + 32767) div 32768"
    by (rule div_mult_self1) simp
  also have "(n mod 32768 + 32767) div 32768 = (if n mod 32768 > 0 then 1 else 0)"
    by (auto intro: div_nat_eqI)
  finally show ?thesis
    by simp
qed

lemma unat_div_ceil: "unat (div_ceil n EXTENT_SIZE) = (unat n + 32767) div 32768"
proof -
  let ?q = "unat n div 32768"
  have q: "?q < 2 ^ 49"
    using unat_u64_less [of n] by (simp add: div_less_iff_less_mult)
  have r: "n mod EXTENT_SIZE > 0 \<longleftrightarrow> unat n mod 32768 > 0"
    by (simp add: word_less_nat_alt)
  have "unat (n div EXTENT_SIZE + 1) = ?q + 1"
    using q by (simp add: unat_word_ariths)
  then have "unat (div_ceil n EXTENT_SIZE) = ?q + (if unat n mod 32768 > 0 then 1 else 0)"
    by (simp add: div_ceil_def Let_def r)
  then show ?thesis
    by (simp add: ceil_extents)
qed

lemma truncate_extent:
  assumes "0 < n mod 32768" "unat idx = n div 32768"
  shows "take (n mod 32768) (extent_of f idx) @ replicate (32768 - n mod 32768) 0 = extent_of (cut_off f n) idx"
proof (rule extent_of_eqI [symmetric])
  fix i :: nat
  assume i: "i < 32768"
  have n: "n div 32768 * 32768 + n mod 32768 = n"
    by simp
  have "unat idx * 32768 + i < n \<longleftrightarrow> i < n mod 32768"
    using n by (simp only: assms(2)) linarith
  then show "(take (n mod 32768) (extent_of f idx) @ replicate (32768 - n mod 32768) 0) ! i = cut_off f n (unat idx * 32768 + i)"
    using i by (cases "i < n mod 32768") (auto simp: cut_off_def nth_append nth_extent_of)
qed (simp add: less_imp_le)

lemma cut_off_whole:
  assumes "eof_clean f old_size" "n mod 32768 = 0"
  shows "zero_extents f ((n + 32767) div 32768) ((unat old_size + 32767) div 32768) = cut_off f n"
proof
  fix i
  have "n \<le> i \<longleftrightarrow> n div 32768 \<le> i div 32768"
    using div_mult_mod_eq [of n 32768] assms(2) by (simp add: less_eq_div_iff_mult_less_eq)
  moreover have "f i = 0" if "(unat old_size + 32767) div 32768 \<le> i div 32768"
    using assms(1) beyond_last_extent [OF that] by (simp add: eof_clean_def)
  ultimately show "zero_extents f ((n + 32767) div 32768) ((unat old_size + 32767) div 32768) i = cut_off f n i"
    using assms(2) by (auto simp: zero_extents_def cut_off_def ceil_extents)
qed

lemma cut_off_part:
  assumes "eof_clean f old_size" "0 < n mod 32768" "unat idx = n div 32768"
  shows "apply_edits (zero_extents f ((n + 32767) div 32768) ((unat old_size + 32767) div 32768))
      [extent_edit idx (extent_of (cut_off f n) idx)] = cut_off f n"
proof
  fix i
  have "f i = 0" if "(unat old_size + 32767) div 32768 \<le> i div 32768"
    using assms(1) beyond_last_extent [OF that] by (simp add: eof_clean_def)
  moreover have "i < n" if "i div 32768 < n div 32768"
    using that by (meson div_le_mono linorder_not_le)
  moreover have "n < i" if "n div 32768 < i div 32768"
    using that by (meson div_le_mono linorder_not_le)
  moreover have "apply_edits g [extent_edit idx (extent_of (cut_off f n) idx)] i = (if i div 32768 = n div 32768 then cut_off f n i else g i)" for g
    using apply_extent_edits [of g "cut_off f n" "[idx]" i] by (simp add: assms(3))
  moreover have "(n + 32767) div 32768 = n div 32768 + 1"
    using assms(2) by (simp add: ceil_extents)
  ultimately show "apply_edits (zero_extents f ((n + 32767) div 32768) ((unat old_size + 32767) div 32768))
      [extent_edit idx (extent_of (cut_off f n) idx)] i = cut_off f n i"
    by (cases "i div 32768" "n div 32768" rule: linorder_cases) (simp_all add: zero_extents_def cut_off_def)
qed

lemma stages_tail:
  assumes "stages env m F n c Q x" "xs_tail x ino = None"
  shows "stages env m F n c (\<lambda>v x'. Q v x' \<and> xs_tail x' ino = None) x"
  using assms(1) unfolding stages_def by (rule holds_mono) (use assms(2) in \<open>auto dest: spec [of _ ino]\<close>)

text \<open>Clearing the end of the last extent that is kept.\<close>

definition clear_last_extent :: "xenv \<Rightarrow> meta \<Rightarrow> inode_id \<Rightarrow> u64 \<Rightarrow> u64 \<Rightarrow> txn \<Rightarrow> (xstore, txn) sm" where
  "clear_last_extent env m ino old_size new_size t =
     sbind (extent_get env m ino (div_ceil new_size EXTENT_SIZE - 1)) (\<lambda>existing.
       let d = (case existing of Some d \<Rightarrow> d | None \<Rightarrow> ZERO_EXTENT);
           d = take (unat new_size mod 32768) d @ replicate (length d - unat new_size mod 32768) 0
       in stage_edits env m ino [extent_edit (div_ceil new_size EXTENT_SIZE - 1) d] (div_ceil old_size EXTENT_SIZE) t)"

lemma extent_truncate_code:
  assumes "new_size < old_size"
  shows "extent_truncate env m ino old_size new_size t =
    sbind (extent_delete_range env m ino (div_ceil new_size EXTENT_SIZE) (div_ceil old_size EXTENT_SIZE) t) (\<lambda>t1.
      if 0 < unat new_size mod 32768 then clear_last_extent env m ino old_size new_size t1 else sret t1)"
proof -
  have "new_size > 0 \<and> 0 < unat new_size mod 32768 \<longleftrightarrow> 0 < unat new_size mod 32768"
    by (cases "new_size = 0") (simp_all add: word_neq_0_conv)
  moreover have "\<not> old_size \<le> new_size"
    using assms by simp
  ultimately show ?thesis
    unfolding extent_truncate_def clear_last_extent_def Let_def unat_extent_index by simp
qed

lemma clear_last_extent_stages:
  assumes inv: "xinv env m F x" and env: "xenv_ok env" and r: "0 < unat new_size mod 32768"
    and eof: "eof_clean (F ino) old_size" and room: "segid_room 1 x" and tail: "xs_tail x ino = None"
    and pend: "pending (xe_data env) m x t
      (G(ino := zero_extents (F ino) ((unat new_size + 32767) div 32768) ((unat old_size + 32767) div 32768)))"
  shows "stages env m F 1 (clear_last_extent env m ino old_size new_size t)
    (\<lambda>t' x'. pending (xe_data env) m x' t' (G(ino := cut_off (F ino) (unat new_size))) \<and> xs_tail x' ino = None) x"
  unfolding clear_last_extent_def
proof (rule stages_bind [OF reads_stages [OF extent_get_reads [OF inv]], where b = 1], goal_cases)
  case (1 v x2)
  let ?h = "cut_off (F ino) (unat new_size)" and ?ext = "div_ceil new_size EXTENT_SIZE - 1"
  have idx: "unat ?ext = unat new_size div 32768"
    using r by (simp add: unat_sub_if' word_le_nat_alt unat_div_ceil ceil_extents)
  have v: "(case v of Some p \<Rightarrow> p | None \<Rightarrow> ZERO_EXTENT) = extent_of (F ino) ?ext"
    using 1(1) xinv_hole [OF inv] by (simp split: if_splits)
  have room2: "segid_room 1 x2" and tail2: "xs_tail x2 ino = None"
    using 1(4,5) room tail by (auto simp: segid_room_def dest: spec [of _ ino])
  have pay: "\<forall>p \<in> set (edit_payloads [extent_edit ?ext (extent_of ?h ?ext)]). length p = 32768"
    using extent_edit_payloads [of ?h "[?ext]"] by simp
  have "stages env m F 1 (stage_edits env m ino [extent_edit ?ext (extent_of ?h ?ext)] (div_ceil old_size EXTENT_SIZE) t)
      (\<lambda>t' x'. pending (xe_data env) m x' t' (G(ino := ?h))) x2"
    using stage_edits_stages [where ino = ino and stop = "div_ceil old_size EXTENT_SIZE",
        OF 1(2) env pay pending_grows [OF 1(3) pend] room2] cut_off_part [OF eof r idx] by simp
  then show ?case
    unfolding v Let_def length_extent_of truncate_extent [OF r idx] by (rule stages_tail) (rule tail2)
qed simp

lemma extent_truncate_stages:
  assumes inv: "xinv env m F x" and env: "xenv_ok env" and pend: "pending (xe_data env) m x t G" and G: "G ino = F ino"
    and same: "\<And>idx. staged_rows m t (ino, idx) = m_extents m (ino, idx)"
    and eof: "eof_clean (F ino) old_size" and room: "segid_room 1 x"
  shows "stages env m F 1 (extent_truncate env m ino old_size new_size t)
    (\<lambda>t' x'. pending (xe_data env) m x' t' (G(ino := cut_off (F ino) (unat new_size)))
       \<and> (new_size < old_size \<longrightarrow> xs_tail x' ino = None)) x"
proof (cases "new_size < old_size")
  case False
  then have "cut_off (F ino) (unat new_size) = G ino"
    using eof by (auto simp: cut_off_def eof_clean_def word_less_nat_alt fun_eq_iff G)
  then show ?thesis
    using False inv pend by (auto simp: extent_truncate_def fun_upd_idem intro!: stages_sret)
next
  case True
  let ?n = "unat new_size"
  let ?g = "zero_extents (F ino) ((?n + 32767) div 32768) ((unat old_size + 32767) div 32768)"
  have del: "stages env m F 0 (extent_delete_range env m ino (div_ceil new_size EXTENT_SIZE) (div_ceil old_size EXTENT_SIZE) t)
      (\<lambda>t' x'. pending (xe_data env) m x' t' (G(ino := ?g)) \<and> xs_tail x' ino = None) x"
    using delete_range_stages [OF inv pend same, where start = "div_ceil new_size EXTENT_SIZE" and stop = "div_ceil old_size EXTENT_SIZE"]
    by (simp add: unat_div_ceil G)
  show ?thesis
    unfolding extent_truncate_code [OF True]
  proof (rule stages_bind [OF del, where b = 1], goal_cases)
    case (1 t1 x1)
    have x1: "segid_room 1 x1"
      using 1(4) room by (simp add: segid_room_def)
    show ?case
    proof (cases "0 < ?n mod 32768")
      case part: True
      have "stages env m F 1 (clear_last_extent env m ino old_size new_size t1)
          (\<lambda>t' x'. pending (xe_data env) m x' t' (G(ino := cut_off (F ino) ?n)) \<and> xs_tail x' ino = None) x1"
        using 1(1) by (intro clear_last_extent_stages [OF 1(2) env part eof x1]) simp_all
      from stages_mono [OF this _ le_refl] show ?thesis
        using part by simp
    next
      case whole: False
      then have "?g = cut_off (F ino) ?n"
        by (intro cut_off_whole [OF eof]) simp
      then show ?thesis
        using whole 1 by (auto intro!: stages_sret)
    qed
  qed simp
qed

section \<open>Zeroing a range\<close>

definition zero_span :: "(nat \<Rightarrow> u8) \<Rightarrow> nat \<Rightarrow> nat \<Rightarrow> nat \<Rightarrow> u8" where
  "zero_span f a b = (\<lambda>i. if a \<le> i \<and> i < b then 0 else f i)"

text \<open>Edits that turn \<open>f\<close> into \<open>g\<close> on the extents \<open>idxs\<close>.\<close>

definition edits_to :: "(nat \<Rightarrow> u8) \<Rightarrow> (nat \<Rightarrow> u8) \<Rightarrow> u64 list \<Rightarrow> edit list \<Rightarrow> bool" where
  "edits_to f g idxs edits \<longleftrightarrow>
     (\<forall>p \<in> set (edit_payloads edits). length p = 32768)
     \<and> (\<forall>h. (\<forall>i. i div 32768 \<in> unat ` set idxs \<longrightarrow> h i = f i) \<longrightarrow>
          apply_edits h edits = (\<lambda>i. if i div 32768 \<in> unat ` set idxs then g i else h i))"

lemma edits_toD:
  assumes "edits_to f g idxs edits" "\<And>i. i div 32768 \<in> unat ` set idxs \<Longrightarrow> h i = f i"
  shows "apply_edits h edits = (\<lambda>i. if i div 32768 \<in> unat ` set idxs then g i else h i)"
  using assms(1) [unfolded edits_to_def, THEN conjunct2, THEN spec, of h, THEN mp] assms(2) by simp

lemma edits_to_Nil: "edits_to f g [] []"
  by (simp add: edits_to_def edit_payloads_def apply_edits_def map_filter_simps)

lemma edits_to_skip:
  assumes "edits_to f g idxs edits" "extent_of f idx = extent_of g idx"
  shows "edits_to f g (idx # idxs) edits"
proof -
  have same: "f i = g i" if "i div 32768 = unat idx" for i
    using arg_cong [OF assms(2), of "\<lambda>l. l ! (i mod 32768)"] that div_mult_mod_eq [of i 32768]
    by (simp add: nth_extent_of)
  have "apply_edits h edits = (\<lambda>i. if i div 32768 \<in> unat ` set (idx # idxs) then g i else h i)"
    if h: "\<forall>i. i div 32768 \<in> unat ` set (idx # idxs) \<longrightarrow> h i = f i" for h
  proof -
    have "apply_edits h edits = (\<lambda>i. if i div 32768 \<in> unat ` set idxs then g i else h i)"
      by (rule edits_toD [OF assms(1)]) (simp add: h)
    moreover have "h i = g i" if "i div 32768 = unat idx" for i
      using h that same [OF that] by simp
    ultimately show ?thesis
      by auto
  qed
  then show ?thesis
    using assms(1) unfolding edits_to_def by blast
qed

lemma edits_to_edit:
  assumes rest: "edits_to f g idxs edits" and idx: "idx \<notin> set idxs" and e: "e = extent_edit idx (extent_of g idx)"
  shows "edits_to f g (idx # idxs) (e # edits)"
  unfolding edits_to_def
proof (intro conjI allI impI)
  show "\<forall>p \<in> set (edit_payloads (e # edits)). length p = 32768"
    using rest [unfolded edits_to_def, THEN conjunct1]
    by (auto simp: edit_payloads_def e extent_edit_def map_filter_simps)
  fix h
  assume h: "\<forall>i. i div 32768 \<in> unat ` set (idx # idxs) \<longrightarrow> h i = f i"
  let ?h = "\<lambda>i. if i div 32768 = unat idx then g i else h i"
  have one: "apply_edits h (e # edits) = apply_edits ?h edits"
  proof -
    have "apply_edits h [e] i = ?h i" for i
      using apply_extent_edits [of h g "[idx]" i] by (simp add: e)
    then have "apply_edits h [e] = ?h"
      by (rule ext)
    moreover have "apply_edits h (e # edits) = apply_edits (apply_edits h [e]) edits"
      by (simp add: apply_edits_def)
    ultimately show ?thesis
      by simp
  qed
  have "unat idx \<notin> unat ` set idxs"
    using idx by (auto simp flip: word_unat_eq_iff)
  then have "\<forall>i. i div 32768 \<in> unat ` set idxs \<longrightarrow> ?h i = f i"
    using h by (simp add: image_iff)
  then have "apply_edits ?h edits = (\<lambda>i. if i div 32768 \<in> unat ` set idxs then g i else ?h i)"
    by (intro edits_toD [OF rest]) simp
  then have "apply_edits ?h edits i = (if i div 32768 \<in> unat ` set (idx # idxs) then g i else h i)" for i
    by simp
  then show "apply_edits h (e # edits) = (\<lambda>i. if i div 32768 \<in> unat ` set (idx # idxs) then g i else h i)"
    unfolding one by (rule ext)
qed

lemma zero_window:
  assumes fits: "k * 32768 + 32768 < 2 ^ 64" and k: "unat offset < k * 32768 + 32768" "k * 32768 < unat stop"
    and ab: "write_window offset stop (word_of_nat k) = (a, b)" and le: "unat offset \<le> unat stop"
  shows "write_at a (replicate (b - a) 0) (extent_of f (word_of_nat k)) = extent_of (zero_span f (unat offset) (unat stop)) (word_of_nat k)"
proof -
  let ?w = "word_of_nat k :: u64" and ?g = "zero_span f (unat offset) (unat stop)"
  have w: "unat ?w = k"
    using fits by (intro unat_u64_of_nat) simp
  define A where "A = max (unat offset) (k * 32768)"
  define B where "B = min (unat stop) (k * 32768 + 32768)"
  have AB: "k * 32768 \<le> A" "A \<le> B" "B \<le> k * 32768 + 32768" "a = A - k * 32768" "b = B - k * 32768"
    using k le ab write_window_nat [OF fits, of stop offset] by (auto simp: A_def B_def min_def)
  have "map ?g [A..<B] = map (\<lambda>_. 0) [A..<B]"
    by (rule map_cong) (auto simp: zero_span_def A_def B_def)
  then have "map ?g [A..<B] = replicate (B - A) 0"
    by (simp add: map_replicate_const)
  moreover have "write_at (A - unat ?w * 32768) (map ?g [A..<B]) (extent_of f ?w) = extent_of ?g ?w"
    using AB by (intro write_at_extent) (auto simp: w zero_span_def A_def B_def)
  ultimately show ?thesis
    using AB by (simp add: w)
qed

lemma zero_edits_reads:
  assumes inv: "xinv env m F x" and eof: "eof_clean (F ino) file_size" and le: "unat offset \<le> unat stop"
    and idxs: "distinct ks" "\<forall>k \<in> set ks. k * 32768 + 32768 < 2 ^ 64 \<and> unat offset < k * 32768 + 32768 \<and> k * 32768 < unat stop"
  shows "reads env m F (zero_edits env m ino offset stop file_size (map word_of_nat ks))
    (edits_to (F ino) (zero_span (F ino) (unat offset) (unat stop)) (map word_of_nat ks)) x"
  using inv idxs
proof (induction ks arbitrary: x)
  case Nil
  then show ?case
    by (simp add: edits_to_Nil)
next
  case (Cons k ks)
  let ?w = "word_of_nat k :: u64" and ?g = "zero_span (F ino) (unat offset) (unat stop)"
  have fits: "k * 32768 + 32768 < 2 ^ 64" "unat offset < k * 32768 + 32768" "k * 32768 < unat stop"
    using Cons.prems(3) by simp_all
  have w: "unat ?w = k"
    using fits(1) by (intro unat_u64_of_nat) simp
  have fresh: "?w \<notin> set (map word_of_nat ks)"
  proof
    assume "?w \<in> set (map word_of_nat ks)"
    then obtain j where j: "j \<in> set ks" "?w = word_of_nat j"
      by auto
    have "j * 32768 + 32768 < 2 ^ 64"
      using Cons.prems(3) j(1) by simp
    then have "unat (word_of_nat j :: u64) = j"
      by (intro unat_u64_of_nat) simp
    then have "k = j"
      using j(2) w by metis
    then show False
      using j(1) Cons.prems(2) by simp
  qed
  have rest: "reads env m F (zero_edits env m ino offset stop file_size (map word_of_nat ks)) (edits_to (F ino) ?g (map word_of_nat ks)) x1"
    if "xinv env m F x1" for x1
    using Cons.IH [OF that] Cons.prems(2,3) by simp
  have hole: "extent_of (F ino) ?w = extent_of ?g ?w" if "extent_of (F ino) ?w = ZERO_EXTENT"
  proof (rule extent_of_eqI)
    fix i :: nat
    assume i: "i < 32768"
    then have "F ino (k * 32768 + i) = 0"
      by (intro zero_extent_bytes [OF that]) (simp add: w)
    then show "extent_of ?g ?w ! i = F ino (unat ?w * 32768 + i)"
      using i by (simp add: nth_extent_of w zero_span_def)
  qed simp
  have cover: "extent_of ?g ?w = ZERO_EXTENT" if "covers_extent offset stop ?w"
    using that by (intro extent_of_eqI) (simp_all add: covers_extent_nat [OF fits(1)] w zero_span_def ZERO_EXTENT_def)
  have skip: "reads env m F (zero_edits env m ino offset stop file_size (map word_of_nat ks))
      (edits_to (F ino) ?g (map word_of_nat (k # ks))) x1" if "xinv env m F x1" "extent_of (F ino) ?w = ZERO_EXTENT" for x1
    using reads_mono [OF rest [OF that(1)]] edits_to_skip hole [OF that(2)] by fastforce
  have edit: "reads env m F (sbind (zero_edits env m ino offset stop file_size (map word_of_nat ks))
        (\<lambda>edits. sret (extent_edit ?w (extent_of ?g ?w) # edits)))
      (edits_to (F ino) ?g (map word_of_nat (k # ks))) x1" if "xinv env m F x1" for x1
    by (rule reads_bind [OF rest [OF that]]) (use edits_to_edit [OF _ fresh refl] in simp)
  have code: "zero_edits env m ino offset stop file_size (map word_of_nat (k # ks)) =
      (if ?w * EXTENT_SIZE \<ge> file_size then zero_edits env m ino offset stop file_size (map word_of_nat ks)
       else if covers_extent offset stop ?w then
         sbind (zero_edits env m ino offset stop file_size (map word_of_nat ks)) (\<lambda>edits. sret ((?w, None) # edits))
       else sbind (extent_get env m ino ?w) (\<lambda>existing. case existing of
           None \<Rightarrow> zero_edits env m ino offset stop file_size (map word_of_nat ks)
         | Some d \<Rightarrow> let (a, b) = write_window offset stop ?w; d = write_at a (replicate (b - a) 0) d in
             sbind (zero_edits env m ino offset stop file_size (map word_of_nat ks)) (\<lambda>edits. sret (extent_edit ?w d # edits))))"
    by simp
  have eofw: "extent_of (F ino) ?w = ZERO_EXTENT" if "?w * EXTENT_SIZE \<ge> file_size"
    using that beyond_eof_zero [OF eof, of ?w] fits(1) by (simp add: word_le_nat_alt unat_word_ariths w)
  have "(?w, None) = extent_edit ?w (extent_of ?g ?w)" if "covers_extent offset stop ?w"
    using cover [OF that] by (simp add: extent_edit_def)
  moreover have "reads env m F (sbind (extent_get env m ino ?w) (\<lambda>existing. case existing of
           None \<Rightarrow> zero_edits env m ino offset stop file_size (map word_of_nat ks)
         | Some d \<Rightarrow> let (a, b) = write_window offset stop ?w; d = write_at a (replicate (b - a) 0) d in
             sbind (zero_edits env m ino offset stop file_size (map word_of_nat ks)) (\<lambda>edits. sret (extent_edit ?w d # edits))))
      (edits_to (F ino) ?g (map word_of_nat (k # ks))) x"
  proof (rule reads_bind [OF extent_get_reads [OF Cons.prems(1)]], goal_cases)
    case (1 v x1)
    obtain a b where ab: "write_window offset stop ?w = (a, b)"
      by fastforce
    show ?case
      using skip [OF 1(3) xinv_hole [OF Cons.prems(1)]] edit [OF 1(3)] 1(1) zero_window [OF fits ab le]
      by (auto simp: ab Let_def split: if_splits)
  qed
  ultimately show ?case
    unfolding code using skip [OF Cons.prems(1) eofw] edit [OF Cons.prems(1)] by (simp only: split: if_split) auto
qed

lemma zero_span_edits:
  assumes "edits_to f (zero_span f (unat offset) (unat stop))
      (extent_indices (offset div EXTENT_SIZE) ((stop - 1) div EXTENT_SIZE)) edits" "unat offset < unat stop"
  shows "apply_edits f edits = zero_span f (unat offset) (unat stop)"
proof
  fix i
  have "0 < unat stop"
    using assms(2) by simp
  note ex = range_extents [OF this, of offset]
  have "i div 32768 \<in> {unat offset div 32768..(unat stop - 1) div 32768}" if "unat offset \<le> i" "i < unat stop"
    using that by (auto intro!: div_le_mono)
  then show "apply_edits f edits i = zero_span f (unat offset) (unat stop) i"
    unfolding edits_toD [OF assms(1) refl] ex by (auto simp: zero_span_def)
qed

lemma extent_zero_range_stages:
  assumes inv: "xinv env m F x" and env: "xenv_ok env" and pend: "pending (xe_data env) m x t G" and G: "G ino = F ino"
    and eof: "eof_clean (F ino) file_size" and fits: "unat offset + unat len \<le> 2 ^ 64 - 32768" and room: "segid_room 1 x"
  shows "stages env m F 1 (extent_zero_range env m ino offset len file_size t)
    (\<lambda>t' x'. pending (xe_data env) m x' t' (G(ino := zero_span (F ino) (unat offset) (unat offset + unat len)))
       \<and> (len \<noteq> 0 \<longrightarrow> xs_tail x' ino = None)) x"
proof (cases "len = 0")
  case True
  then have "zero_span (F ino) (unat offset) (unat offset + unat len) = G ino"
    by (auto simp: zero_span_def fun_eq_iff G)
  then show ?thesis
    using True inv pend by (auto simp: extent_zero_range_def fun_upd_idem intro!: stages_sret)
next
  case False
  define stop where "stop = offset + len"
  let ?g = "zero_span (F ino) (unat offset) (unat stop)"
  let ?idxs = "extent_indices (offset div EXTENT_SIZE) ((stop - 1) div EXTENT_SIZE)"
  have "0 < unat len"
    using False by (simp add: unat_gt_0)
  then have e: "unat stop = unat offset + unat len" "unat stop \<le> 2 ^ 64 - 32768" "0 < unat stop" "unat offset < unat stop"
    using fits by (simp_all add: stop_def unat_word_ariths)
  have add: "checked_add offset len = Some stop"
    using fits by (simp add: checked_add_def stop_def)
  define ks where "ks = [unat offset div 32768..<Suc ((unat stop - 1) div 32768)]"
  have pred: "unat (stop - 1) = unat stop - 1"
    using e(3) by (simp add: unat_sub_if' word_le_nat_alt Suc_le_eq)
  have ks: "?idxs = map word_of_nat ks" "distinct ks"
    by (simp_all add: ks_def extent_indices_def pred)
  have range: "\<forall>k \<in> set ks. k * 32768 + 32768 < 2 ^ 64 \<and> unat offset < k * 32768 + 32768 \<and> k * 32768 < unat stop"
  proof
    fix k
    assume "k \<in> set ks"
    then have k: "unat offset div 32768 \<le> k" "k \<le> (unat stop - 1) div 32768"
      by (auto simp: ks_def)
    have "unat offset < Suc (unat offset div 32768) * 32768"
      using dividend_less_div_times [of 32768 "unat offset"] by simp
    also have "\<dots> \<le> Suc k * 32768"
      using k(1) by simp
    finally show "k * 32768 + 32768 < 2 ^ 64 \<and> unat offset < k * 32768 + 32768 \<and> k * 32768 < unat stop"
      using last_extent_fits [OF k(2) e(3,2)] by simp
  qed
  have code: "extent_zero_range env m ino offset len file_size t =
      sbind (smodify (tail_invalidate ino)) (\<lambda>_.
      sbind (zero_edits env m ino offset stop file_size ?idxs) (\<lambda>edits.
        stage_edits env m ino edits (div_ceil file_size EXTENT_SIZE) t))"
    by (simp add: extent_zero_range_def False add ok_or_def sbind_slift)
  show ?thesis
    unfolding code
  proof (rule stages_bind [OF tail_invalidate_stages [OF inv], where b = 1], goal_cases)
    case (1 v x1)
    have tail: "xs_tail x1 ino = None"
      using 1(1) by (simp add: tail_invalidate_def)
    have "stages env m F 1 (sbind (zero_edits env m ino offset stop file_size ?idxs) (\<lambda>edits.
        stage_edits env m ino edits (div_ceil file_size EXTENT_SIZE) t)) (\<lambda>t' x'. pending (xe_data env) m x' t' (G(ino := ?g))) x1"
    proof (rule stages_bind [OF reads_stages [OF zero_edits_reads [OF 1(2) eof less_imp_le [OF e(4)] ks(2) range, folded ks(1)]], where b = 1], goal_cases)
      case edits: (1 edits x2)
      have "segid_room 1 x2"
        using edits(4) 1(4) room by (simp add: segid_room_def)
      moreover have "\<forall>p \<in> set (edit_payloads edits). length p = 32768"
        using edits(1) unfolding edits_to_def by (rule conjunct1)
      ultimately show ?case
        using stage_edits_stages [OF edits(2) env _ pending_grows [OF edits(3) pending_grows [OF 1(3) pend]],
            of edits ino "div_ceil file_size EXTENT_SIZE"] zero_span_edits [OF edits(1) e(4)] G by simp
    qed simp
    from stages_mono [OF stages_tail [OF this tail] _ le_refl] show ?case
      by (simp add: e(1))
  qed simp
qed

end
