(* ===== verification/Extent_Durable.thy ===== *)
theory Extent_Durable
  imports Extent_Trim
begin

text \<open>
  A new extent store over the segments of the object store (\<open>fs/store/extent/mod.rs\<close>), as every start
  of the process makes one, and what the durability barrier is for: once it has succeeded, a process
  that starts again with a new epoch finds every committed extent.
\<close>

section \<open>A new store\<close>

fun new_lanes :: "nat \<Rightarrow> seg_store \<Rightarrow> open_segment list \<times> seg_store" where
  "new_lanes 0 st = ([], st)"
| "new_lanes (Suc n) st =
     (let (s, st) = next_segid st; (lanes, st) = new_lanes n st in
      (\<lparr>os_segid = s, os_buf = [], os_dir = []\<rparr> # lanes, st))"

definition extent_store_new :: "seg_store \<Rightarrow> xstore" where
  "extent_store_new st =
     (let (lanes, st) = new_lanes OPEN_SEGMENT_LANES st in
      \<lparr>xs_lanes = lanes, xs_sealing = [], xs_store = st, xs_tail = Map.empty, xs_decoded = Map.empty,
       xs_locs = Map.empty\<rparr>)"

text \<open>No segment of this epoch is stored yet.\<close>

definition fresh_epoch :: "seg_store \<Rightarrow> bool" where
  "fresh_epoch st \<longleftrightarrow>
     (\<forall>s. ss_objects st (object_key s) \<noteq> None \<longrightarrow> sg_epoch s \<noteq> ss_epoch st)
     \<and> unat (ss_counter st) + OPEN_SEGMENT_LANES < 2 ^ 64"

section \<open>Lemmas\<close>

lemma new_lanes_eq:
  "new_lanes n st =
   (map (\<lambda>k. \<lparr>os_segid = segid_new (ss_epoch st) (ss_counter st + word_of_nat k), os_buf = [], os_dir = []\<rparr>) [0..<n],
    st\<lparr>ss_counter := ss_counter st + word_of_nat n\<rparr>)"
proof (induction n arbitrary: st)
  case (Suc n)
  have "map f [0..<Suc n] = f 0 # map (\<lambda>k. f (Suc k)) [0..<n]" for f :: "nat \<Rightarrow> open_segment"
    by (simp add: map_upt_Suc del: upt_Suc)
  then show ?case
    by (simp add: Suc next_segid_def Let_def algebra_simps del: upt_Suc)
qed simp

lemma extent_store_new_eq:
  "extent_store_new st = \<lparr>xs_lanes = map (\<lambda>k. \<lparr>os_segid = segid_new (ss_epoch st) (ss_counter st + word_of_nat k),
       os_buf = [], os_dir = []\<rparr>) [0..<OPEN_SEGMENT_LANES],
     xs_sealing = [], xs_store = st\<lparr>ss_counter := ss_counter st + word_of_nat OPEN_SEGMENT_LANES\<rparr>,
     xs_tail = Map.empty, xs_decoded = Map.empty, xs_locs = Map.empty\<rparr>"
  by (simp add: extent_store_new_def new_lanes_eq del: upt_Suc)

lemma lane_counter:
  assumes "fresh_epoch st" "k \<le> OPEN_SEGMENT_LANES"
  shows "unat (ss_counter st + word_of_nat k) = unat (ss_counter st) + k"
  using assms by (simp add: fresh_epoch_def unat_word_ariths unat_u64_of_nat OPEN_SEGMENT_LANES_def)

lemma new_store_segids:
  assumes "fresh_epoch st"
  shows "segids_ok (extent_store_new st)"
proof -
  let ?seg = "\<lambda>k. segid_new (ss_epoch st) (ss_counter st + word_of_nat k)"
  have inj: "inj_on ?seg {0..<OPEN_SEGMENT_LANES}"
  proof (rule inj_onI)
    fix i j
    assume ij: "i \<in> {0..<OPEN_SEGMENT_LANES}" "j \<in> {0..<OPEN_SEGMENT_LANES}" "?seg i = ?seg j"
    then have "unat (ss_counter st + word_of_nat i) = unat (ss_counter st + word_of_nat j)"
      by (simp add: segid_new_def)
    then show "i = j"
      using ij lane_counter [OF assms] by simp
  qed
  have none: "ss_objects st (object_key (?seg k)) = None" for k
    using assms by (auto simp: fresh_epoch_def segid_new_def)
  have less: "ss_counter st + word_of_nat k < ss_counter st + word_of_nat OPEN_SEGMENT_LANES" if "k < OPEN_SEGMENT_LANES" for k
    using that lane_counter [OF assms] by (simp add: word_less_nat_alt)
  show ?thesis
    unfolding segids_ok_def known_segid_def extent_store_new_eq using inj none less assms
    by (auto simp: comp_def distinct_map segid_new_def fresh_epoch_def image_iff simp del: upt_Suc)
qed

lemma new_store_bytes:
  assumes "fresh_epoch st" "ss_objects st (object_key s) = Some b"
  shows "segment_bytes (extent_store_new st) s = Some b"
proof -
  have "s \<notin> os_segid ` set (xs_lanes (extent_store_new st))"
    using assms by (auto simp: extent_store_new_eq fresh_epoch_def segid_new_def simp del: upt_Suc)
  then have "ram_bytes (extent_store_new st) s = None"
    by (auto simp: ram_bytes_def extent_store_new_eq find_None_iff image_iff simp del: upt_Suc split: option.split)
  then show ?thesis
    by (simp add: segment_bytes_def assms(2)) (simp add: extent_store_new_eq assms(2))
qed

text \<open>The empty volume.\<close>

lemma extent_of_zero [simp]: "extent_of (\<lambda>_. 0) idx = ZERO_EXTENT"
  by (rule extent_of_eqI) (simp_all add: ZERO_EXTENT_def)

lemma new_store_inv:
  assumes "fresh_epoch st" "m_extents m = Map.empty"
  shows "xinv env m (\<lambda>_ _. 0) (extent_store_new st)"
  using new_store_segids [OF assms(1)] assms(2)
  by (simp add: xinv_def row_holds_def) (simp add: extent_store_new_eq)

section \<open>After a restart\<close>

text \<open>The contents that rows and stored objects give without any process: every row names a frame of a
  stored segment.\<close>

definition stored_contents :: "data_env \<Rightarrow> objects \<Rightarrow> meta \<Rightarrow> contents \<Rightarrow> bool" where
  "stored_contents d objs m F \<longleftrightarrow>
     (\<forall>ino idx. case m_extents m (ino, idx) of
        None \<Rightarrow> extent_of (F ino) idx = ZERO_EXTENT
      | Some loc \<Rightarrow> unat (fl_byte_len loc) \<le> 65536
          \<and> (\<exists>obj. objs (object_key (fl_segid loc)) = Some obj
               \<and> stored_frame d obj loc ino idx (extent_of (F ino) idx)))"

lemma stored_contents_more:
  assumes "stored_contents d objs m F" "objs \<subseteq>\<^sub>m objects'"
  shows "stored_contents d objects' m F"
  unfolding stored_contents_def
proof (intro allI)
  fix ino idx
  have "case m_extents m (ino, idx) of
        None \<Rightarrow> extent_of (F ino) idx = ZERO_EXTENT
      | Some loc \<Rightarrow> unat (fl_byte_len loc) \<le> 65536
          \<and> (\<exists>obj. objs (object_key (fl_segid loc)) = Some obj
               \<and> stored_frame d obj loc ino idx (extent_of (F ino) idx))"
    using assms(1) by (simp add: stored_contents_def)
  then show "case m_extents m (ino, idx) of
        None \<Rightarrow> extent_of (F ino) idx = ZERO_EXTENT
      | Some loc \<Rightarrow> unat (fl_byte_len loc) \<le> 65536
          \<and> (\<exists>obj. objects' (object_key (fl_segid loc)) = Some obj
               \<and> stored_frame d obj loc ino idx (extent_of (F ino) idx))"
    using assms(2) by (auto simp: map_le_def dom_def split: option.splits)
qed

lemma published_contents:
  assumes "segids_ok x" "row_holds (xe_data env) x (m_extents m) F" "all_published x"
  shows "stored_contents (xe_data env) (ss_objects (xs_store x)) m F"
  using assms(2) published_frame [OF assms(1,3)] unfolding row_holds_def stored_contents_def
  by (force split: option.splits)

lemma restart_inv:
  assumes st: "fresh_epoch st" and held: "stored_contents (xe_data env) (ss_objects st) m F"
  shows "xinv env m F (extent_store_new st)"
proof -
  have "frame_in (xe_data env) (extent_store_new st) loc ino idx p"
    if "ss_objects st (object_key (fl_segid loc)) = Some obj" "stored_frame (xe_data env) obj loc ino idx p" for loc ino idx p obj
    using that new_store_bytes [OF st that(1)] unfolding frame_in_def by auto
  then have "row_holds (xe_data env) (extent_store_new st) (m_extents m) F"
    using held unfolding row_holds_def stored_contents_def by (force split: option.splits)
  moreover have "xs_decoded (extent_store_new st) = Map.empty" "xs_locs (extent_store_new st) = Map.empty"
    "xs_tail (extent_store_new st) = Map.empty"
    by (simp_all add: extent_store_new_eq)
  ultimately show ?thesis
    using new_store_segids [OF st] by (simp add: xinv_def)
qed

end
