(* ===== verification/File_State.thy ===== *)
theory File_State
  imports Extent_Durable Op_Link
begin

text \<open>
  A volume: the metadata side of the file system beside the extent store, as the operations on file
  contents (\<open>fs/ops/write.rs\<close>, \<open>fs/ops/io.rs\<close>, \<open>fs/ops/setattr.rs\<close>) see them. An operation stages
  frames in the extent store and rows in a transaction; the commit applies the rows, publishes the
  row-lookup cache and settles quota, statistics and the last-extent cache. There is no volatile
  overlay: the size an operation sees is the one in the inode row.

  The contract of an operation is \<open>vol_result\<close>: refused, replayed, or applied in one commit. What it
  does to the contents of files is stated beside what it does to the rows, for all contents that
  the volume may hold.
\<close>

section \<open>State, environment and steps\<close>

record volume =
  v_fs :: fs
  v_x :: xstore

record io_env =
  io_op :: op_env
  io_x :: xenv

type_synonym 'a vm = "(volume, 'a) sm"

abbreviation v_meta :: "volume \<Rightarrow> meta" where
  "v_meta v \<equiv> st_meta (v_fs v)"

definition on_fs :: "'a fsm \<Rightarrow> 'a vm" where
  "on_fs c v = (let (r, s) = c (v_fs v) in (r, v\<lparr>v_fs := s\<rparr>))"

definition on_data :: "(meta \<Rightarrow> (xstore, 'a) sm) \<Rightarrow> 'a vm" where
  "on_data c v = (let (r, x) = c (v_meta v) (v_x v) in (r, v\<lparr>v_x := x\<rparr>))"

definition v_inode_get :: "io_env \<Rightarrow> inode_id \<Rightarrow> inode vm" where
  "v_inode_get env ino = sread (\<lambda>v. inode_get (oe_faults (io_op env)) (v_meta v) ino)"

definition s_reserve :: "u64 \<Rightarrow> reservation fsm" where
  "s_reserve bytes s = (let (r, q) = quota_reserve (st_quota s) bytes in (r, s\<lparr>st_quota := q\<rparr>))"

definition reserve_growth :: "u64 \<Rightarrow> u64 \<Rightarrow> reservation option vm" where
  "reserve_growth old_size new_size =
     (if new_size > old_size then sbind (on_fs (s_reserve (new_size - old_size))) (\<lambda>r. sret (Some r)) else sret None)"

text \<open>A reservation that is not handed to the commit is dropped, and its bytes are released.\<close>

definition drop_reservation :: "reservation option \<Rightarrow> volume \<Rightarrow> volume" where
  "drop_reservation rsv v =
     (case rsv of
        None \<Rightarrow> v
      | Some r \<Rightarrow> v\<lparr>v_fs := (v_fs v)\<lparr>st_quota := reservation_drop (st_quota (v_fs v)) r\<rparr>\<rparr>)"

definition releasing :: "reservation option \<Rightarrow> 'a vm \<Rightarrow> 'a vm" where
  "releasing rsv c v = (case c v of (Inl e, v) \<Rightarrow> (Inl e, drop_reservation rsv v) | (Inr y, v) \<Rightarrow> (Inr y, v))"

text \<open>The inode row, and its copy in the directory listing while it has exactly one name.\<close>

definition save_inode_entry :: "io_env \<Rightarrow> inode_id \<Rightarrow> inode \<Rightarrow> txn \<Rightarrow> txn vm" where
  "save_inode_entry env ino i t =
     sread (\<lambda>v. let t = inode_save ino i t in
       case (inode_parent i, inode_name i) of
         (Some p, Some n) \<Rightarrow> update_inode_in_entry (oe_faults (io_op env)) (v_meta v) p n ino i t
       | _ \<Rightarrow> Inr t)"

definition v_unless_replayed_pre ::
  "io_env \<Rightarrow> op_id \<Rightarrow> (dedup_result \<Rightarrow> 'a option) \<Rightarrow> 'a vm \<Rightarrow> 'a vm" where
  "v_unless_replayed_pre env op extract k =
     sbind (slift (replay_dedup_result (st_ledger (oe_pre (io_op env))) op extract))
       (\<lambda>r. case r of Some x \<Rightarrow> sret x | None \<Rightarrow> k)"

definition v_unless_replayed :: "op_id \<Rightarrow> (dedup_result \<Rightarrow> 'a option) \<Rightarrow> 'a vm \<Rightarrow> 'a vm" where
  "v_unless_replayed op extract k =
     sbind (sread (\<lambda>v. replay_dedup_result (st_ledger (v_fs v)) op extract))
       (\<lambda>r. case r of Some x \<Rightarrow> sret x | None \<Rightarrow> k)"

text \<open>The commit of a transaction with extent rows. The caches follow the rows; a failed flush
  after the rows are applied does not undo them.\<close>

definition v_commit ::
  "io_env \<Rightarrow> txn \<Rightarrow> commit_settlement \<Rightarrow> (inode_id \<times> tail_update) list \<Rightarrow> unit vm" where
  "v_commit env t st tails v =
     (let w = oe_worker (io_op env);
          rq = \<lparr>cq_txn = t, cq_write_request = None, cq_settlement = st\<rparr>;
          (r, s) = s_commit (io_op env) t st (v_fs v)
      in (r, \<lparr>v_fs = s,
              v_x = (if settled_result w [rq] (v_fs v) = Inr () then commit_extents t tails (v_x v) else v_x v)\<rparr>))"

definition v_bump :: "metric list \<Rightarrow> unit vm" where
  "v_bump ks = on_fs (s_bump ks)"

section \<open>Rules for the steps\<close>

lemma holds_on_fs [simp]: "holds (on_fs c) Q v = holds c (\<lambda>r s. Q r (v\<lparr>v_fs := s\<rparr>)) (v_fs v)"
  by (simp add: holds_def on_fs_def Let_def split: prod.split)

lemma holds_on_data: "holds (on_data c) Q v = holds (c (v_meta v)) (\<lambda>r x. Q r (v\<lparr>v_x := x\<rparr>)) (v_x v)"
  by (simp add: holds_def on_data_def Let_def split: prod.split)

lemma holds_v_bump [simp]: "holds (v_bump ks) Q v = Q (Inr ()) (v\<lparr>v_fs := fold bump ks (v_fs v)\<rparr>)"
  by (simp add: v_bump_def)

lemma holds_releasing:
  "holds (releasing rsv c) Q v =
   holds c (\<lambda>r v'. case r of Inl e \<Rightarrow> Q (Inl e) (drop_reservation rsv v') | Inr y \<Rightarrow> Q (Inr y) v') v"
  by (simp add: holds_def releasing_def split: prod.split sum.split)

lemma holds_bindI:
  assumes "holds c P v" "\<And>e v'. P (Inl e) v' \<Longrightarrow> Q (Inl e) v'" "\<And>y v'. P (Inr y) v' \<Longrightarrow> holds (k y) Q v'"
  shows "holds (sbind c k) Q v"
  unfolding holds_bind using assms(1) by (rule holds_mono) (auto simp: assms(2,3) split: sum.split)

text \<open>Only the quota and the metrics of the metadata side have changed.\<close>

definition still :: "volume \<Rightarrow> volume \<Rightarrow> bool" where
  "still v v' \<longleftrightarrow> quiet 0 (v_fs v) (v_fs v')"

lemma still_refl [simp]: "still v v"
  by (simp add: still_def quiet_def)

lemma still_trans: "still u v \<Longrightarrow> still v w \<Longrightarrow> still u w"
  by (simp add: still_def quiet_def)

lemma still_rows: "still v v' \<Longrightarrow> v_meta v' = v_meta v \<and> st_ledger (v_fs v') = st_ledger (v_fs v)"
  by (simp add: still_def quiet_def)

lemma still_x [simp]: "still v (v'\<lparr>v_x := x\<rparr>) = still v v'" "still (v\<lparr>v_x := x\<rparr>) v' = still v v'"
  by (simp_all add: still_def)

lemma still_drop [simp]: "still v (drop_reservation rsv v') = still v v'" "v_x (drop_reservation rsv v) = v_x v"
  by (simp_all add: still_def quiet_def drop_reservation_def split: option.split)

lemma reserve_growth_still:
  "holds (reserve_growth old_size new_size) (\<lambda>r v'. still v v' \<and> v_x v' = v_x v) v"
  by (simp add: reserve_growth_def holds_bind)
    (simp add: holds_def s_reserve_def sret_def Let_def still_def quiet_def split: prod.split sum.split)

text \<open>What a caller knows of a commit.\<close>

definition v_committed :: "io_env \<Rightarrow> txn \<Rightarrow> (inode_id \<times> tail_update) list \<Rightarrow> bool \<Rightarrow> volume \<Rightarrow> volume \<Rightarrow> bool" where
  "v_committed env tx tails ok v v' \<longleftrightarrow>
     (v_meta v' = apply_ops (tx_ops tx) (v_meta v) \<and> st_ledger (v_fs v') = ledger_add (txn_entries tx) (st_ledger (v_fs v))
        \<and> v_x v' = commit_extents tx tails (v_x v) \<and> (ok \<or> we_sync_writes (oe_worker (io_op env)))
      \<or> v_meta v' = v_meta v \<and> st_ledger (v_fs v') = st_ledger (v_fs v) \<and> v_x v' = v_x v \<and> \<not> ok)
     \<and> st_next_id (v_fs v') \<in> {st_next_id (v_fs v), st_next_id (v_fs v) + 1} \<and> st_open (v_fs v') = st_open (v_fs v)"

lemma v_commit_committed:
  assumes "v_commit env tx st tails v = (r, v')"
  shows "v_committed env tx tails (r = Inr ()) v v'"
proof -
  let ?w = "oe_worker (io_op env)" and ?rq = "\<lparr>cq_txn = tx, cq_write_request = None, cq_settlement = st\<rparr>"
  obtain s where s: "s_commit (io_op env) tx st (v_fs v) = (r, s)" and v': "v' = \<lparr>v_fs = s,
      v_x = (if settled_result ?w [?rq] (v_fs v) = Inr () then commit_extents tx tails (v_x v) else v_x v)\<rparr>"
    using assms by (auto simp: v_commit_def Let_def split: prod.splits)
  have b: "worker_batch ?w [?rq] (v_fs v) = (r, s)"
    using s by (simp add: s_commit_def commit_with_settlement_def)
  have ops: "batch_ops [?rq] = tx_ops tx" "batch_entries [?rq] = txn_entries tx"
    by (simp_all add: batch_ops_def batch_entries_def txn_entries_def)
  have ids: "st_next_id s \<in> {st_next_id (v_fs v), st_next_id (v_fs v) + 1}" "st_open s = st_open (v_fs v)"
    using s_commit_committed [OF s] unfolding committed_def by auto
  show ?thesis
    using worker_batch_settled [OF b] ids unfolding v_committed_def v' ops by (auto split: if_splits)
qed

lemma holds_v_commitI:
  assumes "\<And>e v'. v_committed env tx tails False v v' \<Longrightarrow> Q (Inl e) v'"
    and "\<And>v'. v_committed env tx tails True v v' \<Longrightarrow> holds (k ()) Q v'"
  shows "holds (sbind (v_commit env tx st tails) k) Q v"
proof -
  obtain r v' where rv: "v_commit env tx st tails v = (r, v')"
    by fastforce
  show ?thesis
    using v_commit_committed [OF rv] assms(1) assms(2) [of v'] rv
    by (cases r) (simp_all add: holds_bind, simp_all add: holds_def)
qed

section \<open>Rows of the extent store in a transaction\<close>

text \<open>Staging extents adds extent rows and nothing else.\<close>

fun is_extent_op :: "txop \<Rightarrow> bool" where
  "is_extent_op (PutExtent _ _ _) = True"
| "is_extent_op (DelExtent _ _) = True"
| "is_extent_op _ = False"

definition extends_extents :: "txn \<Rightarrow> txn \<Rightarrow> bool" where
  "extends_extents t t' \<longleftrightarrow>
     tx_dedup_entry t' = tx_dedup_entry t \<and> (\<exists>es. tx_ops t' = tx_ops t @ es \<and> list_all is_extent_op es)"

lemma extends_extents_refl [simp]: "extends_extents t t"
  by (auto simp: extends_extents_def)

lemma extends_extents_trans: "extends_extents t u \<Longrightarrow> extends_extents u w \<Longrightarrow> extends_extents t w"
  by (auto simp: extends_extents_def)

lemma extends_extents_step [simp]:
  "extends_extents t (extent_delete ino idx t)" "extends_extents t (seg_delta sg a b t)"
  "extends_extents t (update_cached_extent_location ino idx l (put_op (PutExtent ino idx loc) t))"
  by (auto simp: extends_extents_def extent_delete_def seg_delta_def add_seg_delta_def put_op_def
      update_cached_extent_location_def)

lemma stage_rows_extends: "extends_extents t (stage_rows ino edits locs t)"
proof (induction ino edits locs t rule: stage_rows.induct)
  case (3 ino idx d edits loc locs t)
  then show ?case
    unfolding stage_rows.simps
    by (rule extends_extents_trans [OF extends_extents_trans [OF extends_extents_step(3) extends_extents_step(2)]])
next
  case (2 ino idx edits locs t)
  then show ?case
    by (simp add: extends_extents_trans [OF extends_extents_step(1)])
qed simp_all

lemma stage_debits_extends: "extends_extents t (stage_debits debits t)"
  unfolding stage_debits_def
proof (induction debits arbitrary: t)
  case (Cons p debits)
  then show ?case
    using extends_extents_trans [OF extends_extents_step(2) Cons.IH] by (simp add: split_beta)
qed simp

lemma delete_rows_extends: "extends_extents t (fold (delete_extent_row m ino) ks t)"
proof (induction ks arbitrary: t)
  case (Cons k ks)
  have "extends_extents t (delete_extent_row m ino k t)"
    by (auto simp: delete_extent_row_def intro: extends_extents_trans [OF extends_extents_step(2) extends_extents_step(1)]
        split: option.split)
  then show ?case
    using extends_extents_trans Cons.IH by fastforce
qed simp

lemma stage_edits_extends: "holds (stage_edits env m ino edits stop t) (\<lambda>r _. \<forall>t'. r = Inr t' \<longrightarrow> extends_extents t t') x"
proof -
  have "extends_extents t (stage_debits ds (stage_rows ino edits locs t))" for ds locs
    by (rule extends_extents_trans [OF stage_rows_extends stage_debits_extends])
  then show ?thesis
    by (auto simp: holds_def stage_edits_def Let_def sbind_def sread_def slift_def smodify_def sret_def
        split: prod.splits sum.splits)
qed

lemma extends_bind:
  assumes "\<And>y x'. holds (k y) (\<lambda>r _. \<forall>z. r = Inr z \<longrightarrow> P z) x'"
  shows "holds (sbind c k) (\<lambda>r _. \<forall>z. r = Inr z \<longrightarrow> P z) x"
  using assms by (auto simp: holds_def sbind_def split: prod.split sum.split)

lemma extent_write_extends:
  "holds (extent_write env m ino offset d old_size t) (\<lambda>r _. \<forall>z. r = Inr z \<longrightarrow> extends_extents t (snd z)) x"
proof -
  have fin: "holds (sbind (stage_edits env m ino edits stop t) (\<lambda>t. sret (u, t)))
      (\<lambda>r _. \<forall>z. r = Inr z \<longrightarrow> extends_extents t (snd z)) x" for edits stop u x
    using stage_edits_extends [of env m ino edits stop t x]
    by (auto simp: holds_bind holds_def [of "stage_edits _ _ _ _ _ _"] split: sum.split)
  show ?thesis
  proof (cases "d = []")
    case False
    show ?thesis
      unfolding extent_write_def Let_def if_not_P [OF False]
      by (rule extends_bind, rule extends_bind, rule extends_bind, rule fin)
  qed (simp add: extent_write_def)
qed

lemma extent_delete_range_extends:
  "holds (extent_delete_range env m ino start stop t) (\<lambda>r _. \<forall>t'. r = Inr t' \<longrightarrow> extends_extents t t') x"
  by (auto simp: extent_delete_range_def delete_range_def holds_bind delete_rows_extends)

lemma extent_truncate_extends:
  "holds (extent_truncate env m ino old_size new_size t) (\<lambda>r _. \<forall>t'. r = Inr t' \<longrightarrow> extends_extents t t') x"
proof -
  have "holds (stage_edits env m ino edits stop t1) (\<lambda>r _. \<forall>t'. r = Inr t' \<longrightarrow> extends_extents t t') x1"
    if "extends_extents t t1" for edits stop t1 x1
    using stage_edits_extends [of env m ino edits stop t1 x1] extends_extents_trans [OF that]
    by (auto simp: holds_def)
  then have last: "holds (sbind (extent_get env m ino idx) (\<lambda>e. stage_edits env m ino (g e) stop t1))
      (\<lambda>r _. \<forall>t'. r = Inr t' \<longrightarrow> extends_extents t t') x1" if "extends_extents t t1" for idx g stop t1 x1
    using that by (intro extends_bind) simp
  show ?thesis
    using extent_delete_range_extends [of env m ino "div_ceil new_size EXTENT_SIZE" "div_ceil old_size EXTENT_SIZE" t x]
    unfolding extent_truncate_def Let_def
    by (auto simp: holds_bind [of "extent_delete_range _ _ _ _ _ _"] elim!: holds_mono intro!: last split: sum.split)
qed

lemma extent_zero_range_extends:
  "holds (extent_zero_range env m ino offset len file_size t) (\<lambda>r _. \<forall>t'. r = Inr t' \<longrightarrow> extends_extents t t') x"
  unfolding extent_zero_range_def by (simp add: extends_bind stage_edits_extends)

lemma apply_extent_ops: "list_all is_extent_op es \<Longrightarrow> \<exists>E. apply_ops es m = m\<lparr>m_extents := E\<rparr>"
proof (induction es arbitrary: m)
  case Nil
  show ?case
    by (rule exI [of _ "m_extents m"]) simp
next
  case (Cons p es)
  obtain E where "apply_op p m = m\<lparr>m_extents := E\<rparr>"
    using Cons.prems by (cases p) auto
  moreover obtain E' where "apply_ops es (m\<lparr>m_extents := E\<rparr>) = m\<lparr>m_extents := E\<rparr>\<lparr>m_extents := E'\<rparr>"
    using Cons.IH Cons.prems by fastforce
  ultimately show ?case
    by (intro exI [of _ E']) simp
qed

section \<open>Changing the attributes of an inode\<close>

lemma own_entry:
  assumes "meta_inv m" "m_inodes m x = Some i" "place i = (Some p, Some q)"
  shows "\<exists>c. m_entries m (p, q) = Some (x, c)"
proof (cases "is_directory i")
  case True
  then obtain D where "i = Directory D"
    by (auto simp: is_directory_iff)
  then show ?thesis
    using dir_own_entry [OF meta_invD(1) [OF assms(1)]] assms(2,3) by simp
next
  case False
  then show ?thesis
    using leaf_own_entry [OF meta_invD(1) [OF assms(1)] assms(2) _ assms(3)] by simp
qed

lemma meta_restamp:
  fixes flt :: faults
  assumes inv: "meta_inv m" and x: "m_inodes m x = Some i" and same: "skel_of i' = skel_of i"
    and es: "list_all is_extent_op es"
  defines "w \<equiv> apply_ops (resave_ops flt m x i') (apply_ops es m)"
  shows "ns_of w = ns_of m" "meta_inv w" "m_inodes w = (m_inodes m)(x \<mapsto> i')"
    and "(\<And>p q. flt (DirEntryKey p q) = None) \<Longrightarrow> emb_fresh m \<Longrightarrow> emb_fresh w"
proof -
  obtain E where u: "apply_ops es m = m\<lparr>m_extents := E\<rparr>"
    using apply_extent_ops [OF es] by blast
  have place: "place i = place i'"
    using same skel_of_place by (cases "skel_of i") (metis skel_of_place)+
  have idx: "idx_inv (m\<lparr>m_extents := E\<rparr>)" "emb_inv (m\<lparr>m_extents := E\<rparr>)" "emb_fresh m \<Longrightarrow> emb_fresh (m\<lparr>m_extents := E\<rparr>)"
    using meta_invD(2,3) [OF inv] by (simp_all add: idx_inv_def emb_inv_def emb_fresh_def cookie_of_def)
  have own: "\<exists>c. m_entries m (p, q) = Some (x, c) \<and> m_entries (m\<lparr>m_extents := E\<rparr>) (p, q) = Some (x, c)"
    if "place i' = (Some p, Some q)" for p q
    using own_entry [OF inv x] that place by auto
  have xu: "m_inodes (m\<lparr>m_extents := E\<rparr>) x = Some i"
    using x by simp
  note res = resave_index [OF idx(1,2) xu place own, of flt, folded u, folded w_def]
  show rows: "m_inodes w = (m_inodes m)(x \<mapsto> i')"
    by (simp add: w_def resave_rows u)
  have "ns_of w = \<lparr>ns_nodes = map_option skel_of \<circ> (m_inodes m)(x \<mapsto> i'), ns_ents = map_option fst \<circ> m_entries m,
      ns_orph = m_orphans m\<rparr>"
    by (simp add: ns_of_def w_def resave_rows u)
  moreover have "map_option skel_of \<circ> (m_inodes m)(x \<mapsto> i') = map_option skel_of \<circ> m_inodes m"
    using x same by (auto simp: fun_eq_iff)
  ultimately show ns: "ns_of w = ns_of m"
    by (simp add: ns_of_def)
  show "meta_inv w"
    unfolding meta_inv_def ns using meta_invD(1) [OF inv] res(1,2) by blast
  show "emb_fresh w" if "\<And>p q. flt (DirEntryKey p q) = None" "emb_fresh m"
    using res(3) that idx(3) unfolding u by blast
qed

lemma save_inode_entry_ok:
  "holds (save_inode_entry env ino i t) (\<lambda>r v'. v' = v \<and> (\<forall>t'. r = Inr t' \<longrightarrow>
     tx_ops t' = tx_ops t @ resave_ops (oe_faults (io_op env)) (v_meta v) ino i
     \<and> tx_dedup_entry t' = tx_dedup_entry t \<and> tx_extent_updates t' = tx_extent_updates t)) v"
  by (auto simp: save_inode_entry_def resave_ops_def place_def update_inode_in_entry_def try_bind_def inode_save_def put_op_def
      update_cached_inode_def Let_def split: option.splits sum.splits prod.splits)

lemma pending_append:
  assumes "tx_ops t' = tx_ops t @ ops" "tx_extent_updates t' = tx_extent_updates t" "\<And>u. m_extents (apply_ops ops u) = m_extents u"
  shows "pending d m x t' G = pending d m x t G"
  by (simp add: pending_def staged_rows_def staged_locs_def assms)

lemma resave_extents: "m_extents (apply_ops (resave_ops flt m x i) u) = m_extents u"
  by (simp add: resave_ops_def split: option.split sum.split prod.split)

section \<open>What a volume holds\<close>

definition vol_inv :: "io_env \<Rightarrow> contents \<Rightarrow> volume \<Rightarrow> bool" where
  "vol_inv env F v \<longleftrightarrow>
     xinv (io_x env) (v_meta v) F (v_x v)
     \<and> (\<forall>ino f. m_inodes (v_meta v) ino = Some (File f) \<longrightarrow> eof_clean (F ino) (f_size f))"

definition io_ready :: "io_env \<Rightarrow> volume \<Rightarrow> bool" where
  "io_ready env v \<longleftrightarrow> xenv_ok (io_x env) \<and> segid_room 1 (v_x v)"

text \<open>Under the condition \<open>ok\<close> the contents become what \<open>g\<close> makes of them.\<close>

definition data_to :: "io_env \<Rightarrow> bool \<Rightarrow> (contents \<Rightarrow> contents) \<Rightarrow> volume \<Rightarrow> volume \<Rightarrow> bool" where
  "data_to env ok g v v' \<longleftrightarrow> (\<forall>F. ok \<and> io_ready env v \<and> vol_inv env F v \<longrightarrow> vol_inv env (g F) v')"

definition vol_result ::
  "io_env \<Rightarrow> op_id \<Rightarrow> (dedup_result \<Rightarrow> 'a option) \<Rightarrow> bool \<Rightarrow> ('a \<Rightarrow> volume \<Rightarrow> bool) \<Rightarrow> volume \<Rightarrow> 'a fs_result \<Rightarrow>
   volume \<Rightarrow> bool" where
  "vol_result env op extract ok eff v r v' \<longleftrightarrow>
     st_open (v_fs v') = st_open (v_fs v)
     \<and> (\<exists>k \<le> 2. st_next_id (v_fs v') = st_next_id (v_fs v) + word_of_nat k)
     \<and> (v_meta v' = v_meta v \<and> st_ledger (v_fs v') = st_ledger (v_fs v) \<and> data_to env ok id v v'
          \<and> ((\<exists>e. r = Inl e) \<or> (\<exists>y. r = Inr y \<and> replayed (io_op env) op extract (v_fs v) y))
        \<or> (\<exists>y. eff y v' \<and> dedup_get (st_ledger (v_fs v)) op = None
            \<and> (r = Inr y \<or> we_sync_writes (oe_worker (io_op env)) \<and> (\<exists>e. r = Inl e))))"

lemma data_to_id_refl [simp]: "data_to env ok id v v"
  by (simp add: data_to_def)

lemma vol_result_still:
  "still v v' \<Longrightarrow> data_to env ok id v v' \<Longrightarrow> vol_result env op ex ok eff v (Inl e) v'"
  unfolding vol_result_def still_def quiet_def by (auto intro!: exI [of _ 0])

lemma vol_result_refused [simp]: "vol_result env op ex ok eff v (Inl e) v"
  by (rule vol_result_still) simp_all

lemma vol_result_replayed: "replayed (io_op env) op ex (v_fs v) y \<Longrightarrow> vol_result env op ex ok eff v (Inr y) v"
  unfolding vol_result_def by (auto intro!: exI [of _ 0])

lemma v_replayed_preI:
  "holds k (vol_result env op ex ok eff v) v \<Longrightarrow>
   holds (v_unless_replayed_pre env op ex k) (vol_result env op ex ok eff v) v"
  unfolding v_unless_replayed_pre_def
  by (rule holds_liftI, simp)
    (auto simp: replay_dedup_result_Inr replayed_def intro: vol_result_replayed split: option.split)

lemma v_replayedI:
  "(dedup_get (st_ledger (v_fs v)) op = None \<Longrightarrow> holds k (vol_result env op ex ok eff v) v) \<Longrightarrow>
   holds (v_unless_replayed op ex k) (vol_result env op ex ok eff v) v"
  unfolding v_unless_replayed_def
  by (rule holds_readI, simp)
    (auto simp: replay_dedup_result_Inr replay_dedup_result_None replayed_def intro: vol_result_replayed
      split: option.split)

lemma vol_result_op:
  assumes "vol_result env op ex ok eff v r v'" "\<And>y. eff y v' \<Longrightarrow> eff' y (v_fs v')"
  shows "op_result (io_op env) op ex eff' (v_fs v) r (v_fs v')"
  using assms unfolding vol_result_def op_result_def by (elim conjE disjE exE) (auto simp del: id_apply)

text \<open>The end of an operation: commit, count, answer.\<close>

lemma vol_inv_cong: "v_meta v' = v_meta v \<Longrightarrow> v_x v' = v_x v \<Longrightarrow> vol_inv env F v' = vol_inv env F v"
  by (simp add: vol_inv_def)

lemma data_to_cong: "v_meta w = v_meta v' \<Longrightarrow> v_x w = v_x v' \<Longrightarrow> data_to env ok g v w = data_to env ok g v v'"
  by (simp add: data_to_def vol_inv_def)

lemma data_to_drop [simp]: "data_to env ok g v (drop_reservation rsv v') = data_to env ok g v v'"
  by (rule data_to_cong) (simp_all add: drop_reservation_def split: option.split)

lemma v_commit_resultI:
  assumes st: "still v v1" and keep: "data_to env ok id v v1" and new: "dedup_get (st_ledger (v_fs v)) op = None"
    and eff: "\<And>v2. v_meta v2 = apply_ops (tx_ops tx) (v_meta v) \<Longrightarrow>
      st_ledger (v_fs v2) = ledger_add (txn_entries tx) (st_ledger (v_fs v)) \<Longrightarrow>
      v_x v2 = commit_extents tx tails (v_x v1) \<Longrightarrow> eff y v2"
  shows "holds (sbind (v_commit env tx stl tails) (\<lambda>_. sbind (v_bump ks) (\<lambda>_. sret y))) (vol_result env op ex ok eff v) v1"
proof -
  have ids: "st_open (v_fs v2) = st_open (v_fs v)" "\<exists>k \<le> 2. st_next_id (v_fs v2) = st_next_id (v_fs v) + word_of_nat k"
    if "v_committed env tx tails b v1 v2" for b v2
    using that st by (auto simp: v_committed_def still_def quiet_def intro: exI [of _ 0] exI [of _ 1])
  have fin: "vol_result env op ex ok eff v r v3"
    if c: "v_committed env tx tails b v1 v2" and v3: "v_meta v3 = v_meta v2" "v_x v3 = v_x v2"
      "st_ledger (v_fs v3) = st_ledger (v_fs v2)" "st_open (v_fs v3) = st_open (v_fs v2)"
      "st_next_id (v_fs v3) = st_next_id (v_fs v2)" and r: "r = (if b then Inr y else Inl e)" for b v2 v3 r e
  proof (cases "v_x v2 = commit_extents tx tails (v_x v1) \<and> v_meta v2 = apply_ops (tx_ops tx) (v_meta v1)
      \<and> st_ledger (v_fs v2) = ledger_add (txn_entries tx) (st_ledger (v_fs v1)) \<and> (b \<or> we_sync_writes (oe_worker (io_op env)))")
    case True
    then have "eff y v3"
      using v3 still_rows [OF st] by (intro eff) simp_all
    then show ?thesis
      using True ids [OF c] new r v3 unfolding vol_result_def by auto
  next
    case False
    then have u: "v_meta v2 = v_meta v1" "st_ledger (v_fs v2) = st_ledger (v_fs v1)" "v_x v2 = v_x v1" "\<not> b"
      using c by (auto simp: v_committed_def)
    have "data_to env ok id v v3"
      using data_to_cong [of v3 v1] keep u v3 by simp
    then show ?thesis
      using u ids [OF c] still_rows [OF st] r v3 unfolding vol_result_def by auto
  qed
  show ?thesis
    by (rule holds_v_commitI) (auto simp: holds_bind intro!: fin)
qed

text \<open>The contents after a commit that saves inode \<open>x\<close> with the staged extents.\<close>

lemma committed_data:
  assumes staged: "\<And>F. ok \<Longrightarrow> io_ready env v \<Longrightarrow> vol_inv env F v \<Longrightarrow>
      xinv (io_x env) (v_meta v) F (v_x v1) \<and> pending (xe_data (io_x env)) (v_meta v) (v_x v1) tx (g F)
      \<and> (\<forall>i idx p. xs_tail (settle_tails tails (v_x v1)) i = Some (idx, p) \<longrightarrow> p = extent_of (g F i) idx)"
    and rows: "v_meta v2 = apply_ops (tx_ops tx) (v_meta v)" "v_x v2 = commit_extents tx tails (v_x v1)"
    and eof: "\<And>F ino f. ok \<Longrightarrow> vol_inv env F v \<Longrightarrow> m_inodes (v_meta v2) ino = Some (File f) \<Longrightarrow> eof_clean (g F ino) (f_size f)"
  shows "data_to env ok g v v2"
  unfolding data_to_def
proof (intro allI impI)
  fix F
  assume F: "ok \<and> io_ready env v \<and> vol_inv env F v"
  then have st: "xinv (io_x env) (v_meta v) F (v_x v1)" "pending (xe_data (io_x env)) (v_meta v) (v_x v1) tx (g F)"
    "\<And>i idx p. xs_tail (settle_tails tails (v_x v1)) i = Some (idx, p) \<Longrightarrow> p = extent_of (g F i) idx"
    using staged by blast+
  show "vol_inv env (g F) v2"
    using commit_contents [OF st(1,2), of tails] st(3) eof F rows unfolding vol_inv_def by auto
qed

section \<open>Staging extents\<close>

text \<open>What staging leaves: the rows and the contents as they were, and a transaction that has only
  extent rows and whose commit makes the contents what \<open>g\<close> gives.\<close>

definition staged_data ::
  "io_env \<Rightarrow> bool \<Rightarrow> (contents \<Rightarrow> contents) \<Rightarrow> volume \<Rightarrow> (txn \<times> (inode_id \<times> tail_update) list) fs_result \<Rightarrow> volume \<Rightarrow> bool" where
  "staged_data env ok g v r v2 \<longleftrightarrow>
     still v v2 \<and> data_to env ok id v v2
     \<and> (\<forall>t us. r = Inr (t, us) \<longrightarrow>
          extends_extents transaction_new t
          \<and> (\<forall>F. ok \<and> io_ready env v \<and> vol_inv env F v \<longrightarrow>
               xinv (io_x env) (v_meta v) F (v_x v2) \<and> pending (xe_data (io_x env)) (v_meta v) (v_x v2) t (g F)
               \<and> (\<forall>i idx p. xs_tail (settle_tails us (v_x v2)) i = Some (idx, p) \<longrightarrow> p = extent_of (g F i) idx)))"

lemma holds_conj: "holds c P s \<Longrightarrow> holds c Q s \<Longrightarrow> holds c (\<lambda>r t. P r t \<and> Q r t) s"
  by (simp add: holds_def)

lemma vol_invD:
  assumes "vol_inv env F v"
  shows "xinv (io_x env) (v_meta v) F (v_x v)"
    and "m_inodes (v_meta v) ino = Some (File f) \<Longrightarrow> eof_clean (F ino) (f_size f)"
  using assms by (auto simp: vol_inv_def)

lemma xinv_tail: "xinv env m F x \<Longrightarrow> xs_tail x i = Some (idx, p) \<Longrightarrow> p = extent_of (F i) idx"
  by (simp add: xinv_def)

lemma stages_holds:
  assumes "stages env m F n c Q x" "c x = (r, x')"
  shows "xinv env m F x'" "\<And>y. r = Inr y \<Longrightarrow> Q y x'"
  using holdsD [OF assms(1) [unfolded stages_def] assms(2)] by blast+

lemma staged_dataI:
  assumes c: "c (v_meta v) (v_x v) = (r, x')" and still: "still v v1" "v_x v1 = v_x v"
    and ext: "\<And>t us. f r = Inr (t, us) \<Longrightarrow> extends_extents transaction_new t"
    and st: "\<And>F. ok \<Longrightarrow> io_ready env v \<Longrightarrow> vol_inv env F v \<Longrightarrow> xinv (io_x env) (v_meta v) F x'"
    and dat: "\<And>F t us. ok \<Longrightarrow> io_ready env v \<Longrightarrow> vol_inv env F v \<Longrightarrow> f r = Inr (t, us) \<Longrightarrow>
      pending (xe_data (io_x env)) (v_meta v) x' t (g F)
      \<and> (\<forall>i idx p. xs_tail (settle_tails us x') i = Some (idx, p) \<longrightarrow> p = extent_of (g F i) idx)"
  shows "holds (on_data c) (\<lambda>r v2. staged_data env ok g v (f r) v2) v1"
proof -
  have m: "v_meta v1 = v_meta v"
    using still_rows [OF still(1)] by simp
  have "on_data c v1 = (r, v1\<lparr>v_x := x'\<rparr>)"
    by (simp add: on_data_def m still(2) c)
  moreover have "vol_inv env F (v1\<lparr>v_x := x'\<rparr>)" if "ok" "io_ready env v" "vol_inv env F v" for F
    using st [OF that] vol_invD(2) [OF that(3)] by (simp add: vol_inv_def m)
  ultimately show ?thesis
    using still(1) ext st dat by (simp add: holds_def staged_data_def data_to_def)
qed

lemma write_staged:
  assumes f: "m_inodes (v_meta v) ino = Some (File f)" and d: "d \<noteq> []" and still: "still v v1" "v_x v1 = v_x v"
  shows "holds (on_data (\<lambda>m. extent_write (io_x env) m ino offset d (f_size f) transaction_new))
    (\<lambda>r v2. staged_data env (unat offset + length d \<le> 2 ^ 64 - 32768) (\<lambda>F. F(ino := overwrite (F ino) (unat offset) d)) v
       (case r of Inl e \<Rightarrow> Inl e | Inr (u, t) \<Rightarrow> Inr (t, [(ino, u)])) v2) v1"
proof -
  let ?c = "\<lambda>m. extent_write (io_x env) m ino offset d (f_size f) transaction_new"
  obtain r x' where c: "?c (v_meta v) (v_x v) = (r, x')"
    by fastforce
  have st: "xinv (io_x env) (v_meta v) F x'" (is ?A)
    "r = Inr (u, t) \<Longrightarrow> pending (xe_data (io_x env)) (v_meta v) x' t (F(ino := overwrite (F ino) (unat offset) d))
       \<and> tail_ok (overwrite (F ino) (unat offset) d) False u" (is "_ \<Longrightarrow> ?B")
    if "unat offset + length d \<le> 2 ^ 64 - 32768" "io_ready env v" "vol_inv env F v" for F u t
  proof -
    note S = extent_write_stages [OF vol_invD(1) [OF that(3)] _ pending_new [OF vol_invD(1) [OF that(3)]] refl vol_invD(2) [OF that(3) f] that(1)]
    have "stages (io_x env) (v_meta v) F 1 (?c (v_meta v))
      (\<lambda>(u, t') x'. pending (xe_data (io_x env)) (v_meta v) x' t' (F(ino := overwrite (F ino) (unat offset) d))
         \<and> tail_ok (overwrite (F ino) (unat offset) d) (d = []) u) (v_x v)"
      by (rule S) (use that(2) in \<open>simp_all add: io_ready_def transaction_new_def\<close>)
    from stages_holds [OF this c] show ?A "r = Inr (u, t) \<Longrightarrow> ?B"
      using d by auto
  qed
  show ?thesis
  proof (rule staged_dataI [where c = ?c and f = "\<lambda>r. case r of Inl e \<Rightarrow> Inl e | Inr (u, t) \<Rightarrow> Inr (t, [(ino, u)])", OF c still])
    show "extends_extents transaction_new t"
      if "(case r of Inl e \<Rightarrow> Inl e | Inr (u, t) \<Rightarrow> Inr (t, [(ino, u)])) = Inr (t, us)" for t us
      using that holdsD [OF extent_write_extends c] by (auto split: sum.splits prod.splits)
  next
    fix F t us
    assume h: "unat offset + length d \<le> 2 ^ 64 - 32768" "io_ready env v" "vol_inv env F v"
    then show "xinv (io_x env) (v_meta v) F x'"
      by (rule st)
    assume "(case r of Inl e \<Rightarrow> Inl e | Inr (u, t) \<Rightarrow> Inr (t, [(ino, u)])) = Inr (t, us)"
    then obtain u where r: "r = Inr (u, t)" "us = [(ino, u)]"
      by (auto split: sum.splits prod.splits)
    have tail: "p = extent_of ((F(ino := overwrite (F ino) (unat offset) d)) i) idx"
      if "xs_tail (settle_tails us x') i = Some (idx, p)" for i idx p
      using that st(2) [OF h r(1)] xinv_tail [OF st(1) [OF h]] unfolding settle_tails_def r(2)
      by (cases u; cases "i = ino") (auto simp: tail_set_def tail_invalidate_def)
    then show "pending (xe_data (io_x env)) (v_meta v) x' t (F(ino := overwrite (F ino) (unat offset) d))
        \<and> (\<forall>i idx p. xs_tail (settle_tails us x') i = Some (idx, p) \<longrightarrow>
              p = extent_of ((F(ino := overwrite (F ino) (unat offset) d)) i) idx)"
      using st(2) [OF h r(1)] by blast
  qed
qed

text \<open>Truncating and zeroing drop the cached last extent while they stage.\<close>

lemma dropped_tail_staged:
  assumes c: "c (v_meta v) (v_x v) = (r, x')" and still: "still v v1" "v_x v1 = v_x v"
    and ext: "\<And>t. r = Inr t \<Longrightarrow> extends_extents transaction_new t"
    and st: "\<And>F. ok \<Longrightarrow> io_ready env v \<Longrightarrow> vol_inv env F v \<Longrightarrow>
      stages (io_x env) (v_meta v) F 1 (c (v_meta v))
        (\<lambda>t' x'. pending (xe_data (io_x env)) (v_meta v) x' t' (F(ino := h (F ino))) \<and> (b \<longrightarrow> xs_tail x' ino = None)) (v_x v)"
    and same: "\<And>F. vol_inv env F v \<Longrightarrow> \<not> b \<Longrightarrow> h (F ino) = F ino"
  shows "holds (on_data c) (\<lambda>r v2. staged_data env ok (\<lambda>F. F(ino := h (F ino))) v
    (case r of Inl e \<Rightarrow> Inl e | Inr t \<Rightarrow> Inr (t, [])) v2) v1"
proof (rule staged_dataI [where c = c and f = "\<lambda>r. case r of Inl e \<Rightarrow> Inl e | Inr t \<Rightarrow> Inr (t, [])", OF c still])
  show "extends_extents transaction_new t" if "(case r of Inl e \<Rightarrow> Inl e | Inr t \<Rightarrow> Inr (t, [])) = Inr (t, us)" for t us
    using that ext by (auto split: sum.splits)
next
  fix F t and us :: "(inode_id \<times> tail_update) list"
  assume h: "ok" "io_ready env v" "vol_inv env F v"
  note x' = stages_holds [OF st [OF h] c]
  show "xinv (io_x env) (v_meta v) F x'"
    by (rule x')
  assume "(case r of Inl e \<Rightarrow> Inl e | Inr t \<Rightarrow> Inr (t, [])) = Inr (t, us)"
  then have r: "r = Inr t" "us = []"
    by (auto split: sum.splits)
  have "p = extent_of ((F(ino := h (F ino))) i) idx" if "xs_tail x' i = Some (idx, p)" for i idx p
    using that xinv_tail [OF x'(1) that] x'(2) [OF r(1)] same [OF h(3)] by (cases "i = ino"; cases b) auto
  then show "pending (xe_data (io_x env)) (v_meta v) x' t (F(ino := h (F ino)))
      \<and> (\<forall>i idx p. xs_tail (settle_tails us x') i = Some (idx, p) \<longrightarrow> p = extent_of ((F(ino := h (F ino))) i) idx)"
    using x'(2) [OF r(1)] by (simp add: r settle_tails_def)
qed

lemma truncate_staged:
  assumes f: "m_inodes (v_meta v) ino = Some (File f)" and still: "still v v1" "v_x v1 = v_x v"
  shows "holds (on_data (\<lambda>m. extent_truncate (io_x env) m ino (f_size f) new_size transaction_new))
    (\<lambda>r v2. staged_data env True (\<lambda>F. F(ino := cut_off (F ino) (unat new_size))) v
       (case r of Inl e \<Rightarrow> Inl e | Inr t \<Rightarrow> Inr (t, [])) v2) v1"
proof -
  obtain r x' where c: "extent_truncate (io_x env) (v_meta v) ino (f_size f) new_size transaction_new (v_x v) = (r, x')"
    by fastforce
  show ?thesis
  proof (rule dropped_tail_staged [where c = "\<lambda>m. extent_truncate (io_x env) m ino (f_size f) new_size transaction_new"
        and h = "\<lambda>g. cut_off g (unat new_size)" and b = "new_size < f_size f", OF c still])
    show "extends_extents transaction_new t" if "r = Inr t" for t
      using holdsD [OF extent_truncate_extends c] that by simp
    show "cut_off (F ino) (unat new_size) = F ino" if "vol_inv env F v" "\<not> new_size < f_size f" for F
      using vol_invD(2) [OF that(1) f] that(2) by (auto simp: cut_off_def eof_clean_def word_less_nat_alt fun_eq_iff)
  qed (rule extent_truncate_stages [OF vol_invD(1) _ pending_new [OF vol_invD(1)]],
      auto simp: io_ready_def transaction_new_def staged_rows_def intro: vol_invD(2) [OF _ f])
qed

lemma zero_range_staged:
  assumes f: "m_inodes (v_meta v) ino = Some (File f)" and still: "still v v1" "v_x v1 = v_x v"
  shows "holds (on_data (\<lambda>m. extent_zero_range (io_x env) m ino offset len (f_size f) transaction_new))
    (\<lambda>r v2. staged_data env (unat offset + unat len \<le> 2 ^ 64 - 32768)
       (\<lambda>F. F(ino := zero_span (F ino) (unat offset) (unat offset + unat len))) v
       (case r of Inl e \<Rightarrow> Inl e | Inr t \<Rightarrow> Inr (t, [])) v2) v1"
proof -
  obtain r x' where c: "extent_zero_range (io_x env) (v_meta v) ino offset len (f_size f) transaction_new (v_x v) = (r, x')"
    by fastforce
  show ?thesis
  proof (rule dropped_tail_staged [where c = "\<lambda>m. extent_zero_range (io_x env) m ino offset len (f_size f) transaction_new"
        and h = "\<lambda>g. zero_span g (unat offset) (unat offset + unat len)" and b = "len \<noteq> 0", OF c still])
    show "extends_extents transaction_new t" if "r = Inr t" for t
      using holdsD [OF extent_zero_range_extends c] that by simp
    show "zero_span (F ino) (unat offset) (unat offset + unat len) = F ino" if "\<not> len \<noteq> 0" for F
      using that by (auto simp: zero_span_def fun_eq_iff)
  qed (rule extent_zero_range_stages [OF vol_invD(1) _ pending_new [OF vol_invD(1)]],
      auto simp: io_ready_def transaction_new_def intro: vol_invD(2) [OF _ f])
qed

lemma staged_dataD:
  assumes "staged_data env ok g v (Inr (t, us)) v2" "ok" "io_ready env v" "vol_inv env F v"
  shows "xinv (io_x env) (v_meta v) F (v_x v2) \<and> pending (xe_data (io_x env)) (v_meta v) (v_x v2) t (g F)
    \<and> (\<forall>i idx p. xs_tail (settle_tails us (v_x v2)) i = Some (idx, p) \<longrightarrow> p = extent_of (g F i) idx)"
  using assms(1) [unfolded staged_data_def, THEN conjunct2, THEN conjunct2, rule_format, OF refl, THEN conjunct2,
      rule_format, of F] assms(2-4) by blast

lemma staged_none: "staged_data env ok (\<lambda>F. F) v (Inr (transaction_new, [])) v"
  by (auto simp: staged_data_def settle_tails_def dest: vol_invD(1) intro: xinv_tail)
    (rule pending_new, erule vol_invD(1), simp_all add: transaction_new_def)

section \<open>Saving an inode with its extents\<close>

text \<open>The state after a commit that saves inode \<open>ino\<close> as \<open>i'\<close>: the namespace is as it was.\<close>

definition resaved :: "io_env \<Rightarrow> op_id \<Rightarrow> dedup_result \<Rightarrow> inode_id \<Rightarrow> inode \<Rightarrow> volume \<Rightarrow> fs \<Rightarrow> bool" where
  "resaved env op res ino i' v t \<longleftrightarrow>
     m_inodes (st_meta t) = (m_inodes (v_meta v))(ino \<mapsto> i') \<and> ns_step (io_op env) (\<lambda>N. N) op res (v_fs v) t"

lemma resavedI:
  assumes inv: "fs_inv (v_fs v)" and i: "m_inodes (v_meta v) ino = Some i" "skel_of i' = skel_of i"
    and t0: "extends_extents transaction_new t0"
    and ops: "tx_ops tx = tx_ops t0 @ (if saved then resave_ops (oe_faults (io_op env)) (v_meta v) ino i' else [])"
      "\<not> saved \<Longrightarrow> i' = i"
    and entry: "tx_dedup_entry tx = (if has_op_id op then Some \<lparr>dd_op_id = op, dd_result = res\<rparr> else None)"
    and t: "st_meta t = apply_ops (tx_ops tx) (v_meta v)" "st_ledger t = ledger_add (txn_entries tx) (st_ledger (v_fs v))"
  shows "resaved env op res ino i' v t"
proof -
  obtain es where es: "tx_ops t0 = es" "list_all is_extent_op es"
    using t0 by (auto simp: extends_extents_def transaction_new_def)
  have m: "meta_inv (v_meta v)"
    using inv by (simp add: fs_inv_def)
  note re = meta_restamp [OF m i es(2), of "oe_faults (io_op env)"]
  obtain E where E: "apply_ops es (v_meta v) = (v_meta v)\<lparr>m_extents := E\<rparr>"
    using apply_extent_ops [OF es(2)] by blast
  have "m_inodes (st_meta t) = (m_inodes (v_meta v))(ino \<mapsto> i') \<and> ns_of (st_meta t) = ns_of (v_meta v) \<and> meta_inv (st_meta t)
      \<and> (reads_entries (io_op env) \<and> emb_fresh (v_meta v) \<longrightarrow> emb_fresh (st_meta t))"
  proof (cases saved)
    case True
    then show ?thesis
      using re unfolding t(1) ops(1) es(1) by (simp add: reads_entries_def)
  next
    case False
    then show ?thesis
      using m i(1) ops(2) unfolding t(1) ops(1) es(1)
      by (simp add: E ns_of_def meta_inv_def idx_inv_def emb_inv_def emb_fresh_def cookie_of_def fun_upd_idem)
  qed
  then show ?thesis
    unfolding resaved_def ns_step_def t(2) txn_entries_set [OF entry] by blast
qed

lemma commit_resavedI:
  assumes inv: "fs_inv (v_fs v)" and i: "m_inodes (v_meta v) ino = Some i" "skel_of i' = skel_of i"
    and new: "dedup_get (st_ledger (v_fs v)) op = None"
    and st: "staged_data env ok g v (Inr (t0, us)) v1"
    and ops: "tx_ops tx = tx_ops t0 @ (if saved then resave_ops (oe_faults (io_op env)) (v_meta v) ino i' else [])"
      "\<not> saved \<Longrightarrow> i' = i" "tx_extent_updates tx = tx_extent_updates t0"
    and entry: "tx_dedup_entry tx = (if has_op_id op then Some \<lparr>dd_op_id = op, dd_result = res\<rparr> else None)"
    and eof: "\<And>F f. ok \<Longrightarrow> vol_inv env F v \<Longrightarrow> i' = File f \<Longrightarrow> eof_clean (g F ino) (f_size f)"
    and other: "\<And>F j. j \<noteq> ino \<Longrightarrow> g F j = F j"
    and eff: "\<And>v2. resaved env op res ino i' v (v_fs v2) \<Longrightarrow> data_to env ok g v v2 \<Longrightarrow> eff y v2"
  shows "holds (sbind (v_commit env tx stl us) (\<lambda>_. sbind (v_bump ks) (\<lambda>_. sret y))) (vol_result env op ex ok eff v) v1"
proof (rule v_commit_resultI)
  show "still v v1" "data_to env ok id v v1"
    using st by (simp_all add: staged_data_def)
  show "dedup_get (st_ledger (v_fs v)) op = None"
    by (rule new)
  fix v2
  assume v2: "v_meta v2 = apply_ops (tx_ops tx) (v_meta v)"
    "st_ledger (v_fs v2) = ledger_add (txn_entries tx) (st_ledger (v_fs v))" "v_x v2 = commit_extents tx us (v_x v1)"
  have t0: "extends_extents transaction_new t0"
    using st by (simp add: staged_data_def)
  have re: "resaved env op res ino i' v (v_fs v2)"
    by (rule resavedI [OF inv i t0 ops(1,2) entry v2(1,2)])
  have "data_to env ok g v v2"
  proof (rule committed_data [OF _ v2(1,3)])
    fix F
    assume F: "ok" "io_ready env v" "vol_inv env F v"
    have pend: "pending (xe_data (io_x env)) (v_meta v) (v_x v1) tx (g F) = pending (xe_data (io_x env)) (v_meta v) (v_x v1) t0 (g F)"
      by (rule pending_append [OF ops(1,3)]) (simp add: resave_extents)
    show "xinv (io_x env) (v_meta v) F (v_x v1) \<and> pending (xe_data (io_x env)) (v_meta v) (v_x v1) tx (g F)
        \<and> (\<forall>i idx p. xs_tail (settle_tails us (v_x v1)) i = Some (idx, p) \<longrightarrow> p = extent_of (g F i) idx)"
      unfolding pend by (rule staged_dataD [OF st F])
  next
    fix F j f
    assume F: "ok" "vol_inv env F v" and f: "m_inodes (v_meta v2) j = Some (File f)"
    have rows: "m_inodes (v_meta v2) = (m_inodes (v_meta v))(ino \<mapsto> i')"
      using re by (simp add: resaved_def)
    show "eof_clean (g F j) (f_size f)"
    proof (cases "j = ino")
      case True
      then have "i' = File f"
        using f rows by simp
      then show ?thesis
        unfolding True by (rule eof [OF F])
    next
      case False
      then have "m_inodes (v_meta v) j = Some (File f)"
        using f rows by simp
      then show ?thesis
        unfolding other [OF False] by (rule vol_invD(2) [OF F(2)])
    qed
  qed
  with re show "eff y v2"
    by (rule eff)
qed

text \<open>The whole tail of an operation that stages extents, saves one inode and commits.\<close>

lemma releasing_None [simp]: "releasing None c = c"
  by (auto simp: fun_eq_iff releasing_def drop_reservation_def split: prod.split sum.split)

lemma vol_result_staged:
  "staged_data env ok g v (Inl e) v' \<Longrightarrow> vol_result env op ex ok eff v (Inl e') v'"
  by (rule vol_result_still) (simp_all add: staged_data_def)

lemma staged_data_drop:
  "staged_data env ok g v (Inl e) v' \<Longrightarrow> staged_data env ok g v (Inl e') (drop_reservation q v')"
  by (simp add: staged_data_def)

definition save_staged ::
  "io_env \<Rightarrow> bool \<Rightarrow> (contents \<Rightarrow> contents) \<Rightarrow> volume \<Rightarrow> txop list \<Rightarrow> op_id \<Rightarrow> dedup_result \<Rightarrow> txn fs_result \<Rightarrow> volume \<Rightarrow> bool" where
  "save_staged env ok g v ops op res r v2 \<longleftrightarrow>
     (case r of
        Inl e \<Rightarrow> staged_data env ok g v (Inl e) v2
      | Inr t \<Rightarrow> \<exists>t0. staged_data env ok g v (Inr (t0, [])) v2 \<and> tx_ops t = tx_ops t0 @ ops
          \<and> tx_extent_updates t = tx_extent_updates t0
          \<and> tx_dedup_entry t = (if has_op_id op then Some \<lparr>dd_op_id = op, dd_result = res\<rparr> else None))"

lemma staged_saveI:
  assumes inv: "fs_inv (v_fs v)" and i: "m_inodes (v_meta v) ino = Some i" "skel_of i' = skel_of i" "\<not> saved \<Longrightarrow> i' = i"
    and new: "dedup_get (st_ledger (v_fs v)) op = None" and v1: "still v v1" "v_x v1 = v_x v"
    and stage: "holds (stage transaction_new)
      (\<lambda>r v2. staged_data env ok g v (case r of Inl e \<Rightarrow> Inl e | Inr t \<Rightarrow> Inr (t, [])) v2) v1"
    and eof: "\<And>F f. ok \<Longrightarrow> vol_inv env F v \<Longrightarrow> i' = File f \<Longrightarrow> eof_clean (g F ino) (f_size f)"
    and other: "\<And>F j. j \<noteq> ino \<Longrightarrow> g F j = F j"
    and eff: "\<And>v2. resaved env op res ino i' v (v_fs v2) \<Longrightarrow> data_to env ok g v v2 \<Longrightarrow> eff y v2"
  shows "holds (sbind (releasing q (
      sbind (slift (new_transaction (io_op env))) (\<lambda>t.
      sbind (stage t) (\<lambda>t.
      sbind (if saved then save_inode_entry env ino i' t else sret t) (\<lambda>t.
      sret (set_dedup_result op res t)))))) (\<lambda>t.
      sbind (v_commit env t stl []) (\<lambda>_. sbind (v_bump ks) (\<lambda>_. sret y)))) (vol_result env op ex ok eff v) v1"
proof -
  let ?ops = "if saved then resave_ops (oe_faults (io_op env)) (v_meta v) ino i' else []"
  let ?post = "save_staged env ok g v ?ops op res"
  have save: "holds (sbind (if saved then save_inode_entry env ino i' t0 else sret t0) (\<lambda>t. sret (set_dedup_result op res t))) ?post v2"
    if st: "staged_data env ok g v (Inr (t0, [])) v2" for t0 v2
  proof -
    have m: "v_meta v2 = v_meta v" and none: "tx_dedup_entry t0 = None"
      using st still_rows by (auto simp: staged_data_def extends_extents_def transaction_new_def)
    have fail: "staged_data env ok g v (Inl e) v2" for e
      using st by (simp add: staged_data_def)
    have "holds (if saved then save_inode_entry env ino i' t0 else sret t0)
      (\<lambda>r v'. v' = v2 \<and> (\<forall>t'. r = Inr t' \<longrightarrow> tx_ops t' = tx_ops t0 @ (if saved
         then resave_ops (oe_faults (io_op env)) (v_meta v) ino i' else [])
       \<and> tx_extent_updates t' = tx_extent_updates t0 \<and> tx_dedup_entry t' = None)) v2"
      using save_inode_entry_ok [of env ino i' t0 v2] by (auto simp: m none elim!: holds_mono)
    then show ?thesis
      by (rule holds_bindI) (use st fail in \<open>auto simp: set_dedup_result_def save_staged_def\<close>)
  qed
  have "holds (sbind (slift (new_transaction (io_op env))) (\<lambda>t. sbind (stage t) (\<lambda>t.
      sbind (if saved then save_inode_entry env ino i' t else sret t) (\<lambda>t. sret (set_dedup_result op res t))))) ?post v1"
  proof (rule holds_liftI)
    show "?post (Inl e) v1" for e
      using v1 data_to_cong [of v1 v] still_rows by (simp add: staged_data_def save_staged_def)
  next
    fix t
    assume "new_transaction (io_op env) = Inr t"
    then have "t = transaction_new"
      by (rule new_transaction_Inr)
    then show "holds (sbind (stage t) (\<lambda>t. sbind (if saved then save_inode_entry env ino i' t else sret t)
        (\<lambda>t. sret (set_dedup_result op res t)))) ?post v1"
      using holds_bindI [OF stage, of ?post "\<lambda>t. sbind (if saved then save_inode_entry env ino i' t else sret t)
        (\<lambda>t. sret (set_dedup_result op res t))"] save by (simp add: save_staged_def)
  qed
  then have "holds (releasing q (sbind (slift (new_transaction (io_op env))) (\<lambda>t. sbind (stage t) (\<lambda>t.
      sbind (if saved then save_inode_entry env ino i' t else sret t) (\<lambda>t. sret (set_dedup_result op res t)))))) ?post v1"
    unfolding holds_releasing by (rule holds_mono) (auto simp: save_staged_def intro: staged_data_drop split: sum.splits)
  then show ?thesis
  proof (rule holds_bindI)
    fix t :: txn and v2
    assume "?post (Inr t) v2"
    then obtain t0 where t0: "staged_data env ok g v (Inr (t0, [])) v2"
      and t: "tx_ops t = tx_ops t0 @ (if saved then resave_ops (oe_faults (io_op env)) (v_meta v) ino i' else [])"
        "tx_extent_updates t = tx_extent_updates t0"
        "tx_dedup_entry t = (if has_op_id op then Some \<lparr>dd_op_id = op, dd_result = res\<rparr> else None)"
      by (auto simp: save_staged_def)
    show "holds (sbind (v_commit env t stl []) (\<lambda>_. sbind (v_bump ks) (\<lambda>_. sret y))) (vol_result env op ex ok eff v) v2"
      by (rule commit_resavedI [where g = g and eff = eff, OF inv i(1,2) new t0 t(1) i(3) t(2,3) eof other eff]) assumption+
  qed (auto simp: save_staged_def intro: vol_result_staged)
qed

section \<open>The contract of an operation on a volume\<close>

text \<open>
  An operation \<open>run\<close> with its identifier \<open>key\<close>, the answer \<open>ans\<close> of a recorded result, the condition
  \<open>ok\<close> under which it promises file contents, its effect \<open>eff\<close> and the calls \<open>admits\<close>. On the metadata
  side it is an operation of the namespace contract, whatever the extent store does.
\<close>

definition vol_run :: "(io_env \<Rightarrow> 'a vm) \<Rightarrow> op_env \<Rightarrow> fs \<Rightarrow> 'a fs_result \<Rightarrow> fs \<Rightarrow> bool" where
  "vol_run c env s r t \<longleftrightarrow>
     (\<exists>xe x x'. c \<lparr>io_op = env, io_x = xe\<rparr> \<lparr>v_fs = s, v_x = x\<rparr> = (r, \<lparr>v_fs = t, v_x = x'\<rparr>))"

definition vol_effect ::
  "(io_env \<Rightarrow> volume \<Rightarrow> 'a \<Rightarrow> volume \<Rightarrow> bool) \<Rightarrow> op_env \<Rightarrow> fs \<Rightarrow> 'a \<Rightarrow> fs \<Rightarrow> bool" where
  "vol_effect eff env s y t \<longleftrightarrow>
     (\<exists>xe x x'. eff \<lparr>io_op = env, io_x = xe\<rparr> \<lparr>v_fs = s, v_x = x\<rparr> y \<lparr>v_fs = t, v_x = x'\<rparr>)"

lemma resaved_effect:
  assumes "resaved env op res ino i' v t" "has_op_id op \<Longrightarrow> ans res = Some y"
  shows "effect_ok (io_op env) op ans (v_fs v) y t"
  using assms by (intro effect_ok_step [where f = "\<lambda>N. N"]) (auto simp: resaved_def)

locale vol_operation =
  fixes run :: "io_env \<Rightarrow> 'a vm"
    and key :: op_id
    and ans :: "dedup_result \<Rightarrow> 'a option"
    and ok :: bool
    and eff :: "io_env \<Rightarrow> volume \<Rightarrow> 'a \<Rightarrow> volume \<Rightarrow> bool"
    and admits :: bool
  assumes result: "admits \<Longrightarrow> fs_inv (v_fs v) \<Longrightarrow> holds (run env) (vol_result env key ans ok (eff env v) v) v"
    and eff_ok: "fs_inv (v_fs v) \<Longrightarrow> eff env v y v' \<Longrightarrow> effect_ok (io_op env) key ans (v_fs v) y (v_fs v')"
    and eff_data: "eff env v y v' \<Longrightarrow> \<exists>g. data_to env ok g v v'"
begin

lemma run_result: "admits \<Longrightarrow> fs_inv (v_fs v) \<Longrightarrow> run env v = (r, v') \<Longrightarrow> vol_result env key ans ok (eff env v) v r v'"
  using result [of v env] by (rule holdsD)

text \<open>The invariant of the data side is kept: the volume always has some contents.\<close>

lemma keeps_contents:
  assumes "admits" "ok" "fs_inv (v_fs v)" "io_ready env v" "vol_inv env F v" "run env v = (r, v')"
  shows "\<exists>G. vol_inv env G v'"
  using run_result [OF assms(1,3,6)] eff_data [of env v _ v'] assms(2,4,5) unfolding vol_result_def data_to_def by blast

lemma failed_keeps_contents:
  assumes "admits" "ok" "fs_inv (v_fs v)" "io_ready env v" "vol_inv env F v" "run env v = (Inl e, v')"
    and "\<not> we_sync_writes (oe_worker (io_op env))"
  shows "v_meta v' = v_meta v \<and> vol_inv env F v'"
  using run_result [OF assms(1,3,6)] assms(2,4,5,7) unfolding vol_result_def data_to_def by (auto simp del: id_apply) simp

end

sublocale vol_operation \<subseteq> rows: ns_operation "vol_run run" key ans "vol_effect eff" "\<lambda>_ _. admits"
proof
  fix env s r t
  assume inv: "fs_inv s" "admits" and "vol_run run env s r t"
  then obtain xe x x' where run: "run \<lparr>io_op = env, io_x = xe\<rparr> \<lparr>v_fs = s, v_x = x\<rparr> = (r, \<lparr>v_fs = t, v_x = x'\<rparr>)"
    by (auto simp: vol_run_def)
  have "vol_result \<lparr>io_op = env, io_x = xe\<rparr> key ans ok
      (eff \<lparr>io_op = env, io_x = xe\<rparr> \<lparr>v_fs = s, v_x = x\<rparr>) \<lparr>v_fs = s, v_x = x\<rparr> r \<lparr>v_fs = t, v_x = x'\<rparr>"
    by (rule run_result [OF inv(2) _ run]) (simp add: inv(1))
  from vol_result_op [OF this, of "vol_effect eff env s"] show "op_result env key ans (vol_effect eff env s) s r t"
    by (auto simp: vol_effect_def)
next
  fix env s y t
  assume inv: "fs_inv s" and "vol_effect eff env s y t"
  then obtain xe x x' where "eff \<lparr>io_op = env, io_x = xe\<rparr> \<lparr>v_fs = s, v_x = x\<rparr> y \<lparr>v_fs = t, v_x = x'\<rparr>"
    by (auto simp: vol_effect_def)
  from eff_ok [OF _ this] show "effect_ok env key ans s y t"
    using inv by simp
qed

end
