(* ===== verification/Example_Volume.thy ===== *)
theory Example_Volume
  imports File_State
begin

text \<open>
  A concrete volume at which the properties of the data operations are instantiated: the tree of the
  metadata examples beside a new extent store without segments, in an environment without faults.
\<close>

definition example_seg_store :: seg_store where
  "example_seg_store = \<lparr>ss_objects = Map.empty, ss_epoch = 1, ss_counter = 0\<rparr>"

definition example_xenv :: xenv where
  "example_xenv =
     \<lparr>xe_store = example_store_env, xe_faults = (\<lambda>_. None), xe_scan_ok = True, xe_authority = None,
      xe_lane_busy = (\<lambda>_. False), xe_seal_threshold = 2 ^ 20, xe_max_inflight = 8\<rparr>"

definition example_io :: io_env where
  "example_io = \<lparr>io_op = example_env\<lparr>oe_pre := example_tree\<rparr>, io_x = example_xenv\<rparr>"

definition example_volume :: volume where
  "example_volume = \<lparr>v_fs = example_tree, v_x = extent_store_new example_seg_store\<rparr>"

abbreviation no_contents :: contents where
  "no_contents \<equiv> \<lambda>_ _. 0"

lemma example_fresh_epoch: "fresh_epoch example_seg_store"
  by (simp add: fresh_epoch_def example_seg_store_def OPEN_SEGMENT_LANES_def)

lemma example_healthy: "healthy (io_x example_io)"
  by (simp add: healthy_def example_io_def example_xenv_def example_store_env_def)

lemma example_xenv_ok: "xenv_ok example_xenv"
proof -
  have "sealed_len c \<le> 40000" if "length p = 32768" "compress (plain_codec Lz4) p = Inr c" for p c
    using that by (auto simp: compress_def plain_codec_def sealed_len_def SEALED_FRAME_OVERHEAD_def NONCE_SIZE_def TAG_SIZE_def Let_def split: if_splits option.splits)
  then show ?thesis
    using example_data_env_ok
    by (fastforce simp: xenv_ok_def example_xenv_def example_store_env_def example_data_env_def)
qed

lemma example_volume_inv: "vol_inv example_io no_contents example_volume"
  using new_store_inv [OF example_fresh_epoch, of "st_meta example_tree" example_xenv]
  by (simp add: vol_inv_def example_volume_def example_io_def eof_clean_def)
    (simp add: example_tree_def)

lemma example_room: "segid_room OPEN_SEGMENT_LANES (v_x example_volume)"
  by (simp add: segid_room_def example_volume_def extent_store_new_eq example_seg_store_def OPEN_SEGMENT_LANES_def)

lemma example_ready: "io_ready example_io example_volume"
  using example_xenv_ok segid_room_less [OF example_room, of 1]
  by (simp add: io_ready_def example_io_def OPEN_SEGMENT_LANES_def)

lemma example_volume_fs: "fs_inv (v_fs example_volume)"
  by (simp add: example_volume_def example_tree_inv)

lemma example_volume_new_op: "dedup_get (st_ledger (v_fs example_volume)) op = None"
  by (simp add: example_volume_def example_tree_def example_fs_def fs_new_def dedup_get_def)

lemma example_file: "m_inodes (v_meta example_volume) 3 = Some (File \<lparr>f_attrs = tree_attrs (Some [0x66]) 1, f_size = 0, f_parent = Some 1\<rparr>)"
  by (simp add: example_volume_def example_tree_def tree_inode_def)

end
