(* ===== verification/Op_Write.thy ===== *)
theory Op_Write
  imports Example_Volume
begin

text \<open>
  Writing to files (\<open>fs/ops/write.rs\<close>). A request names one file, or one per member of a striped
  device; it is validated member by member under the inode locks (\<open>prepare_write\<close>), and then
  materialised in one transaction (\<open>apply_prepared_batch\<close>): the extents of every member, the inode
  rows whose attributes change, and the result of the request. Quota, last-extent cache and
  statistics are settled with the commit.
\<close>

section \<open>Requests and prepared members\<close>

record write_member =
  wm_id :: inode_id
  wm_offset :: u64
  wm_data :: bytes

record write_request =
  wr_members :: "write_member list"
  wr_auth :: auth_context
  wr_op_id :: op_id
  wr_check_permissions :: bool

record prepared_member =
  pm_id :: inode_id
  pm_offset :: u64
  pm_data :: bytes
  pm_old_size :: u64
  pm_new_size :: u64
  pm_inode :: inode
  pm_attrs :: file_attributes
  pm_republish :: bool
  pm_span :: "(u64 \<times> u64) option"
  pm_quota :: "reservation option"

type_synonym batch_result = "(inode_id \<times> file_attributes) list"

datatype prepared_batch = ReplayedBatch batch_result | PreparedBatch "prepared_member list"

definition replayed_members :: "write_request \<Rightarrow> dedup_result \<Rightarrow> prepared_batch option" where
  "replayed_members req res =
     map_option (\<lambda>attrs. ReplayedBatch (map (\<lambda>m. (wm_id m, attrs)) (wr_members req))) (into_write res)"

section \<open>Preparation\<close>

definition SETID_BITS :: u32 where
  "SETID_BITS = 0xC00"

definition clear_setid :: "attrs \<Rightarrow> attrs" where
  "clear_setid a = a\<lparr>i_mode := i_mode a AND NOT SETID_BITS\<rparr>"

definition touch_file :: "u64 \<times> u32 \<Rightarrow> attrs \<Rightarrow> attrs" where
  "touch_file now a =
     a\<lparr>i_mtime := fst now, i_mtime_nsec := snd now, i_ctime := fst now, i_ctime_nsec := snd now\<rparr>"

definition clears_setid :: "credentials \<Rightarrow> attrs \<Rightarrow> bool" where
  "clears_setid creds a \<longleftrightarrow> cr_uid creds \<noteq> i_uid a \<and> cr_uid creds \<noteq> 0 \<and> i_mode a AND SETID_BITS \<noteq> 0"

definition written_file :: "credentials \<Rightarrow> u64 \<times> u32 \<Rightarrow> u64 \<Rightarrow> file_inode \<Rightarrow> bool \<times> file_inode" where
  "written_file creds now new_size f =
     (let a = f_attrs f;
          clears = clears_setid creds a;
          republish = (new_size \<noteq> f_size f \<or> clears \<or> i_mtime a \<noteq> fst now \<or> i_ctime a \<noteq> fst now)
      in (republish,
          if republish then
            f\<lparr>f_size := new_size, f_attrs := (if clears then clear_setid (touch_file now a) else touch_file now a)\<rparr>
          else f))"

definition prepare_member ::
  "io_env \<Rightarrow> credentials \<Rightarrow> bool \<Rightarrow> nat \<Rightarrow> write_member \<Rightarrow> prepared_member vm" where
  "prepare_member env creds check_permissions k m =
     sbind (v_inode_get env (wm_id m)) (\<lambda>i.
     case i of
       File f \<Rightarrow>
         sbind (slift (if check_permissions \<and> cr_uid creds \<noteq> i_uid (f_attrs f)
                       then check_access i creds Write else Inr ())) (\<lambda>_.
         let span = extent_span (wm_offset m) (word_of_nat (length (wm_data m))) in
         if wm_data m = [] then
           sret \<lparr>pm_id = wm_id m, pm_offset = wm_offset m, pm_data = wm_data m, pm_old_size = f_size f,
             pm_new_size = f_size f, pm_inode = i, pm_attrs = file_attributes_of i (wm_id m),
             pm_republish = False, pm_span = span, pm_quota = None\<rparr>
         else
           sbind (slift (ok_or InvalidArgument (checked_add (wm_offset m) (word_of_nat (length (wm_data m)))))) (\<lambda>end_offset.
           let old_size = f_size f; new_size = max old_size end_offset in
           sbind (reserve_growth old_size new_size) (\<lambda>quota.
           let (republish, f) = written_file creds (oe_clock (io_op env) k) new_size f in
           sret \<lparr>pm_id = wm_id m, pm_offset = wm_offset m, pm_data = wm_data m, pm_old_size = old_size,
             pm_new_size = new_size, pm_inode = File f, pm_attrs = file_attributes_of (File f) (wm_id m),
             pm_republish = republish, pm_span = span, pm_quota = quota\<rparr>)))
     | _ \<Rightarrow> sfail IsDirectory)"

fun prepare_members ::
  "io_env \<Rightarrow> credentials \<Rightarrow> bool \<Rightarrow> nat \<Rightarrow> write_member list \<Rightarrow> prepared_member list vm" where
  "prepare_members env creds check_permissions k [] = sret []"
| "prepare_members env creds check_permissions k (m # ms) =
     sbind (prepare_member env creds check_permissions k m) (\<lambda>p.
     sbind (releasing (pm_quota p) (prepare_members env creds check_permissions (Suc k) ms)) (\<lambda>ps.
     sret (p # ps)))"

definition prepare_write :: "io_env \<Rightarrow> write_request \<Rightarrow> prepared_batch vm" where
  "prepare_write env req =
     v_unless_replayed_pre env (wr_op_id req) (replayed_members req) (
     sbind (slift (check (distinct (map wm_id (wr_members req))) InvalidArgument)) (\<lambda>_.
     sbind (slift (check (wr_members req \<noteq> []) InvalidArgument)) (\<lambda>_.
     v_unless_replayed (wr_op_id req) (replayed_members req) (
     sbind (prepare_members env (credentials_from_auth_context (wr_auth req)) (wr_check_permissions req) 0
              (wr_members req)) (\<lambda>ps.
     sret (PreparedBatch ps))))))"

section \<open>Application\<close>

fun write_extents :: "io_env \<Rightarrow> prepared_member list \<Rightarrow> txn \<Rightarrow> ((inode_id \<times> tail_update) list \<times> txn) vm" where
  "write_extents env [] t = sret ([], t)"
| "write_extents env (p # ps) t =
     (if pm_data p = [] then write_extents env ps t
      else
        sbind (on_data (\<lambda>m. extent_write (io_x env) m (pm_id p) (pm_offset p) (pm_data p) (pm_old_size p) t)) (\<lambda>(u, t).
        sbind (write_extents env ps t) (\<lambda>(us, t).
        sret ((pm_id p, u) # us, t))))"

fun save_members :: "io_env \<Rightarrow> prepared_member list \<Rightarrow> txn \<Rightarrow> txn vm" where
  "save_members env [] t = sret t"
| "save_members env (p # ps) t =
     sbind (if pm_republish p then save_inode_entry env (pm_id p) (pm_inode p) t else sret t) (\<lambda>t.
     save_members env ps t)"

definition batch_attrs :: "prepared_member list \<Rightarrow> batch_result" where
  "batch_attrs ps = map (\<lambda>p. (pm_id p, pm_attrs p)) ps"

definition set_batch_result :: "op_id \<Rightarrow> prepared_member list \<Rightarrow> txn \<Rightarrow> txn" where
  "set_batch_result op ps t =
     (case ps of [] \<Rightarrow> t | p # _ \<Rightarrow> set_dedup_result op (DrWrite (pm_attrs p)) t)"

definition stage_batch ::
  "io_env \<Rightarrow> op_id \<Rightarrow> prepared_member list \<Rightarrow> ((inode_id \<times> tail_update) list \<times> txn) vm" where
  "stage_batch env op ps =
     sbind (slift (new_transaction (io_op env))) (\<lambda>t.
     sbind (write_extents env ps t) (\<lambda>(us, t).
     sbind (save_members env ps t) (\<lambda>t.
     sret (us, set_batch_result op ps t))))"

definition empty_batch_result :: "io_env \<Rightarrow> op_id \<Rightarrow> prepared_member list \<Rightarrow> batch_result vm" where
  "empty_batch_result env op ps =
     (if has_op_id op then
        sbind (slift (new_transaction (io_op env))) (\<lambda>t.
        sbind (v_commit env (set_batch_result op ps t) NoSettlement []) (\<lambda>_.
        sret (batch_attrs ps)))
      else sret (batch_attrs ps))"

definition apply_prepared_batch :: "io_env \<Rightarrow> op_id \<Rightarrow> prepared_batch \<Rightarrow> batch_result vm" where
  "apply_prepared_batch env op b =
     (case b of
        ReplayedBatch res \<Rightarrow> sret res
      | PreparedBatch ps \<Rightarrow>
          if list_all (\<lambda>p. pm_data p = []) ps then empty_batch_result env op ps
          else
            sbind (fold releasing (map pm_quota ps) (stage_batch env op ps)) (\<lambda>(us, t).
            sbind (v_commit env t
                (SettleWrite \<lparr>ws_quota = List.map_filter pm_quota ps,
                   ws_lengths = map (\<lambda>p. word_of_nat (length (pm_data p))) (filter (\<lambda>p. pm_data p \<noteq> []) ps)\<rparr>) us) (\<lambda>_.
            sret (batch_attrs ps))))"

definition apply_write_request :: "io_env \<Rightarrow> write_request \<Rightarrow> file_attributes vm" where
  "apply_write_request env req =
     sbind (prepare_write env req) (\<lambda>b.
     sbind (apply_prepared_batch env (wr_op_id req) b) (\<lambda>res.
     sret (snd (hd res))))"

definition write_idempotent_inner ::
  "io_env \<Rightarrow> auth_context \<Rightarrow> inode_id \<Rightarrow> u64 \<Rightarrow> bytes \<Rightarrow> op_id \<Rightarrow> bool \<Rightarrow> file_attributes vm" where
  "write_idempotent_inner env auth ino offset d op check_permissions =
     apply_write_request env
       \<lparr>wr_members = [\<lparr>wm_id = ino, wm_offset = offset, wm_data = d\<rparr>], wr_auth = auth, wr_op_id = op,
        wr_check_permissions = check_permissions\<rparr>"

definition write_idempotent ::
  "io_env \<Rightarrow> auth_context \<Rightarrow> inode_id \<Rightarrow> u64 \<Rightarrow> bytes \<Rightarrow> op_id \<Rightarrow> file_attributes vm" where
  "write_idempotent env auth ino offset d op = write_idempotent_inner env auth ino offset d op True"

definition write_opened_idempotent ::
  "io_env \<Rightarrow> auth_context \<Rightarrow> inode_id \<Rightarrow> u64 \<Rightarrow> bytes \<Rightarrow> op_id \<Rightarrow> file_attributes vm" where
  "write_opened_idempotent env auth ino offset d op = write_idempotent_inner env auth ino offset d op False"

definition write_file :: "io_env \<Rightarrow> auth_context \<Rightarrow> inode_id \<Rightarrow> u64 \<Rightarrow> bytes \<Rightarrow> file_attributes vm" where
  "write_file env auth ino offset d = write_idempotent env auth ino offset d no_op_id"

section \<open>A request with one member\<close>

lemma replay_map:
  "replay_dedup_result l op (\<lambda>r. map_option c (ex r)) =
   (case replay_dedup_result l op ex of Inl e \<Rightarrow> Inl e | Inr x \<Rightarrow> Inr (map_option c x))"
  by (simp add: replay_dedup_result_def split: option.split)

lemma unless_replayed_bind:
  assumes "\<And>y. h (c y) = sret y"
  shows "sbind (v_unless_replayed_pre env op (\<lambda>r. map_option c (ex r)) k) h = v_unless_replayed_pre env op ex (sbind k h)"
    and "sbind (v_unless_replayed op (\<lambda>r. map_option c (ex r)) k) h = v_unless_replayed op ex (sbind k h)"
  by (auto simp: v_unless_replayed_pre_def v_unless_replayed_def sbind_assoc replay_map fun_eq_iff sbind_def slift_def sread_def
      assms split: sum.split option.split) (simp_all add: sret_def assms [unfolded sret_def fun_eq_iff])

lemma write_code:
  "write_idempotent_inner env auth ino offset d op chk =
   v_unless_replayed_pre env op into_write (v_unless_replayed op into_write (
     sbind (prepare_member env (credentials_from_auth_context auth) chk 0 \<lparr>wm_id = ino, wm_offset = offset, wm_data = d\<rparr>) (\<lambda>p.
     sbind (apply_prepared_batch env op (PreparedBatch [p])) (\<lambda>res. sret (snd (hd res))))))"
proof -
  let ?req = "\<lparr>wr_members = [\<lparr>wm_id = ino, wm_offset = offset, wm_data = d\<rparr>], wr_auth = auth, wr_op_id = op,
        wr_check_permissions = chk\<rparr>"
  let ?h = "\<lambda>b. sbind (apply_prepared_batch env op b) (\<lambda>res. sret (snd (hd res)))"
  have h: "?h (ReplayedBatch [(ino, y)]) = sret y" for y
    by (simp add: apply_prepared_batch_def sbind_sret)
  have rel: "releasing q (sret []) = sret []" for q
    by (simp add: fun_eq_iff releasing_def sret_def)
  have ex: "replayed_members ?req = (\<lambda>r. map_option (\<lambda>attrs. ReplayedBatch [(ino, attrs)]) (into_write r))"
    by (simp add: fun_eq_iff replayed_members_def)
  show ?thesis
    unfolding write_idempotent_inner_def apply_write_request_def prepare_write_def
    by (simp add: ex unless_replayed_bind [where h = ?h and c = "\<lambda>attrs. ReplayedBatch [(ino, attrs)]", OF h] check_def
        sbind_slift sbind_assoc sbind_sret rel)
qed

lemma written_file_ok:
  assumes "written_file creds now n f = (rp, f')"
  shows "f_size f' = n" "skel_of (File f') = skel_of (File f)" "\<not> rp \<Longrightarrow> f' = f"
    "i_mode (f_attrs f') = (if clears_setid creds (f_attrs f) then i_mode (f_attrs f) AND NOT SETID_BITS else i_mode (f_attrs f))"
    "i_uid (f_attrs f') = i_uid (f_attrs f)" "i_gid (f_attrs f') = i_gid (f_attrs f)"
  using assms by (auto simp: written_file_def Let_def touch_file_def clear_setid_def inode_nlink_def inode_name_def split: if_splits)

text \<open>Staging one member.\<close>

definition write_contents :: "prepared_member \<Rightarrow> contents \<Rightarrow> contents" where
  "write_contents p F = F(pm_id p := overwrite (F (pm_id p)) (unat (pm_offset p)) (pm_data p))"

definition write_fits :: "u64 \<Rightarrow> bytes \<Rightarrow> bool" where
  "write_fits offset d \<longleftrightarrow> unat offset + length d \<le> 2 ^ 64 - 32768"

definition member_staged ::
  "io_env \<Rightarrow> op_id \<Rightarrow> prepared_member \<Rightarrow> volume \<Rightarrow> ((inode_id \<times> tail_update) list \<times> txn) fs_result \<Rightarrow> volume \<Rightarrow> bool" where
  "member_staged env op p v r v2 \<longleftrightarrow>
     (case r of
        Inl e \<Rightarrow> still v v2 \<and> data_to env (write_fits (pm_offset p) (pm_data p)) id v v2
      | Inr (us, tx) \<Rightarrow>
          \<exists>t0. staged_data env (write_fits (pm_offset p) (pm_data p)) (write_contents p) v (Inr (t0, us)) v2
            \<and> tx_ops tx = tx_ops t0 @ (if pm_republish p
                then resave_ops (oe_faults (io_op env)) (v_meta v) (pm_id p) (pm_inode p) else [])
            \<and> tx_extent_updates tx = tx_extent_updates t0
            \<and> tx_dedup_entry tx = (if has_op_id op then Some \<lparr>dd_op_id = op, dd_result = DrWrite (pm_attrs p)\<rparr> else None))"

lemma save_one:
  assumes st: "staged_data env (write_fits (pm_offset p) (pm_data p)) (write_contents p) v (Inr (t0, us)) v2"
    and fresh: "tx_dedup_entry t0 = None"
  shows "holds (sbind (save_members env [p] t0) (\<lambda>t. sret (us, set_batch_result op [p] t))) (member_staged env op p v) v2"
proof -
  have v2: "still v v2" "data_to env (write_fits (pm_offset p) (pm_data p)) id v v2" "v_meta v2 = v_meta v"
    using st still_rows by (auto simp: staged_data_def)
  have upd: "tx_extent_updates (set_dedup_result op r t) = tx_extent_updates t" "tx_ops (set_dedup_result op r t) = tx_ops t" for r t
    by (simp_all add: set_dedup_result_def)
  have code: "sbind (save_members env [p] t0) k = sbind (if pm_republish p
      then save_inode_entry env (pm_id p) (pm_inode p) t0 else sret t0) k" for k :: "txn \<Rightarrow> 'a vm"
    by (simp add: sbind_assoc sbind_sret)
  have save: "holds (if pm_republish p then save_inode_entry env (pm_id p) (pm_inode p) t0 else sret t0)
      (\<lambda>r v'. v' = v2 \<and> (\<forall>t'. r = Inr t' \<longrightarrow> tx_ops t' = tx_ops t0 @ (if pm_republish p
         then resave_ops (oe_faults (io_op env)) (v_meta v) (pm_id p) (pm_inode p) else [])
       \<and> tx_extent_updates t' = tx_extent_updates t0)) v2"
    using save_inode_entry_ok [of env "pm_id p" "pm_inode p" t0 v2] by (auto simp: v2(3) elim!: holds_mono)
  show ?thesis
    unfolding code
  proof (rule holds_bindI [OF save])
    show "member_staged env op p v (Inl e) v'" if "v' = v2 \<and> P" for e v' P
      using that v2 by (simp add: member_staged_def)
  next
    fix t v'
    assume "v' = v2 \<and> (\<forall>t'. (Inr t :: txn fs_result) = Inr t' \<longrightarrow> tx_ops t' = tx_ops t0 @ (if pm_republish p
         then resave_ops (oe_faults (io_op env)) (v_meta v) (pm_id p) (pm_inode p) else [])
       \<and> tx_extent_updates t' = tx_extent_updates t0)"
    then show "holds (sret (us, set_batch_result op [p] t)) (member_staged env op p v) v'"
      using st by (auto simp: member_staged_def upd set_batch_result_def)
  qed
qed

lemma stage_one:
  assumes f: "m_inodes (v_meta v) (pm_id p) = Some (File f)" and p: "pm_old_size p = f_size f" "pm_data p \<noteq> []"
    and still: "still v v1" "v_x v1 = v_x v"
  shows "holds (stage_batch env op [p]) (member_staged env op p v) v1"
  unfolding stage_batch_def
proof (rule holds_liftI)
  have "data_to env ok id v v1" for ok
    using data_to_cong [of v1 v] still_rows [OF still(1)] still(2) by simp
  then show "member_staged env op p v (Inl e) v1" for e
    using still by (simp add: member_staged_def)
next
  fix t
  assume "new_transaction (io_op env) = Inr t"
  then have t: "t = transaction_new"
    by (rule new_transaction_Inr)
  have code: "sbind (write_extents env [p] t) (\<lambda>(us, t). sbind (save_members env [p] t) (\<lambda>t. sret (us, set_batch_result op [p] t)))
      = sbind (on_data (\<lambda>m. extent_write (io_x env) m (pm_id p) (pm_offset p) (pm_data p) (f_size f) transaction_new))
          (\<lambda>(u, t). sbind (save_members env [p] t) (\<lambda>t. sret ([(pm_id p, u)], set_batch_result op [p] t)))"
    using p by (simp add: sbind_assoc sbind_sret split_def t cong: if_cong)
  show "holds (sbind (write_extents env [p] t) (\<lambda>(us, t). sbind (save_members env [p] t) (\<lambda>t. sret (us, set_batch_result op [p] t))))
      (member_staged env op p v) v1"
    unfolding code
  proof (rule holds_bindI [OF write_staged [OF f p(2) still]])
    fix e v'
    assume "staged_data env (unat (pm_offset p) + length (pm_data p) \<le> 2 ^ 64 - 32768)
        (\<lambda>F. F(pm_id p := overwrite (F (pm_id p)) (unat (pm_offset p)) (pm_data p))) v
        (case Inl e of Inl e \<Rightarrow> Inl e | Inr (u, t) \<Rightarrow> Inr (t, [(pm_id p, u)])) v'"
    then show "member_staged env op p v (Inl e) v'"
      by (simp add: staged_data_def member_staged_def write_fits_def)
  next
    fix y :: "tail_update \<times> txn" and v'
    obtain u t' where y: "y = (u, t')"
      by fastforce
    assume "staged_data env (unat (pm_offset p) + length (pm_data p) \<le> 2 ^ 64 - 32768)
        (\<lambda>F. F(pm_id p := overwrite (F (pm_id p)) (unat (pm_offset p)) (pm_data p))) v
        (case Inr y of Inl e \<Rightarrow> Inl e | Inr (u, t) \<Rightarrow> Inr (t, [(pm_id p, u)])) v'"
    then have st: "staged_data env (write_fits (pm_offset p) (pm_data p)) (write_contents p) v (Inr (t', [(pm_id p, u)])) v'"
      unfolding y write_fits_def write_contents_def [abs_def] by simp
    have "tx_dedup_entry t' = None"
      using st by (simp add: staged_data_def extends_extents_def)
    then show "holds (case y of (u, t) \<Rightarrow> sbind (save_members env [p] t) (\<lambda>t. sret ([(pm_id p, u)], set_batch_result op [p] t)))
        (member_staged env op p v) v'"
      unfolding y prod.case by (intro save_one [OF st])
  qed
qed

section \<open>Outcome\<close>

text \<open>What an applied write has done to the rows: the inode of a file the caller may write to has the
  new size and times, and loses its set-id bits when a stranger wrote; the namespace is as it was.\<close>

definition write_size :: "u64 \<Rightarrow> bytes \<Rightarrow> u64 \<Rightarrow> u64" where
  "write_size offset d n = (if d = [] then n else max n (offset + word_of_nat (length d)))"

definition write_made ::
  "io_env \<Rightarrow> credentials \<Rightarrow> bool \<Rightarrow> inode_id \<Rightarrow> u64 \<Rightarrow> bytes \<Rightarrow> op_id \<Rightarrow> volume \<Rightarrow> file_attributes \<Rightarrow> fs \<Rightarrow> bool" where
  "write_made env creds chk ino offset d op v y t \<longleftrightarrow>
     (\<exists>f f'. m_inodes (v_meta v) ino = Some (File f) \<and> y = file_attributes_of (File f') ino
        \<and> resaved env op (DrWrite y) ino (File f') v t
        \<and> (chk \<and> cr_uid creds \<noteq> i_uid (f_attrs f) \<longrightarrow> check_access (File f) creds Write = Inr ())
        \<and> (d \<noteq> [] \<longrightarrow> unat offset + length d < 2 ^ 64)
        \<and> f_size f' = write_size offset d (f_size f)
        \<and> i_mode (f_attrs f') = (if d \<noteq> [] \<and> clears_setid creds (f_attrs f)
             then i_mode (f_attrs f) AND NOT SETID_BITS else i_mode (f_attrs f)))"

definition write_done ::
  "io_env \<Rightarrow> credentials \<Rightarrow> bool \<Rightarrow> inode_id \<Rightarrow> u64 \<Rightarrow> bytes \<Rightarrow> op_id \<Rightarrow> volume \<Rightarrow> file_attributes \<Rightarrow> volume \<Rightarrow> bool" where
  "write_done env creds chk ino offset d op v y v' \<longleftrightarrow>
     write_made env creds chk ino offset d op v y (v_fs v')
     \<and> data_to env (write_fits offset d) (\<lambda>F. F(ino := overwrite (F ino) (unat offset) d)) v v'"

lemma overwrite_Nil [simp]: "overwrite f k [] = f"
  by (auto simp: overwrite_def fun_eq_iff)

lemma overwrite_eof:
  assumes "eof_clean f n" "unat offset + length d < 2 ^ 64"
  shows "eof_clean (overwrite f (unat offset) d) (write_size offset d n)"
proof (cases "d = []")
  case False
  have "unat (offset + word_of_nat (length d)) = unat offset + length d"
    using assms(2) by (simp add: unat_word_ariths unat_u64_of_nat)
  then have "unat (write_size offset d n) = max (unat n) (unat offset + length d)"
    using False by (simp add: write_size_def max_def word_le_nat_alt)
  then show ?thesis
    using assms(1) by (auto simp: eof_clean_def overwrite_def)
qed (simp add: assms(1) write_size_def)

lemma v_bump_Nil: "sbind (v_bump []) k = k ()"
  by (simp add: fun_eq_iff v_bump_def on_fs_def s_bump_def smodify_def sbind_def)

lemma data_to_overwrite_Nil: "data_to env ok (\<lambda>F. F(ino := overwrite (F ino) k [])) v v' = data_to env ok id v v'"
  by (simp add: data_to_def)

text \<open>A write without data leaves the file alone and only records its result.\<close>

lemma empty_write_result:
  assumes inv: "fs_inv (v_fs v)" and new: "dedup_get (st_ledger (v_fs v)) op = None"
    and f: "m_inodes (v_meta v) ino = Some (File f)"
    and acc: "chk \<and> cr_uid creds \<noteq> i_uid (f_attrs f) \<longrightarrow> check_access (File f) creds Write = Inr ()"
    and p: "pm_id p = ino" "pm_attrs p = file_attributes_of (File f) ino"
  shows "holds (sbind (empty_batch_result env op [p]) (\<lambda>res. sret (snd (hd res))))
    (vol_result env op into_write (write_fits offset []) (write_done env creds chk ino offset [] op v) v) v"
proof -
  have eff: "write_done env creds chk ino offset [] op v (pm_attrs p) v2"
    if "resaved env op (DrWrite (pm_attrs p)) ino (File f) v (v_fs v2)" "data_to env (write_fits offset []) (\<lambda>F. F) v v2" for v2
    unfolding write_done_def write_made_def
    using that f acc p by (auto simp: write_size_def data_to_overwrite_Nil id_def)
  show ?thesis
  proof (cases "has_op_id op")
    case False
    have "resaved env op (DrWrite (pm_attrs p)) ino (File f) v (v_fs v)"
      using inv f False by (simp add: resaved_def ns_step_def fs_inv_def fun_upd_idem)
    then have "write_done env creds chk ino offset [] op v (pm_attrs p) v"
      by (rule eff) (simp add: data_to_def)
    then show ?thesis
      using False new by (auto simp: empty_batch_result_def batch_attrs_def vol_result_def intro: exI [of _ 0])
  next
    case True
    have code: "sbind (empty_batch_result env op [p]) (\<lambda>res. sret (snd (hd res))) =
        sbind (slift (new_transaction (io_op env))) (\<lambda>t.
        sbind (v_commit env (set_dedup_result op (DrWrite (pm_attrs p)) t) NoSettlement []) (\<lambda>_.
        sbind (v_bump []) (\<lambda>_. sret (pm_attrs p))))"
      using True by (simp add: empty_batch_result_def sbind_assoc sbind_sret v_bump_Nil batch_attrs_def set_batch_result_def)
    show ?thesis
      unfolding code
    proof (rule holds_liftI)
      fix t
      assume "new_transaction (io_op env) = Inr t"
      then have t: "t = transaction_new"
        by (rule new_transaction_Inr)
      show "holds (sbind (v_commit env (set_dedup_result op (DrWrite (pm_attrs p)) t) NoSettlement [])
          (\<lambda>_. sbind (v_bump []) (\<lambda>_. sret (pm_attrs p))))
          (vol_result env op into_write (write_fits offset []) (write_done env creds chk ino offset [] op v) v) v"
        unfolding t
        by (rule commit_resavedI [OF inv f refl new staged_none, where saved = False and res = "DrWrite (pm_attrs p)"])
          (auto simp: set_dedup_result_def vol_invD(2) [OF _ f] intro: eff)
    qed simp
  qed
qed

lemma reserved_write_result:
  assumes inv: "fs_inv (v_fs v)" and new: "dedup_get (st_ledger (v_fs v)) op = None"
    and f: "m_inodes (v_meta v) ino = Some (File f)"
    and acc: "chk \<and> cr_uid creds \<noteq> i_uid (f_attrs f) \<longrightarrow> check_access (File f) creds Write = Inr ()"
    and fits: "unat offset + length d < 2 ^ 64" and d: "d \<noteq> []"
    and w: "written_file creds now (write_size offset d (f_size f)) f = (rp, f')"
    and p: "pm_id p = ino" "pm_offset p = offset" "pm_data p = d" "pm_old_size p = f_size f" "pm_inode p = File f'"
      "pm_attrs p = file_attributes_of (File f') ino" "pm_republish p = rp"
    and still: "still v v1" "v_x v1 = v_x v"
  shows "holds (sbind (apply_prepared_batch env op (PreparedBatch [p])) (\<lambda>res. sret (snd (hd res))))
    (vol_result env op into_write (write_fits offset d) (write_done env creds chk ino offset d op v) v) v1"
proof -
  note ok = written_file_ok [OF w]
  have code: "sbind (apply_prepared_batch env op (PreparedBatch [p])) (\<lambda>res. sret (snd (hd res))) =
      sbind (releasing (pm_quota p) (stage_batch env op [p])) (\<lambda>(us, t).
      sbind (v_commit env t (SettleWrite \<lparr>ws_quota = List.map_filter pm_quota [p], ws_lengths = [word_of_nat (length d)]\<rparr>) us) (\<lambda>_.
      sbind (v_bump []) (\<lambda>_. sret (file_attributes_of (File f') ino))))"
    using d p by (simp add: apply_prepared_batch_def sbind_assoc sbind_sret v_bump_Nil batch_attrs_def split_def)
  have st: "holds (releasing (pm_quota p) (stage_batch env op [p])) (member_staged env op p v) v1"
    unfolding holds_releasing using stage_one [of v p f v1 env op] f d p still
    by (auto elim!: holds_mono simp: member_staged_def split: sum.split)
  show ?thesis
    unfolding code
  proof (rule holds_bindI [OF st])
    show "vol_result env op into_write (write_fits offset d) (write_done env creds chk ino offset d op v) v (Inl e) v'"
      if "member_staged env op p v (Inl e) v'" for e v'
      using that p by (intro vol_result_still) (simp_all add: member_staged_def)
  next
    fix y :: "(inode_id \<times> tail_update) list \<times> txn" and v'
    assume st: "member_staged env op p v (Inr y) v'"
    obtain us t where y: "y = (us, t)"
      by fastforce
    obtain t0 where t0: "staged_data env (write_fits offset d) (\<lambda>F. F(ino := overwrite (F ino) (unat offset) d)) v (Inr (t0, us)) v'"
      and tx: "tx_ops t = tx_ops t0 @ (if rp then resave_ops (oe_faults (io_op env)) (v_meta v) ino (File f') else [])"
        "tx_extent_updates t = tx_extent_updates t0"
        "tx_dedup_entry t = (if has_op_id op then Some \<lparr>dd_op_id = op, dd_result = DrWrite (file_attributes_of (File f') ino)\<rparr> else None)"
      using st unfolding member_staged_def y write_contents_def [abs_def] p by auto
    show "holds (case y of (us, t) \<Rightarrow> sbind (v_commit env t (SettleWrite \<lparr>ws_quota = List.map_filter pm_quota [p],
        ws_lengths = [word_of_nat (length d)]\<rparr>) us) (\<lambda>_. sbind (v_bump []) (\<lambda>_. sret (file_attributes_of (File f') ino))))
        (vol_result env op into_write (write_fits offset d) (write_done env creds chk ino offset d op v) v) v'"
      unfolding y prod.case
    proof (rule commit_resavedI [OF inv f _ new t0 tx(1) _ tx(2,3)])
      show "skel_of (File f') = skel_of (File f)" "\<not> rp \<Longrightarrow> File f' = File f"
        using ok by simp_all
      show "eof_clean ((F(ino := overwrite (F ino) (unat offset) d)) ino) (f_size g)"
        if "vol_inv env F v" "File f' = File g" for F g
        using overwrite_eof [OF vol_invD(2) [OF that(1) f] fits] that(2) ok(1) by simp
      show "write_done env creds chk ino offset d op v (file_attributes_of (File f') ino) v2"
        if "resaved env op (DrWrite (file_attributes_of (File f') ino)) ino (File f') v (v_fs v2)"
          "data_to env (write_fits offset d) (\<lambda>F. F(ino := overwrite (F ino) (unat offset) d)) v v2" for v2
        unfolding write_done_def write_made_def using that f acc fits d ok by auto
    qed simp
  qed
qed

lemma prepare_memberI:
  assumes refused: "\<And>e v1. still v v1 \<Longrightarrow> v_x v1 = v_x v \<Longrightarrow> Q (Inl e) v1"
    and empty: "\<And>f p. m_inodes (v_meta v) (wm_id m) = Some (File f) \<Longrightarrow>
      chk \<and> cr_uid creds \<noteq> i_uid (f_attrs f) \<longrightarrow> check_access (File f) creds Write = Inr () \<Longrightarrow> wm_data m = [] \<Longrightarrow>
      pm_id p = wm_id m \<Longrightarrow> pm_data p = [] \<Longrightarrow> pm_attrs p = file_attributes_of (File f) (wm_id m) \<Longrightarrow> holds (k p) Q v"
    and written: "\<And>f f' rp p v1. m_inodes (v_meta v) (wm_id m) = Some (File f) \<Longrightarrow>
      chk \<and> cr_uid creds \<noteq> i_uid (f_attrs f) \<longrightarrow> check_access (File f) creds Write = Inr () \<Longrightarrow> wm_data m \<noteq> [] \<Longrightarrow>
      unat (wm_offset m) + length (wm_data m) < 2 ^ 64 \<Longrightarrow>
      written_file creds (oe_clock (io_op env) n) (write_size (wm_offset m) (wm_data m) (f_size f)) f = (rp, f') \<Longrightarrow>
      pm_id p = wm_id m \<Longrightarrow> pm_offset p = wm_offset m \<Longrightarrow> pm_data p = wm_data m \<Longrightarrow> pm_old_size p = f_size f \<Longrightarrow>
      pm_inode p = File f' \<Longrightarrow> pm_attrs p = file_attributes_of (File f') (wm_id m) \<Longrightarrow> pm_republish p = rp \<Longrightarrow>
      still v v1 \<Longrightarrow> v_x v1 = v_x v \<Longrightarrow> holds (k p) Q v1"
    and len: "length (wm_data m) < 2 ^ 64"
  shows "holds (sbind (prepare_member env creds chk n m) k) Q v"
  unfolding prepare_member_def v_inode_get_def sbind_assoc
proof (rule holds_readI)
  fix i
  assume "inode_get (oe_faults (io_op env)) (v_meta v) (wm_id m) = Inr i"
  then have i: "m_inodes (v_meta v) (wm_id m) = Some i"
    by (rule inode_get_Inr)
  show "holds (sbind (case i of File f \<Rightarrow>
         sbind (slift (if chk \<and> cr_uid creds \<noteq> i_uid (f_attrs f) then check_access i creds Write else Inr ())) (\<lambda>_.
         let span = extent_span (wm_offset m) (word_of_nat (length (wm_data m))) in
         if wm_data m = [] then
           sret \<lparr>pm_id = wm_id m, pm_offset = wm_offset m, pm_data = wm_data m, pm_old_size = f_size f,
             pm_new_size = f_size f, pm_inode = i, pm_attrs = file_attributes_of i (wm_id m),
             pm_republish = False, pm_span = span, pm_quota = None\<rparr>
         else
           sbind (slift (ok_or InvalidArgument (checked_add (wm_offset m) (word_of_nat (length (wm_data m)))))) (\<lambda>end_offset.
           let old_size = f_size f; new_size = max old_size end_offset in
           sbind (reserve_growth old_size new_size) (\<lambda>quota.
           let (republish, f) = written_file creds (oe_clock (io_op env) n) new_size f in
           sret \<lparr>pm_id = wm_id m, pm_offset = wm_offset m, pm_data = wm_data m, pm_old_size = old_size,
             pm_new_size = new_size, pm_inode = File f, pm_attrs = file_attributes_of (File f) (wm_id m),
             pm_republish = republish, pm_span = span, pm_quota = quota\<rparr>)))
     | _ \<Rightarrow> sfail IsDirectory) k) Q v"
  proof (cases i)
    case (File f)
    show ?thesis
      unfolding File inode.case sbind_assoc Let_def
    proof (rule holds_liftI)
      fix u
      assume "(if chk \<and> cr_uid creds \<noteq> i_uid (f_attrs f) then check_access (File f) creds Write else Inr ()) = Inr u"
      then have acc: "chk \<and> cr_uid creds \<noteq> i_uid (f_attrs f) \<longrightarrow> check_access (File f) creds Write = Inr ()"
        by (auto split: if_splits)
      note f = i [unfolded File]
      show "holds (sbind (if wm_data m = [] then
           sret \<lparr>pm_id = wm_id m, pm_offset = wm_offset m, pm_data = wm_data m, pm_old_size = f_size f,
             pm_new_size = f_size f, pm_inode = File f, pm_attrs = file_attributes_of (File f) (wm_id m),
             pm_republish = False, pm_span = extent_span (wm_offset m) (word_of_nat (length (wm_data m))), pm_quota = None\<rparr>
         else
           sbind (slift (ok_or InvalidArgument (checked_add (wm_offset m) (word_of_nat (length (wm_data m)))))) (\<lambda>end_offset.
           sbind (reserve_growth (f_size f) (max (f_size f) end_offset)) (\<lambda>quota.
           case written_file creds (oe_clock (io_op env) n) (max (f_size f) end_offset) f of (republish, f') \<Rightarrow>
           sret \<lparr>pm_id = wm_id m, pm_offset = wm_offset m, pm_data = wm_data m, pm_old_size = f_size f,
             pm_new_size = max (f_size f) end_offset, pm_inode = File f', pm_attrs = file_attributes_of (File f') (wm_id m),
             pm_republish = republish, pm_span = extent_span (wm_offset m) (word_of_nat (length (wm_data m))), pm_quota = quota\<rparr>))) k) Q v"
      proof (cases "wm_data m = []")
        case True
        then show ?thesis
          using f acc by (auto simp: sbind_sret intro!: empty)
      next
        case False
        show ?thesis
          unfolding if_not_P [OF False] sbind_assoc
        proof (rule holds_liftI)
          fix stop
          assume "ok_or InvalidArgument (checked_add (wm_offset m) (word_of_nat (length (wm_data m)))) = Inr stop"
          then have "checked_add (wm_offset m) (word_of_nat (length (wm_data m))) = Some stop"
            by (auto simp: ok_or_def split: option.splits)
          then have stop: "unat (wm_offset m) + length (wm_data m) < 2 ^ 64"
              "max (f_size f) stop = write_size (wm_offset m) (wm_data m) (f_size f)"
            using len False by (auto simp: checked_add_def unat_u64_of_nat write_size_def split: if_splits)
          obtain rp f' where w: "written_file creds (oe_clock (io_op env) n) (max (f_size f) stop) f = (rp, f')"
            by fastforce
          show "holds (sbind (reserve_growth (f_size f) (max (f_size f) stop)) (\<lambda>quota.
              sbind (case written_file creds (oe_clock (io_op env) n) (max (f_size f) stop) f of (republish, f') \<Rightarrow>
              sret \<lparr>pm_id = wm_id m, pm_offset = wm_offset m, pm_data = wm_data m, pm_old_size = f_size f,
                pm_new_size = max (f_size f) stop, pm_inode = File f', pm_attrs = file_attributes_of (File f') (wm_id m),
                pm_republish = republish, pm_span = extent_span (wm_offset m) (word_of_nat (length (wm_data m))), pm_quota = quota\<rparr>) k)) Q v"
            unfolding w prod.case sbind_sret
            by (rule holds_bindI [OF reserve_growth_still])
              (use refused written [OF f acc False stop(1) w [unfolded stop(2)]] in auto)
        qed (simp add: refused)
      qed
    qed (simp add: refused)
  qed (simp_all add: refused)
qed (simp add: refused)

lemma write_result:
  assumes inv: "fs_inv (v_fs v)" and len: "length d < 2 ^ 64"
  shows "holds (write_idempotent_inner env auth ino offset d op chk) (vol_result env op into_write (write_fits offset d)
    (write_done env (credentials_from_auth_context auth) chk ino offset d op v) v) v"
  unfolding write_code
proof (rule v_replayed_preI, rule v_replayedI, rule prepare_memberI, goal_cases)
  case (1 e v1)
  then show ?case
    using data_to_cong [of v1 v] still_rows by (intro vol_result_still) auto
next
  case (2 f p)
  then show ?case
    using empty_write_result [OF inv 2(1), of ino f chk "credentials_from_auth_context auth" p env offset]
    by (simp add: apply_prepared_batch_def)
next
  case (3 f f' rp p v1)
  then show ?case
    by (intro reserved_write_result [OF inv 3(1), of ino f]) (assumption | simp)+
qed (use len in simp)

interpretation write_op: vol_operation "\<lambda>env. write_idempotent_inner env auth ino offset d op chk" op into_write
  "write_fits offset d" "\<lambda>env. write_done env (credentials_from_auth_context auth) chk ino offset d op" "length d < 2 ^ 64"
proof
  show "holds (write_idempotent_inner env auth ino offset d op chk)
      (vol_result env op into_write (write_fits offset d)
        (write_done env (credentials_from_auth_context auth) chk ino offset d op v) v) v"
    if "length d < 2 ^ 64" "fs_inv (v_fs v)" for v env
    by (rule write_result [OF that(2,1)])
  show "effect_ok (io_op env) op into_write (v_fs v) y (v_fs v')"
    if "write_done env (credentials_from_auth_context auth) chk ino offset d op v y v'" for env v y v'
    using that by (auto simp: write_done_def write_made_def intro: resaved_effect)
qed (auto simp: write_done_def)

section \<open>Properties\<close>

text \<open>
  C1. What a write does to a volume whose files have the contents \<open>F\<close>. Either nothing happened: the
  call failed, or it answered from the record of an earlier call with the same identifier, and rows
  and contents are as before. Or it was applied in one commit: the file is one the caller may write
  to, exactly the written range of this file has the new bytes and every other byte of every file is
  as it was, its size is the larger of the old size and the end of the range, a stranger's write has
  cleared the set-id bits, and the namespace has not changed. The answer is an error after an
  applied write only when the final flush of a synchronous commit failed.
\<close>

theorem write_refines_overwrite:
  assumes "fs_inv (v_fs v)" "vol_inv env F v" "io_ready env v" "write_fits offset d"
    and "write_idempotent_inner env auth ino offset d op chk v = (r, v')"
  shows "v_meta v' = v_meta v \<and> st_ledger (v_fs v') = st_ledger (v_fs v) \<and> vol_inv env F v'
      \<and> ((\<exists>e. r = Inl e) \<or> (\<exists>y. r = Inr y \<and> replayed (io_op env) op into_write (v_fs v) y))
    \<or> (\<exists>y. write_made env (credentials_from_auth_context auth) chk ino offset d op v y (v_fs v')
        \<and> vol_inv env (F(ino := overwrite (F ino) (unat offset) d)) v'
        \<and> dedup_get (st_ledger (v_fs v)) op = None
        \<and> (r = Inr y \<or> we_sync_writes (oe_worker (io_op env)) \<and> (\<exists>e. r = Inl e)))"
proof -
  have "length d < 2 ^ 64"
    using assms(4) by (simp add: write_fits_def)
  then have "vol_result env op into_write (write_fits offset d)
      (write_done env (credentials_from_auth_context auth) chk ino offset d op v) v r v'"
    using holdsD [OF write_result [OF assms(1)] assms(5)] by simp
  then show ?thesis
    using assms(2-4) unfolding vol_result_def write_done_def data_to_def by auto
qed

theorem write_refines_overwrite_witness:
  "fs_inv (v_fs example_volume) \<and> vol_inv example_io no_contents example_volume \<and> write_fits 5 [7, 8]
   \<and> (let (r, v') = write_idempotent example_io default_auth_context 3 5 [7, 8] example_op example_volume in
      v_meta v' = v_meta example_volume \<and> vol_inv example_io no_contents v' \<and> (\<exists>e. r = Inl e)
      \<or> vol_inv example_io (no_contents(3 := overwrite (\<lambda>_. 0) 5 [7, 8])) v')"
proof -
  obtain r v' where run: "write_idempotent_inner example_io default_auth_context 3 5 [7, 8] example_op True example_volume = (r, v')"
    by fastforce
  have fits: "write_fits 5 [7, 8]"
    by (simp add: write_fits_def)
  have "\<not> replayed (io_op example_io) example_op into_write (v_fs example_volume) y" for y
    by (simp add: replayed_def example_volume_new_op)
      (simp add: example_io_def example_tree_def example_fs_def fs_new_def dedup_get_def)
  then show ?thesis
    using write_refines_overwrite [OF example_volume_fs example_volume_inv example_ready fits run]
      example_volume_fs example_volume_inv fits unfolding write_idempotent_def run by auto
qed

end
