(* ===== verification/Op_Io.thy ===== *)
theory Op_Io
  imports Op_Write
begin

text \<open>
  The rest of the data plane (\<open>fs/ops/io.rs\<close>): reading, punching holes and allocating. Without a
  volatile overlay the visible read is the canonical one. A read touches caches and counters only.
\<close>

section \<open>Reading\<close>

definition s_count_read :: "nat \<Rightarrow> unit vm" where
  "s_count_read n =
     on_fs (smodify (\<lambda>s. bump TotalOperations (bump ReadOperations (bump_by BytesRead (word_of_nat n) s))))"

definition read_from_file :: "io_env \<Rightarrow> inode_id \<Rightarrow> file_inode \<Rightarrow> u64 \<Rightarrow> u32 \<Rightarrow> (bytes \<times> bool) vm" where
  "read_from_file env ino f offset count =
     (if offset \<ge> f_size f then sret ([], True)
      else
        let read_len = min (ucast count) (f_size f - offset) in
        sbind (on_data (\<lambda>m. read_range (io_x env) m ino offset read_len)) (\<lambda>b.
        let eof = (offset + read_len \<ge> f_size f) in
        sbind (s_count_read (length b)) (\<lambda>_.
        sret (b, eof))))"

definition read_file_inner_canonical ::
  "io_env \<Rightarrow> auth_context option \<Rightarrow> inode_id \<Rightarrow> u64 \<Rightarrow> u32 \<Rightarrow> (bytes \<times> bool) vm" where
  "read_file_inner_canonical env auth ino offset count =
     sbind (v_inode_get env ino) (\<lambda>i.
     sbind (slift (case auth of
         None \<Rightarrow> Inr ()
       | Some a \<Rightarrow> check_access i (credentials_from_auth_context a) Read)) (\<lambda>_.
     case i of
       File f \<Rightarrow> read_from_file env ino f offset count
     | _ \<Rightarrow> sfail IsDirectory))"

definition read_file :: "io_env \<Rightarrow> auth_context \<Rightarrow> inode_id \<Rightarrow> u64 \<Rightarrow> u32 \<Rightarrow> (bytes \<times> bool) vm" where
  "read_file env auth ino offset count = read_file_inner_canonical env (Some auth) ino offset count"

definition read_file_opened :: "io_env \<Rightarrow> inode_id \<Rightarrow> u64 \<Rightarrow> u32 \<Rightarrow> (bytes \<times> bool) vm" where
  "read_file_opened env ino offset count = read_file_inner_canonical env None ino offset count"

section \<open>Punching and allocating\<close>

definition trim :: "io_env \<Rightarrow> auth_context \<Rightarrow> inode_id \<Rightarrow> u64 \<Rightarrow> u64 \<Rightarrow> unit vm" where
  "trim env auth ino offset len =
     (if len = 0 then sret ()
      else
        sbind (slift (fence_metadata (io_op env))) (\<lambda>_.
        sbind (v_inode_get env ino) (\<lambda>i.
        let creds = credentials_from_auth_context auth in
        case i of
          File f \<Rightarrow>
            sbind (slift (if cr_uid creds \<noteq> i_uid (f_attrs f) then check_access i creds Write else Inr ())) (\<lambda>_.
            sbind (slift (ok_or InvalidArgument (checked_add offset len))) (\<lambda>_.
            sbind (slift (new_transaction (io_op env))) (\<lambda>t.
            sbind (on_data (\<lambda>m. extent_zero_range (io_x env) m ino offset len (f_size f) t)) (\<lambda>t.
            sbind (v_commit env t NoSettlement []) (\<lambda>_.
            sbind (v_bump [WriteOperations, TotalOperations]) (\<lambda>_.
            sret ()))))))
        | _ \<Rightarrow> sfail IsDirectory)))"

datatype fallocate_mode = Allocate | PunchHole | ZeroRange (keep_size: bool)

definition fallocate_size :: "fallocate_mode \<Rightarrow> u64 \<Rightarrow> u64 \<Rightarrow> u64" where
  "fallocate_size mode old_size stop =
     (if mode = Allocate \<or> mode = ZeroRange False then max old_size stop else old_size)"

definition fallocated_file :: "credentials \<Rightarrow> u64 \<times> u32 \<Rightarrow> u64 \<Rightarrow> file_inode \<Rightarrow> file_inode" where
  "fallocated_file creds now new_size f =
     f\<lparr>f_size := new_size,
       f_attrs := (let a = touch_file now (f_attrs f) in
         if cr_uid creds \<noteq> i_uid a \<and> cr_uid creds \<noteq> 0 then clear_setid a else a)\<rparr>"

definition quota_growth :: "reservation option \<Rightarrow> commit_settlement" where
  "quota_growth rsv = (case rsv of None \<Rightarrow> NoSettlement | Some r \<Rightarrow> SettleQuota (Growth r))"

definition fallocate_idempotent_inner ::
  "io_env \<Rightarrow> auth_context \<Rightarrow> inode_id \<Rightarrow> u64 \<Rightarrow> u64 \<Rightarrow> fallocate_mode \<Rightarrow> op_id \<Rightarrow> file_attributes vm" where
  "fallocate_idempotent_inner env auth ino offset len mode op =
     v_unless_replayed_pre env op into_fallocate (
     sbind (slift (check (len \<noteq> 0) InvalidArgument)) (\<lambda>_.
     sbind (slift (ok_or InvalidArgument (checked_add offset len))) (\<lambda>stop.
     sbind (slift (fence_metadata (io_op env))) (\<lambda>_.
     v_unless_replayed op into_fallocate (
     sbind (v_inode_get env ino) (\<lambda>i.
     let creds = credentials_from_auth_context auth in
     case i of
       File f \<Rightarrow>
         let old_size = f_size f; new_size = fallocate_size mode old_size stop;
             zeroes_range = (mode \<noteq> Allocate);
             i' = File (fallocated_file creds (oe_clock (io_op env) 0) new_size f);
             attrs = file_attributes_of i' ino
         in
         sbind (reserve_growth old_size new_size) (\<lambda>quota.
         sbind (releasing quota (
           sbind (slift (new_transaction (io_op env))) (\<lambda>t.
           sbind (if zeroes_range \<and> offset < old_size
                  then on_data (\<lambda>m. extent_zero_range (io_x env) m ino offset (min stop old_size - offset) old_size t)
                  else sret t) (\<lambda>t.
           sbind (save_inode_entry env ino i' t) (\<lambda>t.
           sret (set_dedup_result op (DrFallocate attrs) t)))))) (\<lambda>t.
         sbind (v_commit env t (quota_growth quota) []) (\<lambda>_.
         sbind (v_bump [WriteOperations, TotalOperations]) (\<lambda>_.
         sret attrs))))
     | _ \<Rightarrow> sfail IsDirectory))))))"

definition fallocate_opened ::
  "io_env \<Rightarrow> auth_context \<Rightarrow> inode_id \<Rightarrow> u64 \<Rightarrow> u64 \<Rightarrow> fallocate_mode \<Rightarrow> file_attributes vm" where
  "fallocate_opened env auth ino offset len mode = fallocate_idempotent_inner env auth ino offset len mode no_op_id"

definition fallocate_opened_idempotent ::
  "io_env \<Rightarrow> auth_context \<Rightarrow> inode_id \<Rightarrow> u64 \<Rightarrow> u64 \<Rightarrow> fallocate_mode \<Rightarrow> op_id \<Rightarrow> file_attributes vm" where
  "fallocate_opened_idempotent env auth ino offset len mode op = fallocate_idempotent_inner env auth ino offset len mode op"

section \<open>What a read answers\<close>

definition read_answer :: "(nat \<Rightarrow> u8) \<Rightarrow> nat \<Rightarrow> nat \<Rightarrow> nat \<Rightarrow> bytes \<times> bool" where
  "read_answer f n offset count = (map f [offset..<min n (offset + count)], n \<le> offset + count)"

definition may_read :: "io_env \<Rightarrow> auth_context option \<Rightarrow> inode_id \<Rightarrow> volume \<Rightarrow> file_inode \<Rightarrow> bool" where
  "may_read env auth ino v f \<longleftrightarrow>
     inode_get (oe_faults (io_op env)) (v_meta v) ino = Inr (File f)
     \<and> (case auth of None \<Rightarrow> True | Some a \<Rightarrow> check_access (File f) (credentials_from_auth_context a) Read = Inr ())"

lemma read_len:
  fixes offset n :: u64 and count :: u32
  assumes "offset < n"
  shows "unat offset + unat (min (ucast count) (n - offset)) = min (unat n) (unat offset + unat count)"
    "n \<le> offset + min (ucast count) (n - offset) \<longleftrightarrow> unat n \<le> unat offset + unat count"
proof -
  have c: "unat (ucast count :: u64) = unat count"
    using unsigned_less [of count, where 'a = nat] by (simp add: unsigned_ucast_eq take_bit_nat_eq_self)
  have s: "unat (n - offset) = unat n - unat offset" "unat offset < unat n"
    using assms by (simp_all add: unat_sub word_less_nat_alt word_le_nat_alt)
  have "unat (min (ucast count) (n - offset)) = min (unat count) (unat n - unat offset)"
    by (simp add: min_def word_le_nat_alt c s)
  then show m: "unat offset + unat (min (ucast count) (n - offset)) = min (unat n) (unat offset + unat count)"
    using s by auto
  have "unat (offset + min (ucast count) (n - offset)) = min (unat n) (unat offset + unat count)"
    using m unsigned_less [of n, where 'a = nat] unfolding unat_word_ariths by (simp add: min_less_iff_disj del: unsigned_less)
  then show "n \<le> offset + min (ucast count) (n - offset) \<longleftrightarrow> unat n \<le> unat offset + unat count"
    by (simp add: word_le_nat_alt)
qed

lemma read_from_file_reads:
  assumes inv: "vol_inv env F v" and few: "unat count \<le> 2 ^ 30"
  shows "holds (read_from_file env ino f offset count)
    (\<lambda>r v'. v_meta v' = v_meta v \<and> still v v' \<and> only_caches (v_x v) (v_x v') \<and> vol_inv env F v'
       \<and> (\<forall>y. r = Inr y \<longrightarrow> y = read_answer (F ino) (unat (f_size f)) (unat offset) (unat count))
       \<and> (healthy (io_x env) \<longrightarrow> r \<in> range Inr)) v" (is "holds _ ?Q v")
proof (cases "offset \<ge> f_size f")
  case True
  then have "read_answer (F ino) (unat (f_size f)) (unat offset) (unat count) = ([], True)"
    by (simp add: read_answer_def word_le_nat_alt)
  then show ?thesis
    using True inv by (simp add: read_from_file_def)
next
  case False
  let ?len = "min (ucast count) (f_size f - offset)"
  have l: "unat offset + unat ?len = min (unat (f_size f)) (unat offset + unat count)"
    "f_size f \<le> offset + ?len \<longleftrightarrow> unat (f_size f) \<le> unat offset + unat count"
    using False read_len [of offset "f_size f" count] by simp_all
  have "unat offset + unat ?len < 2 ^ 64"
    unfolding l(1) by (simp add: min_less_iff_disj)
  moreover have "unat ?len \<le> 2 ^ 30"
    using l(1) few by linarith
  ultimately have "reads (io_x env) (v_meta v) F (read_range (io_x env) (v_meta v) ino offset ?len)
    (\<lambda>b. b = map (F ino) [unat offset..<unat offset + unat ?len]) (v_x v)"
    by (rule read_range_reads [OF vol_invD(1) [OF inv]])
  then have "holds (on_data (\<lambda>m. read_range (io_x env) m ino offset ?len)) (\<lambda>r v'.
      v_fs v' = v_fs v \<and> xinv (io_x env) (v_meta v) F (v_x v') \<and> only_caches (v_x v) (v_x v')
      \<and> (\<forall>b. r = Inr b \<longrightarrow> b = map (F ino) [unat offset..<unat offset + unat ?len])
      \<and> (healthy (io_x env) \<longrightarrow> r \<in> range Inr)) v" (is "holds _ ?P v")
    unfolding holds_on_data reads_def by (rule holds_mono) auto
  then show ?thesis
    unfolding read_from_file_def if_not_P [OF False] Let_def
  proof (rule holds_bindI)
    fix b and v' :: volume
    assume v': "?P (Inr b) v'"
    then have "(b, f_size f \<le> offset + ?len) = read_answer (F ino) (unat (f_size f)) (unat offset) (unat count)"
      by (simp add: read_answer_def l)
    then show "holds (sbind (s_count_read (length b)) (\<lambda>_. sret (b, offset + ?len \<ge> f_size f))) ?Q v'"
      using v' inv by (auto simp: s_count_read_def holds_bind vol_inv_def still_def quiet_def bump_def bump_by_def)
  qed (use inv in \<open>auto simp: vol_inv_def still_def quiet_def\<close>)
qed

lemma read_file_reads:
  assumes inv: "vol_inv env F v" and few: "unat count \<le> 2 ^ 30"
  shows "holds (read_file_inner_canonical env auth ino offset count)
    (\<lambda>r v'. v_meta v' = v_meta v \<and> still v v' \<and> only_caches (v_x v) (v_x v') \<and> vol_inv env F v'
       \<and> (\<forall>y. r = Inr y \<longrightarrow> (\<exists>f. may_read env auth ino v f
            \<and> y = read_answer (F ino) (unat (f_size f)) (unat offset) (unat count)))
       \<and> (healthy (io_x env) \<longrightarrow> (\<exists>f. may_read env auth ino v f) \<longrightarrow> r \<in> range Inr)) v"
    (is "holds _ ?Q v")
proof -
  let ?acc = "\<lambda>i. case auth of None \<Rightarrow> Inr () | Some a \<Rightarrow> check_access i (credentials_from_auth_context a) Read"
  have refused: "?Q (Inl e) v" if "\<And>f. \<not> may_read env auth ino v f" for e
    using inv that by simp
  show ?thesis
    unfolding read_file_inner_canonical_def v_inode_get_def
  proof (rule holds_readI)
    show "?Q (Inl e) v" if "inode_get (oe_faults (io_op env)) (v_meta v) ino = Inl e" for e
      by (rule refused) (simp add: may_read_def that)
  next
    fix i
    assume i: "inode_get (oe_faults (io_op env)) (v_meta v) ino = Inr i"
    show "holds (sbind (slift (?acc i)) (\<lambda>_.
       case i of File f \<Rightarrow> read_from_file env ino f offset count | _ \<Rightarrow> sfail IsDirectory)) ?Q v"
    proof (rule holds_liftI)
      show "?Q (Inl e) v" if "?acc i = Inl e" for e
        by (rule refused) (use that i in \<open>auto simp: may_read_def split: option.splits\<close>)
    next
      fix u
      assume acc: "?acc i = Inr u"
      show "holds (case i of File f \<Rightarrow> read_from_file env ino f offset count | _ \<Rightarrow> sfail IsDirectory) ?Q v"
      proof (cases i)
        case (File f)
        have "may_read env auth ino v f"
          using i acc by (auto simp: may_read_def File split: option.splits)
        then show ?thesis
          using read_from_file_reads [OF inv few, of ino f offset] by (auto simp: File elim!: holds_mono)
      qed (use refused i in \<open>simp_all add: may_read_def\<close>)
    qed
  qed
qed

section \<open>What punching and allocating do\<close>

text \<open>Zeroing past the end of a file changes nothing there.\<close>

lemma zero_span_eof:
  assumes "eof_clean f n" "unat n \<le> b"
  shows "zero_span f a (min b (unat n)) = zero_span f a b"
  using assms by (auto simp: zero_span_def eof_clean_def fun_eq_iff)

lemma zero_span_clean: "eof_clean f n \<Longrightarrow> n \<le> n' \<Longrightarrow> eof_clean (zero_span f a b) n'"
  by (auto simp: zero_span_def eof_clean_def word_le_nat_alt)

lemma eof_clean_mono: "eof_clean f n \<Longrightarrow> n \<le> n' \<Longrightarrow> eof_clean f n'"
  by (auto simp: eof_clean_def word_le_nat_alt)

definition span_fits :: "u64 \<Rightarrow> u64 \<Rightarrow> bool" where
  "span_fits offset len \<longleftrightarrow> unat offset + unat len \<le> 2 ^ 64 - 32768"

definition zeroed :: "inode_id \<Rightarrow> u64 \<Rightarrow> u64 \<Rightarrow> contents \<Rightarrow> contents" where
  "zeroed ino offset len F = F(ino := zero_span (F ino) (unat offset) (unat offset + unat len))"

definition trim_done ::
  "io_env \<Rightarrow> credentials \<Rightarrow> inode_id \<Rightarrow> u64 \<Rightarrow> u64 \<Rightarrow> volume \<Rightarrow> volume \<Rightarrow> bool" where
  "trim_done env creds ino offset len v v' \<longleftrightarrow>
     (len \<noteq> 0 \<longrightarrow> (\<exists>f. m_inodes (v_meta v) ino = Some (File f)
        \<and> (cr_uid creds \<noteq> i_uid (f_attrs f) \<longrightarrow> check_access (File f) creds Write = Inr ())))
     \<and> m_inodes (v_meta v') = m_inodes (v_meta v) \<and> ns_step (io_op env) (\<lambda>N. N) no_op_id DrApplied (v_fs v) (v_fs v')
     \<and> data_to env (span_fits offset len) (zeroed ino offset len) v v'"

definition fallocate_done ::
  "io_env \<Rightarrow> credentials \<Rightarrow> inode_id \<Rightarrow> u64 \<Rightarrow> u64 \<Rightarrow> fallocate_mode \<Rightarrow> op_id \<Rightarrow> volume \<Rightarrow> file_attributes \<Rightarrow> volume \<Rightarrow> bool" where
  "fallocate_done env creds ino offset len mode op v y v' \<longleftrightarrow>
     (\<exists>f f'. m_inodes (v_meta v) ino = Some (File f) \<and> unat offset + unat len < 2 ^ 64
        \<and> f' = fallocated_file creds (oe_clock (io_op env) 0) (fallocate_size mode (f_size f) (offset + len)) f
        \<and> y = file_attributes_of (File f') ino \<and> resaved env op (DrFallocate y) ino (File f') v (v_fs v'))
     \<and> data_to env (span_fits offset len) (if mode = Allocate then id else zeroed ino offset len) v v'"

lemma staged_data_cong:
  assumes "staged_data env ok g v r v2" "ok' \<Longrightarrow> ok" "\<And>F. vol_inv env F v \<Longrightarrow> g F = h F"
  shows "staged_data env ok' h v r v2"
  using assms unfolding staged_data_def data_to_def by (auto simp del: id_apply)

lemma zero_span_empty [simp]: "zero_span f a a = f"
  by (auto simp: zero_span_def fun_eq_iff)

lemma trim_commits:
  assumes inv: "fs_inv (v_fs v)" and f: "m_inodes (v_meta v) ino = Some (File f)"
    and acc: "cr_uid creds \<noteq> i_uid (f_attrs f) \<longrightarrow> check_access (File f) creds Write = Inr ()"
  shows "holds (sbind (slift (new_transaction (io_op env))) (\<lambda>t.
      sbind (on_data (\<lambda>m. extent_zero_range (io_x env) m ino offset len (f_size f) t)) (\<lambda>t.
      sbind (v_commit env t NoSettlement []) (\<lambda>_.
      sbind (v_bump [WriteOperations, TotalOperations]) (\<lambda>_. sret ())))))
    (vol_result env no_op_id (\<lambda>_. None) (span_fits offset len) (\<lambda>_. trim_done env creds ino offset len v) v) v"
    (is "holds _ ?Q v")
proof (rule holds_liftI)
  fix t
  assume "new_transaction (io_op env) = Inr t"
  then have t: "t = transaction_new"
    by (rule new_transaction_Inr)
  have span: "span_fits offset len = (unat offset + unat len \<le> 2 ^ 64 - 32768)"
    "zeroed ino offset len = (\<lambda>F. F(ino := zero_span (F ino) (unat offset) (unat offset + unat len)))"
    by (simp_all add: span_fits_def zeroed_def fun_eq_iff)
  show "holds (sbind (on_data (\<lambda>m. extent_zero_range (io_x env) m ino offset len (f_size f) t)) (\<lambda>t.
    sbind (v_commit env t NoSettlement []) (\<lambda>_. sbind (v_bump [WriteOperations, TotalOperations]) (\<lambda>_. sret ())))) ?Q v"
    unfolding t
  proof (rule holds_bindI [OF zero_range_staged [OF f still_refl refl, where offset = offset and len = len, folded span]])
    fix t v'
    assume "staged_data env (span_fits offset len) (zeroed ino offset len) v
        (case Inr t of Inl e \<Rightarrow> Inl e | Inr t \<Rightarrow> Inr (t, [])) v'"
    then have st: "staged_data env (span_fits offset len) (zeroed ino offset len) v (Inr (t, [])) v'"
      by simp
    show "holds (sbind (v_commit env t NoSettlement []) (\<lambda>_. sbind (v_bump [WriteOperations, TotalOperations]) (\<lambda>_. sret ()))) ?Q v'"
    proof (rule commit_resavedI [OF inv f refl _ st, where saved = False and res = DrApplied])
      show "tx_dedup_entry t = (if has_op_id no_op_id then Some \<lparr>dd_op_id = no_op_id, dd_result = DrApplied\<rparr> else None)"
        using st by (simp add: staged_data_def extends_extents_def transaction_new_def)
    qed (use f acc in \<open>auto simp: dedup_get_def zeroed_def trim_done_def resaved_def intro: zero_span_clean vol_invD(2) [OF _ f]\<close>)
  qed (simp add: vol_result_staged)
qed simp

lemma trim_result:
  assumes inv: "fs_inv (v_fs v)"
  shows "holds (trim env auth ino offset len) (vol_result env no_op_id (\<lambda>_. None) (span_fits offset len)
    (\<lambda>_. trim_done env (credentials_from_auth_context auth) ino offset len v) v) v" (is "holds _ ?Q v")
proof (cases "len = 0")
  case True
  have "ns_step (io_op env) (\<lambda>N. N) no_op_id DrApplied (v_fs v) (v_fs v)"
    using inv by (simp add: ns_step_def fs_inv_def)
  moreover have "data_to env (span_fits offset len) (zeroed ino offset len) v v"
    by (simp add: data_to_def True zeroed_def)
  ultimately show ?thesis
    using True by (auto simp: trim_def vol_result_def trim_done_def dedup_get_def intro!: exI [of _ 0])
next
  case False
  show ?thesis
    unfolding trim_def if_not_P [OF False] v_inode_get_def Let_def
  proof (rule holds_liftI, goal_cases)
    case (2 u)
    show ?case
    proof (rule holds_readI)
      fix i
      assume "inode_get (oe_faults (io_op env)) (v_meta v) ino = Inr i"
      then show "holds (case i of File f \<Rightarrow>
            sbind (slift (if cr_uid (credentials_from_auth_context auth) \<noteq> i_uid (f_attrs f)
                then check_access i (credentials_from_auth_context auth) Write else Inr ())) (\<lambda>_.
            sbind (slift (ok_or InvalidArgument (checked_add offset len))) (\<lambda>_.
            sbind (slift (new_transaction (io_op env))) (\<lambda>t.
            sbind (on_data (\<lambda>m. extent_zero_range (io_x env) m ino offset len (f_size f) t)) (\<lambda>t.
            sbind (v_commit env t NoSettlement []) (\<lambda>_.
            sbind (v_bump [WriteOperations, TotalOperations]) (\<lambda>_. sret ()))))))
          | _ \<Rightarrow> sfail IsDirectory) ?Q v"
      proof (cases i)
        case (File f)
        note f = inode_get_Inr [OF \<open>inode_get _ _ _ = _\<close>, unfolded File]
        show ?thesis
          unfolding File inode.case
          by (rule holds_liftI, simp, rule holds_liftI, simp, rule trim_commits [OF inv f]) (auto split: if_splits)
      qed simp_all
    qed simp
  qed simp
qed

lemma fallocated_file_ok:
  "f_size (fallocated_file creds now n f) = n" "skel_of (File (fallocated_file creds now n f)) = skel_of (File f)"
  by (simp_all add: fallocated_file_def touch_file_def clear_setid_def Let_def inode_nlink_def inode_name_def)

lemma fallocate_stage:
  assumes f: "m_inodes (v_meta v) ino = Some (File f)" and stop: "unat stop = unat offset + unat len"
    and still: "still v v1" "v_x v1 = v_x v"
  shows "holds (if mode \<noteq> Allocate \<and> offset < f_size f
      then on_data (\<lambda>m. extent_zero_range (io_x env) m ino offset (min stop (f_size f) - offset) (f_size f) transaction_new)
      else sret transaction_new)
    (\<lambda>r v2. staged_data env (span_fits offset len) (if mode = Allocate then id else zeroed ino offset len) v
      (case r of Inl e \<Rightarrow> Inl e | Inr t \<Rightarrow> Inr (t, [])) v2) v1"
proof (cases "mode \<noteq> Allocate \<and> offset < f_size f")
  case True
  let ?n = "min stop (f_size f) - offset"
  have "offset \<le> min stop (f_size f)"
    using True stop by (auto simp: min_def word_le_nat_alt word_less_nat_alt)
  then have n: "unat offset + unat ?n = min (unat stop) (unat (f_size f))"
    by (simp add: unat_sub min_def word_le_nat_alt)
  have "staged_data env (span_fits offset len) (zeroed ino offset len) v r v2"
    if "staged_data env (unat offset + unat ?n \<le> 2 ^ 64 - 32768)
       (\<lambda>F. F(ino := zero_span (F ino) (unat offset) (unat offset + unat ?n))) v r v2" for r v2
  proof (rule staged_data_cong [OF that])
    show "unat offset + unat ?n \<le> 2 ^ 64 - 32768" if "span_fits offset len"
      using that stop unfolding n span_fits_def by linarith
    show "F(ino := zero_span (F ino) (unat offset) (unat offset + unat ?n)) = zeroed ino offset len F" if "vol_inv env F v" for F
      using zero_span_eof [OF vol_invD(2) [OF that f], of "unat stop"] stop unfolding n zeroed_def
      by (cases "unat (f_size f) \<le> unat stop") auto
  qed
  then show ?thesis
    using zero_range_staged [OF f still, of env offset ?n] True by (auto elim!: holds_mono)
next
  case False
  have "zeroed ino offset len F = F" if "vol_inv env F v" "\<not> offset < f_size f" for F
    using vol_invD(2) [OF that(1) f] that(2) by (auto simp: zeroed_def zero_span_def eof_clean_def fun_eq_iff word_less_nat_alt)
  then have "staged_data env (span_fits offset len) (if mode = Allocate then id else zeroed ino offset len) v (Inr (transaction_new, [])) v"
    using False by (intro staged_data_cong [OF staged_none]) auto
  then have "staged_data env (span_fits offset len) (if mode = Allocate then id else zeroed ino offset len) v (Inr (transaction_new, [])) v1"
    using still data_to_cong [of v1 v] still_rows [OF still(1)] unfolding staged_data_def by simp
  then show ?thesis
    unfolding if_not_P [OF False] by simp
qed

lemma fallocate_result:
  assumes inv: "fs_inv (v_fs v)"
  shows "holds (fallocate_idempotent_inner env auth ino offset len mode op)
    (vol_result env op into_fallocate (span_fits offset len)
      (fallocate_done env (credentials_from_auth_context auth) ino offset len mode op v) v) v" (is "holds _ ?Q v")
  unfolding fallocate_idempotent_inner_def v_inode_get_def
proof (rule v_replayed_preI, rule holds_liftI, simp, rule holds_liftI, simp, rule holds_liftI, simp, rule v_replayedI, rule holds_readI, simp,
    goal_cases)
  case (1 u stop w i)
  let ?creds = "credentials_from_auth_context auth"
  have "checked_add offset len = Some stop"
    using 1(2) by (simp add: ok_or_def split: option.splits)
  then have stop: "unat stop = unat offset + unat len" "unat offset + unat len < 2 ^ 64" "stop = offset + len"
    by (auto simp: checked_add_def unat_word_ariths split: if_splits)
  show ?case
  proof (cases i)
    case (File f)
    let ?n = "fallocate_size mode (f_size f) stop"
    let ?f = "fallocated_file ?creds (oe_clock (io_op env) 0) ?n f"
    have f: "m_inodes (v_meta v) ino = Some (File f)"
      using 1(5) inode_get_Inr unfolding File by blast
    have grows: "f_size f \<le> ?n"
      by (simp add: fallocate_size_def)
    show ?thesis
      unfolding File inode.case Let_def
    proof (rule holds_bindI [OF reserve_growth_still])
      show "?Q (Inl e) v'" if "still v v' \<and> v_x v' = v_x v" for e v'
        using that data_to_cong [of v' v] still_rows by (intro vol_result_still) auto
    next
      fix q v1
      assume v1: "still v v1 \<and> v_x v1 = v_x v"
      let ?stage = "\<lambda>t. if mode \<noteq> Allocate \<and> offset < f_size f
         then on_data (\<lambda>m. extent_zero_range (io_x env) m ino offset (min stop (f_size f) - offset) (f_size f) t)
         else sret t"
      let ?g = "if mode = Allocate then id else zeroed ino offset len"
      note v1' = conjunct1 [OF v1] conjunct2 [OF v1]
      note S = staged_saveI [where stage = ?stage and g = ?g and i' = "File ?f" and saved = True
          and res = "DrFallocate (file_attributes_of (File ?f) ino)", OF inv f fallocated_file_ok(2) _ 1(4) v1' fallocate_stage [OF f stop(1) v1'], unfolded if_True]
      show "holds (sbind (releasing q (
           sbind (slift (new_transaction (io_op env))) (\<lambda>t.
           sbind (if mode \<noteq> Allocate \<and> offset < f_size f
                  then on_data (\<lambda>m. extent_zero_range (io_x env) m ino offset (min stop (f_size f) - offset) (f_size f) t)
                  else sret t) (\<lambda>t.
           sbind (save_inode_entry env ino (File ?f) t) (\<lambda>t.
           sret (set_dedup_result op (DrFallocate (file_attributes_of (File ?f) ino)) t)))))) (\<lambda>t.
         sbind (v_commit env t (quota_growth q) []) (\<lambda>_.
         sbind (v_bump [WriteOperations, TotalOperations]) (\<lambda>_.
         sret (file_attributes_of (File ?f) ino))))) ?Q v1"
        by (rule S)
          (use f stop grows in \<open>auto simp: fallocated_file_ok fallocate_done_def zeroed_def
              intro: zero_span_clean eof_clean_mono vol_invD(2) [OF _ f]\<close>)
    qed
  qed simp_all
qed

interpretation trim_op: vol_operation "\<lambda>env. trim env auth ino offset len" no_op_id "\<lambda>_. None" "span_fits offset len"
  "\<lambda>env v y v'. trim_done env (credentials_from_auth_context auth) ino offset len v v'" True
proof
  show "effect_ok (io_op env) no_op_id (\<lambda>_. None) (v_fs v) y (v_fs v')"
    if "trim_done env (credentials_from_auth_context auth) ino offset len v v'" for env v y v'
    using that by (intro effect_ok_step [where f = "\<lambda>N. N"]) (auto simp: trim_done_def)
qed (rule trim_result, assumption, auto simp: trim_done_def)

interpretation fallocate_op: vol_operation "\<lambda>env. fallocate_idempotent_inner env auth ino offset len mode op" op into_fallocate
  "span_fits offset len" "\<lambda>env. fallocate_done env (credentials_from_auth_context auth) ino offset len mode op" True
proof
  show "effect_ok (io_op env) op into_fallocate (v_fs v) y (v_fs v')"
    if "fallocate_done env (credentials_from_auth_context auth) ino offset len mode op v y v'" for env v y v'
    using that by (auto simp: fallocate_done_def intro: resaved_effect)
qed (auto simp: fallocate_done_def intro: fallocate_result)

section \<open>Properties\<close>

text \<open>
  C1. A read answers the bytes of the file. Whatever the lanes, the caches and the object store hold,
  the bytes answered are those of the file contents from the offset up to the requested count or the
  end of the file, through single extents, runs read in one request and holes alike; the end-of-file
  flag is set exactly when the end was reached; the inode is a file that the caller may read. The
  read leaves rows and contents as they are.
\<close>

theorem read_returns_contents:
  assumes "vol_inv env F v" "unat count \<le> 2 ^ 30"
    and "read_file_inner_canonical env auth ino offset count v = (r, v')"
  shows "v_meta v' = v_meta v \<and> vol_inv env F v'
    \<and> (\<forall>b eof. r = Inr (b, eof) \<longrightarrow> (\<exists>f. m_inodes (v_meta v) ino = Some (File f)
        \<and> (\<forall>a. auth = Some a \<longrightarrow> check_access (File f) (credentials_from_auth_context a) Read = Inr ())
        \<and> b = map (F ino) [unat offset..<min (unat (f_size f)) (unat offset + unat count)]
        \<and> eof = (unat (f_size f) \<le> unat offset + unat count)))"
  using holdsD [OF read_file_reads [OF assms(1,2)] assms(3)] inode_get_Inr
  by (auto simp: may_read_def read_answer_def)

text \<open>
  C1. A read is answered. When the caller may read the file, the database answers, the replica has
  authority and every stored object can be fetched, the read returns data: the frames that the rows
  name are found, authentic and of full size.
\<close>

theorem read_succeeds:
  assumes "vol_inv env F v" "unat count \<le> 2 ^ 30" "healthy (io_x env)"
    and "inode_get (oe_faults (io_op env)) (v_meta v) ino = Inr (File f)"
    and "check_access (File f) (credentials_from_auth_context auth) Read = Inr ()"
  shows "\<exists>v'. read_file env auth ino offset count v =
    (Inr (map (F ino) [unat offset..<min (unat (f_size f)) (unat offset + unat count)],
          unat (f_size f) \<le> unat offset + unat count), v')"
proof -
  obtain r v' where run: "read_file_inner_canonical env (Some auth) ino offset count v = (r, v')"
    by fastforce
  have "may_read env (Some auth) ino v f"
    using assms(4,5) by (simp add: may_read_def)
  then show ?thesis
    using holdsD [OF read_file_reads [OF assms(1,2)] run] assms(3,4) run
    by (auto simp: may_read_def read_answer_def read_file_def)
qed

definition example_read :: "(bytes \<times> bool) fs_result \<times> volume" where
  "example_read = read_file example_io default_auth_context 3 0 10 example_volume"

lemma example_may_read:
  "inode_get (oe_faults (io_op example_io)) (v_meta example_volume) 3 =
     Inr (File \<lparr>f_attrs = tree_attrs (Some [0x66]) 1, f_size = 0, f_parent = Some 1\<rparr>)"
  "check_access (File \<lparr>f_attrs = tree_attrs (Some [0x66]) 1, f_size = 0, f_parent = Some 1\<rparr>)
     (credentials_from_auth_context default_auth_context) Read = Inr ()"
proof -
  show "inode_get (oe_faults (io_op example_io)) (v_meta example_volume) 3 =
     Inr (File \<lparr>f_attrs = tree_attrs (Some [0x66]) 1, f_size = 0, f_parent = Some 1\<rparr>)"
    by (simp add: inode_get_def ok_or_def example_file example_io_def example_env_def)
qed code_simp

theorem read_succeeds_witness: "\<exists>v'. example_read = (Inr ([], True), v')"
  using read_succeeds [OF example_volume_inv _ example_healthy example_may_read, of 10 0]
  by (simp add: example_read_def)

theorem read_returns_contents_witness:
  "v_meta (snd example_read) = v_meta example_volume \<and> vol_inv example_io no_contents (snd example_read)"
proof -
  have "read_file_inner_canonical example_io (Some default_auth_context) 3 0 10 example_volume = (fst example_read, snd example_read)"
    by (simp add: example_read_def read_file_def)
  from read_returns_contents [OF example_volume_inv _ this] show ?thesis
    by simp
qed

text \<open>
  C1. Allocating, punching and zeroing a range of a file. An applied call zeroes exactly the range,
  unless it only allocates, when it changes no byte; the file is as long as before, or reaches the
  end of the range when the mode extends it; the clock is recorded as modification and change time
  and set-id bits are cleared for a stranger; no other byte of any file changes and the namespace
  stays. A call that fails, or that answers from its record, changes neither rows nor contents.
\<close>

theorem fallocate_zeroes_range:
  assumes "fs_inv (v_fs v)" "vol_inv env F v" "io_ready env v" "span_fits offset len"
    and "fallocate_idempotent_inner env auth ino offset len mode op v = (r, v')"
  shows "v_meta v' = v_meta v \<and> vol_inv env F v'
      \<and> ((\<exists>e. r = Inl e) \<or> (\<exists>y. r = Inr y \<and> replayed (io_op env) op into_fallocate (v_fs v) y))
    \<or> (\<exists>f f'. m_inodes (v_meta v) ino = Some (File f) \<and> m_inodes (v_meta v') = (m_inodes (v_meta v))(ino \<mapsto> File f')
        \<and> f' = fallocated_file (credentials_from_auth_context auth) (oe_clock (io_op env) 0) (f_size f') f
        \<and> unat (f_size f') = (if mode = Allocate \<or> mode = ZeroRange False
             then max (unat (f_size f)) (unat offset + unat len) else unat (f_size f))
        \<and> ns_of (v_meta v') = ns_of (v_meta v)
        \<and> vol_inv env (if mode = Allocate then F
             else F(ino := zero_span (F ino) (unat offset) (unat offset + unat len))) v'
        \<and> (r = Inr (file_attributes_of (File f') ino) \<or> we_sync_writes (oe_worker (io_op env)) \<and> (\<exists>e. r = Inl e)))"
proof -
  have size: "unat (fallocate_size mode n (offset + len)) = (if mode = Allocate \<or> mode = ZeroRange False
      then max (unat n) (unat offset + unat len) else unat n)" if "unat offset + unat len < 2 ^ 64" for n
    using that by (simp add: fallocate_size_def max_def word_le_nat_alt unat_word_ariths)
  have res: "vol_result env op into_fallocate (span_fits offset len)
      (fallocate_done env (credentials_from_auth_context auth) ino offset len mode op v) v r v'"
    using fallocate_op.run_result [OF _ assms(1,5)] by simp
  then consider (same) "v_meta v' = v_meta v" "data_to env (span_fits offset len) id v v'"
      "(\<exists>e. r = Inl e) \<or> (\<exists>y. r = Inr y \<and> replayed (io_op env) op into_fallocate (v_fs v) y)"
    | (applied) y where "fallocate_done env (credentials_from_auth_context auth) ino offset len mode op v y v'"
      "r = Inr y \<or> we_sync_writes (oe_worker (io_op env)) \<and> (\<exists>e. r = Inl e)"
    unfolding vol_result_def by blast
  then show ?thesis
  proof cases
    case same
    then show ?thesis
      using assms(2-4) by (auto simp: data_to_def)
  next
    case (applied y)
    then obtain f f' where f: "m_inodes (v_meta v) ino = Some (File f)" "unat offset + unat len < 2 ^ 64"
      "f' = fallocated_file (credentials_from_auth_context auth) (oe_clock (io_op env) 0) (fallocate_size mode (f_size f) (offset + len)) f"
      "y = file_attributes_of (File f') ino" "resaved env op (DrFallocate y) ino (File f') v (v_fs v')"
      and dat: "data_to env (span_fits offset len) (if mode = Allocate then id else zeroed ino offset len) v v'"
      unfolding fallocate_done_def by blast
    have "vol_inv env (if mode = Allocate then F else F(ino := zero_span (F ino) (unat offset) (unat offset + unat len))) v'"
      using dat assms(2-4) by (auto simp: data_to_def zeroed_def split: if_splits)
    moreover have n: "f_size f' = fallocate_size mode (f_size f) (offset + len)"
      by (simp add: f(3) fallocated_file_ok)
    moreover have "m_inodes (v_meta v') = (m_inodes (v_meta v))(ino \<mapsto> File f')" "ns_of (v_meta v') = ns_of (v_meta v)"
      using f(5) by (simp_all add: resaved_def ns_step_def)
    ultimately show ?thesis
      using f(1) f(3) [folded n] applied(2) [unfolded f(4)] size [OF f(2), of "f_size f", folded n] by blast
  qed
qed

theorem fallocate_zeroes_range_witness:
  "fs_inv (v_fs example_volume) \<and> vol_inv example_io no_contents example_volume \<and> span_fits 4096 8192
   \<and> (let (r, v') = fallocate_opened example_io default_auth_context 3 4096 8192 (ZeroRange False) example_volume in
      v_meta v' = v_meta example_volume
      \<or> (\<exists>f'. m_inodes (v_meta v') 3 = Some (File f') \<and> unat (f_size f') = 12288))"
proof -
  obtain r v' where run: "fallocate_idempotent_inner example_io default_auth_context 3 4096 8192 (ZeroRange False) no_op_id example_volume = (r, v')"
    by fastforce
  have fits: "span_fits 4096 8192"
    by (simp add: span_fits_def)
  have "v_meta v' = v_meta example_volume \<or> (\<exists>f'. m_inodes (v_meta v') 3 = Some (File f') \<and> unat (f_size f') = 12288)"
    using fallocate_zeroes_range [OF example_volume_fs example_volume_inv example_ready fits run] by (auto simp: example_file)
  then show ?thesis
    using example_volume_fs example_volume_inv fits unfolding fallocate_opened_def run by simp
qed

end
