(* ===== verification/Op_Setattr.thy ===== *)
theory Op_Setattr
  imports Op_Io
begin

text \<open>
  Changing attributes (\<open>fs/ops/setattr.rs\<close>): mode, owner, size and times in one transaction behind
  the POSIX permission rules, and the access time a read leaves behind. A new size goes through the
  extent store: shrinking drops and clears extents, growing is a sparse size change.
\<close>

section \<open>Guards\<close>

datatype size_authorization = CurrentMode | OpenedWritableFid

definition is_set :: "'a set_field \<Rightarrow> bool" where
  "is_set x = (case x of Set _ \<Rightarrow> True | NoChange \<Rightarrow> False)"

definition owner_change_ok :: "inode \<Rightarrow> credentials \<Rightarrow> set_attributes \<Rightarrow> unit fs_result" where
  "owner_change_ok i creds sa =
     (if (is_set (sa_uid sa) \<or> is_set (sa_gid sa)) \<and> cr_uid creds \<noteq> 0 then
        try_bind (check_ownership i creds) (\<lambda>_.
        try_bind (check (case sa_uid sa of Set u \<Rightarrow> u = cr_uid creds | NoChange \<Rightarrow> True) OperationNotPermitted) (\<lambda>_.
        check (case sa_gid sa of Set g \<Rightarrow> is_member_of_group creds g | NoChange \<Rightarrow> True) OperationNotPermitted))
      else Inr ())"

definition time_change_ok :: "inode \<Rightarrow> credentials \<Rightarrow> set_time \<Rightarrow> unit fs_result" where
  "time_change_ok i creds t =
     (case t of
        SetToClientTime _ \<Rightarrow> can_set_times i creds False
      | SetToServerTime \<Rightarrow> can_set_times i creds True
      | TimeNoChange \<Rightarrow> Inr ())"

definition setattr_guards ::
  "inode \<Rightarrow> credentials \<Rightarrow> set_attributes \<Rightarrow> size_authorization \<Rightarrow> unit fs_result" where
  "setattr_guards i creds sa auth =
     try_bind (if is_set (sa_mode sa) then check_ownership i creds else Inr ()) (\<lambda>_.
     try_bind (owner_change_ok i creds sa) (\<lambda>_.
     try_bind (time_change_ok i creds (sa_atime sa)) (\<lambda>_.
     try_bind (time_change_ok i creds (sa_mtime sa)) (\<lambda>_.
     if auth = CurrentMode \<and> is_set (sa_size sa) then check_access i creds Write else Inr ()))))"

section \<open>The new attributes\<close>

definition set_mode_field :: "bool \<Rightarrow> credentials \<Rightarrow> u32 set_field \<Rightarrow> attrs \<Rightarrow> attrs" where
  "set_mode_field group_rule creds x a =
     (case x of
        NoChange \<Rightarrow> a
      | Set m \<Rightarrow>
          let mode = validate_mode m in
          a\<lparr>i_mode := if group_rule \<and> cr_uid creds \<noteq> 0 \<and> mode AND 0x400 \<noteq> 0 \<and> \<not> is_member_of_group creds (i_gid a)
             then mode AND NOT 0x400 else mode\<rparr>)"

definition set_uid_field :: "credentials \<Rightarrow> u32 set_field \<Rightarrow> attrs \<Rightarrow> attrs" where
  "set_uid_field creds x a =
     (case x of
        NoChange \<Rightarrow> a
      | Set u \<Rightarrow> a\<lparr>i_uid := u, i_mode := if cr_uid creds \<noteq> 0 then i_mode a AND NOT 0x800 else i_mode a\<rparr>)"

definition set_gid_field :: "credentials \<Rightarrow> u32 set_field \<Rightarrow> attrs \<Rightarrow> attrs" where
  "set_gid_field creds x a =
     (case x of
        NoChange \<Rightarrow> a
      | Set g \<Rightarrow> a\<lparr>i_gid := g, i_mode := if cr_uid creds \<noteq> 0 then i_mode a AND NOT SETID_BITS else i_mode a\<rparr>)"

definition set_atime_field :: "u64 \<times> u32 \<Rightarrow> set_time \<Rightarrow> attrs \<Rightarrow> attrs" where
  "set_atime_field now x a =
     (case x of
        SetToClientTime t \<Rightarrow> a\<lparr>i_atime := t_seconds t, i_atime_nsec := t_nanoseconds t\<rparr>
      | SetToServerTime \<Rightarrow> a\<lparr>i_atime := fst now, i_atime_nsec := snd now\<rparr>
      | TimeNoChange \<Rightarrow> a)"

definition set_mtime_field :: "u64 \<times> u32 \<Rightarrow> set_time \<Rightarrow> attrs \<Rightarrow> attrs" where
  "set_mtime_field now x a =
     (case x of
        SetToClientTime t \<Rightarrow> a\<lparr>i_mtime := t_seconds t, i_mtime_nsec := t_nanoseconds t\<rparr>
      | SetToServerTime \<Rightarrow> a\<lparr>i_mtime := fst now, i_mtime_nsec := snd now\<rparr>
      | TimeNoChange \<Rightarrow> a)"

definition attribute_changed :: "bool \<Rightarrow> set_attributes \<Rightarrow> bool" where
  "attribute_changed with_size sa \<longleftrightarrow>
     is_set (sa_mode sa) \<or> is_set (sa_uid sa) \<or> is_set (sa_gid sa) \<or> with_size \<and> is_set (sa_size sa)
     \<or> sa_atime sa \<noteq> TimeNoChange \<or> sa_mtime sa \<noteq> TimeNoChange"

text \<open>The clock is read for the size, the two times and the change time, in this order. The group
  rule for the set-group-id bit is only there for files and directories.\<close>

definition set_attrs :: "op_env \<Rightarrow> bool \<Rightarrow> bool \<Rightarrow> credentials \<Rightarrow> set_attributes \<Rightarrow> attrs \<Rightarrow> attrs" where
  "set_attrs env group_rule with_size creds sa a =
     (let a = set_mode_field group_rule creds (sa_mode sa) a;
          a = set_uid_field creds (sa_uid sa) a;
          a = set_gid_field creds (sa_gid sa) a;
          a = set_atime_field (oe_clock env 1) (sa_atime sa) a;
          a = set_mtime_field (oe_clock env 2) (sa_mtime sa) a
      in if attribute_changed with_size sa
         then a\<lparr>i_ctime := fst (oe_clock env 3), i_ctime_nsec := snd (oe_clock env 3)\<rparr> else a)"

definition set_size_field :: "u64 \<times> u32 \<Rightarrow> u64 set_field \<Rightarrow> file_inode \<Rightarrow> file_inode" where
  "set_size_field now x f =
     (case x of
        NoChange \<Rightarrow> f
      | Set n \<Rightarrow> if n \<noteq> f_size f then f\<lparr>f_size := n, f_attrs := touch_file now (f_attrs f)\<rparr> else f)"

definition setattr_inode :: "op_env \<Rightarrow> credentials \<Rightarrow> set_attributes \<Rightarrow> inode \<Rightarrow> inode" where
  "setattr_inode env creds sa i =
     (case i of
        File f \<Rightarrow> map_inode_attrs (set_attrs env True True creds sa) (File (set_size_field (oe_clock env 0) (sa_size sa) f))
      | Directory d \<Rightarrow> map_inode_attrs (set_attrs env True False creds sa) i
      | _ \<Rightarrow> map_inode_attrs (set_attrs env False False creds sa) i)"

definition size_change :: "set_attributes \<Rightarrow> inode \<Rightarrow> (u64 \<times> u64) option" where
  "size_change sa i =
     (case (i, sa_size sa) of
        (File f, Set n) \<Rightarrow> if n \<noteq> f_size f then Some (f_size f, n) else None
      | _ \<Rightarrow> None)"

section \<open>The operations\<close>

definition save_attributes :: "io_env \<Rightarrow> op_id \<Rightarrow> inode_id \<Rightarrow> inode \<Rightarrow> file_attributes vm" where
  "save_attributes env op ino i =
     sbind (
       sbind (slift (new_transaction (io_op env))) (\<lambda>t.
       sbind (save_inode_entry env ino i t) (\<lambda>t.
       sret (set_dedup_result op (DrSetattr (file_attributes_of i ino)) t)))) (\<lambda>t.
     sbind (v_commit env t NoSettlement []) (\<lambda>_.
     sbind (v_bump [TotalOperations]) (\<lambda>_.
     sret (file_attributes_of i ino))))"

definition resize_settlement :: "reservation option \<Rightarrow> u64 \<Rightarrow> u64 \<Rightarrow> commit_settlement" where
  "resize_settlement rsv old_size new_size =
     SettleQuota (case rsv of Some r \<Rightarrow> Growth r | None \<Rightarrow> Shrink (old_size - new_size))"

definition resize_file :: "io_env \<Rightarrow> op_id \<Rightarrow> inode_id \<Rightarrow> inode \<Rightarrow> u64 \<Rightarrow> u64 \<Rightarrow> file_attributes vm" where
  "resize_file env op ino i old_size new_size =
     sbind (reserve_growth old_size new_size) (\<lambda>quota.
     sbind (releasing quota (
       sbind (slift (new_transaction (io_op env))) (\<lambda>t.
       sbind (on_data (\<lambda>m. extent_truncate (io_x env) m ino old_size new_size t)) (\<lambda>t.
       sbind (save_inode_entry env ino i t) (\<lambda>t.
       sret (set_dedup_result op (DrSetattr (file_attributes_of i ino)) t)))))) (\<lambda>t.
     sbind (v_commit env t (resize_settlement quota old_size new_size) []) (\<lambda>_.
     sbind (v_bump [WriteOperations, TotalOperations]) (\<lambda>_.
     sret (file_attributes_of i ino)))))"

definition setattr_idempotent_inner ::
  "io_env \<Rightarrow> credentials \<Rightarrow> inode_id \<Rightarrow> set_attributes \<Rightarrow> op_id \<Rightarrow> size_authorization \<Rightarrow> file_attributes vm" where
  "setattr_idempotent_inner env creds ino sa op auth =
     v_unless_replayed_pre env op into_setattr (
     sbind (slift (fence_metadata (io_op env))) (\<lambda>_.
     v_unless_replayed op into_setattr (
     sbind (v_inode_get env ino) (\<lambda>i.
     sbind (slift (setattr_guards i creds sa auth)) (\<lambda>_.
     let i' = setattr_inode (io_op env) creds sa i in
     case size_change sa i of
       Some (old_size, new_size) \<Rightarrow> resize_file env op ino i' old_size new_size
     | None \<Rightarrow> save_attributes env op ino i')))))"

definition setattr_idempotent ::
  "io_env \<Rightarrow> credentials \<Rightarrow> inode_id \<Rightarrow> set_attributes \<Rightarrow> op_id \<Rightarrow> file_attributes vm" where
  "setattr_idempotent env creds ino sa op = setattr_idempotent_inner env creds ino sa op CurrentMode"

definition setattr_opened_idempotent ::
  "io_env \<Rightarrow> credentials \<Rightarrow> inode_id \<Rightarrow> set_attributes \<Rightarrow> op_id \<Rightarrow> file_attributes vm" where
  "setattr_opened_idempotent env creds ino sa op = setattr_idempotent_inner env creds ino sa op OpenedWritableFid"

definition setattr :: "io_env \<Rightarrow> credentials \<Rightarrow> inode_id \<Rightarrow> set_attributes \<Rightarrow> file_attributes vm" where
  "setattr env creds ino sa = setattr_idempotent env creds ino sa no_op_id"

definition atime_file :: "timestamp \<Rightarrow> file_inode \<Rightarrow> bool \<times> file_inode" where
  "atime_file t f =
     (let a = f_attrs f;
          newer = (i_atime a < t_seconds t \<or> i_atime a = t_seconds t \<and> i_atime_nsec a < t_nanoseconds t)
      in (newer, if newer then f\<lparr>f_attrs := a\<lparr>i_atime := t_seconds t, i_atime_nsec := t_nanoseconds t\<rparr>\<rparr> else f))"

definition record_access_time_idempotent ::
  "io_env \<Rightarrow> inode_id \<Rightarrow> timestamp \<Rightarrow> op_id \<Rightarrow> file_attributes vm" where
  "record_access_time_idempotent env ino t op =
     v_unless_replayed_pre env op into_setattr (
     v_unless_replayed op into_setattr (
     sbind (v_inode_get env ino) (\<lambda>i.
     case i of
       File f \<Rightarrow>
         let (changed, f) = atime_file t f; attrs = file_attributes_of (File f) ino in
         sbind (
           sbind (slift (new_transaction (io_op env))) (\<lambda>t.
           sbind (if changed then save_inode_entry env ino (File f) t else sret t) (\<lambda>t.
           sret (set_dedup_result op (DrSetattr attrs) t)))) (\<lambda>t.
         sbind (v_commit env t NoSettlement []) (\<lambda>_.
         sbind (v_bump [TotalOperations]) (\<lambda>_.
         sret attrs)))
     | _ \<Rightarrow> sfail InvalidArgument)))"

section \<open>Outcome\<close>

definition resized :: "set_attributes \<Rightarrow> inode_id \<Rightarrow> inode \<Rightarrow> contents \<Rightarrow> contents" where
  "resized sa ino i F =
     (case size_change sa i of None \<Rightarrow> F | Some (_, n) \<Rightarrow> F(ino := cut_off (F ino) (unat n)))"

definition setattr_done ::
  "io_env \<Rightarrow> credentials \<Rightarrow> inode_id \<Rightarrow> set_attributes \<Rightarrow> op_id \<Rightarrow> size_authorization \<Rightarrow> volume \<Rightarrow> file_attributes \<Rightarrow>
   volume \<Rightarrow> bool" where
  "setattr_done env creds ino sa op auth v y v' \<longleftrightarrow>
     (\<exists>i. m_inodes (v_meta v) ino = Some i \<and> setattr_guards i creds sa auth = Inr ()
        \<and> y = file_attributes_of (setattr_inode (io_op env) creds sa i) ino
        \<and> resaved env op (DrSetattr y) ino (setattr_inode (io_op env) creds sa i) v (v_fs v')
        \<and> data_to env True (resized sa ino i) v v')"

lemma set_attrs_link [simp]:
  "i_nlink (set_attrs env g w creds sa a) = i_nlink a" "i_name (set_attrs env g w creds sa a) = i_name a"
  by (simp_all add: set_attrs_def set_mode_field_def set_uid_field_def set_gid_field_def set_atime_field_def
      set_mtime_field_def Let_def split: set_field.split set_time.split)

lemma setattr_inode_skel: "skel_of (setattr_inode env creds sa i) = skel_of i"
  by (cases i) (simp_all add: setattr_inode_def set_size_field_def touch_file_def inode_nlink_def inode_name_def
      split: set_field.split)

lemma setattr_inode_size:
  assumes "setattr_inode env creds sa i = File f'"
  obtains f where "i = File f" "f_size f' = (case size_change sa i of None \<Rightarrow> f_size f | Some (_, n) \<Rightarrow> n)"
  using assms by (cases i) (auto simp: setattr_inode_def set_size_field_def size_change_def split: set_field.split)

lemma eof_clean_cut: "eof_clean (cut_off f (unat n)) n"
  by (simp add: eof_clean_def cut_off_def)

lemma resized_clean:
  assumes "vol_inv env F v" "m_inodes (v_meta v) ino = Some i" "setattr_inode e creds sa i = File f'"
  shows "eof_clean (resized sa ino i F ino) (f_size f')"
proof -
  obtain f where f: "i = File f" "f_size f' = (case size_change sa i of None \<Rightarrow> f_size f | Some (_, n) \<Rightarrow> n)"
    using setattr_inode_size [OF assms(3)] .
  show ?thesis
    using vol_invD(2) [OF assms(1)] assms(2) eof_clean_cut
    unfolding resized_def f(2) by (auto simp: f(1) split: option.split)
qed

lemma save_attributes_result:
  assumes inv: "fs_inv (v_fs v)" and new: "dedup_get (st_ledger (v_fs v)) op = None"
    and i: "m_inodes (v_meta v) ino = Some i" "setattr_guards i creds sa auth = Inr ()" "size_change sa i = None"
  shows "holds (save_attributes env op ino (setattr_inode (io_op env) creds sa i))
    (vol_result env op into_setattr True (setattr_done env creds ino sa op auth v) v) v"
proof -
  let ?i = "setattr_inode (io_op env) creds sa i"
  have g: "resized sa ino i = (\<lambda>F. F)"
    by (simp add: resized_def i(3) fun_eq_iff)
  have stage: "holds (sret transaction_new) (\<lambda>r v2. staged_data env True (\<lambda>F. F) v (case r of Inl e \<Rightarrow> Inl e | Inr t \<Rightarrow> Inr (t, [])) v2) v"
    using staged_none by simp
  note S = staged_saveI [where stage = sret and g = "\<lambda>F. F" and i' = ?i and saved = True and q = None
      and res = "DrSetattr (file_attributes_of ?i ino)", OF inv i(1) setattr_inode_skel _ new still_refl refl stage]
  show ?thesis
    unfolding save_attributes_def
    by (rule S [unfolded if_True releasing_None sbind_sret])
      (use i resized_clean [OF _ i(1), of env _ "io_op env" creds sa] in \<open>auto simp: setattr_done_def g\<close>)
qed

lemma resize_file_result:
  assumes inv: "fs_inv (v_fs v)" and new: "dedup_get (st_ledger (v_fs v)) op = None"
    and i: "m_inodes (v_meta v) ino = Some i" "setattr_guards i creds sa auth = Inr ()" "size_change sa i = Some (old, n)"
  shows "holds (resize_file env op ino (setattr_inode (io_op env) creds sa i) old n)
    (vol_result env op into_setattr True (setattr_done env creds ino sa op auth v) v) v" (is "holds _ ?Q v")
  unfolding resize_file_def
proof (rule holds_bindI [OF reserve_growth_still])
  show "?Q (Inl e) v'" if "still v v' \<and> v_x v' = v_x v" for e v'
    using that data_to_cong [of v' v] still_rows by (intro vol_result_still) auto
next
  fix q v1
  assume v1: "still v v1 \<and> v_x v1 = v_x v"
  note v1' = conjunct1 [OF v1] conjunct2 [OF v1]
  let ?i = "setattr_inode (io_op env) creds sa i"
  let ?stage = "\<lambda>t. on_data (\<lambda>m. extent_truncate (io_x env) m ino old n t)"
  obtain f where f: "i = File f" "old = f_size f"
    using i(3) by (auto simp: size_change_def split: inode.splits set_field.splits if_splits)
  have g: "resized sa ino i = (\<lambda>F. F(ino := cut_off (F ino) (unat n)))"
    by (simp add: resized_def i(3) fun_eq_iff)
  note S = staged_saveI [where stage = ?stage and g = "\<lambda>F. F(ino := cut_off (F ino) (unat n))" and i' = ?i and saved = True
      and res = "DrSetattr (file_attributes_of ?i ino)",
      OF inv i(1) setattr_inode_skel _ new v1' truncate_staged [OF i(1) [unfolded f(1)] v1', folded f(2)], unfolded if_True]
  show "holds (sbind (releasing q (
       sbind (slift (new_transaction (io_op env))) (\<lambda>t.
       sbind (on_data (\<lambda>m. extent_truncate (io_x env) m ino old n t)) (\<lambda>t.
       sbind (save_inode_entry env ino ?i t) (\<lambda>t.
       sret (set_dedup_result op (DrSetattr (file_attributes_of ?i ino)) t)))))) (\<lambda>t.
     sbind (v_commit env t (resize_settlement q old n) []) (\<lambda>_.
     sbind (v_bump [WriteOperations, TotalOperations]) (\<lambda>_.
     sret (file_attributes_of ?i ino))))) ?Q v1"
    by (rule S) (use i resized_clean [OF _ i(1), of env _ "io_op env" creds sa] in \<open>auto simp: setattr_done_def g\<close>)
qed

lemma setattr_result:
  assumes inv: "fs_inv (v_fs v)"
  shows "holds (setattr_idempotent_inner env creds ino sa op auth)
    (vol_result env op into_setattr True (setattr_done env creds ino sa op auth v) v) v"
  unfolding setattr_idempotent_inner_def v_inode_get_def Let_def
proof (rule v_replayed_preI, rule holds_liftI, simp, rule v_replayedI, rule holds_readI, simp, rule holds_liftI, simp, goal_cases)
  case (1 u i w)
  then show ?case
    using save_attributes_result [OF inv 1(2) inode_get_Inr [OF 1(3)]] resize_file_result [OF inv 1(2) inode_get_Inr [OF 1(3)]]
    by (auto split: option.split)
qed

interpretation setattr_op: vol_operation "\<lambda>env. setattr_idempotent_inner env creds ino sa op auth" op into_setattr
  True "\<lambda>env. setattr_done env creds ino sa op auth" True
proof
  show "effect_ok (io_op env) op into_setattr (v_fs v) y (v_fs v')"
    if "setattr_done env creds ino sa op auth v y v'" for env v y v'
    using that by (auto simp: setattr_done_def intro: resaved_effect)
qed (auto simp: setattr_done_def intro: setattr_result)

text \<open>The access time of a file never goes back, and nothing else changes.\<close>

definition atime_done :: "io_env \<Rightarrow> inode_id \<Rightarrow> timestamp \<Rightarrow> op_id \<Rightarrow> volume \<Rightarrow> file_attributes \<Rightarrow> volume \<Rightarrow> bool" where
  "atime_done env ino t op v y v' \<longleftrightarrow>
     (\<exists>f. m_inodes (v_meta v) ino = Some (File f) \<and> y = file_attributes_of (File (snd (atime_file t f))) ino
        \<and> resaved env op (DrSetattr y) ino (File (snd (atime_file t f))) v (v_fs v') \<and> data_to env True id v v')"

lemma atime_file_ok:
  "f_size (snd (atime_file t f)) = f_size f" "skel_of (File (snd (atime_file t f))) = skel_of (File f)"
  "\<not> fst (atime_file t f) \<Longrightarrow> snd (atime_file t f) = f"
  by (auto simp: atime_file_def Let_def inode_nlink_def inode_name_def)

lemma record_access_time_result:
  assumes inv: "fs_inv (v_fs v)"
  shows "holds (record_access_time_idempotent env ino t op) (vol_result env op into_setattr True (atime_done env ino t op v) v) v"
  unfolding record_access_time_idempotent_def v_inode_get_def
proof (rule v_replayed_preI, rule v_replayedI, rule holds_readI, simp, goal_cases)
  case (1 i)
  note i = inode_get_Inr [OF 1(2)]
  show ?case
  proof (cases i)
    case (File f)
    obtain ch f' where a: "atime_file t f = (ch, f')"
      by fastforce
    have stage: "holds (sret transaction_new) (\<lambda>r v2. staged_data env True (\<lambda>F. F) v (case r of Inl e \<Rightarrow> Inl e | Inr t \<Rightarrow> Inr (t, [])) v2) v"
      using staged_none by simp
    have skel: "skel_of (File f') = skel_of (File f)"
      using atime_file_ok(2) [of t f] by (simp add: a)
    note S = staged_saveI [where stage = sret and g = "\<lambda>F. F" and i' = "File f'" and saved = ch and q = None
        and res = "DrSetattr (file_attributes_of (File f') ino)", OF inv i [unfolded File] skel _ 1(1) still_refl refl stage]
    show ?thesis
      unfolding File inode.case a Let_def prod.case
      by (rule S [unfolded releasing_None sbind_sret])
        (use i File atime_file_ok [of t f] in \<open>auto simp: a atime_done_def id_def intro: vol_invD(2)\<close>)
  qed simp_all
qed

interpretation atime_op: vol_operation "\<lambda>env. record_access_time_idempotent env ino t op" op into_setattr
  True "\<lambda>env. atime_done env ino t op" True
proof
  show "effect_ok (io_op env) op into_setattr (v_fs v) y (v_fs v')" if "atime_done env ino t op v y v'" for env v y v'
    using that by (auto simp: atime_done_def intro: resaved_effect)
qed (auto simp: atime_done_def intro: record_access_time_result)

section \<open>Properties\<close>

lemma guards_Inr:
  assumes "setattr_guards i creds sa auth = Inr ()"
  shows "is_set (sa_mode sa) \<Longrightarrow> cr_uid creds = 0 \<or> cr_uid creds = inode_uid i"
    and "sa_uid sa = Set u \<Longrightarrow> cr_uid creds = 0 \<or> cr_uid creds = inode_uid i \<and> u = inode_uid i"
    and "sa_gid sa = Set g \<Longrightarrow> cr_uid creds = 0 \<or> cr_uid creds = inode_uid i \<and> is_member_of_group creds g"
    and "sa_atime sa = SetToClientTime t \<or> sa_mtime sa = SetToClientTime t \<Longrightarrow> cr_uid creds = 0 \<or> cr_uid creds = inode_uid i"
    and "is_set (sa_size sa) \<Longrightarrow> auth = CurrentMode \<Longrightarrow> check_access i creds Write = Inr ()"
  using assms
  by (auto simp: setattr_guards_def owner_change_ok_def time_change_ok_def try_bind_Inr check_ownership_def can_set_times_def
      is_set_def check_def split: if_splits set_field.splits set_time.splits)

text \<open>
  C1. Changing attributes obeys the permission rules and changes nothing else. A call that fails, or
  that answers from its record, leaves rows and contents as they are. An applied call was made by
  the owner or root if it changes the mode or sets explicit times; by root if it changes the owner,
  unless the owner names themselves; by root or by an owner who belongs to the new group; and by a
  caller with write permission if it changes the size by path. A new size cuts the contents off there,
  and bytes between an old and a new end read as zero; every other file, and the namespace, stay.
\<close>

theorem setattr_obeys_permissions:
  assumes "fs_inv (v_fs v)" "vol_inv env F v" "io_ready env v"
    and "setattr_idempotent_inner env creds ino sa op auth v = (r, v')"
  shows "v_meta v' = v_meta v \<and> vol_inv env F v'
      \<and> ((\<exists>e. r = Inl e) \<or> (\<exists>y. r = Inr y \<and> replayed (io_op env) op into_setattr (v_fs v) y))
    \<or> (\<exists>i. m_inodes (v_meta v) ino = Some i
        \<and> m_inodes (v_meta v') = (m_inodes (v_meta v))(ino \<mapsto> setattr_inode (io_op env) creds sa i)
        \<and> ns_of (v_meta v') = ns_of (v_meta v)
        \<and> (is_set (sa_mode sa) \<longrightarrow> cr_uid creds = 0 \<or> cr_uid creds = inode_uid i)
        \<and> (\<forall>u. sa_uid sa = Set u \<longrightarrow> cr_uid creds = 0 \<or> cr_uid creds = inode_uid i \<and> u = inode_uid i)
        \<and> (\<forall>g. sa_gid sa = Set g \<longrightarrow> cr_uid creds = 0 \<or> cr_uid creds = inode_uid i \<and> is_member_of_group creds g)
        \<and> (\<forall>t. sa_atime sa = SetToClientTime t \<or> sa_mtime sa = SetToClientTime t \<longrightarrow>
             cr_uid creds = 0 \<or> cr_uid creds = inode_uid i)
        \<and> (is_set (sa_size sa) \<and> auth = CurrentMode \<longrightarrow> check_access i creds Write = Inr ())
        \<and> vol_inv env (case size_change sa i of None \<Rightarrow> F | Some (_, n) \<Rightarrow> F(ino := cut_off (F ino) (unat n))) v'
        \<and> (r = Inr (file_attributes_of (setattr_inode (io_op env) creds sa i) ino)
           \<or> we_sync_writes (oe_worker (io_op env)) \<and> (\<exists>e. r = Inl e)))"
proof -
  consider (same) "v_meta v' = v_meta v" "data_to env True id v v'"
      "(\<exists>e. r = Inl e) \<or> (\<exists>y. r = Inr y \<and> replayed (io_op env) op into_setattr (v_fs v) y)"
    | (applied) y where "setattr_done env creds ino sa op auth v y v'"
      "r = Inr y \<or> we_sync_writes (oe_worker (io_op env)) \<and> (\<exists>e. r = Inl e)"
    using setattr_op.run_result [OF _ assms(1,4)] unfolding vol_result_def by blast
  then show ?thesis
  proof cases
    case same
    then show ?thesis
      using assms(2,3) by (auto simp: data_to_def)
  next
    case (applied y)
    then obtain i where i: "m_inodes (v_meta v) ino = Some i" "setattr_guards i creds sa auth = Inr ()"
      "y = file_attributes_of (setattr_inode (io_op env) creds sa i) ino"
      "resaved env op (DrSetattr y) ino (setattr_inode (io_op env) creds sa i) v (v_fs v')"
      and dat: "data_to env True (resized sa ino i) v v'"
      unfolding setattr_done_def by blast
    have "vol_inv env (case size_change sa i of None \<Rightarrow> F | Some (_, n) \<Rightarrow> F(ino := cut_off (F ino) (unat n))) v'"
      using dat assms(2,3) by (simp add: data_to_def resized_def)
    moreover have "m_inodes (v_meta v') = (m_inodes (v_meta v))(ino \<mapsto> setattr_inode (io_op env) creds sa i)"
      "ns_of (v_meta v') = ns_of (v_meta v)"
      using i(4) by (simp_all add: resaved_def ns_step_def)
    ultimately show ?thesis
      using i(1) guards_Inr [OF i(2)] applied(2) [unfolded i(3)] by blast
  qed
qed

definition example_truncate :: set_attributes where
  "example_truncate = default_set_attributes\<lparr>sa_size := Set 100\<rparr>"

theorem setattr_obeys_permissions_witness:
  "fs_inv (v_fs example_volume) \<and> vol_inv example_io no_contents example_volume
   \<and> (let (r, v') = setattr example_io (credentials_from_auth_context default_auth_context) 3 example_truncate example_volume in
      v_meta v' = v_meta example_volume \<and> vol_inv example_io no_contents v'
      \<or> (\<exists>i. m_inodes (v_meta example_volume) 3 = Some i \<and> ns_of (v_meta v') = ns_of (v_meta example_volume)))"
proof -
  obtain r v' where run: "setattr_idempotent_inner example_io (credentials_from_auth_context default_auth_context) 3 example_truncate
      no_op_id CurrentMode example_volume = (r, v')"
    by fastforce
  show ?thesis
    using setattr_obeys_permissions [OF example_volume_fs example_volume_inv example_ready run]
      example_volume_fs example_volume_inv unfolding setattr_def setattr_idempotent_def run by auto
qed

end
