(* ===== verification/Fs_Step.thy ===== *)
theory Fs_Step
  imports Op_Rename Handles Op_Setattr
begin

text \<open>
  The file system as a transition system: any sequence of calls to the operations of \<open>fs/ops\<close> that
  change it, those on file contents with any extent store beside the rows,
  opening and closing of handles, and reclaim by the drainer (\<open>fs/handle.rs\<close>), each with its own
  environment. The operations commit one after the other, as the commit worker makes them; what a
  call reads before it takes its locks is unconstrained.
\<close>

section \<open>Steps\<close>

inductive fs_step :: "op_env \<Rightarrow> fs \<Rightarrow> fs_error option \<Rightarrow> fs \<Rightarrow> bool" for env where
  create: "create_idempotent env creds d n attr op s = (r, t) \<Longrightarrow> fs_step env s (error_of r) t"
| mkdir: "mkdir_idempotent env creds d n attr op s = (r, t) \<Longrightarrow> fs_step env s (error_of r) t"
| symlink: "symlink_idempotent env creds d n tgt attr op s = (r, t) \<Longrightarrow> fs_step env s (error_of r) t"
| mknod: "mknod_idempotent env creds d n ftype attr rdev op s = (r, t) \<Longrightarrow> fs_step env s (error_of r) t"
| link: "link_idempotent env auth x d n op s = (r, t) \<Longrightarrow> fs_step env s (error_of r) t"
| remove: "remove_idempotent_inner env auth d n op expdir expected s = (r, t) \<Longrightarrow> fs_step env s (error_of r) t"
| rename: "rename_with_options env hash auth d1 n1 d2 n2 op replace verification s = Some (r, t) \<Longrightarrow>
    rename_admits d2 op verification env s \<Longrightarrow> fs_step env s (error_of r) t"
| write_data: "vol_run (\<lambda>env. write_idempotent_inner env auth ino offset d op chk) env s r t \<Longrightarrow> length d < 2 ^ 64 \<Longrightarrow>
    fs_step env s (error_of r) t"
| trim: "vol_run (\<lambda>env. trim env auth ino offset len) env s r t \<Longrightarrow> fs_step env s (error_of r) t"
| fallocate: "vol_run (\<lambda>env. fallocate_idempotent_inner env auth ino offset len mode op) env s r t \<Longrightarrow>
    fs_step env s (error_of r) t"
| setattr: "vol_run (\<lambda>env. setattr_idempotent_inner env creds ino sa op size_auth) env s r t \<Longrightarrow> fs_step env s (error_of r) t"
| access_time: "vol_run (\<lambda>env. record_access_time_idempotent env ino tm op) env s r t \<Longrightarrow> fs_step env s (error_of r) t"
| open_handle: "fs_step env s None (open_handle_inc x s)"
| close_handle: "fs_step env s None (open_handle_drop x s)"
| reclaim: "faults_ok env \<Longrightarrow> fs_step env s None (reclaim_if_unreferenced env x s)"
| drainer: "faults_ok env \<Longrightarrow> fs_step env s None (drainer_step env s)"

text \<open>The states that calls reach from a new file system, while the 64-bit counters have room.\<close>

inductive fs_reach :: "(op_env \<Rightarrow> bool) \<Rightarrow> fs \<Rightarrow> bool" for P where
  init: "fs_reach P (fs_new now uid gid max_bytes)"
| step: "fs_reach P s \<Longrightarrow> roomy s \<Longrightarrow> P env \<Longrightarrow> fs_step env s e t \<Longrightarrow> fs_reach P t"

section \<open>What every step keeps\<close>

lemma reclaim_if_unreferenced_cases:
  "reclaim_if_unreferenced env x s = s
   \<or> open_handle_count s x = 0 \<and> (\<exists>r. reclaim_orphan_inode env x s = (r, reclaim_if_unreferenced env x s))"
  unfolding reclaim_if_unreferenced_def by (simp add: word_gt_0) (metis prod.collapse)

text \<open>Handles and queued reclaims are no rows.\<close>

lemma fs_inv_handles [simp]:
  "fs_inv (open_handle_inc x s) = fs_inv s" "fs_inv (open_handle_drop x s) = fs_inv s"
  "fs_inv (s\<lparr>st_reclaim := q\<rparr>) = fs_inv s"
  by (simp_all add: fs_inv_def open_handle_inc_def open_handle_drop_def dec_open_handle_def Let_def split: option.split)

lemma st_meta_handles [simp]:
  "st_meta (open_handle_inc x s) = st_meta s" "st_meta (open_handle_drop x s) = st_meta s"
  "st_ledger (open_handle_inc x s) = st_ledger s" "st_ledger (open_handle_drop x s) = st_ledger s"
  by (simp_all add: open_handle_inc_def open_handle_drop_def dec_open_handle_def Let_def split: option.split)

lemma roomy_reclaim [simp]: "roomy (s\<lparr>st_reclaim := q\<rparr>) = roomy s"
  by (simp add: roomy_def)

lemma open_handle_reclaim [simp]: "open_handle_count (s\<lparr>st_reclaim := q\<rparr>) x = open_handle_count s x"
  by (simp add: open_handle_count_def)

text \<open>A step runs one operation of the contract, or changes no row.\<close>

lemma reclaim_keeps:
  assumes "faults_ok env" "fs_inv s" "roomy s"
  shows "step_keeps env s None (reclaim_if_unreferenced env x s)"
proof (cases "reclaim_if_unreferenced env x s = s")
  case False
  then obtain r where "open_handle_count s x = 0" "reclaim_orphan_inode env x s = (r, reclaim_if_unreferenced env x s)"
    using reclaim_if_unreferenced_cases [of env x s] by blast
  then show ?thesis
    using assms by (intro step_keeps_None [OF reclaim_op.keeps [OF assms(2,3)]]) simp_all
qed (simp add: step_keeps_rows assms)

lemma drainer_keeps:
  assumes "faults_ok env" "fs_inv s" "roomy s"
  shows "step_keeps env s None (drainer_step env s)"
proof (cases "st_reclaim s")
  case (Cons x rest)
  have "step_keeps env (s\<lparr>st_reclaim := rest\<rparr>) None (reclaim_if_unreferenced env x (s\<lparr>st_reclaim := rest\<rparr>))"
    by (rule reclaim_keeps) (simp_all add: assms)
  then show ?thesis
    by (simp add: step_keeps_def drainer_step_def Cons)
qed (simp add: drainer_step_def step_keeps_rows assms)

lemma fs_step_keeps:
  assumes "fs_step env s e t" "fs_inv s" "roomy s"
  shows "step_keeps env s e t"
  using assms(1)
proof cases
  case create
  then show ?thesis using create_op.keeps [OF assms(2,3)] by simp
next
  case mkdir
  then show ?thesis using mkdir_op.keeps [OF assms(2,3)] by simp
next
  case symlink
  then show ?thesis using symlink_op.keeps [OF assms(2,3)] by simp
next
  case mknod
  then show ?thesis using mknod_op.keeps [OF assms(2,3)] by simp
next
  case link
  then show ?thesis using link_op.keeps [OF assms(2,3)] by simp
next
  case remove
  then show ?thesis using remove_op.keeps [OF assms(2,3)] by simp
next
  case rename
  then show ?thesis using rename_op.keeps [OF assms(2,3)] by simp
next
  case write_data
  then show ?thesis using write_op.rows.keeps [OF assms(2,3)] by simp
next
  case trim
  then show ?thesis using trim_op.rows.keeps [OF assms(2,3)] by simp
next
  case fallocate
  then show ?thesis using fallocate_op.rows.keeps [OF assms(2,3)] by simp
next
  case setattr
  then show ?thesis using setattr_op.rows.keeps [OF assms(2,3)] by simp
next
  case access_time
  then show ?thesis using atime_op.rows.keeps [OF assms(2,3)] by simp
next
  case reclaim
  then show ?thesis using reclaim_keeps assms(2,3) by simp
next
  case drainer
  then show ?thesis using drainer_keeps assms(2,3) by simp
qed (simp_all add: step_keeps_rows assms(2))

lemma fs_reach_inv: "fs_reach P s \<Longrightarrow> fs_inv s"
  by (induct rule: fs_reach.induct) (simp add: fs_new_inv, rule step_keepsD(1) [OF fs_step_keeps])

lemma fs_reach_emb: "fs_reach P s \<Longrightarrow> (\<And>env. P env \<Longrightarrow> reads_entries env) \<Longrightarrow> emb_fresh (st_meta s)"
proof (induct rule: fs_reach.induct)
  case (step s env e t)
  then show ?case
    using step_keepsD(4) [OF fs_step_keeps [OF step(5) fs_reach_inv [OF step(1)] step(3)]] by blast
qed (rule fs_new_inv)

text \<open>One step from a new file system.\<close>

definition any_env :: "op_env \<Rightarrow> bool" where
  "any_env env = True"

lemma example_reach: "fs_reach P example_fs" "P example_env \<Longrightarrow> fs_reach P (snd example_create)"
proof -
  show init: "fs_reach P example_fs"
    unfolding example_fs_def by (rule fs_reach.init)
  have "fs_step example_env example_fs (error_of (fst example_create)) (snd example_create)"
    by (rule fs_step.create) (simp add: example_create_def)
  then show "fs_reach P (snd example_create)" if "P example_env"
    by (rule fs_reach.step [OF init roomy_example(2) that])
qed

end
