(* ===== verification/Spec2Isabelle.thy ===== *)
theory Spec2Isabelle
  imports Lock_Manager Repl_Types Fs_Step Op_Write
begin

text \<open>
  Verification of ZeroFS.
\<close>

section \<open>Properties of every reachable file system\<close>











end
